(* ===== verification/Prelude.thy ===== *)
theory Prelude
  imports Complex_Main "HOL-Library.AList"
begin

text \<open>
  Shared vocabulary of the development: Python dictionaries as insertion-ordered
  association lists, JSON-like values, the exceptions the runtime raises, and the
  state-and-exception functions in which stateful code is written.  The collections
  \<open>dict_simps\<close> and \<open>monad_simps\<close> gather the rewrite rules the component
  theories use.
\<close>

named_theorems dict_simps "rewrite rules for dictionaries"
named_theorems monad_simps "rewrite rules for state-and-exception functions"

section \<open>Dictionaries\<close>

text \<open>
  A Python \<open>dict\<close> keeps its keys in insertion order, an assignment to a present key
  keeps the key's place and an assignment to a new key appends.  That is
  \<open>AList.update\<close> on an association list with distinct keys.
\<close>

type_synonym ('k, 'v) dict = "('k \<times> 'v) list"

definition dget :: "('k, 'v) dict \<Rightarrow> 'k \<Rightarrow> 'v option" where
  "dget d k = map_of d k"

definition dset :: "('k, 'v) dict \<Rightarrow> 'k \<Rightarrow> 'v \<Rightarrow> ('k, 'v) dict" where
  "dset d k v = AList.update k v d"

definition dpop :: "('k, 'v) dict \<Rightarrow> 'k \<Rightarrow> ('k, 'v) dict" where
  "dpop d k = AList.delete k d"

definition dkeys :: "('k, 'v) dict \<Rightarrow> 'k list" where
  "dkeys d = map fst d"

definition dvals :: "('k, 'v) dict \<Rightarrow> 'v list" where
  "dvals d = map snd d"

definition dhas :: "('k, 'v) dict \<Rightarrow> 'k \<Rightarrow> bool" where
  "dhas d k = (dget d k \<noteq> None)"

definition dget_or :: "('k, 'v) dict \<Rightarrow> 'k \<Rightarrow> 'v \<Rightarrow> 'v" where
  "dget_or d k v = (case dget d k of None \<Rightarrow> v | Some w \<Rightarrow> w)"

definition dict_ok :: "('k, 'v) dict \<Rightarrow> bool" where
  "dict_ok d = distinct (dkeys d)"

text \<open>Dictionary equality ignores the order of the keys.\<close>

definition dict_le :: "('k, 'v) dict \<Rightarrow> ('k, 'v) dict \<Rightarrow> bool" where
  "dict_le d e = list_all (\<lambda>(k, _). dget d k = dget e k) d"

definition dict_eq :: "('k, 'v) dict \<Rightarrow> ('k, 'v) dict \<Rightarrow> bool" where
  "dict_eq d e = (dict_le d e \<and> dict_le e d)"

lemma dget_Nil [simp]: "dget [] k = None"
  by (simp add: dget_def)

lemma dget_Cons [dict_simps]: "dget ((k, v) # d) k' = (if k' = k then Some v else dget d k')"
  by (simp add: dget_def)

lemma dget_dset [simp]: "dget (dset d k v) k' = (if k' = k then Some v else dget d k')"
  by (simp add: dget_def dset_def update_conv')

lemma dget_dset_fun: "dget (dset d k v) = (dget d)(k \<mapsto> v)"
  by (rule ext) simp

lemma dget_dpop [simp]: "dget (dpop d k) k' = (if k' = k then None else dget d k')"
  by (simp add: dget_def dpop_def delete_conv')

lemma dhas_iff [dict_simps]: "dhas d k \<longleftrightarrow> k \<in> set (dkeys d)"
  by (simp add: dhas_def dget_def dkeys_def map_of_eq_None_iff)

lemma dget_None_iff: "dget d k = None \<longleftrightarrow> k \<notin> set (dkeys d)"
  by (simp add: dget_def dkeys_def map_of_eq_None_iff)

lemma dget_SomeD: "dget d k = Some v \<Longrightarrow> (k, v) \<in> set d"
  by (simp add: dget_def map_of_SomeD)

lemma dget_Some_key: "dget d k = Some v \<Longrightarrow> k \<in> set (dkeys d)"
  by (metis dget_None_iff option.distinct(1))

lemma dget_Some_nonempty: "dget d k = Some v \<Longrightarrow> d \<noteq> []"
  by auto

lemma dget_Some_iff: "dict_ok d \<Longrightarrow> dget d k = Some v \<longleftrightarrow> (k, v) \<in> set d"
  by (auto simp: dict_ok_def dkeys_def dget_def)

lemma set_dkeys_dset [simp]: "set (dkeys (dset d k v)) = insert k (set (dkeys d))"
  by (auto simp: dkeys_def dset_def dom_update)

lemma dkeys_dset_old: "k \<in> set (dkeys d) \<Longrightarrow> dkeys (dset d k v) = dkeys d"
  by (induction d) (auto simp: dkeys_def dset_def)

lemma dset_new: "k \<notin> set (dkeys d) \<Longrightarrow> dset d k v = d @ [(k, v)]"
  by (induction d) (auto simp: dkeys_def dset_def)

lemma set_dset_subset: "set (dset d k v) \<subseteq> insert (k, v) (set d)"
  by (induction d) (auto simp: dset_def)

lemma set_dpop_subset: "set (dpop d k) \<subseteq> set d"
  by (induction d) (auto simp: dpop_def)

lemma list_all_dset: "list_all P d \<Longrightarrow> P (k, v) \<Longrightarrow> list_all P (dset d k v)"
  using set_dset_subset [of d k v] by (auto simp: list_all_iff)

lemma set_dkeys_dpop [simp]: "set (dkeys (dpop d k)) = set (dkeys d) - {k}"
  by (simp add: dkeys_def dpop_def delete_keys [symmetric] del: set_map)
    (auto simp: delete_keys)

lemma dict_ok_Cons: "dict_ok ((k, v) # d) \<longleftrightarrow> dget d k = None \<and> dict_ok d"
  by (simp add: dget_None_iff) (simp add: dict_ok_def dkeys_def)

lemma dict_ok_Nil [simp]: "dict_ok []"
  by (simp add: dict_ok_def dkeys_def)

lemma dict_ok_dset [simp]: "dict_ok d \<Longrightarrow> dict_ok (dset d k v)"
  by (simp add: dict_ok_def dkeys_def dset_def distinct_update)

lemma dict_ok_dpop [simp]: "dict_ok d \<Longrightarrow> dict_ok (dpop d k)"
  by (simp add: dict_ok_def dkeys_def dpop_def distinct_delete)

lemma dget_or_dset [simp]: "dget_or (dset d k v) k' w = (if k' = k then v else dget_or d k' w)"
  by (simp add: dget_or_def)

lemma dget_or_Nil [simp]: "dget_or [] k v = v"
  by (simp add: dget_or_def)

lemma dget_filter_key: "dget (filter (\<lambda>(k, _). P k) d) k = (if P k then dget d k else None)"
  by (induction d) (auto simp: dict_simps)

lemma dict_le_iff: "dict_le d e \<longleftrightarrow> (\<forall>k \<in> set (dkeys d). dget d k = dget e k)"
  by (auto simp: dict_le_def list_all_iff dkeys_def)

lemma dict_eq_iff: "dict_eq d e \<longleftrightarrow> dget d = dget e"
proof
  assume eq: "dict_eq d e"
  show "dget d = dget e"
  proof
    fix k
    show "dget d k = dget e k"
      using eq dget_None_iff [of d k] dget_None_iff [of e k]
      by (auto simp: dict_eq_def dict_le_iff)
  qed
qed (simp add: dict_eq_def dict_le_iff)

section \<open>Python and JSON values\<close>

text \<open>
  The values that travel through \<open>metadata\<close>, payloads and wire messages.  Keys of
  a JSON object are strings.  Floats are rational numbers (neither NaN nor an infinity
  occurs in the code modelled here).
\<close>

datatype pyval =
    PNone
  | PBool bool
  | PInt int
  | PFloat rat
  | PStr string
  | PList "pyval list"
  | PDict "(string \<times> pyval) list"

text \<open>Python's truth value of such a value.\<close>

fun truthy :: "pyval \<Rightarrow> bool" where
  "truthy PNone = False"
| "truthy (PBool b) = b"
| "truthy (PInt i) = (i \<noteq> 0)"
| "truthy (PFloat r) = (r \<noteq> 0)"
| "truthy (PStr s) = (s \<noteq> [])"
| "truthy (PList xs) = (xs \<noteq> [])"
| "truthy (PDict d) = (d \<noteq> [])"

text \<open>\<open>int\<close> on a float.\<close>

definition py_trunc :: "rat \<Rightarrow> int" where
  "py_trunc r = (if 0 \<le> r then \<lfloor>r\<rfloor> else - \<lfloor>- r\<rfloor>)"

section \<open>Optional values\<close>

definition opt_or :: "'a option \<Rightarrow> 'a \<Rightarrow> 'a" where
  "opt_or x d = (case x of None \<Rightarrow> d | Some v \<Rightarrow> v)"

lemma opt_or_simps [simp]: "opt_or None d = d" "opt_or (Some v) d = v"
  by (simp_all add: opt_or_def)


text \<open>Points of time, in the resolution of the clock that is read.\<close>

type_synonym time = nat

section \<open>Knowledge objects\<close>

text \<open>
  The fields the runtime reads of a live \<open>cks.KnowledgeObject\<close>: its identity, its
  structure, its leaf hash in hexadecimal and, for a \<open>CanonicalRelation\<close>, the
  participants and the relation type.
\<close>

record kident =
  oi_id :: string
  oi_type :: string
  oi_name :: string

record kobj =
  ko_identity :: kident
  ko_structure :: "(string, pyval) dict"
  ko_hash :: string
  ko_relation :: "(string list \<times> string) option"

abbreviation obj_id :: "kobj \<Rightarrow> string" where
  "obj_id k \<equiv> oi_id (ko_identity k)"

text \<open>The part of a knowledge structure the runtime reads: its objects, in order.\<close>

record kstruct =
  ks_objects :: "kobj list"

text \<open>\<open>RuntimeMergeConflict\<close> (\<open>core_api/merge_conflict.py\<close>).\<close>

record merge_conflict =
  mc_object_id :: string
  mc_base :: "kobj option"
  mc_branch_a :: "kobj option"
  mc_branch_b :: "kobj option"

section \<open>Exceptions\<close>

text \<open>
  The exception classes the runtime raises or lets pass, by class.  Messages are left
  out; an exception whose data is read later carries it.  \<open>HashMismatch\<close> is the
  \<open>ValueError\<close> with the text "does not match its recorded hash", which one caller
  recognises by that text.
\<close>

datatype exn =
    TypeError
  | ValueError
  | KeyError
  | AttributeError
  | RuntimeError
  | OtherException
  | DatabaseError
  | DuplicateColumn
  | UniqueViolation
  | OperationalError string
  | ObjectIdentityMismatch
  | ConcurrentModificationError
  | RuntimeMergeConflictError "merge_conflict list"
  | NotImplementedError
  | LookupError
  | HashMismatch
  | UnsafeURLError
  | GossipTransportError
  | PeerDiscoveryError
  | TimeoutError

text \<open>The subclass tests behind \<open>except\<close> clauses and \<open>isinstance\<close>.\<close>

fun is_value_error :: "exn \<Rightarrow> bool" where
  "is_value_error ValueError = True"
| "is_value_error HashMismatch = True"
| "is_value_error ObjectIdentityMismatch = True"
| "is_value_error (RuntimeMergeConflictError _) = True"
| "is_value_error UnsafeURLError = True"
| "is_value_error _ = False"

fun is_runtime_error :: "exn \<Rightarrow> bool" where
  "is_runtime_error RuntimeError = True"
| "is_runtime_error ConcurrentModificationError = True"
| "is_runtime_error NotImplementedError = True"
| "is_runtime_error _ = False"

section \<open>State-and-exception functions\<close>

text \<open>
  Stateful code that may raise: the outcome (\<open>Inl\<close> the exception, \<open>Inr\<close> the
  result) and the state afterwards.  An exception keeps the state reached so far, as
  Python does.
\<close>

type_synonym ('s, 'a) sx = "'s \<Rightarrow> (exn + 'a) \<times> 's"

definition retM :: "'a \<Rightarrow> ('s, 'a) sx" where
  "retM x s = (Inr x, s)"

definition raiseM :: "exn \<Rightarrow> ('s, 'a) sx" where
  "raiseM e s = (Inl e, s)"

definition bindM :: "('s, 'a) sx \<Rightarrow> ('a \<Rightarrow> ('s, 'b) sx) \<Rightarrow> ('s, 'b) sx" where
  "bindM m f s = (case m s of (Inl e, s') \<Rightarrow> (Inl e, s') | (Inr x, s') \<Rightarrow> f x s')"

definition getM :: "('s \<Rightarrow> 'a) \<Rightarrow> ('s, 'a) sx" where
  "getM f s = (Inr (f s), s)"

definition modM :: "('s \<Rightarrow> 's) \<Rightarrow> ('s, unit) sx" where
  "modM f s = (Inr (), f s)"

definition catchM :: "('s, 'a) sx \<Rightarrow> (exn \<Rightarrow> ('s, 'a) sx) \<Rightarrow> ('s, 'a) sx" where
  "catchM m h s = (case m s of (Inl e, s') \<Rightarrow> h e s' | (Inr x, s') \<Rightarrow> (Inr x, s'))"

lemma retM_apply [monad_simps]: "retM x s = (Inr x, s)"
  by (simp add: retM_def)

lemma raiseM_apply [monad_simps]: "raiseM e s = (Inl e, s)"
  by (simp add: raiseM_def)

lemma getM_apply [monad_simps]: "getM f s = (Inr (f s), s)"
  by (simp add: getM_def)

lemma modM_apply [monad_simps]: "modM f s = (Inr (), f s)"
  by (simp add: modM_def)

lemma bindM_Inl [monad_simps]: "m s = (Inl e, s') \<Longrightarrow> bindM m f s = (Inl e, s')"
  by (simp add: bindM_def)

lemma bindM_Inr [monad_simps]: "m s = (Inr x, s') \<Longrightarrow> bindM m f s = f x s'"
  by (simp add: bindM_def)

lemma catchM_Inl [monad_simps]: "m s = (Inl e, s') \<Longrightarrow> catchM m h s = h e s'"
  by (simp add: catchM_def)

lemma catchM_Inr [monad_simps]: "m s = (Inr x, s') \<Longrightarrow> catchM m h s = (Inr x, s')"
  by (simp add: catchM_def)

end
