(* ===== verification/Knowledge.thy ===== *)
theory Knowledge
  imports Prelude "HOL-Library.List_Lexorder" "HOL-Library.Char_ord"
begin

text \<open>
  Payloads as the CRDT layer handles them: a live \<open>cks.KnowledgeObject\<close> or the JSON
  record of one.  The package \<open>cks\<close> is third-party code;
  what the runtime uses of it are the fields of the record \<open>cks_objects\<close>, parameters
  of the definitions below.
\<close>

text \<open>What a caller hands to a store: a live object, or any JSON value.\<close>

datatype payload = Live kobj | Json pyval

text \<open>
  What the runtime uses of \<open>cks\<close>: the constructors of an identity (from keyword
  arguments), an object and a relation (\<open>None\<close> where they raise a \<open>KeyError\<close>,
  \<open>TypeError\<close> or \<open>ValueError\<close>), the text form of a structure, the look-up of an
  object by id and the constructor of a structure; \<open>str_of\<close> is the built-in \<open>str\<close> on
  a JSON value.
\<close>

record cks_objects =
  make_identity :: "(string, pyval) dict \<Rightarrow> kident option"
  make_object :: "kident \<Rightarrow> (string, pyval) dict \<Rightarrow> kobj option"
  make_relation :: "kident \<Rightarrow> string list \<Rightarrow> string \<Rightarrow> (string, pyval) dict \<Rightarrow> kobj option"
  serialize_structure :: "kstruct \<Rightarrow> string"
  parse_structure :: "string \<Rightarrow> kstruct option"
  structure_get :: "kstruct \<Rightarrow> string \<Rightarrow> kobj option"
  make_structure :: "kobj list \<Rightarrow> kstruct"
  str_of :: "pyval \<Rightarrow> string"

section \<open>JSON text\<close>

text \<open>
  A value written by \<open>json.dumps(..., sort_keys=True)\<close> and read back by \<open>json.loads\<close>:
  the same value with the keys of every object in order.
\<close>

fun json_sorted :: "pyval \<Rightarrow> pyval" where
  "json_sorted (PList xs) = PList (map json_sorted xs)"
| "json_sorted (PDict d) = PDict (sort_key fst (map (\<lambda>(k, v). (k, json_sorted v)) d))"
| "json_sorted PNone = PNone"
| "json_sorted (PBool b) = PBool b"
| "json_sorted (PInt i) = PInt i"
| "json_sorted (PFloat r) = PFloat r"
| "json_sorted (PStr s) = PStr s"

definition is_ascii :: "string \<Rightarrow> bool" where
  "is_ascii s = list_all (\<lambda>c. (of_char c :: nat) < 128) s"

end
