(* ===== verification/Sha256.thy ===== *)
theory Sha256
  imports Prelude "HOL-Library.Word" "HOL-Library.Char_ord"
begin

text \<open>
  SHA-256 and HMAC-SHA-256 as \<open>hashlib\<close> and \<open>hmac\<close> of the standard library
  compute them (FIPS 180-4, RFC 2104), over byte strings held as \<open>string\<close>.  The
  CRDT layer hashes Merkle nodes with the first, the gossip envelope is signed with the
  second.  What the other theories use of them is the shape of a digest: 64 lowercase
  hexadecimal characters.
\<close>

unbundle bit_operations_syntax

type_synonym u32 = "32 word"

section \<open>The compression function\<close>

text \<open>The first 32 fractional bits of the cube roots of the first 64 primes, and of the
  square roots of the first eight, in decimal.\<close>

definition sha_K :: "u32 list" where
  "sha_K =
     [1116352408, 1899447441, 3049323471, 3921009573, 961987163, 1508970993,
      2453635748, 2870763221, 3624381080, 310598401, 607225278, 1426881987,
      1925078388, 2162078206, 2614888103, 3248222580, 3835390401, 4022224774,
      264347078, 604807628, 770255983, 1249150122, 1555081692, 1996064986,
      2554220882, 2821834349, 2952996808, 3210313671, 3336571891, 3584528711,
      113926993, 338241895, 666307205, 773529912, 1294757372, 1396182291,
      1695183700, 1986661051, 2177026350, 2456956037, 2730485921, 2820302411,
      3259730800, 3345764771, 3516065817, 3600352804, 4094571909, 275423344,
      430227734, 506948616, 659060556, 883997877, 958139571, 1322822218,
      1537002063, 1747873779, 1955562222, 2024104815, 2227730452, 2361852424,
      2428436474, 2756734187, 3204031479, 3329325298]"

definition sha_H0 :: "u32 list" where
  "sha_H0 =
     [1779033703, 3144134277, 1013904242, 2773480762, 1359893119, 2600822924,
      528734635, 1541459225]"

definition rotr :: "nat \<Rightarrow> u32 \<Rightarrow> u32" where
  "rotr n x = drop_bit n x OR push_bit (32 - n) x"

definition small_sigma0 :: "u32 \<Rightarrow> u32" where
  "small_sigma0 x = rotr 7 x XOR rotr 18 x XOR drop_bit 3 x"

definition small_sigma1 :: "u32 \<Rightarrow> u32" where
  "small_sigma1 x = rotr 17 x XOR rotr 19 x XOR drop_bit 10 x"

definition big_sigma0 :: "u32 \<Rightarrow> u32" where
  "big_sigma0 x = rotr 2 x XOR rotr 13 x XOR rotr 22 x"

definition big_sigma1 :: "u32 \<Rightarrow> u32" where
  "big_sigma1 x = rotr 6 x XOR rotr 11 x XOR rotr 25 x"

definition sha_ch :: "u32 \<Rightarrow> u32 \<Rightarrow> u32 \<Rightarrow> u32" where
  "sha_ch x y z = (x AND y) XOR (NOT x AND z)"

definition sha_maj :: "u32 \<Rightarrow> u32 \<Rightarrow> u32 \<Rightarrow> u32" where
  "sha_maj x y z = (x AND y) XOR (x AND z) XOR (y AND z)"

text \<open>The message schedule, newest word first.\<close>

fun schedule :: "nat \<Rightarrow> u32 list \<Rightarrow> u32 list" where
  "schedule 0 ws = ws"
| "schedule (Suc k) ws =
     schedule k ((small_sigma1 (ws ! 1) + ws ! 6 + small_sigma0 (ws ! 14) + ws ! 15) # ws)"

type_synonym sha_state = "u32 \<times> u32 \<times> u32 \<times> u32 \<times> u32 \<times> u32 \<times> u32 \<times> u32"

fun sha_round :: "u32 \<times> u32 \<Rightarrow> sha_state \<Rightarrow> sha_state" where
  "sha_round (k, w) (a, b, c, d, e, f, g, h) =
     (let t1 = h + big_sigma1 e + sha_ch e f g + k + w;
          t2 = big_sigma0 a + sha_maj a b c
      in (t1 + t2, a, b, c, d + t1, e, f, g))"

fun sha_add :: "sha_state \<Rightarrow> sha_state \<Rightarrow> sha_state" where
  "sha_add (a, b, c, d, e, f, g, h) (a', b', c', d', e', f', g', h') =
     (a + a', b + b', c + c', d + d', e + e', f + f', g + g', h + h')"

definition sha_block :: "u32 list \<Rightarrow> sha_state \<Rightarrow> sha_state" where
  "sha_block ws s = sha_add s (fold sha_round (zip sha_K (rev (schedule 48 (rev ws)))) s)"

section \<open>Padding and digest\<close>

definition be_bytes :: "nat \<Rightarrow> nat \<Rightarrow> nat list" where
  "be_bytes n x = map (\<lambda>i. x div 256 ^ (n - 1 - i) mod 256) [0..<n]"

definition sha_pad :: "nat list \<Rightarrow> nat list" where
  "sha_pad bs =
     (let l = length bs
      in bs @ [128] @ replicate ((119 - l mod 64) mod 64) 0 @ be_bytes 8 (8 * l))"

fun be_words :: "nat list \<Rightarrow> u32 list" where
  "be_words (a # b # c # d # r) =
     word_of_nat (((a * 256 + b) * 256 + c) * 256 + d) # be_words r"
| "be_words _ = []"

fun sha_blocks :: "nat \<Rightarrow> u32 list \<Rightarrow> sha_state \<Rightarrow> sha_state" where
  "sha_blocks 0 ws s = s"
| "sha_blocks (Suc n) ws s = sha_blocks n (drop 16 ws) (sha_block (take 16 ws) s)"

fun state_words :: "sha_state \<Rightarrow> u32 list" where
  "state_words (a, b, c, d, e, f, g, h) = [a, b, c, d, e, f, g, h]"

definition sha_init :: sha_state where
  "sha_init =
     (sha_H0 ! 0, sha_H0 ! 1, sha_H0 ! 2, sha_H0 ! 3, sha_H0 ! 4, sha_H0 ! 5, sha_H0 ! 6, sha_H0 ! 7)"

definition sha256_digest :: "nat list \<Rightarrow> nat list" where
  "sha256_digest bs =
     (let p = sha_pad bs
      in concat (map (\<lambda>w. be_bytes 4 (unat w))
           (state_words (sha_blocks (length p div 64) (be_words p) sha_init))))"

definition NIBBLES :: string where
  "NIBBLES = ''0123456789abcdef''"

definition byte_hex :: "nat \<Rightarrow> string" where
  "byte_hex b = [NIBBLES ! (b div 16 mod 16), NIBBLES ! (b mod 16)]"

definition hex :: "nat list \<Rightarrow> string" where
  "hex bs = concat (map byte_hex bs)"

definition bytes_of :: "string \<Rightarrow> nat list" where
  "bytes_of s = map of_char s"

definition sha256_hex :: "string \<Rightarrow> string" where
  "sha256_hex s = hex (sha256_digest (bytes_of s))"

section \<open>HMAC\<close>

definition hmac_key :: "nat list \<Rightarrow> nat list" where
  "hmac_key k =
     (let k' = (if length k > 64 then sha256_digest k else k)
      in k' @ replicate (64 - length k') 0)"

definition xor_byte :: "nat \<Rightarrow> nat \<Rightarrow> nat" where
  "xor_byte c b = unat ((word_of_nat b :: 8 word) XOR word_of_nat c)"

definition hmac_sha256_hex :: "nat list \<Rightarrow> string \<Rightarrow> string" where
  "hmac_sha256_hex secret msg =
     (let k = hmac_key secret
      in hex (sha256_digest (map (xor_byte 92) k @
           sha256_digest (map (xor_byte 54) k @ bytes_of msg))))"

section \<open>The shape of a digest\<close>

lemma length_hex [simp]: "length (hex bs) = 2 * length bs"
  by (induction bs) (simp_all add: hex_def byte_hex_def)

lemma set_hex: "set (hex bs) \<subseteq> set NIBBLES"
proof -
  have "NIBBLES ! (n mod 16) \<in> set NIBBLES" for n :: nat
    by (rule nth_mem) (simp add: NIBBLES_def)
  then show ?thesis by (auto simp: hex_def byte_hex_def)
qed

lemma length_be_bytes [simp]: "length (be_bytes n x) = n"
  by (simp add: be_bytes_def)

lemma length_sha256_digest [simp]: "length (sha256_digest bs) = 32"
  by (cases "sha_blocks (length (sha_pad bs) div 64) (be_words (sha_pad bs)) sha_init" rule: state_words.cases)
    (simp add: sha256_digest_def Let_def)

lemma length_sha256_hex [simp]: "length (sha256_hex s) = 64"
  by (simp add: sha256_hex_def)

lemma set_sha256_hex: "set (sha256_hex s) \<subseteq> set NIBBLES"
  by (simp add: sha256_hex_def set_hex)

lemma hmac_nonempty [simp]: "hmac_sha256_hex k m \<noteq> []"
proof -
  have "length (hmac_sha256_hex k m) = 64"
    by (simp add: hmac_sha256_hex_def Let_def)
  then show ?thesis by auto
qed

end
