(* ===== verification/Json_Text.thy ===== *)
theory Json_Text
  imports Knowledge Sha256
begin

text \<open>
  The text that \<open>json.dumps(value, sort_keys=True)\<close> writes and the numbers that
  \<open>int\<close> reads, for strings of characters below 256.  How a float is written is a
  parameter; \<open>float_ok\<close> states what is used of it.  The section on decoding shows that a
  text determines its value.
\<close>

section \<open>Numbers\<close>

definition digit :: "nat \<Rightarrow> char" where
  "digit n = char_of (48 + n)"

fun nat_text :: "nat \<Rightarrow> string" where
  "nat_text n = (if n < 10 then [digit n] else nat_text (n div 10) @ [digit (n mod 10)])"

declare nat_text.simps [simp del]

definition int_text :: "int \<Rightarrow> string" where
  "int_text i = (if i < 0 then CHR ''-'' # nat_text (nat (- i)) else nat_text (nat i))"

text \<open>
  \<open>int\<close> on a string: white space around it, a sign, and digits that single underscores
  may separate, at most 4300 of them.
\<close>

definition is_ascii_space :: "char \<Rightarrow> bool" where
  "is_ascii_space c = ((of_char c :: nat) \<in> {9, 10, 11, 12, 13, 32})"

definition is_digit :: "char \<Rightarrow> bool" where
  "is_digit c = (48 \<le> (of_char c :: nat) \<and> (of_char c :: nat) \<le> 57)"

fun digits_value :: "bool \<Rightarrow> nat \<Rightarrow> string \<Rightarrow> nat option" where
  "digits_value after_digit acc [] = (if after_digit then Some acc else None)"
| "digits_value after_digit acc (c # cs) =
     (if is_digit c then digits_value True (10 * acc + (of_char c - 48)) cs
      else if c = CHR ''_'' \<and> after_digit then digits_value False acc cs
      else None)"

definition int_of_text :: "string \<Rightarrow> exn + int" where
  "int_of_text s =
     (let s = (if is_ascii s then s
               else map (\<lambda>c. if (of_char c :: nat) \<in> {28, 29, 30, 31, 133, 160} then CHR '' '' else c) s);
          s = rev (dropWhile is_ascii_space (rev (dropWhile is_ascii_space s)));
          (negative, ds) = (case s of CHR ''-'' # cs \<Rightarrow> (True, cs) | CHR ''+'' # cs \<Rightarrow> (False, cs) | _ \<Rightarrow> (False, s))
      in case digits_value False 0 ds of
           None \<Rightarrow> Inl ValueError
         | Some n \<Rightarrow>
             if length (filter is_digit ds) > 4300 then Inl ValueError
             else Inr (if negative then - int n else int n))"

fun py_int :: "pyval \<Rightarrow> exn + int" where
  "py_int (PInt i) = Inr i"
| "py_int (PBool b) = Inr (if b then 1 else 0)"
| "py_int (PFloat r) = Inr (py_trunc r)"
| "py_int (PStr s) = int_of_text s"
| "py_int _ = Inl TypeError"

section \<open>Values\<close>

definition json_char :: "char \<Rightarrow> string" where
  "json_char c =
     (if c = CHR 0x22 then [CHR 0x5C, CHR 0x22]
      else if c = CHR 0x5C then [CHR 0x5C, CHR 0x5C]
      else if c = CHR 0x08 then [CHR 0x5C, CHR ''b'']
      else if c = CHR 0x0C then [CHR 0x5C, CHR ''f'']
      else if c = CHR 0x0A then [CHR 0x5C, CHR ''n'']
      else if c = CHR 0x0D then [CHR 0x5C, CHR ''r'']
      else if c = CHR 0x09 then [CHR 0x5C, CHR ''t'']
      else if 32 \<le> (of_char c :: nat) \<and> (of_char c :: nat) \<le> 126 then [c]
      else CHR 0x5C # ''u00'' @ byte_hex (of_char c))"

definition json_string :: "string \<Rightarrow> string" where
  "json_string s = CHR 0x22 # concat (map json_char s) @ [CHR 0x22]"

fun join :: "string \<Rightarrow> string list \<Rightarrow> string" where
  "join sep [] = []"
| "join sep [x] = x"
| "join sep (x # y # xs) = x @ sep @ join sep (y # xs)"

fun json_text :: "(rat \<Rightarrow> string) \<Rightarrow> pyval \<Rightarrow> string" where
  "json_text ft PNone = ''null''"
| "json_text ft (PBool b) = (if b then ''true'' else ''false'')"
| "json_text ft (PInt i) = int_text i"
| "json_text ft (PFloat r) = ft r"
| "json_text ft (PStr s) = json_string s"
| "json_text ft (PList xs) = ''['' @ join '', '' (map (json_text ft) xs) @ '']''"
| "json_text ft (PDict d) = ''{'' @ join '', '' (map (\<lambda>(k, v). json_string k @ '': '' @ json_text ft v) d) @ ''}''"

definition dumps_sorted :: "(rat \<Rightarrow> string) \<Rightarrow> pyval \<Rightarrow> string" where
  "dumps_sorted ft v = json_text ft (json_sorted v)"

section \<open>A text determines its value\<close>

definition DIGITS :: "char set" where
  "DIGITS = set ''0123456789''"

definition NUMBER :: "char set" where
  "NUMBER = DIGITS \<union> set ''+-.e''"

text \<open>What \<open>float.__repr__\<close> guarantees: the digits of a number with a point or an exponent,
  different for different numbers.\<close>

definition float_ok :: "(rat \<Rightarrow> string) \<Rightarrow> bool" where
  "float_ok ft \<longleftrightarrow> inj ft \<and>
     (\<forall>r. set (ft r) \<subseteq> NUMBER \<and> set (ft r) \<inter> {CHR ''.'', CHR ''e''} \<noteq> {} \<and>
          hd (ft r) \<in> insert (CHR ''-'') DIGITS)"

definition STOPS :: "char set" where
  "STOPS = {CHR '','', CHR '']'', CHR ''}''}"

definition stop :: "string \<Rightarrow> bool" where
  "stop r \<longleftrightarrow> r = [] \<or> hd r \<in> STOPS"

definition cut :: "('a \<Rightarrow> string) \<Rightarrow> 'a \<Rightarrow> bool" where
  "cut f x \<longleftrightarrow> (\<forall>y r s. stop r \<longrightarrow> stop s \<longrightarrow> f x @ r = f y @ s \<longrightarrow> x = y \<and> r = s)"

lemma of_char_digit [simp]: "n < 10 \<Longrightarrow> of_char (digit n) = 48 + n"
  by (simp add: digit_def)

lemma digit_cases: "n < 10 \<Longrightarrow> digit n \<in> DIGITS"
proof -
  have "list_all (\<lambda>n. digit n \<in> set ''0123456789'') [0, 1, 2, 3, 4, 5, 6, 7, 8, 9]"
    by code_simp
  moreover assume "n < 10"
  then have "n \<in> set [0, 1, 2, 3, 4, 5, 6, 7, 8, 9]"
    by auto
  ultimately show ?thesis
    unfolding list_all_iff DIGITS_def by blast
qed

lemma nat_text_digits: "nat_text n \<noteq> [] \<and> set (nat_text n) \<subseteq> DIGITS"
proof (induction n rule: nat_text.induct)
  case (1 n)
  then show ?case
    using digit_cases [of n] digit_cases [of "n mod 10"]
    by (cases "n < 10") (simp_all add: nat_text.simps [of n])
qed

lemma nat_text_value: "foldl (\<lambda>a c. 10 * a + (of_char c - 48)) 0 (nat_text n) = n"
proof (induction n rule: nat_text.induct)
  case (1 n)
  then show ?case
    by (cases "n < 10") (simp_all add: nat_text.simps [of n])
qed

lemma nat_text_inj: "nat_text m = nat_text n \<longleftrightarrow> m = n"
  by (metis nat_text_value)

lemma minus_no_digit: "CHR ''-'' \<notin> DIGITS"
  by (simp add: DIGITS_def)

lemma int_text_digits: "int_text i \<noteq> [] \<and> set (int_text i) \<subseteq> insert (CHR ''-'') DIGITS"
  using nat_text_digits [of "nat i"] nat_text_digits [of "nat (- i)"] by (auto simp: int_text_def)

lemma int_text_inj: "int_text i = int_text j \<longleftrightarrow> i = j"
proof
  assume eq: "int_text i = int_text j"
  have "CHR ''-'' \<notin> set (nat_text n)" for n
    using nat_text_digits [of n] minus_no_digit by blast
  then have "CHR ''-'' # nat_text m \<noteq> nat_text n" "nat_text n \<noteq> CHR ''-'' # nat_text m" for m n
    by (metis list.set_intros(1))+
  then show "i = j"
    using eq by (auto simp: int_text_def nat_text_inj split: if_splits)
qed simp

text \<open>Strings.\<close>

lemma byte_hex_inj:
  assumes "byte_hex m = byte_hex n" and "m < 256" and "n < 256"
  shows "m = n"
proof -
  have d: "distinct NIBBLES" and "length NIBBLES = 16"
    by (simp_all add: NIBBLES_def)
  then have "NIBBLES ! (i mod 16) = NIBBLES ! (j mod 16) \<longleftrightarrow> i mod 16 = j mod 16" for i j :: nat
    by (intro nth_eq_iff_index_eq) simp_all
  then have "m div 16 mod 16 = n div 16 mod 16" "m mod 16 = n mod 16"
    using assms(1) unfolding byte_hex_def by simp_all
  moreover have "m div 16 < 16" "n div 16 < 16"
    using assms(2,3) by auto
  ultimately have "m div 16 = n div 16" "m mod 16 = n mod 16"
    by simp_all
  then show ?thesis
    by (metis div_mult_mod_eq)
qed

lemma byte_hex_char: "byte_hex (of_char c) @ r = byte_hex (of_char d) @ s \<longleftrightarrow> c = d \<and> r = s"
proof
  assume "byte_hex (of_char c) @ r = byte_hex (of_char d) @ s"
  then have "byte_hex (of_char c) = byte_hex (of_char d)" "r = s"
    by (simp_all add: byte_hex_def)
  moreover have "of_char c < (256 :: nat)" "of_char d < (256 :: nat)"
    using range_nat_of_char by fastforce+
  ultimately have "(of_char c :: nat) = of_char d" "r = s"
    using byte_hex_inj by blast+
  then show "c = d \<and> r = s"
    by simp
qed simp

lemma json_char_prefix: "json_char c @ r = json_char d @ s \<Longrightarrow> c = d \<and> r = s"
  unfolding json_char_def by (simp add: byte_hex_char split: if_splits)

lemma json_char_no_quote: "json_char c @ r \<noteq> CHR 0x22 # s"
  by (simp add: json_char_def)

lemma json_string_prefix: "json_string a @ r = json_string b @ s \<Longrightarrow> a = b \<and> r = s"
proof (induction a arbitrary: b)
  case Nil
  then show ?case
    using json_char_no_quote by (cases b) (auto simp: json_string_def dest: sym)
next
  case (Cons c a)
  then show ?case
  proof (cases b)
    case Nil
    then show ?thesis
      using Cons.prems json_char_no_quote by (auto simp: json_string_def)
  next
    case (Cons d b')
    have "json_char c @ (concat (map json_char a) @ CHR 0x22 # r) = json_char d @ (concat (map json_char b') @ CHR 0x22 # s)"
      using Cons.prems Cons by (simp add: json_string_def)
    from json_char_prefix [OF this] show ?thesis
      using Cons.IH [of b'] Cons by (simp add: json_string_def)
  qed
qed

lemma cutD: "cut f x \<Longrightarrow> stop r \<Longrightarrow> stop s \<Longrightarrow> f x @ r = f y @ s \<Longrightarrow> x = y \<and> r = s"
  unfolding cut_def by blast

text \<open>Sequences of values, each cut off at the next comma or bracket.\<close>

lemma join_cut:
  assumes "\<forall>x \<in> set xs. cut f x" and "\<And>x. f x \<noteq> [] \<and> hd (f x) \<notin> STOPS"
    and "e \<in> {CHR '']'', CHR ''}''}" and "join '', '' (map f xs) @ e # r = join '', '' (map f ys) @ e # s"
  shows "xs = ys \<and> r = s"
  using assms(1,4)
proof (induction xs arbitrary: ys)
  case Nil
  have "e \<in> STOPS"
    using assms(3) by (auto simp: STOPS_def)
  then have "f y @ t \<noteq> e # u" for y t u
    using assms(2) [of y] by (cases "f y") auto
  then have "join '', '' (map f (y # zs)) @ t \<noteq> e # u" for y zs t u
    by (cases zs) auto
  then show ?case
    using Nil.prems(2) by (cases ys) (auto dest: sym)
next
  case (Cons x xs)
  have e: "stop (e # t)" "stop (CHR '','' # t)" for t
    using assms(3) by (auto simp: stop_def STOPS_def)
  let ?rest = "\<lambda>zs t. if zs = [] then e # t else '', '' @ join '', '' (map f zs) @ e # t"
  have j: "join '', '' (map f (z # zs)) @ e # t = f z @ ?rest zs t" for z zs t
    by (cases zs) simp_all
  have rest: "stop (?rest zs t)" for zs t
    using e by simp
  show ?case
  proof (cases ys)
    case Nil
    have "e \<in> STOPS"
      using assms(3) by (auto simp: STOPS_def)
    then have "f x @ t \<noteq> e # s" for t
      using assms(2) [of x] by (cases "f x") auto
    then show ?thesis
      using Cons.prems(2) unfolding Nil j by simp
  next
    case (Cons y zs)
    have eq: "f x @ ?rest xs r = f y @ ?rest zs s"
      using Cons.prems(2) unfolding Cons j .
    have "cut f x"
      using Cons.prems(1) by simp
    then have "x = y" "?rest xs r = ?rest zs s"
      using cutD [of f x "?rest xs r" "?rest zs s" y] rest eq by blast+
    moreover have "xs = zs \<and> r = s"
    proof (cases "xs = [] \<or> zs = []")
      case True
      moreover have "e \<noteq> CHR '',''"
        using assms(3) by auto
      ultimately show ?thesis
        using \<open>?rest xs r = ?rest zs s\<close> by (auto simp del: map_eq_Cons_conv split: if_splits)
    next
      case False
      then have "join '', '' (map f xs) @ e # r = join '', '' (map f zs) @ e # s"
        using \<open>?rest xs r = ?rest zs s\<close> by simp
      then show ?thesis
        using Cons.IH [of zs] Cons.prems(1) by simp
    qed
    ultimately show ?thesis
      using Cons by simp
  qed
qed

text \<open>Numbers.\<close>

lemma number_cut:
  assumes "set a \<subseteq> NUMBER" and "set b \<subseteq> NUMBER" and "stop r" and "stop s" and "a @ r = b @ s"
  shows "a = b \<and> r = s"
proof -
  have "c \<notin> NUMBER" if "c \<in> STOPS" for c
    using that by (auto simp: STOPS_def NUMBER_def DIGITS_def)
  then have "takeWhile (\<lambda>c. c \<in> NUMBER) t = []" if "stop t" for t
    using that by (cases t) (auto simp: stop_def)
  then have "takeWhile (\<lambda>c. c \<in> NUMBER) (u @ t) = u" if "set u \<subseteq> NUMBER" "stop t" for u t
    using that by (subst takeWhile_append2) auto
  then have "a = b"
    using assms by metis
  then show ?thesis
    using assms(5) by simp
qed

lemma int_text_number: "set (int_text i) \<subseteq> NUMBER"
  using int_text_digits [of i] by (auto simp: NUMBER_def)

lemma float_okD:
  assumes "float_ok ft"
  shows "set (ft q) \<subseteq> NUMBER" "ft q \<noteq> []" "hd (ft q) \<in> insert (CHR ''-'') DIGITS" "ft q = ft p \<longleftrightarrow> q = p"
proof -
  have f: "set (ft q) \<inter> {CHR ''.'', CHR ''e''} \<noteq> {}" "inj ft" "set (ft q) \<subseteq> NUMBER"
    "hd (ft q) \<in> insert (CHR ''-'') DIGITS"
    using assms unfolding float_ok_def by blast+
  then show "set (ft q) \<subseteq> NUMBER" "hd (ft q) \<in> insert (CHR ''-'') DIGITS" "ft q = ft p \<longleftrightarrow> q = p"
    by (simp_all only: inj_eq)
  show "ft q \<noteq> []"
    using f(1) by force
qed

lemma float_not_int: "float_ok ft \<Longrightarrow> ft q \<noteq> int_text i"
proof
  assume ft: "float_ok ft" and "ft q = int_text i"
  then have "set (int_text i) \<inter> {CHR ''.'', CHR ''e''} \<noteq> {}"
    unfolding float_ok_def by metis
  moreover have "insert (CHR ''-'') DIGITS \<inter> {CHR ''.'', CHR ''e''} = {}"
    by (simp add: DIGITS_def)
  ultimately show False
    using int_text_digits [of i] by blast
qed

text \<open>The first character of a value tells its kind.\<close>

fun lead :: "pyval \<Rightarrow> nat" where
  "lead PNone = 0"
| "lead (PBool b) = (if b then 1 else 2)"
| "lead (PInt i) = 3"
| "lead (PFloat r) = 3"
| "lead (PStr s) = 4"
| "lead (PList xs) = 5"
| "lead (PDict d) = 6"

definition lead_char :: "char \<Rightarrow> nat" where
  "lead_char c =
     (if c = CHR ''n'' then 0 else if c = CHR ''t'' then 1 else if c = CHR ''f'' then 2
      else if c = CHR 0x22 then 4 else if c = CHR ''['' then 5 else if c = CHR ''{'' then 6 else 3)"

lemma lead_number: "c \<in> insert (CHR ''-'') DIGITS \<Longrightarrow> lead_char c = 3 \<and> c \<notin> STOPS"
  by (auto simp: DIGITS_def lead_char_def STOPS_def)

lemma json_text_lead:
  assumes "float_ok ft"
  shows "json_text ft x \<noteq> [] \<and> hd (json_text ft x) \<notin> STOPS \<and> lead_char (hd (json_text ft x)) = lead x"
proof (cases x)
  case (PInt i)
  have "int_text i \<noteq> []" "hd (int_text i) \<in> insert (CHR ''-'') DIGITS"
    using int_text_digits [of i] hd_in_set by blast+
  then show ?thesis
    using lead_number PInt by simp
next
  case (PFloat r)
  have "ft r \<noteq> []" "hd (ft r) \<in> insert (CHR ''-'') DIGITS"
    using float_okD [OF assms] by blast+
  then show ?thesis
    using lead_number PFloat by simp
qed (simp_all add: lead_char_def json_string_def STOPS_def)

lemma pair_cut:
  assumes "cut g v"
  shows "cut (\<lambda>(k, v). json_string k @ '': '' @ g v) (k, v)"
  unfolding cut_def
proof (intro allI impI)
  fix y r s
  assume "stop r" "stop s" and eq: "(\<lambda>(k, v). json_string k @ '': '' @ g v) (k, v) @ r = (\<lambda>(k, v). json_string k @ '': '' @ g v) y @ s"
  obtain k' v' where y: "y = (k', v')"
    by (cases y)
  have "json_string k @ ('': '' @ g v @ r) = json_string k' @ ('': '' @ g v' @ s)"
    using eq y by simp
  from json_string_prefix [OF this] have "k = k'" "g v @ r = g v' @ s"
    by auto
  then show "(k, v) = y \<and> r = s"
    using cutD [OF assms \<open>stop r\<close> \<open>stop s\<close>] y by blast
qed

lemma atomic_cut:
  assumes ft: "float_ok ft" and "\<forall>xs. x \<noteq> PList xs" and "\<forall>d. x \<noteq> PDict d"
  shows "cut (json_text ft) x"
  unfolding cut_def
proof (intro allI impI)
  fix y r s
  assume stops: "stop r" "stop s" and eq: "json_text ft x @ r = json_text ft y @ s"
  have lead: "lead x = lead y"
    using arg_cong [OF eq, of "\<lambda>t. lead_char (hd t)"] json_text_lead [OF ft, of x] json_text_lead [OF ft, of y]
    by simp
  note number = float_okD(1,4) [OF ft]
  show "x = y \<and> r = s"
  proof (cases "lead x = 3")
    case True
    then have "set (json_text ft x) \<subseteq> NUMBER" "set (json_text ft y) \<subseteq> NUMBER"
      using lead int_text_number number(1) by (cases x; cases y; simp split: if_splits)+
    from number_cut [OF this stops eq] True show ?thesis
      using lead float_not_int [OF ft] number(2) int_text_inj
      by (cases x; cases y; simp split: if_splits) (metis)+
  next
    case False
    have str: "a = b \<and> r = s" if "json_string a @ r = json_string b @ s" for a b
      using json_string_prefix [OF that] .
    show ?thesis
      using False assms(2,3) lead eq by (cases x; cases y) (auto split: if_splits dest: str)
  qed
qed

lemma json_text_cut:
  assumes "float_ok ft"
  shows "cut (json_text ft) x"
proof (induction x)
  case (PList xs)
  show ?case
    unfolding cut_def
  proof (intro allI impI)
    fix y r s
    assume eq: "json_text ft (PList xs) @ r = json_text ft y @ s"
    have "lead y = 5"
      using arg_cong [OF eq, of "\<lambda>t. lead_char (hd t)"] json_text_lead [OF assms, of y] by (simp add: lead_char_def)
    then obtain ys where y: "y = PList ys"
      by (cases y) (auto split: if_splits)
    show "PList xs = y \<and> r = s"
      using join_cut [of xs "json_text ft" "CHR '']''" r ys s] PList eq y json_text_lead [OF assms] by simp
  qed
next
  case (PDict d)
  let ?f = "\<lambda>(k, v). json_string k @ '': '' @ json_text ft v"
  have d: "\<forall>p \<in> set d. cut ?f p"
    using PDict pair_cut [of "json_text ft"] by (auto simp: snds.simps)
  have h: "?f p \<noteq> [] \<and> hd (?f p) \<notin> STOPS" for p
    by (cases p) (simp add: json_string_def STOPS_def)
  show ?case
    unfolding cut_def
  proof (intro allI impI)
    fix y r s
    assume eq: "json_text ft (PDict d) @ r = json_text ft y @ s"
    have "lead y = 6"
      using arg_cong [OF eq, of "\<lambda>t. lead_char (hd t)"] json_text_lead [OF assms, of y] by (simp add: lead_char_def)
    then obtain e where y: "y = PDict e"
      by (cases y) (auto split: if_splits)
    show "PDict d = y \<and> r = s"
      using join_cut [OF d h, of "CHR ''}''" r e s] eq y by simp
  qed
qed (rule atomic_cut [OF assms]; simp)+

lemma json_text_inj:
  assumes "float_ok ft"
  shows "json_text ft x = json_text ft y \<longleftrightarrow> x = y"
  using cutD [OF json_text_cut [OF assms], of "[]" "[]" x y] by (auto simp: stop_def)

text \<open>The text has printable ASCII characters only.\<close>

definition printable :: "char \<Rightarrow> bool" where
  "printable c \<longleftrightarrow> 32 \<le> (of_char c :: nat) \<and> (of_char c :: nat) \<le> 126"

lemma printable_marks [simp]:
  "printable (CHR '','')" "printable (CHR '' '')" "printable (CHR '':'')" "printable (CHR ''['')"
  "printable (CHR '']'')" "printable (CHR ''{'')" "printable (CHR ''}'')"
  by (simp_all add: printable_def)

lemma printable_NIBBLES: "list_all printable NIBBLES"
  by code_simp

lemma printable_NUMBER: "c \<in> NUMBER \<Longrightarrow> printable c"
  by (auto simp: NUMBER_def DIGITS_def printable_def)

lemma printable_json_char: "list_all printable (json_char c)"
proof -
  have "NIBBLES ! (n mod 16) \<in> set NIBBLES" for n :: nat
    by (rule nth_mem) (simp add: NIBBLES_def)
  then have "list_all printable (byte_hex n)" for n
    using printable_NIBBLES by (simp add: byte_hex_def list_all_iff)
  then show ?thesis
    by (simp add: json_char_def printable_def)
qed

lemma printable_json_string: "list_all printable (json_string s)"
  using printable_json_char by (auto simp: json_string_def printable_def list_all_iff)

lemma printable_join: "list_all (list_all printable) xs \<Longrightarrow> list_all printable (join '', '' xs)"
  by (induction "'', '' :: string" xs rule: join.induct) simp_all

lemma printable_json_text:
  assumes "float_ok ft"
  shows "list_all printable (json_text ft x)"
proof (induction x)
  case (PInt i)
  then show ?case
    using int_text_number [of i] printable_NUMBER by (auto simp: list_all_iff)
next
  case (PFloat r)
  then show ?case
    using float_okD(1) [OF assms, of r] printable_NUMBER by (auto simp: list_all_iff)
next
  case (PStr s)
  then show ?case
    using printable_json_string by simp
next
  case (PList xs)
  then have "list_all (list_all printable) (map (json_text ft) xs)"
    by (auto simp: list_all_iff)
  then show ?case
    using printable_join by simp
next
  case (PDict d)
  have "list_all (list_all printable) (map (\<lambda>(k, v). json_string k @ '': '' @ json_text ft v) d)"
    using PDict printable_json_string by (fastforce simp: list_all_iff snds.simps)
  then show ?case
    using printable_join by simp
qed (simp_all add: printable_def)

text \<open>A text without the separator and what follows it.\<close>

lemma separated:
  assumes "c \<notin> set a" and "c \<notin> set b" and "a @ c # r = b @ c # s"
  shows "a = b \<and> r = s"
proof -
  have t: "takeWhile (\<lambda>x. x \<noteq> c) (u @ c # t) = u" if "c \<notin> set u" for u t
    using that by (subst takeWhile_append2) auto
  have "a = b"
    using t [OF assms(1), of r] t [OF assms(2), of s] assms(3) by simp
  then show ?thesis
    using assms(3) by simp
qed

lemma join_inj:
  assumes "list_all (\<lambda>x. c \<notin> set x) xs" and "list_all (\<lambda>x. c \<notin> set x) ys" and "length xs = length ys"
    and "join [c] xs = join [c] ys"
  shows "xs = ys"
  using assms(3,1,2,4)
proof (induction rule: list_induct2)
  case (Cons x xs y ys)
  show ?case
  proof (cases xs)
    case Nil
    then show ?thesis
      using Cons by simp
  next
    case (Cons x' xs')
    then obtain y' ys' where ys: "ys = y' # ys'"
      using \<open>length xs = length ys\<close> by (cases ys) auto
    then have "x = y" "join [c] xs = join [c] ys"
      using separated [of c x y "join [c] xs" "join [c] ys"] Cons.prems Cons by simp_all
    then show ?thesis
      using Cons.IH Cons.prems by simp
  qed
qed simp

end
