(* ===== verification/Core_Bridge.thy ===== *)
theory Core_Bridge
  imports Prelude
begin

text \<open>
  The boundary to the semantic core (\<open>core_api/\<close>): the data that crosses it, the plug-in
  interface \<open>CoreInterface\<close> as a record of functions, and \<open>CoreBridge\<close>, which adds
  the behaviour without a plug-in and the check of what a plug-in returns.  The plug-in
  itself wraps the third-party package \<open>cks\<close> and is a parameter of every definition that
  uses it.
\<close>

section \<open>Data\<close>

text \<open>Diagnostics (\<open>diagnostics/diagnostic.py\<close>); identifier and time are left out.  The
  lists of diagnostics also hold whatever objects a plug-in reports.\<close>

datatype diagnostic_source = SourceCore | SourceRuntime

datatype diagnostic_severity = Info | Warning | Error

record diagnostic =
  message :: string
  source :: diagnostic_source
  severity :: diagnostic_severity
  code :: "string option"
  diagnostic_metadata :: "(string, pyval) dict"

datatype diag = Diag diagnostic | Foreign pyval

text \<open>\<open>RuntimeValidationResult\<close>.\<close>

record validation_result =
  valid :: bool
  diagnostics :: "diag list"

definition has_diagnostics :: "validation_result \<Rightarrow> bool" where
  "has_diagnostics r = (diagnostics r \<noteq> [])"

definition diagnostic_count :: "validation_result \<Rightarrow> nat" where
  "diagnostic_count r = length (diagnostics r)"

definition validation_success :: validation_result where
  "validation_success = \<lparr>valid = True, diagnostics = []\<rparr>"

definition validation_failure :: "diag list \<Rightarrow> validation_result" where
  "validation_failure ds = \<lparr>valid = False, diagnostics = ds\<rparr>"

datatype operator =
    AddObject kobj
  | AddRelation kobj
  | RemoveObject string
  | RemoveRelation string
  | OtherOperator string

record field_operation =
  fo_object_id :: string
  fo_op_type :: string
  fo_field_key :: "string option"
  fo_field_value :: pyval
  fo_version_id :: "string option"

record subgraph_query =
  sq_seed_ids :: pyval
  sq_depth :: int
  sq_options :: pyval

section \<open>The plug-in\<close>

text \<open>
  An optional capability is \<open>None\<close> where the plug-in does not override the method.
  \<open>c_validate\<close> returns \<open>None\<close> for a value that is no \<open>RuntimeValidationResult\<close>.
\<close>

record core_impl =
  c_validate :: "kstruct \<Rightarrow> pyval option \<Rightarrow> exn + validation_result option"
  c_evolve :: "kstruct \<Rightarrow> operator list \<Rightarrow> exn + kstruct"
  c_serialize :: "kstruct \<Rightarrow> exn + string"
  c_explain :: "kstruct \<Rightarrow> exn + pyval"
  c_diff :: "kstruct \<Rightarrow> kstruct \<Rightarrow> exn + operator list"
  c_explain_inference :: "(kstruct \<Rightarrow> string \<Rightarrow> exn + pyval) option"
  c_field_diff :: "(kstruct \<Rightarrow> kstruct \<Rightarrow> exn + field_operation list) option"
  c_synthesize_merge :: "(kobj \<Rightarrow> field_operation list \<Rightarrow> exn + kobj) option"
  c_merge :: "(kstruct \<Rightarrow> kstruct \<Rightarrow> kstruct \<Rightarrow> (string, kobj) dict option \<Rightarrow> exn + kstruct) option"
  c_query_subgraph :: "(kstruct \<Rightarrow> subgraph_query \<Rightarrow> exn + kstruct) option"
  c_hash :: "(kstruct \<Rightarrow> exn + string) option"

text \<open>The bridge holds a plug-in or none.\<close>

type_synonym bridge = "core_impl option"

definition available :: "bridge \<Rightarrow> bool" where
  "available b = (b \<noteq> None)"

text \<open>A call of an optional capability: the default method raises \<open>NotImplementedError\<close>.\<close>

definition capability :: "'f option \<Rightarrow> ('f \<Rightarrow> exn + 'a) \<Rightarrow> exn + 'a" where
  "capability m call = (case m of None \<Rightarrow> Inl NotImplementedError | Some f \<Rightarrow> call f)"

section \<open>The bridge\<close>

definition bridge_validate :: "bridge \<Rightarrow> kstruct \<Rightarrow> pyval option \<Rightarrow> exn + validation_result" where
  "bridge_validate b ks extra_constraints =
     (case b of
        None \<Rightarrow> Inr validation_success
      | Some impl \<Rightarrow>
          (case c_validate impl ks extra_constraints of
             Inl e \<Rightarrow> Inl e
           | Inr None \<Rightarrow> Inl TypeError
           | Inr (Some r) \<Rightarrow> Inr r))"

definition bridge_evolve :: "bridge \<Rightarrow> kstruct \<Rightarrow> operator list \<Rightarrow> exn + kstruct" where
  "bridge_evolve b ks ops = (case b of None \<Rightarrow> Inr ks | Some impl \<Rightarrow> c_evolve impl ks ops)"

definition bridge_serialize :: "bridge \<Rightarrow> kstruct \<Rightarrow> exn + string" where
  "bridge_serialize b ks = (case b of None \<Rightarrow> Inl RuntimeError | Some impl \<Rightarrow> c_serialize impl ks)"

definition bridge_explain :: "bridge \<Rightarrow> kstruct \<Rightarrow> exn + pyval" where
  "bridge_explain b ks = (case b of None \<Rightarrow> Inr (PDict []) | Some impl \<Rightarrow> c_explain impl ks)"

definition bridge_explain_inference :: "bridge \<Rightarrow> kstruct \<Rightarrow> string \<Rightarrow> exn + pyval" where
  "bridge_explain_inference b ks object_id =
     (case b of
        None \<Rightarrow> Inl RuntimeError
      | Some impl \<Rightarrow> capability (c_explain_inference impl) (\<lambda>f. f ks object_id))"

definition bridge_diff :: "bridge \<Rightarrow> kstruct \<Rightarrow> kstruct \<Rightarrow> exn + operator list" where
  "bridge_diff b src target = (case b of None \<Rightarrow> Inr [] | Some impl \<Rightarrow> c_diff impl src target)"

definition bridge_field_diff :: "bridge \<Rightarrow> kstruct \<Rightarrow> kstruct \<Rightarrow> exn + field_operation list" where
  "bridge_field_diff b src target =
     (case b of
        None \<Rightarrow> Inl RuntimeError
      | Some impl \<Rightarrow> capability (c_field_diff impl) (\<lambda>f. f src target))"

definition supports_field_diff :: "bridge \<Rightarrow> bool" where
  "supports_field_diff b = (case b of None \<Rightarrow> False | Some impl \<Rightarrow> c_field_diff impl \<noteq> None)"

definition bridge_synthesize_merge :: "bridge \<Rightarrow> kobj \<Rightarrow> field_operation list \<Rightarrow> exn + kobj" where
  "bridge_synthesize_merge b base ops =
     (case b of
        None \<Rightarrow> Inl RuntimeError
      | Some impl \<Rightarrow> capability (c_synthesize_merge impl) (\<lambda>f. f base ops))"

definition supports_synthesize_merge :: "bridge \<Rightarrow> bool" where
  "supports_synthesize_merge b = (case b of None \<Rightarrow> False | Some impl \<Rightarrow> c_synthesize_merge impl \<noteq> None)"

definition bridge_merge ::
  "bridge \<Rightarrow> kstruct \<Rightarrow> kstruct \<Rightarrow> kstruct \<Rightarrow> (string, kobj) dict option \<Rightarrow> exn + kstruct" where
  "bridge_merge b base branch_a branch_b resolutions =
     (case b of
        None \<Rightarrow> Inl RuntimeError
      | Some impl \<Rightarrow> capability (c_merge impl) (\<lambda>f. f base branch_a branch_b resolutions))"

definition supports_merge :: "bridge \<Rightarrow> bool" where
  "supports_merge b = (case b of None \<Rightarrow> False | Some impl \<Rightarrow> c_merge impl \<noteq> None)"

definition bridge_query_subgraph :: "bridge \<Rightarrow> kstruct \<Rightarrow> subgraph_query \<Rightarrow> exn + kstruct" where
  "bridge_query_subgraph b ks q =
     (case b of
        None \<Rightarrow> Inl RuntimeError
      | Some impl \<Rightarrow> capability (c_query_subgraph impl) (\<lambda>f. f ks q))"

definition bridge_hash :: "bridge \<Rightarrow> kstruct \<Rightarrow> exn + string" where
  "bridge_hash b ks =
     (case b of
        None \<Rightarrow> Inl RuntimeError
      | Some impl \<Rightarrow> capability (c_hash impl) (\<lambda>f. f ks))"

definition supports_hash :: "bridge \<Rightarrow> bool" where
  "supports_hash b = (case b of None \<Rightarrow> False | Some impl \<Rightarrow> c_hash impl \<noteq> None)"

section \<open>The aggregator of diagnostics\<close>

text \<open>\<open>DiagnosticAggregator\<close> (\<open>diagnostics/aggregator.py\<close>) is a list.\<close>

definition by_source :: "diagnostic_source \<Rightarrow> diag list \<Rightarrow> diag list" where
  "by_source s ds = filter (\<lambda>d. case d of Diag x \<Rightarrow> source x = s | Foreign _ \<Rightarrow> False) ds"

definition by_severity :: "diagnostic_severity \<Rightarrow> diag list \<Rightarrow> diag list" where
  "by_severity s ds = filter (\<lambda>d. case d of Diag x \<Rightarrow> severity x = s | Foreign _ \<Rightarrow> False) ds"

definition has_severity :: "diagnostic_severity \<Rightarrow> diag list \<Rightarrow> bool" where
  "has_severity s ds = list_ex (\<lambda>d. case d of Diag x \<Rightarrow> severity x = s | Foreign _ \<Rightarrow> False) ds"

definition severity_count :: "diagnostic_severity \<Rightarrow> diag list \<Rightarrow> nat" where
  "severity_count s ds =
     sum_list (map (\<lambda>d. case d of Diag x \<Rightarrow> if severity x = s then 1 else 0 | Foreign _ \<Rightarrow> 0) ds)"

definition runtime_error_diag :: "string \<Rightarrow> (string, pyval) dict \<Rightarrow> diag" where
  "runtime_error_diag msg m =
     Diag \<lparr>message = msg, source = SourceRuntime, severity = Error, code = None, diagnostic_metadata = m\<rparr>"

lemma severity_count_filter: "severity_count s ds = length (by_severity s ds)"
  by (induction ds) (auto simp: severity_count_def by_severity_def split: diag.splits)

end
