(* ===== verification/Version_Vector.thy ===== *)
theory Version_Vector
  imports Prelude
begin

text \<open>
  Session version vectors (\<open>versioning/version_vector.py\<close>, ADR-007): per-node
  commit clocks kept in a session's metadata, the dominance test behind the merge
  fast paths, and the defensive read of a vector out of opaque metadata.
\<close>

section \<open>The data structure and its operations\<close>

text \<open>\<open>VERSION_VECTOR_KEY\<close>, and the class with its one field.\<close>

definition VERSION_VECTOR_KEY :: string where
  "VERSION_VECTOR_KEY = ''version_vector''"

record version_vector =
  clocks :: "(string, int) dict"

definition empty_vv :: version_vector where
  "empty_vv = \<lparr>clocks = []\<rparr>"

text \<open>\<open>self.clocks.get(node_id, 0)\<close>\<close>

definition clk :: "version_vector \<Rightarrow> string \<Rightarrow> int" where
  "clk v n = dget_or (clocks v) n 0"

definition bump :: "version_vector \<Rightarrow> string \<Rightarrow> version_vector" where
  "bump v n = v\<lparr>clocks := dset (clocks v) n (clk v n + 1)\<rparr>"

definition observe :: "version_vector \<Rightarrow> string \<Rightarrow> int \<Rightarrow> version_vector" where
  "observe v n c = v\<lparr>clocks := dset (clocks v) n (max (clk v n) c)\<rparr>"

fun observe_all :: "version_vector \<Rightarrow> (string \<times> int) list \<Rightarrow> version_vector" where
  "observe_all v [] = v"
| "observe_all v ((n, c) # es) = observe_all (observe v n c) es"

definition absorb :: "version_vector \<Rightarrow> version_vector \<Rightarrow> version_vector" where
  "absorb v w = observe_all v (clocks w)"

definition dominates :: "version_vector \<Rightarrow> version_vector \<Rightarrow> bool" where
  "dominates v w =
     (if clocks v = [] then False
      else list_all (\<lambda>(n, c). c \<le> clk v n) (clocks w))"

text \<open>
  \<open>from_metadata\<close>: anything but an object gives the empty vector, and an entry whose
  value is not an integer (a boolean is not one here) is dropped.
\<close>

fun int_entries :: "(string \<times> pyval) list \<Rightarrow> (string, int) dict" where
  "int_entries [] = []"
| "int_entries ((k, PInt i) # es) = (k, i) # int_entries es"
| "int_entries (_ # es) = int_entries es"

definition vv_from_metadata :: "(string, pyval) dict \<Rightarrow> version_vector" where
  "vv_from_metadata m =
     (case dget m VERSION_VECTOR_KEY of
        Some (PDict raw) \<Rightarrow> \<lparr>clocks = int_entries raw\<rparr>
      | _ \<Rightarrow> empty_vv)"

definition vv_to_metadata :: "version_vector \<Rightarrow> (string, pyval) dict \<Rightarrow> (string, pyval) dict" where
  "vv_to_metadata v m =
     dset m VERSION_VECTOR_KEY (PDict (map (\<lambda>(n, c). (n, PInt c)) (clocks v)))"

text \<open>Python's \<open>==\<close> on the dataclass compares the two dictionaries.\<close>

definition vv_eq :: "version_vector \<Rightarrow> version_vector \<Rightarrow> bool" where
  "vv_eq v w = dict_eq (clocks v) (clocks w)"

section \<open>Well-formedness\<close>

text \<open>
  A vector is well formed when its dictionary has distinct keys and every clock counts
  at least one commit, as every vector built by \<open>bump\<close> and \<open>absorb\<close> does.
\<close>

definition vv_ok :: "version_vector \<Rightarrow> bool" where
  "vv_ok v = (dict_ok (clocks v) \<and> list_all (\<lambda>(_, c). 0 < c) (clocks v))"

definition vv_pos :: "version_vector \<Rightarrow> bool" where
  "vv_pos v = (\<forall>n c. dget (clocks v) n = Some c \<longrightarrow> 0 < c)"

lemma vv_ok_pos: "vv_ok v \<longleftrightarrow> dict_ok (clocks v) \<and> vv_pos v"
  by (auto simp: vv_ok_def vv_pos_def list_all_iff dget_Some_iff)

lemma clk_pos: "vv_ok v \<Longrightarrow> 0 \<le> clk v n"
  by (auto simp: vv_ok_pos vv_pos_def clk_def dget_or_def split: option.splits intro: less_imp_le)

lemma clk_dget: "vv_ok v \<Longrightarrow> dget (clocks v) n = (if clk v n = 0 then None else Some (clk v n))"
  by (auto simp: vv_ok_pos vv_pos_def clk_def dget_or_def split: option.splits)

section \<open>Characteristic equations\<close>

lemma clk_empty [simp]: "clk empty_vv n = 0"
  by (simp add: clk_def empty_vv_def)

lemma clk_bump [simp]: "clk (bump v n) m = (if m = n then clk v n + 1 else clk v m)"
  by (simp add: clk_def bump_def)

lemma clk_observe [simp]: "clk (observe v n c) m = (if m = n then max (clk v n) c else clk v m)"
  by (simp add: clk_def observe_def)

lemma dict_ok_observe_all: "dict_ok (clocks v) \<Longrightarrow> dict_ok (clocks (observe_all v es))"
  by (induction v es rule: observe_all.induct) (auto simp: observe_def)

lemma clk_observe_all:
  "distinct (map fst es) \<Longrightarrow>
   clk (observe_all v es) m = (case map_of es m of None \<Rightarrow> clk v m | Some c \<Rightarrow> max (clk v m) c)"
  by (induction v es rule: observe_all.induct)
    (auto split: option.splits simp: map_of_eq_None_iff rev_image_eqI)

lemma clk_absorb:
  assumes "vv_ok v" "vv_ok w"
  shows "clk (absorb v w) m = max (clk v m) (clk w m)"
  using assms clk_pos [OF assms(1), of m]
  by (auto simp: absorb_def clk_observe_all vv_ok_def dict_ok_def dkeys_def clk_def [of w]
      dget_or_def dget_def max_def split: option.splits)

lemma vv_ok_empty [simp]: "vv_ok empty_vv"
  by (simp add: vv_ok_def empty_vv_def)

lemma vv_ok_bump: "vv_ok v \<Longrightarrow> vv_ok (bump v n)"
  using clk_pos [of v n] by (auto simp: vv_ok_pos bump_def vv_pos_def)

lemma vv_ok_observe: "vv_ok v \<Longrightarrow> 0 < c \<Longrightarrow> vv_ok (observe v n c)"
  by (auto simp: vv_ok_pos observe_def vv_pos_def)

lemma vv_ok_observe_all:
  "vv_ok v \<Longrightarrow> list_all (\<lambda>(_, c). 0 < c) es \<Longrightarrow> vv_ok (observe_all v es)"
  by (induction v es rule: observe_all.induct) (auto simp: vv_ok_observe)

lemma vv_ok_absorb: "vv_ok v \<Longrightarrow> vv_ok w \<Longrightarrow> vv_ok (absorb v w)"
  unfolding absorb_def by (rule vv_ok_observe_all) (simp_all add: vv_ok_def)

text \<open>Dominance is the pointwise order, except that an empty vector dominates nothing.\<close>

lemma dominates_iff:
  assumes "vv_ok v" "vv_ok w"
  shows "dominates v w \<longleftrightarrow> clocks v \<noteq> [] \<and> (\<forall>n. clk w n \<le> clk v n)"
proof -
  have "list_all (\<lambda>(n, c). c \<le> clk v n) (clocks w) \<longleftrightarrow> (\<forall>n. clk w n \<le> clk v n)"
    using assms clk_pos [OF assms(1)]
    by (fastforce simp: list_all_iff vv_ok_def clk_def [of w] dget_or_def
        dget_Some_iff [symmetric] split: option.splits)
  then show ?thesis by (simp add: dominates_def)
qed

lemma clocks_nonempty: "0 < clk v n \<Longrightarrow> clocks v \<noteq> []"
  by (auto simp: clk_def)

lemma nonempty_clk: "vv_ok v \<Longrightarrow> clocks v \<noteq> [] \<Longrightarrow> \<exists>n. 0 < clk v n"
  by (cases "clocks v") (auto simp: vv_ok_def clk_def dget_or_def dict_simps)

text \<open>A vector that has absorbed one that was ahead of it dominates that one.\<close>

lemma absorb_dominates:
  assumes "vv_ok v" and "vv_ok w" and "dominates w v"
  shows "dominates (absorb v w) w"
proof -
  have "clocks w \<noteq> []"
    using assms(3) by (auto simp: dominates_def split: if_splits)
  then obtain n where "0 < clk w n"
    using nonempty_clk [OF assms(2)] by blast
  then have "clocks (absorb v w) \<noteq> []"
    using clk_absorb [OF assms(1,2), of n] clocks_nonempty [of "absorb v w" n] by simp
  then show ?thesis
    using dominates_iff [OF vv_ok_absorb [OF assms(1,2)] assms(2)] clk_absorb [OF assms(1,2)] by simp
qed

lemma vv_eq_iff:
  assumes "vv_ok v" "vv_ok w"
  shows "vv_eq v w \<longleftrightarrow> (\<forall>n. clk v n = clk w n)"
proof
  assume "vv_eq v w"
  then show "\<forall>n. clk v n = clk w n"
    by (simp add: vv_eq_def dict_eq_iff clk_def dget_or_def)
next
  assume "\<forall>n. clk v n = clk w n"
  then have "dget (clocks v) n = dget (clocks w) n" for n
    by (simp add: clk_dget [OF assms(1)] clk_dget [OF assms(2)])
  then show "vv_eq v w"
    by (simp add: vv_eq_def dict_eq_iff fun_eq_iff)
qed

lemma int_entries_PInt [simp]: "int_entries (map (\<lambda>(n, c). (n, PInt c)) es) = es"
  by (induction es) auto

lemma vv_metadata_roundtrip [simp]: "vv_from_metadata (vv_to_metadata v m) = v"
  by (simp add: vv_from_metadata_def vv_to_metadata_def)

lemma vv_to_metadata_other: "k \<noteq> VERSION_VECTOR_KEY \<Longrightarrow> dget (vv_to_metadata v m) k = dget m k"
  by (simp add: vv_to_metadata_def)

lemma vv_from_metadata_dset_other [simp]:
  "k \<noteq> VERSION_VECTOR_KEY \<Longrightarrow> vv_from_metadata (dset m k x) = vv_from_metadata m"
  by (simp add: vv_from_metadata_def)

end
