(* ===== verification/Session.thy ===== *)
theory Session
  imports Core_Bridge Version_Vector
begin

text \<open>
  Versions (\<open>versioning/version.py\<close>), sessions (\<open>session/session.py\<close>) with the
  reconstruction of a recorded state from snapshots and patches, the retry around it
  (\<open>session/reconstruct.py\<close>), and the creation of versions
  (\<open>versioning/version_manager.py\<close>).  Versions are immutable and copied, hence values;
  sessions are mutable and shared, so the runtime's theories hold them behind
  references.
\<close>

record version =
  v_session_id :: string
  v_transaction_id :: string
  v_structure :: "kstruct option"
  v_metadata :: "(string, pyval) dict"
  version_id :: string
  v_created_at :: time
  state_hash :: "string option"
  patch :: "operator list option"

definition is_snapshot :: "version \<Rightarrow> bool" where
  "is_snapshot v = (v_structure v \<noteq> None)"

record session =
  knowledge_structure :: kstruct
  session_id :: string
  metadata :: "(string, pyval) dict"
  snapshot_interval :: int
  session_diagnostics :: "diag list"
  version_history :: "version list"
  active_transaction :: "nat option"
  closed :: bool
  parent_session_id :: "string option"
  parent_version_id :: "string option"

text \<open>The dataclass constructor, with the check of \<open>__post_init__\<close>.\<close>

definition make_session ::
  "kstruct \<Rightarrow> string \<Rightarrow> (string, pyval) dict \<Rightarrow> int \<Rightarrow> string option \<Rightarrow> string option \<Rightarrow> exn + session" where
  "make_session ks sid m interval parent parent_version =
     (if interval \<le> 0 then Inl ValueError
      else Inr \<lparr>knowledge_structure = ks, session_id = sid, metadata = m, snapshot_interval = interval,
                session_diagnostics = [], version_history = [], active_transaction = None, closed = False,
                parent_session_id = parent, parent_version_id = parent_version\<rparr>)"

definition has_active_transaction :: "session \<Rightarrow> bool" where
  "has_active_transaction s = (active_transaction s \<noteq> None)"

definition has_versions :: "session \<Rightarrow> bool" where
  "has_versions s = (version_history s \<noteq> [])"

definition version_count :: "session \<Rightarrow> nat" where
  "version_count s = length (version_history s)"

definition is_branch :: "session \<Rightarrow> bool" where
  "is_branch s = (parent_session_id s \<noteq> None)"

definition close_session :: "session \<Rightarrow> session" where
  "close_session s = s\<lparr>closed := True\<rparr>"

definition add_diagnostic :: "diag \<Rightarrow> session \<Rightarrow> session" where
  "add_diagnostic d s = s\<lparr>session_diagnostics := session_diagnostics s @ [d]\<rparr>"

definition add_version :: "version \<Rightarrow> session \<Rightarrow> session" where
  "add_version v s = s\<lparr>version_history := version_history s @ [v]\<rparr>"

definition attach_transaction :: "nat \<Rightarrow> session \<Rightarrow> session" where
  "attach_transaction t s = s\<lparr>active_transaction := Some t\<rparr>"

definition detach_transaction :: "session \<Rightarrow> session" where
  "detach_transaction s = s\<lparr>active_transaction := None\<rparr>"

section \<open>Reconstruction\<close>

fun is_add_object :: "operator \<Rightarrow> bool" where
  "is_add_object (AddObject _) = True"
| "is_add_object _ = False"

text \<open>The loop of \<open>_dedupe_replayed_add_objects\<close>; both branches on a repeated id skip.\<close>

fun dedupe_loop :: "(string, kobj) dict \<Rightarrow> operator list \<Rightarrow> operator list" where
  "dedupe_loop existing [] = []"
| "dedupe_loop existing (RemoveObject i # ops) = RemoveObject i # dedupe_loop (dpop existing i) ops"
| "dedupe_loop existing (AddObject k # ops) =
     (if dhas existing (obj_id k) then dedupe_loop existing ops
      else AddObject k # dedupe_loop (dset existing (obj_id k) k) ops)"
| "dedupe_loop existing (p # ops) = p # dedupe_loop existing ops"

fun objects_dict :: "kobj list \<Rightarrow> (string, kobj) dict \<Rightarrow> (string, kobj) dict" where
  "objects_dict [] d = d"
| "objects_dict (k # ks) d = objects_dict ks (dset d (obj_id k) k)"

definition dedupe_replayed_add_objects :: "kstruct \<Rightarrow> operator list \<Rightarrow> operator list" where
  "dedupe_replayed_add_objects state ops =
     (if \<not> list_ex is_add_object ops then ops
      else dedupe_loop (objects_dict (ks_objects state) []) ops)"

definition verify_checkpoint :: "bridge option \<Rightarrow> version \<Rightarrow> kstruct option \<Rightarrow> exn + unit" where
  "verify_checkpoint core_bridge v structure =
     (case (state_hash v, core_bridge, structure) of
        (Some expected, Some b, Some ks) \<Rightarrow>
          (case bridge_hash b ks of
             Inl e \<Rightarrow> if is_runtime_error e then Inr () else Inl e
           | Inr actual \<Rightarrow> if actual \<noteq> expected then Inl HashMismatch else Inr ())
      | _ \<Rightarrow> Inr ())"

fun version_index :: "version list \<Rightarrow> string \<Rightarrow> nat option" where
  "version_index [] vid = None"
| "version_index (v # vs) vid = (if version_id v = vid then Some 0 else map_option Suc (version_index vs vid))"

text \<open>The search for the snapshot at or before an index.\<close>

fun find_snapshot :: "version list \<Rightarrow> nat \<Rightarrow> nat option" where
  "find_snapshot h 0 = (if is_snapshot (h ! 0) then Some 0 else None)"
| "find_snapshot h (Suc n) = (if is_snapshot (h ! Suc n) then Some (Suc n) else find_snapshot h n)"

fun replay :: "bridge \<Rightarrow> version list \<Rightarrow> kstruct \<Rightarrow> exn + kstruct" where
  "replay b [] state = Inr state"
| "replay b (v # vs) state =
     (case patch v of
        None \<Rightarrow> Inl ValueError
      | Some ops \<Rightarrow>
          (case bridge_evolve b state (dedupe_replayed_add_objects state ops) of
             Inl e \<Rightarrow> Inl e
           | Inr state' \<Rightarrow>
               (case verify_checkpoint (Some b) v (Some state') of
                  Inl e \<Rightarrow> Inl e
                | Inr _ \<Rightarrow> replay b vs state')))"

definition get_version_state :: "session \<Rightarrow> string \<Rightarrow> bridge option \<Rightarrow> exn + kstruct" where
  "get_version_state s vid core_bridge =
     (let h = version_history s
      in case version_index h vid of
           None \<Rightarrow> Inl ValueError
         | Some index \<Rightarrow>
             (case v_structure (h ! index) of
                Some ks \<Rightarrow>
                  (case verify_checkpoint core_bridge (h ! index) (Some ks) of Inl e \<Rightarrow> Inl e | Inr _ \<Rightarrow> Inr ks)
              | None \<Rightarrow>
                  (case core_bridge of
                     None \<Rightarrow> Inl ValueError
                   | Some b \<Rightarrow>
                       (case find_snapshot h index of
                          None \<Rightarrow> Inl ValueError
                        | Some snapshot_index \<Rightarrow>
                            (case v_structure (h ! snapshot_index) of
                               None \<Rightarrow> Inl ValueError
                             | Some state \<Rightarrow>
                                 (case verify_checkpoint core_bridge (h ! snapshot_index) (Some state) of
                                    Inl e \<Rightarrow> Inl e
                                  | Inr _ \<Rightarrow>
                                      replay b (drop (snapshot_index + 1) (take (index + 1) h)) state))))))"

text \<open>\<open>load\<close> is the storage's \<open>load_session\<close>.\<close>

definition reconstruct_with_retry ::
  "(string \<Rightarrow> exn + session option) \<Rightarrow> string \<Rightarrow> session \<Rightarrow> string \<Rightarrow> bridge option \<Rightarrow> exn + kstruct" where
  "reconstruct_with_retry load sid s vid core_bridge =
     (case get_version_state s vid core_bridge of
        Inr ks \<Rightarrow> Inr ks
      | Inl e \<Rightarrow>
          if e \<noteq> HashMismatch then Inl e
          else case load sid of
                 Inl e' \<Rightarrow> Inl e'
               | Inr None \<Rightarrow> Inl e
               | Inr (Some fresh) \<Rightarrow> get_version_state fresh vid core_bridge)"

section \<open>Creating versions\<close>

text \<open>
  \<open>VersionManager.create\<close>: the fresh \<open>version_id\<close> and the time are arguments, and so is
  the id of the active transaction, if any.  The bumped vector is in the session's
  metadata whatever happens afterwards.
\<close>

definition bump_metadata :: "string option \<Rightarrow> string option \<Rightarrow> session \<Rightarrow> session" where
  "bump_metadata node_id replica_id s =
     (if node_id = None \<and> replica_id = None then s
      else
        let vector = vv_from_metadata (metadata s);
            vector = (case node_id of None \<Rightarrow> vector | Some n \<Rightarrow> bump vector n);
            vector = (case replica_id of None \<Rightarrow> vector | Some r \<Rightarrow> bump vector r)
        in s\<lparr>metadata := vv_to_metadata vector (metadata s)\<rparr>)"

definition snapshot_due :: "bridge option \<Rightarrow> session \<Rightarrow> bool" where
  "snapshot_due core_bridge s =
     (let index = length (version_history s)
      in core_bridge = None \<or> index = 0 \<or> int index mod snapshot_interval s = 0)"

definition create_version ::
  "bridge option \<Rightarrow> kstruct option \<Rightarrow> string option \<Rightarrow> string option \<Rightarrow> string \<Rightarrow> string \<Rightarrow> time
     \<Rightarrow> (session, version) sx" where
  "create_version core_bridge previous_state node_id replica_id transaction_id vid now s =
     (let s = bump_metadata node_id replica_id s;
          hash = (case core_bridge of
                    None \<Rightarrow> Inr None
                  | Some b \<Rightarrow>
                      (case bridge_hash b (knowledge_structure s) of
                         Inl e \<Rightarrow> if is_runtime_error e then Inr None else Inl e
                       | Inr h \<Rightarrow> Inr (Some h)));
          new = \<lparr>v_session_id = session_id s, v_transaction_id = transaction_id, v_structure = None,
                 v_metadata = metadata s, version_id = vid, v_created_at = now, state_hash = None, patch = None\<rparr>
      in case hash of
           Inl e \<Rightarrow> (Inl e, s)
         | Inr state_h \<Rightarrow>
             if snapshot_due core_bridge s
             then let v = new\<lparr>v_structure := Some (knowledge_structure s), state_hash := state_h\<rparr>
                  in (Inr v, add_version v s)
             else case (previous_state, core_bridge) of
                    (Some previous, Some b) \<Rightarrow>
                      (case bridge_diff b previous (knowledge_structure s) of
                         Inl e \<Rightarrow> (Inl e, s)
                       | Inr ops \<Rightarrow>
                           let v = new\<lparr>state_hash := state_h, patch := Some ops\<rparr>
                           in (Inr v, add_version v s))
                  | _ \<Rightarrow> (Inl ValueError, s))"

definition latest_version :: "session \<Rightarrow> version option" where
  "latest_version s = (if \<not> has_versions s then None else Some (last (version_history s)))"

definition retrieve_version :: "session \<Rightarrow> string \<Rightarrow> version option" where
  "retrieve_version s vid = find (\<lambda>v. version_id v = vid) (version_history s)"

definition clear_versions :: "session \<Rightarrow> session" where
  "clear_versions s = s\<lparr>version_history := []\<rparr>"


section \<open>What a plug-in promises\<close>

text \<open>A patch adds an object only under an id that is free at that point.\<close>

fun adds_new :: "string set \<Rightarrow> operator list \<Rightarrow> bool" where
  "adds_new ids [] = True"
| "adds_new ids (AddObject k # ops) = (obj_id k \<notin> ids \<and> adds_new (insert (obj_id k) ids) ops)"
| "adds_new ids (RemoveObject i # ops) = adds_new (ids - {i}) ops"
| "adds_new ids (_ # ops) = adds_new ids ops"

definition object_ids :: "kstruct \<Rightarrow> string set" where
  "object_ids ks = obj_id ` set (ks_objects ks)"

text \<open>
  The documented contract of \<open>diff\<close> and \<open>evolve\<close>: the patch from one structure to
  another is applicable and leads there.
\<close>

definition replays_diffs :: "bridge \<Rightarrow> bool" where
  "replays_diffs b \<longleftrightarrow>
     (\<forall>s t ops. bridge_diff b s t = Inr ops \<longrightarrow> adds_new (object_ids s) ops \<and> bridge_evolve b s ops = Inr t)"

lemma dedupe_loop_id: "adds_new (set (dkeys d)) ops \<Longrightarrow> dedupe_loop d ops = ops"
  by (induction d ops rule: dedupe_loop.induct) (auto simp: dhas_iff)

lemma keys_objects_dict: "set (dkeys (objects_dict ks d)) = obj_id ` set ks \<union> set (dkeys d)"
  by (induction ks arbitrary: d) auto

lemma dedupe_id:
  assumes "adds_new (object_ids s) ops"
  shows "dedupe_replayed_add_objects s ops = ops"
proof -
  have "set (dkeys (objects_dict (ks_objects s) [])) = object_ids s"
    by (simp add: keys_objects_dict object_ids_def) (simp add: dkeys_def)
  then show ?thesis
    using assms dedupe_loop_id by (simp add: dedupe_replayed_add_objects_def)
qed

section \<open>Faithful histories\<close>

text \<open>
  \<open>faithful b p vs ss\<close>: the versions \<open>vs\<close> record the states \<open>ss\<close>, one by one, where
  \<open>p\<close> is the state before the first of them (\<open>None\<close> at the start of a session).
\<close>

definition records :: "bridge \<Rightarrow> kstruct option \<Rightarrow> kstruct \<Rightarrow> version \<Rightarrow> bool" where
  "records b p s v \<longleftrightarrow>
     (case v_structure v of
        Some ks \<Rightarrow> ks = s
      | None \<Rightarrow> \<exists>q ops. p = Some q \<and> patch v = Some ops \<and> bridge_diff b q s = Inr ops) \<and>
     (\<forall>h. state_hash v = Some h \<longrightarrow> bridge_hash b s = Inr h)"

fun faithful :: "bridge \<Rightarrow> kstruct option \<Rightarrow> version list \<Rightarrow> kstruct list \<Rightarrow> bool" where
  "faithful b p [] [] = True"
| "faithful b p (v # vs) (s # ss) = (records b p s v \<and> faithful b (Some s) vs ss)"
| "faithful b p _ _ = False"

lemma faithful_length: "faithful b p vs ss \<Longrightarrow> length vs = length ss"
  by (induction b p vs ss rule: faithful.induct) auto

lemma faithful_append:
  "length vs = length ss \<Longrightarrow>
   faithful b p (vs @ vs') (ss @ ss') \<longleftrightarrow>
     faithful b p vs ss \<and> faithful b (if ss = [] then p else Some (last ss)) vs' ss'"
  by (induction vs ss arbitrary: p rule: list_induct2) auto

lemma faithful_split:
  assumes "faithful b p vs ss" and "k < length vs"
  shows "records b (if k = 0 then p else Some (ss ! (k - 1))) (ss ! k) (vs ! k) \<and>
    faithful b (Some (ss ! k)) (drop (Suc k) vs) (drop (Suc k) ss)"
  using assms
proof (induction k arbitrary: p vs ss)
  case 0
  then show ?case
    by (cases vs; cases ss) auto
next
  case (Suc k)
  then obtain v vs' s ss' where vs: "vs = v # vs'" "ss = s # ss'"
    by (cases vs; cases ss) auto
  then have "records b (if k = 0 then Some s else Some (ss' ! (k - 1))) (ss' ! k) (vs' ! k) \<and>
      faithful b (Some (ss' ! k)) (drop (Suc k) vs') (drop (Suc k) ss')"
    using Suc.IH [of "Some s" vs' ss'] Suc.prems by auto
  then show ?case
    by (cases k) (auto simp: vs)
qed

lemma faithful_take: "faithful b p vs ss \<Longrightarrow> faithful b p (take n vs) (take n ss)"
  by (induction b p vs ss arbitrary: n rule: faithful.induct) (auto simp: take_Cons split: nat.splits)

lemma verify_recorded: "records b p s v \<Longrightarrow> verify_checkpoint (Some b) v (Some s) = Inr ()"
  by (auto simp: records_def verify_checkpoint_def split: option.splits)

lemma replay_faithful:
  "replays_diffs b \<Longrightarrow> faithful b (Some s) vs ss \<Longrightarrow> list_all (\<lambda>v. \<not> is_snapshot v) vs \<Longrightarrow>
   replay b vs s = Inr (last (s # ss))"
proof (induction vs arbitrary: s ss)
  case Nil
  then show ?case
    by (cases ss) auto
next
  case (Cons v vs)
  then obtain t ss' where ss: "ss = t # ss'" "records b (Some s) t v" "faithful b (Some t) vs ss'"
    by (cases ss) auto
  then obtain ops where ops: "patch v = Some ops" "bridge_diff b s t = Inr ops"
    using Cons.prems(3) by (auto simp: records_def is_snapshot_def)
  then have "bridge_evolve b s (dedupe_replayed_add_objects s ops) = Inr t"
    using Cons.prems(1) by (simp add: replays_diffs_def dedupe_id)
  then show ?case
    using Cons.IH [OF Cons.prems(1) ss(3)] Cons.prems(3) ops(1) verify_recorded [OF ss(2)] by (simp add: ss(1))
qed

lemma find_snapshot_sound:
  "find_snapshot h n = Some k \<Longrightarrow> k \<le> n \<and> is_snapshot (h ! k) \<and> (\<forall>j. k < j \<and> j \<le> n \<longrightarrow> \<not> is_snapshot (h ! j))"
proof (induction n)
  case (Suc n)
  then show ?case
    by (auto simp: le_Suc_eq split: if_splits)
qed (auto split: if_splits)

lemma find_snapshot_some: "is_snapshot (h ! 0) \<Longrightarrow> \<exists>k. find_snapshot h n = Some k"
  by (induction n) auto

lemma version_index_nth:
  "distinct (map version_id h) \<Longrightarrow> i < length h \<Longrightarrow> version_index h (version_id (h ! i)) = Some i"
proof (induction h arbitrary: i)
  case (Cons v h)
  then show ?case
    by (cases i) (auto dest: nth_mem simp: image_iff)
qed simp

lemma first_snapshot:
  assumes "faithful b None vs ss" and "vs \<noteq> []"
  shows "is_snapshot (vs ! 0)"
  using assms by (cases vs; cases ss) (auto simp: records_def is_snapshot_def split: option.splits)

lemma reconstruct_faithful:
  assumes "replays_diffs b" and "faithful b None (version_history s) ss"
    and "distinct (map version_id (version_history s))" and "i < length ss"
  shows "get_version_state s (version_id (version_history s ! i)) (Some b) = Inr (ss ! i)"
proof -
  let ?h = "version_history s"
  have i: "i < length ?h"
    using assms(2,4) faithful_length by metis
  have idx: "version_index ?h (version_id (?h ! i)) = Some i"
    using version_index_nth [OF assms(3) i] .
  have zero: "is_snapshot (?h ! 0)"
    using first_snapshot [OF assms(2)] i by (cases "version_history s = []") simp_all
  then obtain k where k: "find_snapshot ?h i = Some k"
    using find_snapshot_some by blast
  note ks = find_snapshot_sound [OF k]
  have rec: "records b p (ss ! k) (?h ! k) \<Longrightarrow> v_structure (?h ! k) = Some (ss ! k)" for p
    using ks by (auto simp: records_def is_snapshot_def split: option.splits)
  have ki: "k < length ?h"
    using ks i by linarith
  note f = faithful_split [OF assms(2) ki]
  have "faithful b (Some (ss ! k)) (drop (k + 1) (take (i + 1) ?h)) (drop (k + 1) (take (i + 1) ss))"
    using conjunct2 [OF f] faithful_take [of b _ _ _ "i - k"] ks by (simp add: drop_take)
  moreover have "list_all (\<lambda>v. \<not> is_snapshot v) (drop (k + 1) (take (i + 1) ?h))"
    using ks i by (auto simp: list_all_length)
  ultimately have rep: "replay b (drop (k + 1) (take (i + 1) ?h)) (ss ! k) =
      Inr (last (ss ! k # drop (k + 1) (take (i + 1) ss)))"
    by (rule replay_faithful [OF assms(1)])
  have "ss ! k # drop (k + 1) (take (i + 1) ss) = drop k (take (i + 1) ss)"
    using ks assms(4) by (subst Cons_nth_drop_Suc [symmetric]) auto
  then have "last (ss ! k # drop (k + 1) (take (i + 1) ss)) = ss ! i"
    using ks assms(4) by (simp add: last_drop take_Suc_conv_app_nth)
  then have delta: "replay b (drop (k + 1) (take (i + 1) ?h)) (ss ! k) = Inr (ss ! i)"
    using rep by simp
  note fi = conjunct1 [OF faithful_split [OF assms(2) i]]
  show ?thesis
  proof (cases "v_structure (?h ! i)")
    case None
    then show ?thesis
      using idx k rec [OF conjunct1 [OF f]] verify_recorded [OF conjunct1 [OF f]] delta
      by (simp add: get_version_state_def Let_def)
  next
    case (Some a)
    then have "a = ss ! i"
      using fi by (simp add: records_def)
    then show ?thesis
      using Some idx verify_recorded [OF fi] by (simp add: get_version_state_def Let_def)
  qed
qed

section \<open>Creating keeps a history faithful\<close>

lemma bump_metadata_frame [simp]:
  "knowledge_structure (bump_metadata n r s) = knowledge_structure s"
  "version_history (bump_metadata n r s) = version_history s"
  "session_id (bump_metadata n r s) = session_id s"
  "snapshot_interval (bump_metadata n r s) = snapshot_interval s"
  "active_transaction (bump_metadata n r s) = active_transaction s"
  "closed (bump_metadata n r s) = closed s"
  by (simp_all add: bump_metadata_def Let_def)

lemma bump_metadata_clock:
  "clk (vv_from_metadata (metadata (bump_metadata node replica s))) n =
     clk (vv_from_metadata (metadata s)) n + (if Some n = node then 1 else 0) + (if Some n = replica then 1 else 0)"
  by (auto simp: bump_metadata_def Let_def split: option.splits)

lemma create_version_records:
  assumes "create_version (Some b) prev node replica tid vid now s = (Inr v, s')"
    and "version_history s \<noteq> [] \<Longrightarrow> prev \<noteq> None"
  shows "records b (if version_history s = [] then None else prev) (knowledge_structure s) v \<and>
    version_id v = vid \<and> v_session_id v = session_id s \<and> v_transaction_id v = tid \<and>
    s' = add_version v (bump_metadata node replica s) \<and> v_metadata v = metadata s' \<and>
    (is_snapshot v \<longleftrightarrow> snapshot_due (Some b) s)"
  using assms
  by (auto simp: create_version_def Let_def records_def is_snapshot_def snapshot_due_def add_version_def
      split: sum.splits option.splits if_splits)

lemma create_version_error:
  assumes "create_version core prev node replica tid vid now s = (Inl e, s')"
  shows "s' = bump_metadata node replica s"
  using assms by (auto simp: create_version_def Let_def split: sum.splits option.splits if_splits)


lemma create_version_faithful:
  assumes "create_version (Some b) (Some prev) node replica tid vid now s = (Inr v, s')"
    and "faithful b None (version_history s) ss" and "ss \<noteq> [] \<Longrightarrow> prev = last ss"
    and "distinct (map version_id (version_history s))" and "vid \<notin> version_id ` set (version_history s)"
  shows "faithful b None (version_history s') (ss @ [knowledge_structure s]) \<and>
    distinct (map version_id (version_history s')) \<and> knowledge_structure s' = knowledge_structure s"
proof -
  have r: "records b (if version_history s = [] then None else Some prev) (knowledge_structure s) v"
    "version_id v = vid" "version_history s' = version_history s @ [v]" "knowledge_structure s' = knowledge_structure s"
    using create_version_records [OF assms(1)] by (simp_all add: add_version_def)
  have "version_history s = [] \<longleftrightarrow> ss = []"
    using faithful_length [OF assms(2)] by auto
  then have "records b (if ss = [] then None else Some (last ss)) (knowledge_structure s) v"
    using r(1) assms(3) by (cases "ss = []") auto
  then show ?thesis
    using assms(2,4,5) r(2-4) faithful_length [OF assms(2)] by (auto simp: faithful_append)
qed

section \<open>A sample plug-in\<close>

text \<open>It adds objects at the end and refuses every other change.\<close>

fun apply_operator :: "operator \<Rightarrow> kstruct \<Rightarrow> kstruct" where
  "apply_operator (AddObject k) ks = \<lparr>ks_objects = ks_objects ks @ [k]\<rparr>"
| "apply_operator _ ks = ks"

definition sample_diff :: "kstruct \<Rightarrow> kstruct \<Rightarrow> exn + operator list" where
  "sample_diff s t =
     (if t = s then Inr []
      else case rev (ks_objects t) of
             [] \<Rightarrow> Inl ValueError
           | k # ks \<Rightarrow>
               if rev ks = ks_objects s \<and> obj_id k \<notin> set (map obj_id (ks_objects s)) then Inr [AddObject k]
               else Inl ValueError)"

definition sample_core :: core_impl where
  "sample_core =
     \<lparr>c_validate = (\<lambda>ks x. Inr (Some validation_success)),
      c_evolve = (\<lambda>ks ops. Inr (fold apply_operator ops ks)),
      c_serialize = (\<lambda>ks. Inr []),
      c_explain = (\<lambda>ks. Inr PNone),
      c_diff = sample_diff,
      c_explain_inference = None, c_field_diff = None, c_synthesize_merge = None, c_merge = None,
      c_query_subgraph = None, c_hash = None\<rparr>"

lemma sample_replays: "replays_diffs (Some sample_core)"
proof -
  have "adds_new (object_ids s) ops \<and> fold apply_operator ops s = t" if "sample_diff s t = Inr ops" for s t ops
    using that
    by (cases "rev (ks_objects t)")
      (auto simp: sample_diff_def object_ids_def rev_swap split: if_splits)
  then show ?thesis
    by (simp add: replays_diffs_def bridge_diff_def bridge_evolve_def sample_core_def)
qed

definition sample_kobj :: "string \<Rightarrow> kobj" where
  "sample_kobj i =
     \<lparr>ko_identity = \<lparr>oi_id = i, oi_type = ''fact'', oi_name = i\<rparr>, ko_structure = [], ko_hash = [],
      ko_relation = None\<rparr>"

definition sample_session :: session where
  "sample_session =
     \<lparr>knowledge_structure = \<lparr>ks_objects = []\<rparr>, session_id = ''s'', metadata = [(''node_id'', PStr ''n'')],
      snapshot_interval = 10, session_diagnostics = [], version_history = [], active_transaction = None,
      closed = False, parent_session_id = None, parent_version_id = None\<rparr>"

section \<open>Properties\<close>

text \<open>C1: Recording a state keeps the whole history readable: if the versions of a session
  record the states \<open>ss\<close>, and one more version is created for the session's current
  structure against the last of them, then every version id of the session, old and new,
  reconstructs exactly the state recorded under it, snapshot or delta; the new version is a
  snapshot exactly when it is the first or its index is a multiple of the interval.\<close>

theorem history_reconstructs:
  assumes "replays_diffs b" and "faithful b None (version_history s) ss"
    and "ss \<noteq> [] \<Longrightarrow> prev = last ss" and "distinct (map version_id (version_history s))"
    and "vid \<notin> version_id ` set (version_history s)"
    and "create_version (Some b) (Some prev) node replica tid vid now s = (Inr v, s')"
  shows "length (version_history s') = length ss + 1 \<and>
    (\<forall>i < length ss + 1. get_version_state s' (version_id (version_history s' ! i)) (Some b) =
       Inr ((ss @ [knowledge_structure s]) ! i)) \<and>
    version_id (last (version_history s')) = vid \<and>
    (is_snapshot v \<longleftrightarrow> length ss = 0 \<or> int (length ss) mod snapshot_interval s = 0)"
proof -
  note f = create_version_faithful [OF assms(6,2,3,4,5)]
  have h: "version_history s' = version_history s @ [v]" "version_id v = vid"
    "is_snapshot v \<longleftrightarrow> snapshot_due (Some b) s"
    using create_version_records [OF assms(6)] by (simp_all add: add_version_def)
  have len: "length (version_history s) = length ss"
    using faithful_length [OF assms(2)] .
  have "get_version_state s' (version_id (version_history s' ! i)) (Some b) = Inr ((ss @ [knowledge_structure s]) ! i)"
    if "i < length ss + 1" for i
    using reconstruct_faithful [OF assms(1), of s' "ss @ [knowledge_structure s]" i] f that by simp
  then show ?thesis
    using h len by (auto simp: snapshot_due_def Let_def)
qed

definition one_object :: kstruct where
  "one_object = \<lparr>ks_objects = [sample_kobj ''x'']\<rparr>"

theorem history_reconstructs_witness:
  "\<exists>v s'. create_version (Some (Some sample_core)) (Some \<lparr>ks_objects = []\<rparr>) (Some ''n'') None ''t'' ''v1'' 5
       (sample_session\<lparr>knowledge_structure := one_object, version_history :=
          [\<lparr>v_session_id = ''s'', v_transaction_id = ''t0'', v_structure = Some \<lparr>ks_objects = []\<rparr>, v_metadata = [],
            version_id = ''v0'', v_created_at = 1, state_hash = None, patch = None\<rparr>]\<rparr>) = (Inr v, s') \<and>
     \<not> is_snapshot v \<and> get_version_state s' ''v1'' (Some (Some sample_core)) = Inr one_object \<and>
     get_version_state s' ''v0'' (Some (Some sample_core)) = Inr \<lparr>ks_objects = []\<rparr>"
proof -
  let ?v0 = "\<lparr>v_session_id = ''s'', v_transaction_id = ''t0'', v_structure = Some \<lparr>ks_objects = []\<rparr>, v_metadata = [],
            version_id = ''v0'', v_created_at = 1, state_hash = None, patch = None\<rparr>"
  let ?s = "sample_session\<lparr>knowledge_structure := one_object, version_history := [?v0]\<rparr>"
  obtain v s' where c: "create_version (Some (Some sample_core)) (Some \<lparr>ks_objects = []\<rparr>) (Some ''n'') None ''t'' ''v1'' 5 ?s
      = (Inr v, s')" "version_history s' = [?v0, v]" "version_id v = ''v1''"
    by (simp add: create_version_def Let_def bridge_hash_def sample_core_def capability_def snapshot_due_def
        bridge_diff_def sample_diff_def one_object_def sample_session_def sample_kobj_def add_version_def
        bump_metadata_def)
  have "faithful (Some sample_core) None [?v0] [\<lparr>ks_objects = []\<rparr>]"
    by (simp add: records_def)
  then have "\<forall>i < 2. get_version_state s' (version_id (version_history s' ! i)) (Some (Some sample_core)) =
       Inr (([\<lparr>ks_objects = []\<rparr>] @ [one_object]) ! i)" "\<not> is_snapshot v"
    using history_reconstructs [OF sample_replays, of ?s "[\<lparr>ks_objects = []\<rparr>]" "\<lparr>ks_objects = []\<rparr>" "''v1''"
        "Some ''n''" None "''t''" 5 v s'] c(1) by (simp_all add: sample_session_def)
  from this(1) have "get_version_state s' ''v0'' (Some (Some sample_core)) = Inr \<lparr>ks_objects = []\<rparr>"
    "get_version_state s' ''v1'' (Some (Some sample_core)) = Inr one_object"
    using c(2,3) by (auto dest: spec [of _ 0] spec [of _ 1])
  then show ?thesis
    using c(1) \<open>\<not> is_snapshot v\<close> by blast
qed

text \<open>Without a plug-in a bridge still exists, so every version but those at the interval is
  a delta with an empty patch, and reconstructing it yields the snapshot before it.\<close>

lemma no_plugin_delta_lost:
  "\<exists>v s'. create_version (Some None) (Some \<lparr>ks_objects = []\<rparr>) None None ''t'' ''v1'' 5
       (sample_session\<lparr>knowledge_structure := one_object, version_history :=
          [\<lparr>v_session_id = ''s'', v_transaction_id = ''t0'', v_structure = Some \<lparr>ks_objects = []\<rparr>, v_metadata = [],
            version_id = ''v0'', v_created_at = 1, state_hash = None, patch = None\<rparr>]\<rparr>) = (Inr v, s') \<and>
     knowledge_structure s' = one_object \<and>
     get_version_state s' ''v1'' (Some None) = Inr \<lparr>ks_objects = []\<rparr>"
  by (simp add: create_version_def Let_def bridge_hash_def snapshot_due_def bridge_diff_def one_object_def
      sample_session_def sample_kobj_def add_version_def bump_metadata_def get_version_state_def
      is_snapshot_def verify_checkpoint_def bridge_evolve_def dedupe_replayed_add_objects_def)

text \<open>Creating a version touches the history and the metadata only; when it raises, the
  vectors have been bumped and no version is added.\<close>

lemma create_version_outcome:
  "case create_version core prev node replica tid vid now s of
     (Inl e, s') \<Rightarrow> version_history s' = version_history s \<and> knowledge_structure s' = knowledge_structure s
   | (Inr v, s') \<Rightarrow> version_history s' = version_history s @ [v] \<and> knowledge_structure s' = knowledge_structure s \<and>
       v_metadata v = metadata s'"
  by (auto simp: create_version_def Let_def add_version_def split: sum.splits option.splits)

lemma create_version_clock:
  "clk (vv_from_metadata (metadata (snd (create_version core prev node replica tid vid now s)))) n =
     clk (vv_from_metadata (metadata s)) n + (if Some n = node then 1 else 0) + (if Some n = replica then 1 else 0)"
proof -
  have "metadata (snd (create_version core prev node replica tid vid now s)) = metadata (bump_metadata node replica s)"
    by (auto simp: create_version_def Let_def add_version_def split: sum.splits option.splits)
  then show ?thesis
    by (simp add: bump_metadata_clock)
qed

end
