(* ===== verification/Session_Store.thy ===== *)
theory Session_Store
  imports Session
begin

text \<open>
  The contract of \<open>RuntimeStorage.save_session\<close> (\<open>storage/storage.py\<close>) that a commit relies
  on: optimistic locking by the id of the latest version.  The locale states it over any
  backend, and its lemmas say what it gives to writers that race; the backends interpret
  it.
\<close>

definition latest_id :: "session \<Rightarrow> string option" where
  "latest_id s = (if version_history s = [] then None else Some (version_id (last (version_history s))))"

lemma latest_id_add_version [simp]: "latest_id (add_version v s) = Some (version_id v)"
  by (simp add: latest_id_def add_version_def)

text \<open>What the pipeline stores for a commit (\<open>ExecutionPipeline._persist\<close>): the version, then
  the session under the id it had before.\<close>

definition persist ::
  "(version \<Rightarrow> ('st, unit) sx) \<Rightarrow> (session \<Rightarrow> string option \<Rightarrow> ('st, unit) sx) \<Rightarrow> version \<Rightarrow> session
     \<Rightarrow> string option \<Rightarrow> ('st, unit) sx" where
  "persist save_version save_session v s expected = bindM (save_version v) (\<lambda>_. save_session s expected)"

text \<open>
  Attempts to save, by any writers in any order: each names a session and the latest version
  the writer has seen.  The result lists the attempts that succeeded.
\<close>

fun attempts ::
  "('t \<Rightarrow> session \<Rightarrow> string option \<Rightarrow> ('st, unit) sx) \<Rightarrow> ('t \<times> session \<times> string) list \<Rightarrow> 'st
     \<Rightarrow> (session \<times> string) list \<times> 'st" where
  "attempts save [] st = ([], st)"
| "attempts save ((t, s, e) # as) st =
     (case save t s (Some e) st of
        (Inl _, st') \<Rightarrow> attempts save as st'
      | (Inr _, st') \<Rightarrow> (case attempts save as st' of (won, st'') \<Rightarrow> ((s, e) # won, st'')))"

text \<open>Who should win: a writer that has seen the latest version of its turn.\<close>

fun winners :: "string option \<Rightarrow> ('t \<times> session \<times> string) list \<Rightarrow> (session \<times> string) list" where
  "winners l [] = []"
| "winners l ((t, s, e) # as) = (if l = Some e then (s, e) # winners (latest_id s) as else winners l as)"

text \<open>Each save of a list was made by a writer that had seen the save before it.\<close>

fun chain :: "string option \<Rightarrow> (session \<times> string) list \<Rightarrow> bool" where
  "chain l [] = True"
| "chain l ((s, e) # xs) = (l = Some e \<and> chain (latest_id s) xs)"

fun chain_end :: "string option \<Rightarrow> (session \<times> string) list \<Rightarrow> string option" where
  "chain_end l [] = l"
| "chain_end l ((s, e) # xs) = chain_end (latest_id s) xs"

lemma chain_winners: "chain l (winners l as)"
  by (induction l as rule: winners.induct) auto

lemma chain_expected: "chain l xs \<Longrightarrow> set (map (Some \<circ> snd) xs) \<subseteq> insert l (set (map (latest_id \<circ> fst) xs))"
  by (induction l xs rule: chain.induct) auto

lemma chain_distinct:
  "chain l xs \<Longrightarrow> distinct (l # map (latest_id \<circ> fst) xs) \<Longrightarrow> distinct (map snd xs)"
proof (induction l xs rule: chain.induct)
  case (2 l s e xs)
  have "Some e \<notin> set (map (Some \<circ> snd) xs)"
    using chain_expected [of "latest_id s" xs] 2(2,3) by auto
  then show ?case
    using 2 by auto
qed simp

locale session_store =
  fixes save :: "'t \<Rightarrow> session \<Rightarrow> string option \<Rightarrow> ('st, unit) sx"
    and recorded :: "'st \<Rightarrow> string \<Rightarrow> string option option"
  assumes save_seen: "recorded st (session_id s) = Some (Some e) \<Longrightarrow>
      fst (save t s (Some e) st) = Inr () \<and>
      recorded (snd (save t s (Some e) st)) = (recorded st)(session_id s \<mapsto> latest_id s)"
    and save_unseen: "recorded st (session_id s) = Some l \<Longrightarrow> l \<noteq> Some e \<Longrightarrow>
      save t s (Some e) st = (Inl ConcurrentModificationError, st)"
    and save_unguarded: "fst (save t s None st) = Inr () \<and>
      recorded (snd (save t s None st)) = (recorded st)(session_id s \<mapsto> latest_id s)"
begin

lemma attempts_winners:
  "recorded st sid = Some l \<Longrightarrow> list_all (\<lambda>(_, s, _). session_id s = sid) as \<Longrightarrow>
   fst (attempts save as st) = winners l as \<and>
   recorded (snd (attempts save as st)) sid = Some (chain_end l (winners l as))"
proof (induction as arbitrary: st l)
  case (Cons a as)
  obtain t s e where a: "a = (t, s, e)"
    by (cases a) auto
  then have sid: "session_id s = sid"
    using Cons.prems(2) by simp
  show ?case
  proof (cases "l = Some e")
    case True
    obtain st' where st': "save t s (Some e) st = (Inr (), st')"
      using save_seen [of st s e t] Cons.prems(1) True sid by (cases "save t s (Some e) st") auto
    have "recorded st' sid = Some (latest_id s)"
      using save_seen [of st s e t] Cons.prems(1) True sid st' by simp
    then show ?thesis
      using Cons.IH [of st' "latest_id s"] Cons.prems(2) a st' True
      by (cases "attempts save as st'") simp
  next
    case False
    then have "save t s (Some e) st = (Inl ConcurrentModificationError, st)"
      using save_unseen [of st s l e t] Cons.prems(1) sid by simp
    then show ?thesis
      using Cons a False by simp
  qed
qed simp

text \<open>With fresh version ids, of the writers that have seen the same version at most one wins.\<close>

lemma one_winner:
  assumes "recorded st sid = Some l" and "list_all (\<lambda>(_, s, _). session_id s = sid) as"
    and "distinct (l # map (latest_id \<circ> fst) (winners l as))"
  shows "distinct (map snd (fst (attempts save as st)))"
  using chain_distinct [OF chain_winners] attempts_winners [OF assms(1,2)] assms(3) by fastforce

text \<open>A save without an expected id succeeds whatever has been saved since.\<close>

lemma unguarded_overwrites: "recorded (snd (save t s None st)) (session_id s) = Some (latest_id s)"
  using save_unguarded by simp

end

end
