(* ===== verification/Patch_Codec.thy ===== *)
theory Patch_Codec
  imports Knowledge Core_Bridge
begin

text \<open>
  The JSON form of patches (\<open>storage/patch_codec.py\<close>), in which delta versions are
  stored.  \<open>_thaw\<close> turns the frozen mappings and tuples of \<open>cks\<close> into dictionaries and
  lists; both are \<open>PDict\<close> and \<open>PList\<close> here, so it is the identity.
\<close>

definition identity_json :: "kident \<Rightarrow> pyval" where
  "identity_json i = PDict [(''id'', PStr (oi_id i)), (''type'', PStr (oi_type i)), (''name'', PStr (oi_name i))]"

text \<open>A relation operator holds a \<open>CanonicalRelation\<close>; any other object there has no
  \<open>participants\<close> attribute.\<close>

fun serialize_operator :: "operator \<Rightarrow> exn + pyval" where
  "serialize_operator (AddObject k) =
     Inr (PDict [(''type'', PStr ''add_object''), (''identity'', identity_json (ko_identity k)),
                 (''structure'', PDict (ko_structure k))])"
| "serialize_operator (AddRelation k) =
     (case ko_relation k of
        None \<Rightarrow> Inl AttributeError
      | Some (participants, relation_type) \<Rightarrow>
          Inr (PDict [(''type'', PStr ''add_relation''), (''identity'', identity_json (ko_identity k)),
                      (''participants'', PList (map PStr participants)), (''relation_type'', PStr relation_type),
                      (''structure'', PDict (ko_structure k))]))"
| "serialize_operator (RemoveObject i) =
     Inr (PDict [(''type'', PStr ''remove_object''), (''object_id'', PStr i)])"
| "serialize_operator (RemoveRelation i) =
     Inr (PDict [(''type'', PStr ''remove_relation''), (''relation_id'', PStr i)])"
| "serialize_operator (OtherOperator _) = Inl TypeError"

text \<open>The loop of a function that may raise over a list.\<close>

fun map_err :: "('a \<Rightarrow> exn + 'b) \<Rightarrow> 'a list \<Rightarrow> exn + 'b list" where
  "map_err f [] = Inr []"
| "map_err f (x # xs) =
     (case f x of
        Inl e \<Rightarrow> Inl e
      | Inr y \<Rightarrow> (case map_err f xs of Inl e \<Rightarrow> Inl e | Inr ys \<Rightarrow> Inr (y # ys)))"

definition serialize_operators :: "operator list \<Rightarrow> exn + pyval list" where
  "serialize_operators ops = map_err serialize_operator ops"

text \<open>Reading an item: a missing key is a \<open>KeyError\<close>; a value of another JSON type than
  the one written is refused by the constructors of \<open>cks\<close>.\<close>

definition need_str :: "(string, pyval) dict \<Rightarrow> string \<Rightarrow> exn + string" where
  "need_str d k = (case dget d k of None \<Rightarrow> Inl KeyError | Some (PStr s) \<Rightarrow> Inr s | Some _ \<Rightarrow> Inl TypeError)"

definition need_identity :: "cks_objects \<Rightarrow> (string, pyval) dict \<Rightarrow> exn + kident" where
  "need_identity cks d =
     (case dget d ''identity'' of
        None \<Rightarrow> Inl KeyError
      | Some (PDict i) \<Rightarrow> (case make_identity cks i of None \<Rightarrow> Inl TypeError | Some x \<Rightarrow> Inr x)
      | Some _ \<Rightarrow> Inl TypeError)"

definition structure_or_empty :: "(string, pyval) dict \<Rightarrow> exn + (string, pyval) dict" where
  "structure_or_empty d =
     (case dget d ''structure'' of None \<Rightarrow> Inr [] | Some (PDict x) \<Rightarrow> Inr x | Some _ \<Rightarrow> Inl TypeError)"

fun strings :: "pyval list \<Rightarrow> exn + string list" where
  "strings [] = Inr []"
| "strings (PStr s # xs) = (case strings xs of Inl e \<Rightarrow> Inl e | Inr ss \<Rightarrow> Inr (s # ss))"
| "strings (_ # xs) = Inl TypeError"

definition need_participants :: "(string, pyval) dict \<Rightarrow> exn + string list" where
  "need_participants d =
     (case dget d ''participants'' of None \<Rightarrow> Inl KeyError | Some (PList xs) \<Rightarrow> strings xs | Some _ \<Rightarrow> Inl TypeError)"

definition or_type_error :: "'a option \<Rightarrow> exn + 'a" where
  "or_type_error x = (case x of None \<Rightarrow> Inl TypeError | Some y \<Rightarrow> Inr y)"

definition bind_err :: "exn + 'a \<Rightarrow> ('a \<Rightarrow> exn + 'b) \<Rightarrow> exn + 'b" where
  "bind_err m f = (case m of Inl e \<Rightarrow> Inl e | Inr x \<Rightarrow> f x)"

definition deserialize_operator :: "cks_objects \<Rightarrow> pyval \<Rightarrow> exn + operator" where
  "deserialize_operator cks item =
     (case item of
        PDict d \<Rightarrow>
          bind_err (need_str d ''type'') (\<lambda>op_type.
            if op_type = ''add_object'' then
              bind_err (need_identity cks d) (\<lambda>i.
              bind_err (structure_or_empty d) (\<lambda>st.
              bind_err (or_type_error (make_object cks i st)) (\<lambda>k. Inr (AddObject k))))
            else if op_type = ''add_relation'' then
              bind_err (need_identity cks d) (\<lambda>i.
              bind_err (need_participants d) (\<lambda>ps.
              bind_err (need_str d ''relation_type'') (\<lambda>rt.
              bind_err (structure_or_empty d) (\<lambda>st.
              bind_err (or_type_error (make_relation cks i ps rt st)) (\<lambda>k. Inr (AddRelation k))))))
            else if op_type = ''remove_object'' then
              bind_err (need_str d ''object_id'') (\<lambda>i. Inr (RemoveObject i))
            else if op_type = ''remove_relation'' then
              bind_err (need_str d ''relation_id'') (\<lambda>i. Inr (RemoveRelation i))
            else Inl ValueError)
      | _ \<Rightarrow> Inl TypeError)"

definition deserialize_operators :: "cks_objects \<Rightarrow> pyval list \<Rightarrow> exn + operator list" where
  "deserialize_operators cks items = map_err (deserialize_operator cks) items"

section \<open>Round trip\<close>

text \<open>
  The documented behaviour of the constructors: an identity is its three strings, and an
  object or relation built from the parts of a live one is equal to it.
\<close>

definition constructors_ok :: "cks_objects \<Rightarrow> (kobj \<Rightarrow> bool) \<Rightarrow> bool" where
  "constructors_ok cks live \<longleftrightarrow>
     (\<forall>i t n. make_identity cks [(''id'', PStr i), (''type'', PStr t), (''name'', PStr n)] =
        Some \<lparr>oi_id = i, oi_type = t, oi_name = n\<rparr>) \<and>
     (\<forall>k. live k \<longrightarrow>
        (case ko_relation k of
           None \<Rightarrow> make_object cks (ko_identity k) (ko_structure k) = Some k
         | Some (ps, t) \<Rightarrow> make_relation cks (ko_identity k) ps t (ko_structure k) = Some k))"

text \<open>An operator over live objects: \<open>AddObject\<close> of a plain object, \<open>AddRelation\<close> of a relation.\<close>

fun operator_ok :: "(kobj \<Rightarrow> bool) \<Rightarrow> operator \<Rightarrow> bool" where
  "operator_ok live (AddObject k) = (live k \<and> ko_relation k = None)"
| "operator_ok live (AddRelation k) = (live k \<and> ko_relation k \<noteq> None)"
| "operator_ok live (RemoveObject _) = True"
| "operator_ok live (RemoveRelation _) = True"
| "operator_ok live (OtherOperator _) = False"

lemma bind_err_simps [simp]: "bind_err (Inl e) f = Inl e" "bind_err (Inr x) f = f x"
  by (simp_all add: bind_err_def)

lemma strings_map_PStr [simp]: "strings (map PStr ss) = Inr ss"
  by (induction ss) auto

lemma map_err_roundtrip:
  assumes "\<And>x. P x \<Longrightarrow> \<exists>y. f x = Inr y \<and> g y = Inr x"
  shows "list_all P xs \<Longrightarrow> \<exists>ys. map_err f xs = Inr ys \<and> map_err g ys = Inr xs"
proof (induction xs)
  case (Cons x xs)
  then show ?case
    using assms [of x] by fastforce
qed simp

lemma need_identity_json:
  assumes "constructors_ok cks live" and "dget d ''identity'' = Some (identity_json i)"
  shows "need_identity cks d = Inr i"
  using assms by (cases i) (simp add: need_identity_def identity_json_def constructors_ok_def)

lemma operator_roundtrip:
  assumes "constructors_ok cks live" and "operator_ok live p"
  shows "\<exists>x. serialize_operator p = Inr x \<and> deserialize_operator cks x = Inr p"
  using assms
proof (cases p)
  case (AddObject k)
  have "make_object cks (ko_identity k) (ko_structure k) = Some k"
    using assms AddObject by (force simp: constructors_ok_def)
  then show ?thesis
    using need_identity_json [OF assms(1)]
    by (simp add: AddObject deserialize_operator_def need_str_def structure_or_empty_def or_type_error_def dict_simps)
next
  case (AddRelation k)
  then obtain ps t where r: "ko_relation k = Some (ps, t)"
    using assms(2) by auto
  then have "make_relation cks (ko_identity k) ps t (ko_structure k) = Some k"
    using assms AddRelation by (force simp: constructors_ok_def)
  then show ?thesis
    using need_identity_json [OF assms(1)] r
    by (simp add: AddRelation deserialize_operator_def need_str_def structure_or_empty_def or_type_error_def
        need_participants_def dict_simps)
qed (auto simp: deserialize_operator_def need_str_def dict_simps)


text \<open>A library that takes the strings of an identity by name and hashes to nothing.\<close>

definition plain_kobj :: "kident \<Rightarrow> (string, pyval) dict \<Rightarrow> (string list \<times> string) option \<Rightarrow> kobj" where
  "plain_kobj i d r = \<lparr>ko_identity = i, ko_structure = d, ko_hash = [], ko_relation = r\<rparr>"

definition plain_identity :: "(string, pyval) dict \<Rightarrow> kident option" where
  "plain_identity d =
     (case (dget d ''id'', dget d ''type'', dget d ''name'') of
        (Some (PStr i), Some (PStr t), Some (PStr n)) \<Rightarrow> Some \<lparr>oi_id = i, oi_type = t, oi_name = n\<rparr>
      | _ \<Rightarrow> None)"

definition plain_cks :: cks_objects where
  "plain_cks =
     \<lparr>make_identity = plain_identity, make_object = (\<lambda>i d. Some (plain_kobj i d None)),
      make_relation = (\<lambda>i ps t d. Some (plain_kobj i d (Some (ps, t)))),
      serialize_structure = (\<lambda>ks. []), parse_structure = (\<lambda>t. Some \<lparr>ks_objects = []\<rparr>),
      structure_get = (\<lambda>ks i. find (\<lambda>k. obj_id k = i) (ks_objects ks)),
      make_structure = (\<lambda>ks. \<lparr>ks_objects = ks\<rparr>), str_of = (\<lambda>v. [])\<rparr>"

lemma plain_constructors_ok: "constructors_ok plain_cks (\<lambda>k. ko_hash k = [])"
  by (auto simp: constructors_ok_def plain_cks_def plain_identity_def plain_kobj_def dict_simps
      split: option.splits)


end
