(* ===== verification/Outbox.thy ===== *)
theory Outbox
  imports Prelude
begin

text \<open>
  The task table behind the projections and the sweepers (\<open>cks_outbox_tasks\<close> of
  \<open>storage/sqlite_storage.py\<close>): enqueueing, claiming with a lease, completing, failing
  with a later retry, dead-lettering and listing.  Each operation is one transaction.  The
  database clock \<open>datetime('now')\<close> is an argument \<open>now\<close>, in seconds.
\<close>

section \<open>Stored times\<close>

text \<open>
  SQLite compares times as text.  \<open>SqlStamp\<close> is the form \<open>datetime('now')\<close> writes
  (day, blank, time of day), \<open>IsoStamp\<close> the form Python's \<open>isoformat\<close> writes (day,
  letter T, time of day with microseconds).  The day is a fixed-width prefix of both, and a
  blank sorts before the letter T.
\<close>

datatype stamp = SqlStamp nat nat | IsoStamp nat nat nat

fun stamp_le :: "stamp \<Rightarrow> stamp \<Rightarrow> bool" where
  "stamp_le (SqlStamp d s) (SqlStamp d' s') = (d < d' \<or> d = d' \<and> s \<le> s')"
| "stamp_le (SqlStamp d s) (IsoStamp d' s' u') = (d \<le> d')"
| "stamp_le (IsoStamp d s u) (SqlStamp d' s') = (d < d')"
| "stamp_le (IsoStamp d s u) (IsoStamp d' s' u') = (d < d' \<or> d = d' \<and> (s < s' \<or> s = s' \<and> u \<le> u'))"

definition sql_stamp :: "nat \<Rightarrow> stamp" where
  "sql_stamp now = SqlStamp (now div 86400) (now mod 86400)"

definition iso_stamp :: "nat \<Rightarrow> nat \<Rightarrow> stamp" where
  "iso_stamp now micros = IsoStamp (now div 86400) (now mod 86400) micros"

section \<open>The table\<close>

datatype task_status = Pending | InProgress | Dead

text \<open>The payload is the JSON value of the stored text; the columns \<open>claimed_at\<close> and
  \<open>created_at\<close> are only ever written from the database clock.\<close>

record task =
  task_type :: string
  t_session_id :: string
  payload :: pyval
  status :: task_status
  retry_count :: nat
  next_retry_at :: stamp
  last_error :: "exn option"
  claimed_at :: "nat option"
  t_created_at :: nat

record outbox =
  tasks :: "(nat, task) dict"
  next_task_id :: nat

definition empty_outbox :: outbox where
  "empty_outbox = \<lparr>tasks = [], next_task_id = 1\<rparr>"

definition enqueue_task :: "string \<Rightarrow> string \<Rightarrow> pyval \<Rightarrow> nat \<Rightarrow> outbox \<Rightarrow> outbox" where
  "enqueue_task ty sid p now ob =
     ob\<lparr>tasks := dset (tasks ob) (next_task_id ob)
          \<lparr>task_type = ty, t_session_id = sid, payload = p, status = Pending, retry_count = 0,
           next_retry_at = sql_stamp now, last_error = None, claimed_at = None, t_created_at = now\<rparr>,
        next_task_id := next_task_id ob + 1\<rparr>"

definition opt_str :: "string option \<Rightarrow> pyval" where
  "opt_str x = (case x of None \<Rightarrow> PNone | Some s \<Rightarrow> PStr s)"

definition enqueue_outbox_task :: "string \<Rightarrow> string option \<Rightarrow> string \<Rightarrow> nat \<Rightarrow> outbox \<Rightarrow> outbox" where
  "enqueue_outbox_task sid previous_version_id new_version_id now ob =
     enqueue_task ''projection'' sid
       (PDict [(''previous_version_id'', opt_str previous_version_id), (''new_version_id'', PStr new_version_id)])
       now ob"

definition claimable :: "nat \<Rightarrow> task \<Rightarrow> bool" where
  "claimable now t \<longleftrightarrow>
     status t = Pending \<and> stamp_le (next_retry_at t) (sql_stamp now) \<or>
     status t = InProgress \<and> (case claimed_at t of None \<Rightarrow> False | Some c \<Rightarrow> c + 300 \<le> now)"

definition candidates :: "string option \<Rightarrow> nat \<Rightarrow> outbox \<Rightarrow> (nat \<times> task) list" where
  "candidates ty now ob =
     sort_key (\<lambda>(_, t). t_created_at t)
       (filter (\<lambda>(_, t). (case ty of None \<Rightarrow> True | Some x \<Rightarrow> task_type t = x) \<and> claimable now t) (tasks ob))"

definition dequeue_next_outbox_task :: "string option \<Rightarrow> nat \<Rightarrow> outbox \<Rightarrow> (nat \<times> task) option \<times> outbox" where
  "dequeue_next_outbox_task ty now ob =
     (case candidates ty now ob of
        [] \<Rightarrow> (None, ob)
      | (i, t) # _ \<Rightarrow>
          let t' = t\<lparr>status := InProgress, claimed_at := Some now\<rparr>
          in (Some (i, t'), ob\<lparr>tasks := dset (tasks ob) i t'\<rparr>))"

text \<open>An \<open>UPDATE ... WHERE task_id = ? AND cond\<close>, with the number of rows it changed.\<close>

definition update_task :: "nat \<Rightarrow> (task \<Rightarrow> bool) \<Rightarrow> (task \<Rightarrow> task) \<Rightarrow> outbox \<Rightarrow> nat \<times> outbox" where
  "update_task i cond f ob =
     (case dget (tasks ob) i of
        None \<Rightarrow> (0, ob)
      | Some t \<Rightarrow> if cond t then (1, ob\<lparr>tasks := dset (tasks ob) i (f t)\<rparr>) else (0, ob))"

definition complete_outbox_task :: "nat \<Rightarrow> outbox \<Rightarrow> outbox" where
  "complete_outbox_task i ob = ob\<lparr>tasks := dpop (tasks ob) i\<rparr>"

definition fail_outbox_task :: "nat \<Rightarrow> nat \<Rightarrow> exn \<Rightarrow> stamp \<Rightarrow> outbox \<Rightarrow> outbox" where
  "fail_outbox_task i n e next_retry ob =
     snd (update_task i (\<lambda>_. True)
       (\<lambda>t. t\<lparr>status := Pending, retry_count := n, next_retry_at := next_retry, last_error := Some e,
              claimed_at := None\<rparr>) ob)"

definition dead_letter_outbox_task :: "nat \<Rightarrow> exn \<Rightarrow> outbox \<Rightarrow> outbox" where
  "dead_letter_outbox_task i e ob =
     snd (update_task i (\<lambda>_. True) (\<lambda>t. t\<lparr>status := Dead, last_error := Some e, claimed_at := None\<rparr>) ob)"

definition retry_dead_letter_task :: "nat \<Rightarrow> nat \<Rightarrow> outbox \<Rightarrow> bool \<times> outbox" where
  "retry_dead_letter_task i now ob =
     (case update_task i (\<lambda>t. status t = Dead)
        (\<lambda>t. t\<lparr>status := Pending, retry_count := 0, next_retry_at := sql_stamp now, last_error := None,
               claimed_at := None\<rparr>) ob of
        (n, ob') \<Rightarrow> (0 < n, ob'))"

definition touch_outbox_task :: "nat \<Rightarrow> nat \<Rightarrow> outbox \<Rightarrow> bool \<times> outbox" where
  "touch_outbox_task i now ob =
     (case update_task i (\<lambda>t. status t = InProgress) (\<lambda>t. t\<lparr>claimed_at := Some now\<rparr>) ob of
        (n, ob') \<Rightarrow> (0 < n, ob'))"

definition list_tasks_by_type :: "string \<Rightarrow> string option \<Rightarrow> bool \<Rightarrow> outbox \<Rightarrow> (nat \<times> task) list \<times> outbox" where
  "list_tasks_by_type ty sid drain ob =
     (let rows = sort_key (\<lambda>(_, t). t_created_at t)
            (filter (\<lambda>(_, t). task_type t = ty \<and> status t = Pending \<and>
                               (case sid of None \<Rightarrow> True | Some s \<Rightarrow> t_session_id t = s)) (tasks ob))
      in (rows,
          if drain then ob\<lparr>tasks := filter (\<lambda>(i, _). i \<notin> set (map fst rows)) (tasks ob)\<rparr> else ob))"

definition list_dead_letter_tasks :: "string option \<Rightarrow> string option \<Rightarrow> outbox \<Rightarrow> (nat \<times> task) list" where
  "list_dead_letter_tasks ty sid ob =
     sort_key (\<lambda>(_, t). t_created_at t)
       (filter (\<lambda>(_, t). status t = Dead \<and> (case ty of None \<Rightarrow> True | Some x \<Rightarrow> task_type t = x) \<and>
                         (case sid of None \<Rightarrow> True | Some s \<Rightarrow> t_session_id t = s)) (tasks ob))"

section \<open>Any sequence of operations\<close>

datatype outbox_op =
    Enqueue string string pyval
  | Dequeue "string option"
  | Complete nat
  | Fail nat nat exn stamp
  | DeadLetter nat exn
  | RetryDead nat
  | Touch nat
  | ListTasks string "string option" bool

fun outbox_step :: "nat \<Rightarrow> outbox_op \<Rightarrow> outbox \<Rightarrow> outbox" where
  "outbox_step now (Enqueue ty sid p) ob = enqueue_task ty sid p now ob"
| "outbox_step now (Dequeue ty) ob = snd (dequeue_next_outbox_task ty now ob)"
| "outbox_step now (Complete i) ob = complete_outbox_task i ob"
| "outbox_step now (Fail i n e st) ob = fail_outbox_task i n e st ob"
| "outbox_step now (DeadLetter i e) ob = dead_letter_outbox_task i e ob"
| "outbox_step now (RetryDead i) ob = snd (retry_dead_letter_task i now ob)"
| "outbox_step now (Touch i) ob = snd (touch_outbox_task i now ob)"
| "outbox_step now (ListTasks ty sid drain) ob = snd (list_tasks_by_type ty sid drain ob)"

fun outbox_run :: "(nat \<times> outbox_op) list \<Rightarrow> outbox \<Rightarrow> outbox" where
  "outbox_run [] ob = ob"
| "outbox_run ((now, p) # ps) ob = outbox_run ps (outbox_step now p ob)"

definition outbox_ok :: "outbox \<Rightarrow> bool" where
  "outbox_ok ob \<longleftrightarrow>
     dict_ok (tasks ob) \<and> (\<forall>i \<in> set (dkeys (tasks ob)). i < next_task_id ob) \<and>
     (\<forall>i t. dget (tasks ob) i = Some t \<longrightarrow> (status t = InProgress \<longleftrightarrow> claimed_at t \<noteq> None))"

lemma outbox_ok_empty: "outbox_ok empty_outbox"
  by (simp add: outbox_ok_def empty_outbox_def dkeys_def)

lemma candidates_in:
  "outbox_ok ob \<Longrightarrow> (i, t) \<in> set (candidates ty now ob) \<longleftrightarrow>
     dget (tasks ob) i = Some t \<and> claimable now t \<and> (case ty of None \<Rightarrow> True | Some x \<Rightarrow> task_type t = x)"
  by (auto simp: candidates_def outbox_ok_def dget_Some_iff)

lemma dequeue_cases:
  assumes "outbox_ok ob"
  shows "candidates ty now ob = [] \<and> dequeue_next_outbox_task ty now ob = (None, ob) \<or>
    (\<exists>i t. dget (tasks ob) i = Some t \<and> claimable now t \<and>
       dequeue_next_outbox_task ty now ob =
         (Some (i, t\<lparr>status := InProgress, claimed_at := Some now\<rparr>),
          ob\<lparr>tasks := dset (tasks ob) i (t\<lparr>status := InProgress, claimed_at := Some now\<rparr>)\<rparr>))"
proof (cases "candidates ty now ob")
  case (Cons c cs)
  obtain i t where c: "c = (i, t)"
    by fastforce
  then have "dget (tasks ob) i = Some t" "claimable now t"
    using Cons candidates_in [OF assms, of i t ty now] by auto
  then show ?thesis
    using Cons c by (auto simp: dequeue_next_outbox_task_def Let_def)
qed (simp add: dequeue_next_outbox_task_def)

lemma list_tasks_table:
  "tasks (snd (list_tasks_by_type ty sid drain ob)) =
     filter (\<lambda>(i, _). \<not> drain \<or> i \<notin> fst ` set (fst (list_tasks_by_type ty sid drain ob))) (tasks ob)"
  by (auto simp: list_tasks_by_type_def Let_def intro!: filter_cong)


lemma update_task_ok:
  assumes "outbox_ok ob" and "\<And>t. cond t \<Longrightarrow> status (f t) = InProgress \<longleftrightarrow> claimed_at (f t) \<noteq> None"
  shows "outbox_ok (snd (update_task i cond f ob))"
  using assms by (auto simp: outbox_ok_def update_task_def dget_Some_key split: option.splits if_splits)

lemma outbox_step_ok:
  assumes "outbox_ok ob"
  shows "outbox_ok (outbox_step now p ob)"
proof (cases p)
  case (Enqueue ty sid q)
  then show ?thesis
    using assms by (auto simp: outbox_ok_def enqueue_task_def less_Suc_eq)
next
  case (Dequeue ty)
  then show ?thesis
    using dequeue_cases [OF assms, of ty now] assms
    by (auto simp: outbox_ok_def dget_Some_key split: if_splits)
next
  case (Complete i)
  then show ?thesis
    using assms by (auto simp: outbox_ok_def complete_outbox_task_def split: if_splits)
next
  case (ListTasks ty sid drain)
  have "dict_ok (filter P d)" if "dict_ok d" for P and d :: "(nat, task) dict"
    using that by (simp add: dict_ok_def dkeys_def distinct_map_filter)
  moreover have "next_task_id (snd (list_tasks_by_type ty sid drain ob)) = next_task_id ob"
    by (simp add: list_tasks_by_type_def Let_def)
  ultimately show ?thesis
    using assms unfolding ListTasks outbox_ok_def
    by (auto simp: list_tasks_table dget_filter_key dkeys_def split: if_splits)
qed (use assms in \<open>auto simp: fail_outbox_task_def dead_letter_outbox_task_def retry_dead_letter_task_def
       touch_outbox_task_def case_prod_unfold intro!: update_task_ok\<close>)


lemma outbox_run_ok: "outbox_ok ob \<Longrightarrow> outbox_ok (outbox_run ps ob)"
  by (induction ps arbitrary: ob) (auto simp: outbox_step_ok)

section \<open>Leases\<close>

text \<open>Operations by which the holder of a task (or an operator) gives it up.\<close>

fun releases :: "nat \<Rightarrow> outbox_op \<Rightarrow> bool" where
  "releases i (Complete j) = (j = i)"
| "releases i (Fail j _ _ _) = (j = i)"
| "releases i (DeadLetter j _) = (j = i)"
| "releases i (RetryDead j) = (j = i)"
| "releases i _ = False"

definition held :: "nat \<Rightarrow> nat \<Rightarrow> outbox \<Rightarrow> bool" where
  "held i since ob \<longleftrightarrow>
     (\<exists>t c. dget (tasks ob) i = Some t \<and> status t = InProgress \<and> claimed_at t = Some c \<and> since \<le> c)"

lemma held_not_claimed:
  "outbox_ok ob \<Longrightarrow> held i since ob \<Longrightarrow> now < since + 300 \<Longrightarrow>
   fst (dequeue_next_outbox_task ty now ob) \<noteq> Some (i, t)"
  using dequeue_cases [of ob ty now] by (auto simp: held_def claimable_def)

lemma update_task_other: "j \<noteq> i \<Longrightarrow> dget (tasks (snd (update_task j cond f ob))) i = dget (tasks ob) i"
  by (auto simp: update_task_def split: option.splits)

lemma list_tasks_keeps_held:
  assumes "outbox_ok ob" and "dget (tasks ob) i = Some t" and "status t = InProgress"
  shows "dget (tasks (snd (list_tasks_by_type ty sid drain ob))) i = Some t"
proof -
  have "b = t" if "(i, b) \<in> set (tasks ob)" for b
    using that assms(1,2) dget_Some_iff [of "tasks ob" i b] by (simp add: outbox_ok_def)
  then have "i \<notin> fst ` set (fst (list_tasks_by_type ty sid drain ob))"
    using assms(3) by (fastforce simp: list_tasks_by_type_def Let_def)
  then show ?thesis
    using assms(2) by (cases drain) (simp_all add: list_tasks_table dget_filter_key)
qed

lemma held_step:
  assumes "outbox_ok ob" and "held i since ob" and "since \<le> now" and "now < since + 300" and "\<not> releases i p"
  shows "held i since (outbox_step now p ob)"
proof -
  obtain t c where t: "dget (tasks ob) i = Some t" "status t = InProgress" "claimed_at t = Some c" "since \<le> c"
    using assms(2) by (auto simp: held_def)
  show ?thesis
  proof (cases p)
    case (Enqueue ty sid q)
    have "next_task_id ob \<noteq> i"
      using assms(1) dget_Some_key [OF t(1)] by (auto simp: outbox_ok_def)
    then show ?thesis
      using t by (simp add: Enqueue held_def enqueue_task_def)
  next
    case (Dequeue ty)
    then show ?thesis
      using dequeue_cases [OF assms(1), of ty now] t assms(3) by (auto simp: held_def)
  next
    case (Touch j)
    then show ?thesis
      using t assms(3) update_task_other [of j i] by (auto simp: held_def touch_outbox_task_def case_prod_unfold
          update_task_def split: option.splits if_splits)
  next
    case (ListTasks ty sid drain)
    then show ?thesis
      using t list_tasks_keeps_held [OF assms(1) t(1,2)] by (simp add: held_def)
  qed (use assms(5) t in \<open>auto simp: held_def complete_outbox_task_def fail_outbox_task_def
        dead_letter_outbox_task_def retry_dead_letter_task_def case_prod_unfold update_task_other\<close>)
qed

lemma held_run:
  "outbox_ok ob \<Longrightarrow> held i since ob \<Longrightarrow>
   list_all (\<lambda>(now, p). since \<le> now \<and> now < since + 300 \<and> \<not> releases i p) ps \<Longrightarrow>
   held i since (outbox_run ps ob) \<and> outbox_ok (outbox_run ps ob)"
  by (induction ps arbitrary: ob) (auto simp: held_step outbox_step_ok)

section \<open>Properties\<close>

text \<open>A claim is exclusive: once a task is claimed, whatever the workers and operators do
  in the next five minutes short of giving this task up, no other claim returns it.\<close>

theorem claim_is_exclusive:
  assumes "outbox_ok ob" and "dequeue_next_outbox_task ty since ob = (Some (i, t), ob')"
    and "list_all (\<lambda>(now, p). since \<le> now \<and> now < since + 300 \<and> \<not> releases i p) ps"
    and "now < since + 300"
  shows "fst (dequeue_next_outbox_task ty' now (outbox_run ps ob')) \<noteq> Some (i, t')"
proof -
  have "outbox_ok ob'"
    using outbox_step_ok [OF assms(1), of since "Dequeue ty"] assms(2) by simp
  moreover have "held i since ob'"
    using dequeue_cases [OF assms(1), of ty since] assms(2) by (auto simp: held_def)
  ultimately show ?thesis
    using held_run [OF _ _ assms(3)] held_not_claimed [OF _ _ assms(4)] by blast
qed

theorem claim_is_exclusive_witness:
  "\<exists>t ob'. dequeue_next_outbox_task None 1000 (enqueue_task ''x'' ''s'' PNone 900 empty_outbox) = (Some (1, t), ob') \<and>
     fst (dequeue_next_outbox_task None 1299 (outbox_run [(1100, Dequeue None), (1200, Enqueue ''y'' ''s'' PNone)] ob'))
       \<noteq> Some (1, t)"
proof -
  let ?ob = "enqueue_task ''x'' ''s'' PNone 900 empty_outbox"
  obtain t ob' where d: "dequeue_next_outbox_task None 1000 ?ob = (Some (1, t), ob')"
    by (simp add: enqueue_task_def empty_outbox_def dset_def dequeue_next_outbox_task_def candidates_def
        claimable_def sql_stamp_def Let_def)
  have "outbox_ok ?ob"
    using outbox_step_ok [OF outbox_ok_empty, of 900 "Enqueue ''x'' ''s'' PNone"] by simp
  then show ?thesis
    using claim_is_exclusive [OF _ d, of "[(1100, Dequeue None), (1200, Enqueue ''y'' ''s'' PNone)]" 1299 None t] d
    by auto
qed

text \<open>Claims are first in, first out among the tasks of the type asked for that are due or
  whose lease has run out, and a claim fails only if there is none.\<close>

theorem dequeue_oldest:
  assumes "outbox_ok ob"
  shows "case dequeue_next_outbox_task ty now ob of
     (None, ob') \<Rightarrow> ob' = ob \<and>
       (\<nexists>i t. dget (tasks ob) i = Some t \<and> claimable now t \<and> (case ty of None \<Rightarrow> True | Some x \<Rightarrow> task_type t = x))
   | (Some (i, t), ob') \<Rightarrow>
       status t = InProgress \<and> claimed_at t = Some now \<and> dget (tasks ob') i = Some t \<and>
       (\<forall>j u. dget (tasks ob) j = Some u \<and> claimable now u \<and>
          (case ty of None \<Rightarrow> True | Some x \<Rightarrow> task_type u = x) \<longrightarrow> t_created_at t \<le> t_created_at u)"
proof (cases "candidates ty now ob")
  case Nil
  then have "\<nexists>i t. dget (tasks ob) i = Some t \<and> claimable now t \<and> (case ty of None \<Rightarrow> True | Some x \<Rightarrow> task_type t = x)"
    using candidates_in [OF assms, of _ _ ty now] by auto
  then show ?thesis
    using Nil by (simp add: dequeue_next_outbox_task_def)
next
  case (Cons c cs)
  obtain i t where c: "c = (i, t)"
    by fastforce
  have "sorted (map (\<lambda>(_, t). t_created_at t) (candidates ty now ob))"
    by (simp add: candidates_def)
  then have "t_created_at t \<le> t_created_at u" if "(j, u) \<in> set (candidates ty now ob)" for j u
    using that Cons c by fastforce
  then have "\<forall>j u. dget (tasks ob) j = Some u \<and> claimable now u \<and>
      (case ty of None \<Rightarrow> True | Some x \<Rightarrow> task_type u = x) \<longrightarrow> t_created_at t \<le> t_created_at u"
    using candidates_in [OF assms, of _ _ ty now] by blast
  then show ?thesis
    using Cons c by (simp add: dequeue_next_outbox_task_def Let_def)
qed

theorem dequeue_oldest_witness:
  "\<exists>t ob'. dequeue_next_outbox_task (Some ''y'') 1000
     (enqueue_task ''y'' ''s'' PNone 950 (enqueue_task ''x'' ''s'' PNone 900 empty_outbox)) = (Some (2, t), ob') \<and>
     claimed_at t = Some 1000"
proof -
  let ?ob = "enqueue_task ''y'' ''s'' PNone 950 (enqueue_task ''x'' ''s'' PNone 900 empty_outbox)"
  obtain t ob' where d: "dequeue_next_outbox_task (Some ''y'') 1000 ?ob = (Some (2, t), ob')"
    by (simp add: enqueue_task_def empty_outbox_def dset_def dequeue_next_outbox_task_def candidates_def
        claimable_def sql_stamp_def Let_def)
  have "outbox_ok ?ob"
    using outbox_run_ok [OF outbox_ok_empty, of "[(900, Enqueue ''x'' ''s'' PNone), (950, Enqueue ''y'' ''s'' PNone)]"]
    by simp
  then have "claimed_at t = Some 1000"
    using dequeue_oldest [of ?ob 1000 "Some ''y''"] d by simp
  then show ?thesis
    using d by blast
qed

text \<open>A retry is not due before the day ends: a failed task whose retry time is written in
  ISO form, as the worker writes it, is not claimable at any database time of the same day,
  however far past the retry time, and is claimable from the first second of the next day.\<close>

theorem iso_retry_waits_for_next_day:
  "claimable now (t\<lparr>status := Pending, retry_count := n, next_retry_at := iso_stamp retry micros,
      last_error := Some e, claimed_at := None\<rparr>) \<longleftrightarrow> retry div 86400 < now div 86400"
  by (simp add: claimable_def iso_stamp_def sql_stamp_def)

end
