(* ===== verification/Sqlite_Storage.thy ===== *)
theory Sqlite_Storage
  imports Session_Store Patch_Codec Outbox
begin

text \<open>
  The SQLite backend of the runtime (\<open>storage/sqlite_storage.py\<close>): sessions with their
  optimistic lock, archive, versions, operation log, replica identity, embeddings, agent
  liveness, sweeper control, export and import.  The task table is that of \<open>Outbox\<close>, the
  graph registry is in \<open>Graph_Registry\<close>.  A method is one transaction under the
  instance's lock, hence one function on the database.  A stored JSON text is represented by the value
  that reading it gives back; the text of a structure and the JSON form of a patch are
  kept, because reading them goes through \<open>cks\<close> and may raise.
\<close>

section \<open>Tables\<close>

record session_row =
  sr_structure :: string
  sr_metadata :: "(string, pyval) dict"
  sr_snapshot_interval :: int
  sr_version_ids :: "string list"
  sr_parent_session_id :: "string option"
  sr_parent_version_id :: "string option"
  sr_closed :: bool
  latest_version_id :: "string option"
  modified_at :: time

record version_row =
  vr_session_id :: string
  vr_transaction_id :: string
  vr_structure :: "string option"
  vr_metadata :: "(string, pyval) dict"
  vr_created_at :: time
  vr_state_hash :: "string option"
  vr_patch :: "pyval list option"

text \<open>A row of the operation log; the value of an operation other than \<open>set_field\<close> is
  \<open>NULL\<close>.\<close>

record log_row =
  lr_session_id :: string
  lr_version_id :: string
  lr_object_id :: string
  lr_op_type :: string
  lr_field_key :: "string option"
  lr_field_value :: "pyval option"

text \<open>One row per process; ISO times of one zone, which compare as text in their order.\<close>

record liveness_row =
  process_kind :: string
  hostname :: string
  pid :: int
  liveness_interval_s :: rat
  started_at :: time
  last_heartbeat_at :: time
  current_task_id :: "nat option"
  current_task_type :: "string option"
  desired_state :: "string option"

record sqlite_db =
  session_rows :: "(string, session_row) dict"
  archive_rows :: "(string, session_row \<times> time) dict"
  version_rows :: "(string, version_row) dict"
  log_rows :: "log_row list"
  task_table :: outbox
  embedding_rows :: "(string \<times> string, string \<times> time) dict"
  identity_row :: "string option"
  liveness_rows :: "(string, liveness_row) dict"
  sweeper_rows :: "(string, bool) dict"

definition empty_db :: sqlite_db where
  "empty_db =
     \<lparr>session_rows = [], archive_rows = [], version_rows = [], log_rows = [], task_table = empty_outbox,
      embedding_rows = [], identity_row = None, liveness_rows = [], sweeper_rows = []\<rparr>"

section \<open>Sessions\<close>

definition session_row_of :: "cks_objects \<Rightarrow> session \<Rightarrow> time \<Rightarrow> session_row" where
  "session_row_of cks s now =
     \<lparr>sr_structure = serialize_structure cks (knowledge_structure s), sr_metadata = metadata s,
      sr_snapshot_interval = snapshot_interval s, sr_version_ids = map version_id (version_history s),
      sr_parent_session_id = parent_session_id s, sr_parent_version_id = parent_version_id s,
      sr_closed = closed s, latest_version_id = latest_id s, modified_at = now\<rparr>"

definition save_session :: "cks_objects \<Rightarrow> session \<Rightarrow> string option \<Rightarrow> time \<Rightarrow> (sqlite_db, unit) sx" where
  "save_session cks s expected_version_id now db =
     (let write = db\<lparr>session_rows := dset (session_rows db) (session_id s) (session_row_of cks s now)\<rparr>
      in case expected_version_id of
           None \<Rightarrow> (Inr (), write)
         | Some _ \<Rightarrow>
             (case dget (session_rows db) (session_id s) of
                None \<Rightarrow> (Inr (), write)
              | Some row \<Rightarrow>
                  if latest_version_id row = expected_version_id then (Inr (), write)
                  else (Inl ConcurrentModificationError, db)))"

definition parse_text :: "cks_objects \<Rightarrow> string \<Rightarrow> exn + kstruct" where
  "parse_text cks t = (case parse_structure cks t of None \<Rightarrow> Inl OtherException | Some ks \<Rightarrow> Inr ks)"

definition version_of_row :: "cks_objects \<Rightarrow> string \<times> version_row \<Rightarrow> exn + version" where
  "version_of_row cks kr =
     (case kr of (vid, r) \<Rightarrow>
       bind_err (case vr_structure r of
                   None \<Rightarrow> Inr None
                 | Some t \<Rightarrow> if t = [] then Inr None else bind_err (parse_text cks t) (\<lambda>ks. Inr (Some ks))) (\<lambda>ks.
       bind_err (case vr_patch r of
                   None \<Rightarrow> Inr None
                 | Some items \<Rightarrow> bind_err (deserialize_operators cks items) (\<lambda>ops. Inr (Some ops))) (\<lambda>ops.
       Inr \<lparr>v_session_id = vr_session_id r, v_transaction_id = vr_transaction_id r, v_structure = ks,
            v_metadata = vr_metadata r, version_id = vid, v_created_at = vr_created_at r,
            state_hash = vr_state_hash r, patch = ops\<rparr>)))"

text \<open>The versions of a session are all rows that name it, in the order of their times.\<close>

definition rows_of_session :: "sqlite_db \<Rightarrow> string \<Rightarrow> (string \<times> version_row) list" where
  "rows_of_session db sid = filter (\<lambda>(_, r). vr_session_id r = sid) (version_rows db)"

definition load_session :: "cks_objects \<Rightarrow> string \<Rightarrow> sqlite_db \<Rightarrow> exn + session option" where
  "load_session cks sid db =
     (case dget (session_rows db) sid of
        None \<Rightarrow> Inr None
      | Some r \<Rightarrow>
          bind_err (parse_text cks (sr_structure r)) (\<lambda>ks.
          bind_err (make_session ks sid (sr_metadata r) (sr_snapshot_interval r) None None) (\<lambda>s.
          bind_err (map_err (version_of_row cks) (rows_of_session db sid)) (\<lambda>versions.
          Inr (Some (fold add_version (sort_key v_created_at versions)
            (s\<lparr>closed := sr_closed r, parent_session_id := sr_parent_session_id r,
               parent_version_id := sr_parent_version_id r\<rparr>)))))))"

definition has_session :: "string \<Rightarrow> sqlite_db \<Rightarrow> bool" where
  "has_session sid db = dhas (session_rows db) sid"

text \<open>SQL leaves the order of \<open>list_sessions\<close> open; it is the order of the table here.\<close>

definition load_all :: "cks_objects \<Rightarrow> string list \<Rightarrow> sqlite_db \<Rightarrow> exn + session list" where
  "load_all cks ids db =
     bind_err (map_err (\<lambda>sid. load_session cks sid db) ids) (\<lambda>found. Inr (concat (map (case_option [] (\<lambda>s. [s])) found)))"

definition list_sessions :: "cks_objects \<Rightarrow> sqlite_db \<Rightarrow> exn + session list" where
  "list_sessions cks db = load_all cks (dkeys (session_rows db)) db"

definition list_sessions_modified_before :: "cks_objects \<Rightarrow> time \<Rightarrow> nat \<Rightarrow> sqlite_db \<Rightarrow> exn + session list" where
  "list_sessions_modified_before cks cutoff limit db =
     load_all cks (map fst (take limit (sort_key (\<lambda>(_, r). modified_at r)
       (filter (\<lambda>(_, r). modified_at r < cutoff) (session_rows db))))) db"

definition list_sessions_modified_since :: "cks_objects \<Rightarrow> time \<Rightarrow> nat \<Rightarrow> sqlite_db \<Rightarrow> exn + session list" where
  "list_sessions_modified_since cks watermark limit db =
     load_all cks (map fst (take limit (sort_key (\<lambda>(_, r). modified_at r)
       (filter (\<lambda>(_, r). watermark \<le> modified_at r) (session_rows db))))) db"

definition archive_session :: "string \<Rightarrow> time \<Rightarrow> sqlite_db \<Rightarrow> sqlite_db" where
  "archive_session sid now db =
     db\<lparr>archive_rows := (case dget (session_rows db) sid of
                            None \<Rightarrow> archive_rows db
                          | Some r \<Rightarrow> dset (archive_rows db) sid (r, now)),
        embedding_rows := filter (\<lambda>((_, s), _). s \<noteq> sid) (embedding_rows db),
        session_rows := dpop (session_rows db) sid\<rparr>"

section \<open>Versions\<close>

definition version_row_of :: "cks_objects \<Rightarrow> version \<Rightarrow> exn + version_row" where
  "version_row_of cks v =
     bind_err (case v_structure v of
                 Some ks \<Rightarrow> Inr (Some (serialize_structure cks ks), None)
               | None \<Rightarrow>
                   (case patch v of
                      None \<Rightarrow> Inr (None, None)
                    | Some ops \<Rightarrow> bind_err (serialize_operators ops) (\<lambda>items. Inr (None, Some items)))) (\<lambda>(ks, items).
     Inr \<lparr>vr_session_id = v_session_id v, vr_transaction_id = v_transaction_id v, vr_structure = ks,
          vr_metadata = v_metadata v, vr_created_at = v_created_at v, vr_state_hash = state_hash v,
          vr_patch = items\<rparr>)"

text \<open>A plain \<open>INSERT\<close>: an id that is taken violates the primary key.\<close>

definition save_version :: "cks_objects \<Rightarrow> version \<Rightarrow> (sqlite_db, unit) sx" where
  "save_version cks v db =
     (case version_row_of cks v of
        Inl e \<Rightarrow> (Inl e, db)
      | Inr row \<Rightarrow>
          if dhas (version_rows db) (version_id v) then (Inl DatabaseError, db)
          else (Inr (), db\<lparr>version_rows := version_rows db @ [(version_id v, row)]\<rparr>))"

definition load_version :: "cks_objects \<Rightarrow> string \<Rightarrow> sqlite_db \<Rightarrow> exn + version option" where
  "load_version cks vid db =
     (case dget (version_rows db) vid of
        None \<Rightarrow> Inr None
      | Some r \<Rightarrow> bind_err (version_of_row cks (vid, r)) (\<lambda>v. Inr (Some v)))"

definition has_version :: "string \<Rightarrow> sqlite_db \<Rightarrow> bool" where
  "has_version vid db = dhas (version_rows db) vid"

definition list_versions :: "cks_objects \<Rightarrow> sqlite_db \<Rightarrow> exn + version list" where
  "list_versions cks db = map_err (version_of_row cks) (version_rows db)"

definition clear_storage :: "sqlite_db \<Rightarrow> sqlite_db" where
  "clear_storage db = db\<lparr>session_rows := [], version_rows := []\<rparr>"

section \<open>Operation log and replica identity\<close>

definition record_operations :: "string \<Rightarrow> string \<Rightarrow> field_operation list \<Rightarrow> sqlite_db \<Rightarrow> sqlite_db" where
  "record_operations sid vid operations db =
     (if operations = [] then db
      else db\<lparr>log_rows := log_rows db @ map (\<lambda>p.
                \<lparr>lr_session_id = sid, lr_version_id = vid, lr_object_id = fo_object_id p,
                 lr_op_type = fo_op_type p, lr_field_key = fo_field_key p,
                 lr_field_value = (if fo_op_type p = ''set_field'' then Some (fo_field_value p) else None)\<rparr>)
              operations\<rparr>)"

definition list_operations ::
  "string \<Rightarrow> string option \<Rightarrow> string option \<Rightarrow> sqlite_db \<Rightarrow> field_operation list" where
  "list_operations sid object_id vid db =
     map (\<lambda>r. \<lparr>fo_object_id = lr_object_id r, fo_op_type = lr_op_type r, fo_field_key = lr_field_key r,
               fo_field_value = opt_or (lr_field_value r) PNone, fo_version_id = Some (lr_version_id r)\<rparr>)
       (filter (\<lambda>r. lr_session_id r = sid \<and>
                    (case object_id of None \<Rightarrow> True | Some i \<Rightarrow> lr_object_id r = i) \<and>
                    (case vid of None \<Rightarrow> True | Some i \<Rightarrow> lr_version_id r = i)) (log_rows db))"

definition get_or_create_replica_id :: "string \<Rightarrow> sqlite_db \<Rightarrow> string \<times> sqlite_db" where
  "get_or_create_replica_id candidate db =
     (case identity_row db of
        Some r \<Rightarrow> (r, db)
      | None \<Rightarrow> (candidate, db\<lparr>identity_row := Some candidate\<rparr>))"

text \<open>The log entries of the versions that a vector does not dominate
  (\<open>RuntimeStorage.fetch_operations_since\<close>).\<close>

definition fetch_operations_since :: "cks_objects \<Rightarrow> version_vector \<Rightarrow> sqlite_db \<Rightarrow> exn + field_operation list" where
  "fetch_operations_since cks vector db =
     bind_err (list_versions cks db) (\<lambda>vs.
       Inr (concat (map (\<lambda>v. list_operations (v_session_id v) None (Some (version_id v)) db)
              (filter (\<lambda>v. \<not> dominates vector (vv_from_metadata (v_metadata v))) vs))))"

section \<open>Embeddings, agents and sweepers\<close>

definition save_object_embeddings :: "string \<Rightarrow> string \<Rightarrow> string \<Rightarrow> time \<Rightarrow> sqlite_db \<Rightarrow> sqlite_db" where
  "save_object_embeddings object_id sid embedding now db =
     db\<lparr>embedding_rows := dset (embedding_rows db) (object_id, sid) (embedding, now)\<rparr>"

definition delete_object_embeddings :: "string \<Rightarrow> string \<Rightarrow> sqlite_db \<Rightarrow> sqlite_db" where
  "delete_object_embeddings object_id sid db = db\<lparr>embedding_rows := dpop (embedding_rows db) (object_id, sid)\<rparr>"

text \<open>
  \<open>search_embeddings\<close>: numpy reads the bytes as vectors of four-byte numbers, and \<open>similarity\<close> is its
  product of two vectors; vectors of another length than the query are left out.
\<close>

definition clip_score :: "rat \<Rightarrow> rat" where
  "clip_score x = min 1 (max 0 x)"

definition search_embeddings ::
  "(string \<Rightarrow> string \<Rightarrow> rat) \<Rightarrow> string \<Rightarrow> string \<Rightarrow> nat \<Rightarrow> sqlite_db \<Rightarrow> exn + (string \<times> rat) list" where
  "search_embeddings similarity query_embedding sid top_k db =
     (let rows = filter (\<lambda>((_, s), _). s = sid) (embedding_rows db);
          vectors = filter (\<lambda>(_, e, _). length e = length query_embedding) rows
      in if rows = [] then Inr []
         else if length query_embedding mod 4 \<noteq> 0 \<or> \<not> list_all (\<lambda>(_, e, _). length e mod 4 = 0) rows then Inl ValueError
         else Inr (take top_k (sort_key (\<lambda>(_, s). - s)
                (map (\<lambda>((oid, _), e, _). (oid, clip_score (similarity e query_embedding))) vectors))))"

text \<open>A heartbeat updates the time and the current task; a requested stop stays.\<close>

definition upsert_agent_liveness :: "string \<Rightarrow> liveness_row \<Rightarrow> sqlite_db \<Rightarrow> sqlite_db" where
  "upsert_agent_liveness instance_id r db =
     db\<lparr>liveness_rows := dset (liveness_rows db) instance_id
          (case dget (liveness_rows db) instance_id of
             None \<Rightarrow> r\<lparr>desired_state := None\<rparr>
           | Some old \<Rightarrow> old\<lparr>last_heartbeat_at := last_heartbeat_at r, current_task_id := current_task_id r,
                              current_task_type := current_task_type r\<rparr>)\<rparr>"

definition prune_agent_liveness :: "time \<Rightarrow> sqlite_db \<Rightarrow> nat \<times> sqlite_db" where
  "prune_agent_liveness cutoff db =
     (length (filter (\<lambda>(_, r). last_heartbeat_at r < cutoff) (liveness_rows db)),
      db\<lparr>liveness_rows := filter (\<lambda>(_, r). \<not> last_heartbeat_at r < cutoff) (liveness_rows db)\<rparr>)"

definition list_agent_liveness :: "sqlite_db \<Rightarrow> (string \<times> liveness_row) list" where
  "list_agent_liveness db = sort_key (\<lambda>(_, r). - int (started_at r)) (liveness_rows db)"

definition get_agent_liveness :: "string \<Rightarrow> sqlite_db \<Rightarrow> liveness_row option" where
  "get_agent_liveness instance_id db = dget (liveness_rows db) instance_id"

definition request_agent_stop :: "string \<Rightarrow> sqlite_db \<Rightarrow> bool \<times> sqlite_db" where
  "request_agent_stop instance_id db =
     (case dget (liveness_rows db) instance_id of
        None \<Rightarrow> (False, db)
      | Some r \<Rightarrow> (True, db\<lparr>liveness_rows := dset (liveness_rows db) instance_id
                                 (r\<lparr>desired_state := Some ''stop_requested''\<rparr>)\<rparr>))"

definition set_sweeper_desired_running :: "string \<Rightarrow> bool \<Rightarrow> sqlite_db \<Rightarrow> sqlite_db" where
  "set_sweeper_desired_running agent_id desired db = db\<lparr>sweeper_rows := dset (sweeper_rows db) agent_id desired\<rparr>"

definition get_sweeper_desired_running :: "string \<Rightarrow> sqlite_db \<Rightarrow> bool option" where
  "get_sweeper_desired_running agent_id db = dget (sweeper_rows db) agent_id"

section \<open>Export and import\<close>

text \<open>The parts of the exported dictionary that this theory's tables give; the registry of
  graphs is in \<open>Graph_Registry\<close>.  A session is exported without its row's
  \<open>latest_version_id\<close> and \<open>modified_at\<close>.\<close>

record storage_dump =
  dump_sessions :: "(string \<times> session_row) list"
  dump_versions :: "(string \<times> version_row) list"
  dump_embeddings :: "((string \<times> string) \<times> string \<times> time) list"
  dump_tasks :: "task list"

definition export_storage :: "sqlite_db \<Rightarrow> storage_dump" where
  "export_storage db =
     \<lparr>dump_sessions = session_rows db, dump_versions = version_rows db, dump_embeddings = embedding_rows db,
      dump_tasks = map snd (filter (\<lambda>(_, t). status t = Pending) (tasks (task_table db)))\<rparr>"

text \<open>\<open>INSERT OR IGNORE\<close>.\<close>

definition insert_or_ignore :: "'k \<Rightarrow> 'v \<Rightarrow> ('k, 'v) dict \<Rightarrow> ('k, 'v) dict" where
  "insert_or_ignore k v d = (if dhas d k then d else d @ [(k, v)])"

definition last_of :: "'a list \<Rightarrow> 'a option" where
  "last_of xs = (if xs = [] then None else Some (last xs))"

definition import_session :: "time \<Rightarrow> string \<times> session_row \<Rightarrow> (string, session_row) dict \<Rightarrow> (string, session_row) dict" where
  "import_session now kr d =
     (case kr of (sid, r) \<Rightarrow>
        insert_or_ignore sid
          (r\<lparr>latest_version_id := last_of (sr_version_ids r),
             modified_at := now\<rparr>) d)"

definition import_task :: "time \<Rightarrow> task \<Rightarrow> outbox \<Rightarrow> outbox" where
  "import_task now t ob =
     ob\<lparr>tasks := dset (tasks ob) (next_task_id ob)
          \<lparr>task_type = task_type t, t_session_id = t_session_id t, payload = payload t, status = Pending,
           retry_count = 0, next_retry_at = next_retry_at t, last_error = None, claimed_at = None,
           t_created_at = now\<rparr>,
        next_task_id := next_task_id ob + 1\<rparr>"

definition import_storage :: "storage_dump \<Rightarrow> bool \<Rightarrow> time \<Rightarrow> sqlite_db \<Rightarrow> sqlite_db" where
  "import_storage dump mode_clear now db =
     (let db = (if mode_clear
                then db\<lparr>task_table := (task_table db)\<lparr>tasks := []\<rparr>, embedding_rows := [], version_rows := [],
                        session_rows := []\<rparr>
                else db)
      in db\<lparr>session_rows := fold (import_session now) (dump_sessions dump) (session_rows db),
            version_rows := fold (\<lambda>(k, r). insert_or_ignore k r) (dump_versions dump) (version_rows db),
            embedding_rows := fold (\<lambda>(k, r). insert_or_ignore k r) (dump_embeddings dump) (embedding_rows db),
            task_table := fold (import_task now) (dump_tasks dump) (task_table db)\<rparr>)"

section \<open>Optimistic locking\<close>

definition recorded_latest :: "sqlite_db \<Rightarrow> string \<Rightarrow> string option option" where
  "recorded_latest db sid = map_option latest_version_id (dget (session_rows db) sid)"

interpretation sqlite_sessions: session_store "\<lambda>now s e. save_session cks s e now" recorded_latest
  by unfold_locales (auto simp: save_session_def recorded_latest_def session_row_of_def Let_def)

section \<open>Round trips\<close>

text \<open>The documented behaviour of the text form of a structure.\<close>

definition text_ok :: "cks_objects \<Rightarrow> kstruct \<Rightarrow> bool" where
  "text_ok cks ks \<longleftrightarrow> serialize_structure cks ks \<noteq> [] \<and> parse_structure cks (serialize_structure cks ks) = Some ks"

text \<open>The versions the runtime creates: a snapshot, or a patch over live objects.\<close>

definition storable :: "cks_objects \<Rightarrow> (kobj \<Rightarrow> bool) \<Rightarrow> version \<Rightarrow> bool" where
  "storable cks live v \<longleftrightarrow>
     (case v_structure v of
        Some ks \<Rightarrow> text_ok cks ks \<and> patch v = None
      | None \<Rightarrow> (case patch v of None \<Rightarrow> True | Some ops \<Rightarrow> list_all (operator_ok live) ops))"

lemma version_roundtrip:
  assumes "constructors_ok cks live" and "storable cks live v"
  shows "\<exists>row. version_row_of cks v = Inr row \<and> vr_session_id row = v_session_id v \<and>
    version_of_row cks (version_id v, row) = Inr v"
proof (cases "v_structure v")
  case (Some ks)
  then show ?thesis
    using assms(2) by (cases v) (simp add: storable_def version_row_of_def version_of_row_def text_ok_def parse_text_def)
next
  case None
  show ?thesis
  proof (cases "patch v")
    case (Some ops)
    then have "list_all (operator_ok live) ops"
      using assms(2) None by (simp add: storable_def)
    then obtain items where "serialize_operators ops = Inr items" "deserialize_operators cks items = Inr ops"
      using map_err_roundtrip [OF operator_roundtrip [OF assms(1)]]
      by (auto simp: serialize_operators_def deserialize_operators_def)
    then show ?thesis
      using None Some by (cases v) (simp add: version_row_of_def version_of_row_def)
  qed (use None in \<open>cases v, simp add: version_row_of_def version_of_row_def\<close>)
qed

text \<open>The versions a load of the session reads, in the order of the table.\<close>

definition stored_versions :: "cks_objects \<Rightarrow> sqlite_db \<Rightarrow> string \<Rightarrow> version list \<Rightarrow> bool" where
  "stored_versions cks db sid vs \<longleftrightarrow> map_err (version_of_row cks) (rows_of_session db sid) = Inr vs"

lemma map_err_append:
  "map_err f (xs @ ys) =
     bind_err (map_err f xs) (\<lambda>as. bind_err (map_err f ys) (\<lambda>bs. Inr (as @ bs)))"
  by (induction xs) (auto simp: bind_err_def split: sum.splits)

lemma stored_versions_save:
  assumes "constructors_ok cks live" and "storable cks live v" and "\<not> dhas (version_rows db) (version_id v)"
    and "stored_versions cks db sid vs"
  shows "\<exists>db'. save_version cks v db = (Inr (), db') \<and> session_rows db' = session_rows db \<and>
    dkeys (version_rows db') = dkeys (version_rows db) @ [version_id v] \<and>
    stored_versions cks db' sid (if v_session_id v = sid then vs @ [v] else vs)"
proof -
  obtain row where row: "version_row_of cks v = Inr row" "vr_session_id row = v_session_id v"
      "version_of_row cks (version_id v, row) = Inr v"
    using version_roundtrip [OF assms(1,2)] by blast
  then show ?thesis
    using assms(3,4)
    by (simp add: save_version_def stored_versions_def rows_of_session_def map_err_append dkeys_def)
qed

lemma fold_add_version: "fold add_version vs s = s\<lparr>version_history := version_history s @ vs\<rparr>"
  by (induction vs arbitrary: s) (simp_all add: add_version_def)

text \<open>What survives of a session: everything but the running transaction and the diagnostics.\<close>

definition persistent :: "session \<Rightarrow> session" where
  "persistent s = s\<lparr>active_transaction := None, session_diagnostics := []\<rparr>"

lemma load_saved:
  assumes "stored_versions cks db (session_id s) vs"
    and "dget (session_rows db) (session_id s) = Some (session_row_of cks s now)"
    and "text_ok cks (knowledge_structure s)" and "0 < snapshot_interval s"
  shows "load_session cks (session_id s) db =
    Inr (Some ((persistent s)\<lparr>version_history := sort_key v_created_at vs\<rparr>))"
  using assms
  by (simp add: load_session_def session_row_of_def text_ok_def parse_text_def make_session_def
      stored_versions_def fold_add_version persistent_def)

section \<open>Commits\<close>

abbreviation sqlite_persist :: "cks_objects \<Rightarrow> time \<Rightarrow> version \<Rightarrow> session \<Rightarrow> string option \<Rightarrow> (sqlite_db, unit) sx" where
  "sqlite_persist cks now \<equiv> persist (save_version cks) (\<lambda>s e. save_session cks s e now)"

text \<open>The database holds the session as it is in memory.\<close>

definition holds :: "cks_objects \<Rightarrow> sqlite_db \<Rightarrow> session \<Rightarrow> bool" where
  "holds cks db s \<longleftrightarrow>
     recorded_latest db (session_id s) = Some (latest_id s) \<and>
     stored_versions cks db (session_id s) (version_history s) \<and>
     sorted (map v_created_at (version_history s)) \<and> 0 < snapshot_interval s"

text \<open>The session after a commit: one version more, another structure, other metadata.\<close>

definition committed :: "version \<Rightarrow> kstruct \<Rightarrow> (string, pyval) dict \<Rightarrow> session \<Rightarrow> session" where
  "committed v ks m s = (add_version v s)\<lparr>knowledge_structure := ks, metadata := m\<rparr>"

definition version_fits :: "cks_objects \<Rightarrow> (kobj \<Rightarrow> bool) \<Rightarrow> sqlite_db \<Rightarrow> session \<Rightarrow> version \<Rightarrow> bool" where
  "version_fits cks live db s v \<longleftrightarrow>
     storable cks live v \<and> v_session_id v = session_id s \<and> \<not> dhas (version_rows db) (version_id v) \<and>
     (\<forall>u \<in> set (version_history s). v_created_at u \<le> v_created_at v)"

lemma committed_simps [simp]:
  "session_id (committed v ks m s) = session_id s"
  "version_history (committed v ks m s) = version_history s @ [v]"
  "knowledge_structure (committed v ks m s) = ks"
  "snapshot_interval (committed v ks m s) = snapshot_interval s"
  "latest_id (committed v ks m s) = Some (version_id v)"
  by (simp_all add: committed_def add_version_def latest_id_def)

lemma sort_key_sorted: "sorted (map f xs) \<Longrightarrow> sort_key f xs = xs"
  by (induction xs) (auto simp: sorted_append intro: insort_is_Cons)

lemma commit_step:
  assumes "constructors_ok cks live" and "holds cks db s" and "version_fits cks live db s v"
  shows "\<exists>db'. sqlite_persist cks now v (committed v ks m s) (latest_id s) db = (Inr (), db') \<and>
    holds cks db' (committed v ks m s) \<and>
    dkeys (version_rows db') = dkeys (version_rows db) @ [version_id v] \<and>
    dget (session_rows db') (session_id s) = Some (session_row_of cks (committed v ks m s) now)"
proof -
  obtain row where row: "dget (session_rows db) (session_id s) = Some row" "latest_version_id row = latest_id s"
    using assms(2) by (auto simp: holds_def recorded_latest_def)
  obtain db1 where db1: "save_version cks v db = (Inr (), db1)" "session_rows db1 = session_rows db"
      "dkeys (version_rows db1) = dkeys (version_rows db) @ [version_id v]"
      "stored_versions cks db1 (session_id s) (version_history s @ [v])"
    using stored_versions_save [OF assms(1), of v db "session_id s" "version_history s"] assms(2,3)
    by (auto simp: holds_def version_fits_def)
  let ?db' = "db1\<lparr>session_rows := dset (session_rows db1) (session_id s) (session_row_of cks (committed v ks m s) now)\<rparr>"
  have "save_session cks (committed v ks m s) (latest_id s) now db1 = (Inr (), ?db')"
    using row db1(2) by (simp add: save_session_def Let_def split: option.splits)
  then have run: "sqlite_persist cks now v (committed v ks m s) (latest_id s) db = (Inr (), ?db')"
    using db1(1) by (simp add: persist_def bindM_def)
  have "sorted (map v_created_at (version_history s @ [v]))"
    using assms(2,3) by (auto simp: holds_def version_fits_def sorted_append)
  then have "holds cks ?db' (committed v ks m s)"
    using db1(4) assms(2) by (simp add: holds_def recorded_latest_def session_row_of_def
        stored_versions_def rows_of_session_def)
  then show ?thesis
    using run db1(3) by auto
qed

lemma load_held:
  assumes "holds cks db s" and "dget (session_rows db) (session_id s) = Some (session_row_of cks s now)"
    and "text_ok cks (knowledge_structure s)"
  shows "load_session cks (session_id s) db = Inr (Some (persistent s))"
proof -
  have "sort_key v_created_at (version_history s) = version_history s"
    using assms(1) by (simp add: holds_def sort_key_sorted)
  then show ?thesis
    using load_saved [OF _ assms(2,3), of "version_history s"] assms(1) by (simp add: holds_def persistent_def)
qed

text \<open>A sequence of commits by one writer.\<close>

fun commit_run ::
  "cks_objects \<Rightarrow> (version \<times> kstruct \<times> (string, pyval) dict \<times> time) list \<Rightarrow> session \<Rightarrow> (sqlite_db, session) sx" where
  "commit_run cks [] s = retM s"
| "commit_run cks ((v, ks, m, now) # cs) s =
     bindM (sqlite_persist cks now v (committed v ks m s) (latest_id s)) (\<lambda>_. commit_run cks cs (committed v ks m s))"

definition durable :: "cks_objects \<Rightarrow> sqlite_db \<Rightarrow> session \<Rightarrow> bool" where
  "durable cks db s \<longleftrightarrow>
     holds cks db s \<and> text_ok cks (knowledge_structure s) \<and>
     (\<exists>now. dget (session_rows db) (session_id s) = Some (session_row_of cks s now))"

fun run_fits ::
  "cks_objects \<Rightarrow> (kobj \<Rightarrow> bool) \<Rightarrow> string \<Rightarrow> string list \<Rightarrow> time
     \<Rightarrow> (version \<times> kstruct \<times> (string, pyval) dict \<times> time) list \<Rightarrow> bool" where
  "run_fits cks live sid used since [] = True"
| "run_fits cks live sid used since ((v, ks, m, now) # cs) =
     (storable cks live v \<and> v_session_id v = sid \<and> version_id v \<notin> set used \<and> since \<le> v_created_at v \<and>
      text_ok cks ks \<and> run_fits cks live sid (used @ [version_id v]) (v_created_at v) cs)"

lemma commit_run_durable:
  assumes "constructors_ok cks live"
  shows "durable cks db s \<Longrightarrow> run_fits cks live (session_id s) (dkeys (version_rows db)) since cs \<Longrightarrow>
    \<forall>u \<in> set (version_history s). v_created_at u \<le> since \<Longrightarrow>
    \<exists>s' db'. commit_run cks cs s db = (Inr s', db') \<and> durable cks db' s' \<and> session_id s' = session_id s \<and>
      version_history s' = version_history s @ map fst cs"
proof (induction cs arbitrary: db s since)
  case Nil
  then show ?case
    by (simp add: retM_def)
next
  case (Cons c cs)
  obtain v ks m now where c: "c = (v, ks, m, now)"
    by (cases c) auto
  have fits: "version_fits cks live db s v"
    using Cons.prems(2,3) c by (auto simp: version_fits_def dhas_iff)
  obtain db1 where db1: "sqlite_persist cks now v (committed v ks m s) (latest_id s) db = (Inr (), db1)"
      "holds cks db1 (committed v ks m s)" "dkeys (version_rows db1) = dkeys (version_rows db) @ [version_id v]"
      "dget (session_rows db1) (session_id s) = Some (session_row_of cks (committed v ks m s) now)"
    using commit_step [OF assms _ fits, of now ks m] Cons.prems(1) unfolding durable_def by blast
  have "durable cks db1 (committed v ks m s)"
    using db1(2,4) Cons.prems(2) c by (auto simp: durable_def)
  moreover have "run_fits cks live (session_id s) (dkeys (version_rows db1)) (v_created_at v) cs"
    using Cons.prems(2) c db1(3) by simp
  moreover have "\<forall>u \<in> set (version_history s @ [v]). v_created_at u \<le> v_created_at v"
    using Cons.prems(2,3) c by auto
  ultimately show ?case
    using Cons.IH [of db1 "committed v ks m s" "v_created_at v"] db1(1) c by (simp add: bindM_def)
qed

lemma stored_ids:
  assumes "stored_versions cks db sid vs"
  shows "version_id ` set vs \<subseteq> set (dkeys (version_rows db))"
proof -
  have ids: "version_id ` set us \<subseteq> fst ` set rows" if "map_err (version_of_row cks) rows = Inr us" for rows us
    using that
  proof (induction rows arbitrary: us)
    case (Cons r rows)
    obtain u us' where us: "version_of_row cks r = Inr u" "map_err (version_of_row cks) rows = Inr us'" "us = u # us'"
      using Cons.prems by (auto split: sum.splits)
    moreover have "version_id u = fst r"
      using us(1) by (auto simp: version_of_row_def bind_err_def split: prod.splits sum.splits)
    ultimately show ?case
      using Cons.IH by auto
  qed simp
  show ?thesis
    using ids [of "rows_of_session db sid" vs] assms
    by (auto simp: stored_versions_def rows_of_session_def dkeys_def image_iff)
qed

section \<open>Backup\<close>

definition db_ok :: "sqlite_db \<Rightarrow> bool" where
  "db_ok db \<longleftrightarrow>
     dict_ok (session_rows db) \<and> dict_ok (version_rows db) \<and> dict_ok (embedding_rows db) \<and>
     list_all (\<lambda>(_, r). latest_version_id r =
        last_of (sr_version_ids r)) (session_rows db)"

lemma save_session_db_ok: "db_ok db \<Longrightarrow> db_ok (snd (save_session cks s e now db))"
proof -
  have row: "latest_version_id (session_row_of cks s now) = last_of (sr_version_ids (session_row_of cks s now))"
    by (simp add: session_row_of_def latest_id_def last_map last_of_def)
  assume "db_ok db"
  then show ?thesis
    using list_all_dset [of _ "session_rows db" "session_id s" "session_row_of cks s now"] row
    by (auto simp: db_ok_def save_session_def Let_def split: option.splits)
qed

lemma save_version_db_ok: "db_ok db \<Longrightarrow> db_ok (snd (save_version cks v db))"
  by (auto simp: db_ok_def save_version_def dict_ok_def dkeys_def dhas_iff split: sum.splits)

lemma persist_db_ok: "db_ok db \<Longrightarrow> db_ok (snd (sqlite_persist cks now v s e db))"
  using save_version_db_ok [of db cks v] save_session_db_ok [of "snd (save_version cks v db)" cks s e now]
  by (auto simp: persist_def bindM_def split: sum.splits prod.splits)

lemma fold_insert_new:
  "dict_ok (d @ xs) \<Longrightarrow> fold (\<lambda>(k, r). insert_or_ignore k r) xs d = d @ xs"
proof (induction xs arbitrary: d)
  case (Cons x xs)
  then have "\<not> dhas d (fst x)" "dict_ok ((d @ [x]) @ xs)"
    by (auto simp: dhas_iff dict_ok_def dkeys_def)
  then show ?case
    using Cons.IH [of "d @ [x]"] by (cases x) (simp add: insert_or_ignore_def)
qed simp

lemma import_sessions:
  "dict_ok (d @ xs) \<Longrightarrow>
   fold (import_session now) xs d =
     d @ map (\<lambda>(k, r). (k, r\<lparr>latest_version_id := last_of (sr_version_ids r),
                              modified_at := now\<rparr>)) xs"
proof (induction xs arbitrary: d)
  case (Cons x xs)
  let ?y = "\<lambda>(k, r). (k, r\<lparr>latest_version_id := last_of (sr_version_ids r),
                              modified_at := now\<rparr>)"
  have "dkeys ((d @ [?y x]) @ xs) = dkeys (d @ x # xs)"
    by (cases x) (simp add: dkeys_def)
  then have "\<not> dhas d (fst x)" "dict_ok ((d @ [?y x]) @ xs)"
    using Cons.prems by (auto simp: dhas_iff dict_ok_def dkeys_def)
  then show ?case
    using Cons.IH [of "d @ [?y x]"] by (cases x) (simp add: import_session_def insert_or_ignore_def)
qed simp

definition task_key :: "task \<Rightarrow> string \<times> string \<times> pyval \<times> stamp \<times> task_status" where
  "task_key t = (task_type t, t_session_id t, payload t, next_retry_at t, status t)"

lemma dget_map_val: "dget (map (\<lambda>(k, r). (k, f r)) d) k = map_option f (dget d k)"
  by (induction d) (auto simp: dict_simps)

lemma import_tasks:
  "\<forall>i \<in> set (dkeys (tasks ob)). i < next_task_id ob \<Longrightarrow>
   map task_key (dvals (tasks (fold (import_task now) ts ob))) =
   map task_key (dvals (tasks ob)) @ map (\<lambda>t. task_key (t\<lparr>status := Pending\<rparr>)) ts"
proof (induction ts arbitrary: ob)
  case (Cons t ts)
  have "next_task_id ob \<notin> set (dkeys (tasks ob))"
    using Cons.prems by auto
  then have "map task_key (dvals (tasks (import_task now t ob))) =
      map task_key (dvals (tasks ob)) @ [task_key (t\<lparr>status := Pending\<rparr>)]"
    "set (dkeys (tasks (import_task now t ob))) = insert (next_task_id ob) (set (dkeys (tasks ob)))"
    by (simp_all add: import_task_def dset_new dvals_def task_key_def dkeys_def)
  moreover have "next_task_id (import_task now t ob) = next_task_id ob + 1"
    by (simp add: import_task_def)
  ultimately show ?case
    using Cons.IH [of "import_task now t ob"] Cons.prems by (simp add: less_Suc_eq)
qed simp

text \<open>A library that writes the empty structure and one structure of one object.\<close>

definition text_cks :: cks_objects where
  "text_cks = plain_cks
     \<lparr>serialize_structure := (\<lambda>ks. if ks = one_object then ''x'' else ''-''),
      parse_structure := (\<lambda>t. Some (if t = ''x'' then one_object else \<lparr>ks_objects = []\<rparr>))\<rparr>"

definition snapshot_at :: "string \<Rightarrow> time \<Rightarrow> kstruct \<Rightarrow> version" where
  "snapshot_at vid now ks =
     \<lparr>v_session_id = ''s'', v_transaction_id = ''t'', v_structure = Some ks, v_metadata = [], version_id = vid,
      v_created_at = now, state_hash = None, patch = None\<rparr>"

definition first_session :: session where
  "first_session = sample_session\<lparr>version_history := [snapshot_at ''v0'' 1 \<lparr>ks_objects = []\<rparr>]\<rparr>"

definition first_db :: sqlite_db where
  "first_db = snd (sqlite_persist text_cks 1 (snapshot_at ''v0'' 1 \<lparr>ks_objects = []\<rparr>) first_session None empty_db)"

lemma text_cks_ok: "text_ok text_cks one_object" "text_ok text_cks \<lparr>ks_objects = []\<rparr>"
  by (simp_all add: text_ok_def text_cks_def one_object_def)

lemma text_constructors_ok: "constructors_ok text_cks (\<lambda>k. ko_hash k = [])"
  using plain_constructors_ok by (simp add: constructors_ok_def text_cks_def cong: option.case_cong prod.case_cong)

lemma snapshot_at_simps [simp]:
  "v_session_id (snapshot_at vid now ks) = ''s''" "version_id (snapshot_at vid now ks) = vid"
  "v_created_at (snapshot_at vid now ks) = now"
  "storable text_cks live (snapshot_at vid now ks) \<longleftrightarrow> text_ok text_cks ks"
  by (simp_all add: snapshot_at_def storable_def)

lemma first_session_simps [simp]:
  "session_id first_session = ''s''" "version_history first_session = [snapshot_at ''v0'' 1 \<lparr>ks_objects = []\<rparr>]"
  "snapshot_interval first_session = 10" "knowledge_structure first_session = \<lparr>ks_objects = []\<rparr>"
  by (simp_all add: first_session_def sample_session_def)

lemma first_db_simps:
  "session_rows first_db = [(''s'', session_row_of text_cks first_session 1)]"
  "\<exists>row. version_row_of text_cks (snapshot_at ''v0'' 1 \<lparr>ks_objects = []\<rparr>) = Inr row \<and>
     version_rows first_db = [(''v0'', row)] \<and> vr_session_id row = ''s'' \<and>
     version_of_row text_cks (''v0'', row) = Inr (snapshot_at ''v0'' 1 \<lparr>ks_objects = []\<rparr>)"
proof -
  obtain row where row: "version_row_of text_cks (snapshot_at ''v0'' 1 \<lparr>ks_objects = []\<rparr>) = Inr row"
      "vr_session_id row = ''s''" "version_of_row text_cks (''v0'', row) = Inr (snapshot_at ''v0'' 1 \<lparr>ks_objects = []\<rparr>)"
    using version_roundtrip [OF text_constructors_ok, of "snapshot_at ''v0'' 1 \<lparr>ks_objects = []\<rparr>"] text_cks_ok(2) by auto
  then show "session_rows first_db = [(''s'', session_row_of text_cks first_session 1)]"
    "\<exists>row. version_row_of text_cks (snapshot_at ''v0'' 1 \<lparr>ks_objects = []\<rparr>) = Inr row \<and>
     version_rows first_db = [(''v0'', row)] \<and> vr_session_id row = ''s'' \<and>
     version_of_row text_cks (''v0'', row) = Inr (snapshot_at ''v0'' 1 \<lparr>ks_objects = []\<rparr>)"
    by (simp_all add: first_db_def persist_def bindM_def save_version_def save_session_def empty_db_def dhas_def dset_def)
qed

lemma first_durable: "durable text_cks first_db first_session" "dkeys (version_rows first_db) = [''v0'']"
  using first_db_simps text_cks_ok(2)
  by (auto simp: durable_def holds_def recorded_latest_def stored_versions_def rows_of_session_def dict_simps
      session_row_of_def latest_id_def dkeys_def)

section \<open>Properties\<close>

text \<open>C10: Commits are durable and exact: after any sequence of commits of a session, each a
  snapshot or a delta with a fresh id and a time not before the last, every commit has
  succeeded and loading the session gives back what is in memory, with the whole history in
  order; only the running transaction and the diagnostics are dropped.\<close>

theorem commits_reload:
  assumes "constructors_ok cks live" and "durable cks db s"
    and "run_fits cks live (session_id s) (dkeys (version_rows db)) since cs"
    and "\<forall>u \<in> set (version_history s). v_created_at u \<le> since"
  shows "\<exists>s' db'. commit_run cks cs s db = (Inr s', db') \<and>
    version_history s' = version_history s @ map fst cs \<and>
    load_session cks (session_id s) db' = Inr (Some (persistent s'))"
proof -
  obtain s' db' where r: "commit_run cks cs s db = (Inr s', db')" "durable cks db' s'" "session_id s' = session_id s"
      "version_history s' = version_history s @ map fst cs"
    using commit_run_durable [OF assms] by auto
  then obtain now where "dget (session_rows db') (session_id s') = Some (session_row_of cks s' now)"
    by (auto simp: durable_def)
  then have "load_session cks (session_id s') db' = Inr (Some (persistent s'))"
    using load_held r(2) unfolding durable_def by blast
  then show ?thesis
    using r by auto
qed

theorem commits_reload_witness:
  "\<exists>s' db'. commit_run text_cks
       [(snapshot_at ''v1'' 2 one_object, one_object, [], 2), (snapshot_at ''v2'' 2 one_object, one_object, [], 3)]
       first_session first_db = (Inr s', db') \<and>
     map version_id (version_history s') = [''v0'', ''v1'', ''v2''] \<and>
     load_session text_cks ''s'' db' = Inr (Some (persistent s'))"
  using commits_reload [OF text_constructors_ok first_durable(1), of 1
      "[(snapshot_at ''v1'' 2 one_object, one_object, [], 2), (snapshot_at ''v2'' 2 one_object, one_object, [], 3)]"]
  by (auto simp: first_durable(2) text_cks_ok)

text \<open>A lost race cannot be repaired by reloading: two writers hold the same session with a
  latest version, the first commits, the second's commit is refused, but its version row
  stays; every later load counts it as history, and if it is younger than the winner's, every
  commit that builds on what was loaded is refused, whatever is committed.\<close>

theorem lost_commit_blocks_retry:
  assumes "constructors_ok cks live" and "durable cks db s" and "version_history s \<noteq> []"
    and "version_fits cks live db s w" and "version_fits cks live db s v"
    and "version_id v \<noteq> version_id w" and "v_created_at w < v_created_at v" and "text_ok cks ks"
  shows "\<exists>db1 db2 fresh.
    sqlite_persist cks now w (committed w ks m s) (latest_id s) db = (Inr (), db1) \<and>
    sqlite_persist cks now v (committed v ks' m' s) (latest_id s) db1 = (Inl ConcurrentModificationError, db2) \<and>
    load_session cks (session_id s) db2 = Inr (Some fresh) \<and>
    version_history fresh = version_history s @ [w, v] \<and>
    (\<forall>s' now'. session_id s' = session_id s \<longrightarrow>
       save_session cks s' (latest_id fresh) now' db2 = (Inl ConcurrentModificationError, db2))"
proof -
  let ?s1 = "committed w ks m s"
  obtain db1 where db1: "sqlite_persist cks now w ?s1 (latest_id s) db = (Inr (), db1)" "holds cks db1 ?s1"
      "dkeys (version_rows db1) = dkeys (version_rows db) @ [version_id w]"
      "dget (session_rows db1) (session_id s) = Some (session_row_of cks ?s1 now)"
    using commit_step [OF assms(1) _ assms(4), of now ks m] assms(2) unfolding durable_def by blast
  have free: "\<not> dhas (version_rows db1) (version_id v)"
    using assms(5,6) db1(3) by (auto simp: version_fits_def dhas_iff)
  obtain db2 where db2: "save_version cks v db1 = (Inr (), db2)" "session_rows db2 = session_rows db1"
      "stored_versions cks db2 (session_id s) (version_history s @ [w, v])"
    using stored_versions_save [OF assms(1) _ free, of "session_id s" "version_history s @ [w]"] assms(5) db1(2)
    by (auto simp: holds_def version_fits_def)
  obtain x where x: "latest_id s = Some x" "x \<in> version_id ` set (version_history s)"
    using assms(3) by (simp add: latest_id_def)
  have "x \<noteq> version_id w"
    using stored_ids [of cks db "session_id s" "version_history s"] assms(2,4) x(2)
    by (auto simp: durable_def holds_def version_fits_def dhas_iff)
  then have "save_session cks (committed v ks' m' s) (latest_id s) now db2 = (Inl ConcurrentModificationError, db2)"
    using db1(4) db2(2) x(1) by (simp add: save_session_def session_row_of_def)
  then have lost: "sqlite_persist cks now v (committed v ks' m' s) (latest_id s) db1 = (Inl ConcurrentModificationError, db2)"
    using db2(1) by (simp add: persist_def bindM_def)
  have "sorted (map v_created_at (version_history s @ [w, v]))"
    using assms(2,4,5,7) by (auto simp: durable_def holds_def version_fits_def sorted_append)
  then have "load_session cks (session_id ?s1) db2 =
      Inr (Some ((persistent ?s1)\<lparr>version_history := version_history s @ [w, v]\<rparr>))"
    using load_saved [of cks db2 ?s1 "version_history s @ [w, v]" now] db2(2,3) db1(2,4) assms(8)
    by (simp add: holds_def sort_key_sorted)
  moreover have "save_session cks s' (Some (version_id v)) now' db2 = (Inl ConcurrentModificationError, db2)"
    if "session_id s' = session_id s" for s' now'
    using that db1(4) db2(2) assms(6) by (simp add: save_session_def session_row_of_def)
  ultimately show ?thesis
    using db1(1) lost by (auto simp: latest_id_def)
qed

theorem lost_commit_blocks_retry_witness:
  "\<exists>db1 db2 fresh.
    sqlite_persist text_cks 2 (snapshot_at ''w'' 2 one_object)
      (committed (snapshot_at ''w'' 2 one_object) one_object [] first_session) (Some ''v0'') first_db = (Inr (), db1) \<and>
    sqlite_persist text_cks 2 (snapshot_at ''v'' 3 one_object)
      (committed (snapshot_at ''v'' 3 one_object) one_object [] first_session) (Some ''v0'') db1 =
        (Inl ConcurrentModificationError, db2) \<and>
    load_session text_cks ''s'' db2 = Inr (Some fresh) \<and>
    save_session text_cks fresh (latest_id fresh) 4 db2 = (Inl ConcurrentModificationError, db2)"
proof -
  have fits: "version_fits text_cks (\<lambda>k. ko_hash k = []) first_db first_session (snapshot_at ''w'' 2 one_object)"
    "version_fits text_cks (\<lambda>k. ko_hash k = []) first_db first_session (snapshot_at ''v'' 3 one_object)"
    using first_durable(2) by (simp_all add: version_fits_def text_cks_ok dhas_iff)
  obtain db1 db2 fresh where r:
    "sqlite_persist text_cks 2 (snapshot_at ''w'' 2 one_object)
      (committed (snapshot_at ''w'' 2 one_object) one_object [] first_session) (Some ''v0'') first_db = (Inr (), db1)"
    "sqlite_persist text_cks 2 (snapshot_at ''v'' 3 one_object)
      (committed (snapshot_at ''v'' 3 one_object) one_object [] first_session) (Some ''v0'') db1 =
        (Inl ConcurrentModificationError, db2)"
    "load_session text_cks ''s'' db2 = Inr (Some fresh)"
    "\<forall>s' now'. session_id s' = ''s'' \<longrightarrow>
       save_session text_cks s' (latest_id fresh) now' db2 = (Inl ConcurrentModificationError, db2)"
    using lost_commit_blocks_retry [OF text_constructors_ok first_durable(1) _ fits, of one_object 2 "[]" one_object "[]"]
    by (auto simp: text_cks_ok latest_id_def)
  moreover have "session_id fresh = ''s''"
    using r(3) by (auto simp: load_session_def bind_err_def make_session_def fold_add_version
        split: option.splits sum.splits if_splits)
  ultimately show ?thesis
    by blast
qed

text \<open>C29: A backup restores: importing an export into any database in the mode \<open>clear\<close> gives
  back every session and version as a load reads it, the lock state of every session, all
  embeddings, and the pending tasks in order with their retry times.\<close>

theorem import_restores:
  assumes "db_ok db"
  shows "let db' = import_storage (export_storage db) True now other
    in load_session cks sid db' = load_session cks sid db \<and>
       load_version cks vid db' = load_version cks vid db \<and>
       recorded_latest db' sid = recorded_latest db sid \<and>
       embedding_rows db' = embedding_rows db \<and>
       map task_key (dvals (tasks (task_table db'))) =
       map task_key (filter (\<lambda>t. status t = Pending) (dvals (tasks (task_table db))))"
proof -
  let ?db' = "import_storage (export_storage db) True now other"
  let ?f = "\<lambda>r. r\<lparr>latest_version_id := last_of (sr_version_ids r),
                  modified_at := now\<rparr>"
  have s: "session_rows ?db' = map (\<lambda>(k, r). (k, ?f r)) (session_rows db)"
    using import_sessions [of "[]" "session_rows db" now] assms
    by (simp add: import_storage_def export_storage_def Let_def db_ok_def)
  have v: "version_rows ?db' = version_rows db" and e: "embedding_rows ?db' = embedding_rows db"
    using fold_insert_new [of "[]" "version_rows db"] fold_insert_new [of "[]" "embedding_rows db"] assms
    by (simp_all add: import_storage_def export_storage_def Let_def db_ok_def)
  have row: "dget (session_rows ?db') sid = map_option ?f (dget (session_rows db) sid)" for sid
    unfolding s by (rule dget_map_val)
  have latest: "latest_version_id (?f r) = latest_version_id r" if "dget (session_rows db) sid = Some r" for r
    using assms dget_SomeD [OF that] by (auto simp: db_ok_def list_all_iff)
  have "recorded_latest ?db' sid = recorded_latest db sid"
    using latest by (cases "dget (session_rows db) sid") (simp_all add: recorded_latest_def row)
  moreover have "load_session cks sid ?db' = load_session cks sid db"
    by (cases "dget (session_rows db) sid") (simp_all add: load_session_def row v rows_of_session_def)
  moreover have "load_version cks vid ?db' = load_version cks vid db"
    by (simp add: load_version_def v)
  moreover have "map task_key (dvals (tasks (task_table ?db'))) =
       map task_key (filter (\<lambda>t. status t = Pending) (dvals (tasks (task_table db))))"
    using import_tasks [of "(task_table other)\<lparr>tasks := []\<rparr>" now "dump_tasks (export_storage db)"]
    by (auto simp: import_storage_def export_storage_def Let_def dkeys_def dvals_def filter_map comp_def
        case_prod_unfold task_key_def intro!: map_cong)
  ultimately show ?thesis
    using e by (simp add: Let_def)
qed

theorem import_restores_witness:
  "load_session text_cks ''s'' (import_storage (export_storage first_db) True 9 empty_db) =
     Inr (Some (persistent first_session)) \<and>
   recorded_latest (import_storage (export_storage first_db) True 9 empty_db) ''s'' = Some (Some ''v0'')"
proof -
  have "db_ok first_db"
    unfolding first_db_def by (rule persist_db_ok) (simp add: db_ok_def empty_db_def)
  moreover have "load_session text_cks ''s'' first_db = Inr (Some (persistent first_session))"
    using load_held [of text_cks first_db first_session 1] first_durable(1) first_db_simps(1)
    by (simp add: durable_def dict_simps)
  moreover have "recorded_latest first_db ''s'' = Some (Some ''v0'')"
    using first_durable(1) by (simp add: durable_def holds_def latest_id_def)
  ultimately show ?thesis
    using import_restores [of first_db 9 empty_db text_cks "''s''" "''v0''"] by (simp add: Let_def)
qed

end
