(* ===== verification/Envelope.thy ===== *)
theory Envelope
  imports Json_Text Sqlite_Storage
begin

text \<open>
  Signed snapshots of sessions on the wire (\<open>gossip/envelope.py\<close>).  The text of a float
  (\<open>ft\<close>) and the package \<open>cks\<close> are parameters; the nonce, the clock and the secret are
  arguments.  The lineage pointers of a received envelope are not checked when it is read, so
  they are JSON values.
\<close>

record envelope =
  sender_replica_id :: string
  env_session_id :: string
  knowledge_structure_json :: string
  env_metadata :: "(string, pyval) dict"
  env_parent_session_id :: pyval
  env_parent_version_id :: pyval
  env_nonce :: string
  env_seq_no :: int
  timestamp_ms :: int
  signature :: string
  env_version :: string

definition SIGNING_SEPARATOR :: char where
  "SIGNING_SEPARATOR = CHR 0x1F"

definition GOSSIP_ENVELOPE_VERSION :: string where
  "GOSSIP_ENVELOPE_VERSION = ''1.0''"

section \<open>Signing\<close>

definition utf8_char :: "char \<Rightarrow> string" where
  "utf8_char c =
     (let n = of_char c :: nat
      in if n < 128 then [c] else [char_of (192 + n div 64), char_of (128 + n mod 64)])"

definition utf8 :: "string \<Rightarrow> string" where
  "utf8 s = concat (map utf8_char s)"

text \<open>\<open>parent or ""\<close> as an argument of \<open>join\<close>, which takes strings only.\<close>

fun parent_text :: "pyval \<Rightarrow> exn + string" where
  "parent_text (PStr s) = Inr s"
| "parent_text v = (if truthy v then Inl TypeError else Inr [])"

definition signing_payload :: "(rat \<Rightarrow> string) \<Rightarrow> envelope \<Rightarrow> exn + string" where
  "signing_payload ft e =
     bind_err (parent_text (env_parent_session_id e)) (\<lambda>parent_session.
     bind_err (parent_text (env_parent_version_id e)) (\<lambda>parent_version.
     Inr (join [SIGNING_SEPARATOR]
       [sender_replica_id e, env_session_id e, knowledge_structure_json e,
        dumps_sorted ft (PDict (env_metadata e)), parent_session, parent_version, env_nonce e,
        int_text (env_seq_no e), int_text (timestamp_ms e)])))"

definition sign :: "(rat \<Rightarrow> string) \<Rightarrow> nat list \<Rightarrow> envelope \<Rightarrow> exn + string" where
  "sign ft secret e = bind_err (signing_payload ft e) (\<lambda>p. Inr (hmac_sha256_hex secret (utf8 p)))"

definition verify :: "(rat \<Rightarrow> string) \<Rightarrow> nat list \<Rightarrow> envelope \<Rightarrow> exn + bool" where
  "verify ft secret e =
     (if signature e = [] then Inr False
      else bind_err (sign ft secret e) (\<lambda>expected.
             if \<not> is_ascii (signature e) then Inl TypeError else Inr (expected = signature e)))"

section \<open>Sessions and envelopes\<close>

fun opt_json :: "string option \<Rightarrow> pyval" where
  "opt_json None = PNone"
| "opt_json (Some s) = PStr s"

definition from_session ::
  "(rat \<Rightarrow> string) \<Rightarrow> cks_objects \<Rightarrow> nat list \<Rightarrow> string \<Rightarrow> int \<Rightarrow> string \<Rightarrow> int \<Rightarrow> session \<Rightarrow> exn + envelope" where
  "from_session ft cks secret replica seq_no nonce now_ms s =
     (let e = \<lparr>sender_replica_id = replica, env_session_id = session_id s,
               knowledge_structure_json = serialize_structure cks (knowledge_structure s),
               env_metadata = metadata s, env_parent_session_id = opt_json (parent_session_id s),
               env_parent_version_id = opt_json (parent_version_id s), env_nonce = nonce, env_seq_no = seq_no,
               timestamp_ms = now_ms, signature = [], env_version = GOSSIP_ENVELOPE_VERSION\<rparr>
      in bind_err (sign ft secret e) (\<lambda>sig. Inr (e\<lparr>signature := sig\<rparr>)))"

text \<open>A session holds its pointers as strings or \<open>None\<close>; of the other values only those that
  count as false pass the check of the signature, where they stand for the empty string, and
  they are \<open>None\<close> here.\<close>

fun json_opt :: "pyval \<Rightarrow> string option" where
  "json_opt (PStr s) = Some s"
| "json_opt _ = None"

definition to_session :: "cks_objects \<Rightarrow> envelope \<Rightarrow> exn + session" where
  "to_session cks e =
     bind_err (parse_text cks (knowledge_structure_json e)) (\<lambda>ks.
       make_session ks (env_session_id e) (env_metadata e) 10 (json_opt (env_parent_session_id e))
         (json_opt (env_parent_version_id e)))"

section \<open>The wire format\<close>

definition to_dict :: "envelope \<Rightarrow> (string, pyval) dict" where
  "to_dict e =
     [(''version'', PStr (env_version e)), (''sender_replica_id'', PStr (sender_replica_id e)),
      (''session_id'', PStr (env_session_id e)), (''knowledge_structure_json'', PStr (knowledge_structure_json e)),
      (''metadata'', PDict (env_metadata e)), (''parent_session_id'', env_parent_session_id e),
      (''parent_version_id'', env_parent_version_id e), (''nonce'', PStr (env_nonce e)),
      (''seq_no'', PInt (env_seq_no e)), (''timestamp_ms'', PInt (timestamp_ms e)),
      (''signature'', PStr (signature e))]"

definition need :: "(string, pyval) dict \<Rightarrow> string \<Rightarrow> exn + pyval" where
  "need d k = (case dget d k of None \<Rightarrow> Inl KeyError | Some v \<Rightarrow> Inr v)"

text \<open>\<open>str(v)\<close>; on a string it is the identity.\<close>

definition py_str :: "cks_objects \<Rightarrow> pyval \<Rightarrow> string" where
  "py_str cks v = (case v of PStr s \<Rightarrow> s | _ \<Rightarrow> str_of cks v)"

text \<open>\<open>dict(v)\<close> of a true value; what it makes of a list of pairs is the parameter \<open>pairs\<close>.
  A string that is not empty has elements of length one.\<close>

fun py_dict :: "(pyval list \<Rightarrow> exn + (string, pyval) dict) \<Rightarrow> pyval \<Rightarrow> exn + (string, pyval) dict" where
  "py_dict pairs (PDict d) = Inr d"
| "py_dict pairs (PList xs) = pairs xs"
| "py_dict pairs (PStr s) = Inl ValueError"
| "py_dict pairs _ = Inl TypeError"

definition from_dict ::
  "cks_objects \<Rightarrow> (pyval list \<Rightarrow> exn + (string, pyval) dict) \<Rightarrow> (string, pyval) dict \<Rightarrow> exn + envelope" where
  "from_dict cks pairs data =
     bind_err (need data ''sender_replica_id'') (\<lambda>sender.
     bind_err (need data ''session_id'') (\<lambda>sid.
     bind_err (need data ''knowledge_structure_json'') (\<lambda>ks.
     bind_err (if truthy (dget_or data ''metadata'' PNone) then py_dict pairs (dget_or data ''metadata'' PNone) else Inr []) (\<lambda>m.
     bind_err (need data ''parent_session_id'') (\<lambda>ps.
     bind_err (need data ''parent_version_id'') (\<lambda>pv.
     bind_err (need data ''nonce'') (\<lambda>nonce.
     bind_err (bind_err (need data ''seq_no'') py_int) (\<lambda>seq.
     bind_err (bind_err (need data ''timestamp_ms'') py_int) (\<lambda>ts.
     bind_err (need data ''signature'') (\<lambda>sig.
     Inr \<lparr>sender_replica_id = py_str cks sender, env_session_id = py_str cks sid, knowledge_structure_json = py_str cks ks,
          env_metadata = m, env_parent_session_id = ps, env_parent_version_id = pv, env_nonce = py_str cks nonce,
          env_seq_no = seq, timestamp_ms = ts, signature = py_str cks sig,
          env_version = py_str cks (dget_or data ''version'' (PStr GOSSIP_ENVELOPE_VERSION))\<rparr>))))))))))"

section \<open>What a signature covers\<close>

text \<open>An envelope whose free fields do not contain the separator.\<close>

definition plain_fields :: "envelope \<Rightarrow> bool" where
  "plain_fields e \<longleftrightarrow>
     list_all (\<lambda>s. SIGNING_SEPARATOR \<notin> set s)
       [sender_replica_id e, env_session_id e, knowledge_structure_json e, env_nonce e] \<and>
     (\<forall>s. env_parent_session_id e = PStr s \<longrightarrow> SIGNING_SEPARATOR \<notin> set s) \<and>
     (\<forall>s. env_parent_version_id e = PStr s \<longrightarrow> SIGNING_SEPARATOR \<notin> set s)"

text \<open>Equality of all that is signed: the version and the difference between a missing pointer
  and an empty one are not, nor is the order of keys.\<close>

definition same_content :: "envelope \<Rightarrow> envelope \<Rightarrow> bool" where
  "same_content e e' \<longleftrightarrow>
     sender_replica_id e = sender_replica_id e' \<and> env_session_id e = env_session_id e' \<and>
     knowledge_structure_json e = knowledge_structure_json e' \<and>
     json_sorted (PDict (env_metadata e)) = json_sorted (PDict (env_metadata e')) \<and>
     parent_text (env_parent_session_id e) = parent_text (env_parent_session_id e') \<and>
     parent_text (env_parent_version_id e) = parent_text (env_parent_version_id e') \<and>
     env_nonce e = env_nonce e' \<and> env_seq_no e = env_seq_no e' \<and> timestamp_ms e = timestamp_ms e'"

lemma of_char_less [simp]: "of_char c < (256 :: nat)"
  using range_nat_of_char by fastforce

lemma char_of_inj: "m < 256 \<Longrightarrow> n < 256 \<Longrightarrow> (char_of m :: char) = char_of n \<longleftrightarrow> m = (n :: nat)"
  by (metis of_char_of mod_less)

lemma utf8_char_bytes:
  assumes "128 \<le> (of_char c :: nat)"
  shows "utf8_char c = [char_of (192 + of_char c div 64 :: nat), char_of (128 + of_char c mod 64 :: nat)]"
    "(192 :: nat) + of_char c div 64 < 256" "(128 :: nat) + of_char c mod 64 < 256"
proof -
  have "of_char c div 64 < (4 :: nat)"
    using of_char_less [of c] by (intro less_mult_imp_div_less) simp
  then show "(192 :: nat) + of_char c div 64 < 256"
    by simp
qed (use assms in \<open>simp_all add: utf8_char_def Let_def\<close>)

lemma utf8_char_prefix:
  assumes "utf8_char c @ r = utf8_char d @ s"
  shows "c = d \<and> r = s"
proof -
  have mixed: "x # t \<noteq> utf8_char y @ u" if "of_char x < (128 :: nat)" "128 \<le> (of_char y :: nat)" for x y t u
  proof
    assume "x # t = utf8_char y @ u"
    then have "x = char_of (192 + of_char y div 64 :: nat)"
      using utf8_char_bytes(1) [OF that(2)] by simp
    then show False
      using that(1) utf8_char_bytes(2) [OF that(2)] by simp
  qed
  consider "of_char c < (128 :: nat)" "of_char d < (128 :: nat)" | "128 \<le> (of_char c :: nat)" "128 \<le> (of_char d :: nat)"
    | "of_char c < (128 :: nat)" "128 \<le> (of_char d :: nat)" | "128 \<le> (of_char c :: nat)" "of_char d < (128 :: nat)"
    by linarith
  then show ?thesis
  proof cases
    case 1
    then show ?thesis
      using assms by (simp add: utf8_char_def)
  next
    case 2
    then have "(of_char c :: nat) div 64 = of_char d div 64" "(of_char c :: nat) mod 64 = of_char d mod 64" "r = s"
      using assms utf8_char_bytes [OF 2(1)] utf8_char_bytes [OF 2(2)] by (simp_all add: char_of_inj)
    then have "(of_char c :: nat) = of_char d"
      by (metis div_mult_mod_eq)
    then show ?thesis
      using \<open>r = s\<close> by simp
  next
    case 3
    then show ?thesis
      using assms mixed [OF 3] by (simp add: utf8_char_def)
  next
    case 4
    then show ?thesis
      using assms mixed [OF 4(2) 4(1)] by (simp add: utf8_char_def) (metis)
  qed
qed

lemma utf8_inj: "utf8 a = utf8 b \<longleftrightarrow> a = b"
proof
  show "utf8 a = utf8 b \<Longrightarrow> a = b"
  proof (induction a arbitrary: b)
    case Nil
    then show ?case
      by (cases b) (auto simp: utf8_def utf8_char_def Let_def split: if_splits)
  next
    case (Cons c a)
    then obtain d b' where b: "b = d # b'"
      by (cases b) (auto simp: utf8_def utf8_char_def Let_def split: if_splits)
    then have "c = d" "utf8 a = utf8 b'"
      using Cons.prems utf8_char_prefix [of c "utf8 a" d "utf8 b'"] by (simp_all add: utf8_def)
    then show ?case
      using Cons.IH b by simp
  qed
qed simp

lemma parent_text_plain:
  "parent_text v = Inr s \<Longrightarrow> \<forall>t. v = PStr t \<longrightarrow> c \<notin> set t \<Longrightarrow> c \<notin> set s"
  by (cases v) (auto split: if_splits)

lemma payload_plain:
  assumes "float_ok ft" and "plain_fields e" and "signing_payload ft e = Inr p"
  shows "\<exists>ps pv. parent_text (env_parent_session_id e) = Inr ps \<and> parent_text (env_parent_version_id e) = Inr pv \<and>
    p = join [SIGNING_SEPARATOR]
       [sender_replica_id e, env_session_id e, knowledge_structure_json e,
        dumps_sorted ft (PDict (env_metadata e)), ps, pv, env_nonce e, int_text (env_seq_no e), int_text (timestamp_ms e)] \<and>
    list_all (\<lambda>x. SIGNING_SEPARATOR \<notin> set x)
       [sender_replica_id e, env_session_id e, knowledge_structure_json e,
        dumps_sorted ft (PDict (env_metadata e)), ps, pv, env_nonce e, int_text (env_seq_no e), int_text (timestamp_ms e)]"
proof -
  obtain ps pv where p: "parent_text (env_parent_session_id e) = Inr ps" "parent_text (env_parent_version_id e) = Inr pv"
      "p = join [SIGNING_SEPARATOR]
       [sender_replica_id e, env_session_id e, knowledge_structure_json e,
        dumps_sorted ft (PDict (env_metadata e)), ps, pv, env_nonce e, int_text (env_seq_no e), int_text (timestamp_ms e)]"
    using assms(3) by (auto simp: signing_payload_def bind_err_def split: sum.splits)
  have "SIGNING_SEPARATOR \<notin> set x" if "list_all printable x" for x
    using that by (auto simp: list_all_iff printable_def SIGNING_SEPARATOR_def)
  moreover have "list_all printable (int_text i)" for i
    using int_text_number [of i] printable_NUMBER by (auto simp: list_all_iff)
  ultimately have "SIGNING_SEPARATOR \<notin> set (int_text i)" "SIGNING_SEPARATOR \<notin> set (dumps_sorted ft v)" for i v
    using printable_json_text [OF assms(1)] by (auto simp: dumps_sorted_def)
  moreover have "SIGNING_SEPARATOR \<notin> set ps" "SIGNING_SEPARATOR \<notin> set pv"
    using parent_text_plain [OF p(1)] parent_text_plain [OF p(2)] assms(2) unfolding plain_fields_def by blast+
  moreover have "SIGNING_SEPARATOR \<notin> set (sender_replica_id e)" "SIGNING_SEPARATOR \<notin> set (env_session_id e)"
    "SIGNING_SEPARATOR \<notin> set (knowledge_structure_json e)" "SIGNING_SEPARATOR \<notin> set (env_nonce e)"
    using assms(2) unfolding plain_fields_def by simp_all
  ultimately show ?thesis
    using p by simp
qed

lemma payload_determines:
  assumes "float_ok ft" and "plain_fields e" and "plain_fields e'"
    and "signing_payload ft e = Inr p" and "signing_payload ft e' = Inr p'"
  shows "p = p' \<longleftrightarrow> same_content e e'"
proof
  obtain ps pv where e: "parent_text (env_parent_session_id e) = Inr ps" "parent_text (env_parent_version_id e) = Inr pv"
      "p = join [SIGNING_SEPARATOR]
       [sender_replica_id e, env_session_id e, knowledge_structure_json e,
        dumps_sorted ft (PDict (env_metadata e)), ps, pv, env_nonce e, int_text (env_seq_no e), int_text (timestamp_ms e)]"
      "list_all (\<lambda>x. SIGNING_SEPARATOR \<notin> set x)
       [sender_replica_id e, env_session_id e, knowledge_structure_json e,
        dumps_sorted ft (PDict (env_metadata e)), ps, pv, env_nonce e, int_text (env_seq_no e), int_text (timestamp_ms e)]"
    using payload_plain [OF assms(1,2,4)] by (elim exE conjE)
  obtain qs qv where e': "parent_text (env_parent_session_id e') = Inr qs" "parent_text (env_parent_version_id e') = Inr qv"
      "p' = join [SIGNING_SEPARATOR]
       [sender_replica_id e', env_session_id e', knowledge_structure_json e',
        dumps_sorted ft (PDict (env_metadata e')), qs, qv, env_nonce e', int_text (env_seq_no e'), int_text (timestamp_ms e')]"
      "list_all (\<lambda>x. SIGNING_SEPARATOR \<notin> set x)
       [sender_replica_id e', env_session_id e', knowledge_structure_json e',
        dumps_sorted ft (PDict (env_metadata e')), qs, qv, env_nonce e', int_text (env_seq_no e'), int_text (timestamp_ms e')]"
    using payload_plain [OF assms(1,3,5)] by (elim exE conjE)
  have dumps: "dumps_sorted ft v = dumps_sorted ft w \<longleftrightarrow> json_sorted v = json_sorted w" for v w
    by (simp add: dumps_sorted_def json_text_inj [OF assms(1)])
  show "p = p' \<Longrightarrow> same_content e e'"
    using join_inj [OF e(4) e'(4)] e(1-3) e'(1-3) by (simp add: same_content_def dumps int_text_inj)
  show "same_content e e' \<Longrightarrow> p = p'"
    using e(1-3) e'(1-3) by (simp add: same_content_def dumps)
qed

lemma sign_Inr: "sign ft secret e = Inr sig \<longleftrightarrow> (\<exists>p. signing_payload ft e = Inr p \<and> sig = hmac_sha256_hex secret (utf8 p))"
  by (auto simp: sign_def bind_err_def split: sum.splits)

lemma hmac_ascii: "is_ascii (hmac_sha256_hex k m)"
proof -
  have "list_all (\<lambda>c. (of_char c :: nat) < 128) NIBBLES"
    by code_simp
  moreover have "set (hmac_sha256_hex k m) \<subseteq> set NIBBLES"
    unfolding hmac_sha256_hex_def Let_def by (rule set_hex)
  ultimately show ?thesis
    by (auto simp: is_ascii_def list_all_iff)
qed

lemma signing_payload_signature [simp]: "signing_payload ft (e\<lparr>signature := sig\<rparr>) = signing_payload ft e"
  by (simp add: signing_payload_def)

lemma verify_iff:
  assumes "signing_payload ft e = Inr p"
  shows "verify ft secret e = Inr True \<longleftrightarrow> signature e = hmac_sha256_hex secret (utf8 p)"
proof -
  have s: "sign ft secret e = Inr (hmac_sha256_hex secret (utf8 p))"
    using assms by (simp add: sign_Inr)
  show ?thesis
    using hmac_nonempty [of secret "utf8 p"] hmac_ascii [of secret "utf8 p"]
    by (auto simp: verify_def s simp del: hmac_nonempty)
qed


text \<open>A way to write floats: numerator, point, denominator.\<close>

definition plain_float :: "rat \<Rightarrow> string" where
  "plain_float r = int_text (fst (quotient_of r)) @ CHR ''.'' # int_text (snd (quotient_of r))"

lemma plain_float_ok: "float_ok plain_float"
  unfolding float_ok_def
proof (intro conjI allI)
  have dot: "CHR ''.'' \<notin> set (int_text i)" for i
    using int_text_digits [of i] by (auto simp: DIGITS_def)
  have "plain_float q = plain_float r \<Longrightarrow> q = r" for q r
    using separated [OF dot dot] quotient_of_inject_eq [of q r] unfolding plain_float_def
    by (metis int_text_inj prod.expand)
  then show "inj plain_float"
    by (rule injI)
  show "set (plain_float r) \<subseteq> NUMBER" for r
    using int_text_number by (auto simp: plain_float_def NUMBER_def)
  show "set (plain_float r) \<inter> {CHR ''.'', CHR ''e''} \<noteq> {}" for r
    by (auto simp: plain_float_def)
  show "hd (plain_float r) \<in> insert (CHR ''-'') DIGITS" for r
  proof -
    have "hd (int_text i) \<in> insert (CHR ''-'') DIGITS" "int_text i \<noteq> []" for i
      using int_text_digits [of i] hd_in_set by blast+
    then show ?thesis
      by (simp add: plain_float_def hd_append)
  qed
qed

definition sample_envelope :: envelope where
  "sample_envelope =
     \<lparr>sender_replica_id = ''r'', env_session_id = ''s'', knowledge_structure_json = ''x'', env_metadata = [],
      env_parent_session_id = PNone, env_parent_version_id = PNone, env_nonce = ''n'', env_seq_no = 1,
      timestamp_ms = 5, signature = [], env_version = GOSSIP_ENVELOPE_VERSION\<rparr>"


lemma wire_roundtrip: "from_dict cks pairs (to_dict e) = Inr e"
  by (cases "env_metadata e") (simp_all add: from_dict_def to_dict_def need_def dget_or_def dict_simps py_str_def)

text \<open>C28: A signed session arrives: the envelope made of a session, written to a dictionary and
  read back, is the same envelope, its signature is accepted, and the session it gives is the
  one that was sent without its history, its transaction and what else is local.\<close>

theorem signed_session_arrives:
  assumes "parse_structure cks (serialize_structure cks (knowledge_structure s)) = Some (knowledge_structure s)"
  shows "\<exists>e. from_session ft cks secret replica seq_no nonce now_ms s = Inr e \<and>
    from_dict cks pairs (to_dict e) = Inr e \<and> verify ft secret e = Inr True \<and>
    to_session cks e = Inr (s\<lparr>snapshot_interval := 10, session_diagnostics := [], version_history := [],
      active_transaction := None, closed := False\<rparr>)"
proof -
  have parent: "\<exists>t. parent_text (opt_json p) = Inr t" "json_opt (opt_json p) = p" for p
    by (cases p; simp)+
  define e where "e = \<lparr>sender_replica_id = replica, env_session_id = session_id s,
               knowledge_structure_json = serialize_structure cks (knowledge_structure s),
               env_metadata = metadata s, env_parent_session_id = opt_json (parent_session_id s),
               env_parent_version_id = opt_json (parent_version_id s), env_nonce = nonce, env_seq_no = seq_no,
               timestamp_ms = now_ms, signature = [], env_version = GOSSIP_ENVELOPE_VERSION\<rparr>"
  obtain p where p: "signing_payload ft e = Inr p"
    using parent(1) [of "parent_session_id s"] parent(1) [of "parent_version_id s"]
    by (auto simp: signing_payload_def e_def)
  let ?e = "e\<lparr>signature := hmac_sha256_hex secret (utf8 p)\<rparr>"
  have "sign ft secret e = Inr (hmac_sha256_hex secret (utf8 p))"
    using p by (simp add: sign_Inr)
  then have "from_session ft cks secret replica seq_no nonce now_ms s = Inr ?e"
    unfolding from_session_def Let_def e_def [symmetric] by simp
  moreover have "from_dict cks pairs (to_dict ?e) = Inr ?e"
    by (rule wire_roundtrip)
  moreover have "verify ft secret ?e = Inr True"
    using p by (simp add: verify_iff)
  moreover have "to_session cks ?e = Inr (s\<lparr>snapshot_interval := 10, session_diagnostics := [], version_history := [],
      active_transaction := None, closed := False\<rparr>)"
    using assms parent(2) by (simp add: to_session_def parse_text_def make_session_def e_def)
  ultimately show ?thesis
    by blast
qed

theorem signed_session_arrives_witness:
  "\<exists>e. from_session plain_float text_cks [1] ''r'' 1 ''n'' 5 (first_session\<lparr>knowledge_structure := one_object\<rparr>) = Inr e \<and>
     verify plain_float [1] e = Inr True"
proof -
  have "parse_structure text_cks (serialize_structure text_cks (knowledge_structure (first_session\<lparr>knowledge_structure := one_object\<rparr>))) =
      Some (knowledge_structure (first_session\<lparr>knowledge_structure := one_object\<rparr>))"
    by (simp add: text_cks_def)
  from signed_session_arrives [OF this, of plain_float "[1]" "''r''" 1 "''n''" 5] show ?thesis
    by blast
qed

end
