(* ===== verification/Events.thy ===== *)
theory Events
  imports Prelude
begin

text \<open>
  Runtime events (\<open>events/runtime_event.py\<close>) and the bus that delivers them
  (\<open>events/event_bus.py\<close>).  The identifier, time and metadata of an event are left out.
  Handlers are named; what a handler does is a function on the state outside the bus, so a
  handler changes no subscription while an event is delivered.
\<close>

datatype event =
    PlainEvent
  | SessionCreated string
  | SessionClosed string
  | TransactionCommitted string string
  | TransactionRolledBack string string
  | TransactionAborted string string
  | VersionCreated string string string
  | ValidationFailed string string string
  | GossipConflictDetected string string string "string list"
  | InferenceConflictDetected string string "pyval list"
  | AgentStepStarted string string string string
  | AgentStepCompleted string string string bool string string
  | CRDTForkDetected string "string list" string
  | DuplicateReplicaIdDetected string string int int

text \<open>The classes; \<open>RuntimeEventClass\<close> is the base class.\<close>

datatype event_class =
    RuntimeEventClass
  | SessionCreatedClass
  | SessionClosedClass
  | TransactionCommittedClass
  | TransactionRolledBackClass
  | TransactionAbortedClass
  | VersionCreatedClass
  | ValidationFailedClass
  | GossipConflictDetectedClass
  | InferenceConflictDetectedClass
  | AgentStepStartedClass
  | AgentStepCompletedClass
  | CRDTForkDetectedClass
  | DuplicateReplicaIdDetectedClass

fun class_of :: "event \<Rightarrow> event_class" where
  "class_of PlainEvent = RuntimeEventClass"
| "class_of (SessionCreated _) = SessionCreatedClass"
| "class_of (SessionClosed _) = SessionClosedClass"
| "class_of (TransactionCommitted _ _) = TransactionCommittedClass"
| "class_of (TransactionRolledBack _ _) = TransactionRolledBackClass"
| "class_of (TransactionAborted _ _) = TransactionAbortedClass"
| "class_of (VersionCreated _ _ _) = VersionCreatedClass"
| "class_of (ValidationFailed _ _ _) = ValidationFailedClass"
| "class_of (GossipConflictDetected _ _ _ _) = GossipConflictDetectedClass"
| "class_of (InferenceConflictDetected _ _ _) = InferenceConflictDetectedClass"
| "class_of (AgentStepStarted _ _ _ _) = AgentStepStartedClass"
| "class_of (AgentStepCompleted _ _ _ _ _ _) = AgentStepCompletedClass"
| "class_of (CRDTForkDetected _ _ _) = CRDTForkDetectedClass"
| "class_of (DuplicateReplicaIdDetected _ _ _ _) = DuplicateReplicaIdDetectedClass"

record event_bus =
  subscribers :: "(event_class, string list) dict"
  bus_history :: "event list"

definition empty_bus :: event_bus where
  "empty_bus = \<lparr>subscribers = [], bus_history = []\<rparr>"

definition subscribed :: "event_bus \<Rightarrow> event_class \<Rightarrow> string list" where
  "subscribed bus c = dget_or (subscribers bus) c []"

definition subscribe :: "event_class \<Rightarrow> string \<Rightarrow> event_bus \<Rightarrow> event_bus" where
  "subscribe c h bus =
     (if h \<in> set (subscribed bus c) then bus
      else bus\<lparr>subscribers := dset (subscribers bus) c (subscribed bus c @ [h])\<rparr>)"

definition unsubscribe :: "event_class \<Rightarrow> string \<Rightarrow> event_bus \<Rightarrow> event_bus" where
  "unsubscribe c h bus =
     (if h \<in> set (subscribed bus c)
      then bus\<lparr>subscribers := dset (subscribers bus) c (remove1 h (subscribed bus c))\<rparr>
      else bus)"

definition clear_history :: "event_bus \<Rightarrow> event_bus" where
  "clear_history bus = bus\<lparr>bus_history := []\<rparr>"

text \<open>One handler after the other; an exception ends the delivery and leaves \<open>publish\<close>.\<close>

fun deliver :: "(string \<Rightarrow> event \<Rightarrow> ('s, unit) sx) \<Rightarrow> event \<Rightarrow> string list \<Rightarrow> ('s, unit) sx" where
  "deliver run ev [] s = (Inr (), s)"
| "deliver run ev (h # hs) s =
     (case run h ev s of
        (Inl e, s') \<Rightarrow> (Inl e, s')
      | (Inr _, s') \<Rightarrow> deliver run ev hs s')"

text \<open>Who gets an event: the subscribers of its class, then those of the base class.\<close>

definition recipients :: "event_bus \<Rightarrow> event \<Rightarrow> string list" where
  "recipients bus ev = subscribed bus (class_of ev) @ subscribed bus RuntimeEventClass"

definition record_event :: "event \<Rightarrow> event_bus \<Rightarrow> event_bus" where
  "record_event ev bus = bus\<lparr>bus_history := bus_history bus @ [ev]\<rparr>"

lemma subscribed_record [simp]: "subscribed (record_event ev bus) c = subscribed bus c"
  by (simp add: subscribed_def record_event_def)

lemma subscribed_subscribe:
  "subscribed (subscribe c h bus) c' =
     (if c' = c \<and> h \<notin> set (subscribed bus c) then subscribed bus c @ [h] else subscribed bus c')"
  by (simp add: subscribe_def subscribed_def)

lemma deliver_append:
  "deliver run ev (hs @ ks) s =
     (case deliver run ev hs s of (Inl e, s') \<Rightarrow> (Inl e, s') | (Inr _, s') \<Rightarrow> deliver run ev ks s')"
  by (induction hs arbitrary: s) (auto split: prod.splits sum.splits)

text \<open>A handler is called at most once per class it is subscribed to.\<close>

lemma subscribe_distinct:
  "distinct (subscribed bus c') \<Longrightarrow> distinct (subscribed (subscribe c h bus) c')"
  by (auto simp: subscribed_subscribe)

end
