(* ===== verification/Runtime_State.thy ===== *)
theory Runtime_State
  imports Session_Store Events Knowledge
begin

text \<open>
  The state of a runtime and what its components share: the operations
  (\<open>operations/operation_types.py\<close>), their results (\<open>execution/operation_executor.py\<close>),
  transactions (\<open>transaction/transaction.py\<close>), and the attributes of \<open>Runtime\<close>
  (\<open>runtime.py\<close>).  Sessions and transactions are mutable objects that several tables
  point to, so they live in heaps and the tables hold references.
\<close>

section \<open>Operations and results\<close>

text \<open>
  The fields of the classes, \<open>operation_id\<close> first; the source session of a merge is a
  reference.  \<open>None\<close> is an argument that was not given, where \<open>execute\<close> tests for that.
\<close>

datatype operation =
    ValidateOperation string kstruct "pyval option"
  | EvolveOperation string kstruct "operator list"
  | SerializeOperation string kstruct
  | ExplainOperation string kstruct
  | ExplainInferenceOperation string kstruct "string option"
  | QuerySubgraphOperation string kstruct "subgraph_query option"
  | ListVersionsOperation string
  | RevertVersionOperation string string
  | DiffOperation string "string option" "kstruct option"
  | MergeOperation string "nat option" "string option" "kstruct option" "(string, kobj) dict option"
  | ReplaceStateOperation string "kstruct option"

fun operation_id :: "operation \<Rightarrow> string" where
  "operation_id (ValidateOperation i _ _) = i"
| "operation_id (EvolveOperation i _ _) = i"
| "operation_id (SerializeOperation i _) = i"
| "operation_id (ExplainOperation i _) = i"
| "operation_id (ExplainInferenceOperation i _ _) = i"
| "operation_id (QuerySubgraphOperation i _ _) = i"
| "operation_id (ListVersionsOperation i) = i"
| "operation_id (RevertVersionOperation i _) = i"
| "operation_id (DiffOperation i _ _) = i"
| "operation_id (MergeOperation i _ _ _ _) = i"
| "operation_id (ReplaceStateOperation i _) = i"

text \<open>The classes whose payload becomes the state of the session.\<close>

fun mutates :: "operation \<Rightarrow> bool" where
  "mutates (EvolveOperation _ _ _) = True"
| "mutates (RevertVersionOperation _ _) = True"
| "mutates (MergeOperation _ _ _ _ _) = True"
| "mutates (ReplaceStateOperation _ _) = True"
| "mutates _ = False"

datatype operation_status = COMPLETED | FAILED

datatype result_payload =
    NoPayload
  | ValidationPayload validation_result
  | StructurePayload kstruct
  | TextPayload string
  | ValuePayload pyval
  | VersionsPayload "(string \<times> time \<times> string \<times> (string, pyval) dict) list"
  | PatchPayload "operator list"

record exec_result =
  res_operation_id :: string
  res_status :: operation_status
  res_payload :: result_payload
  res_diagnostics :: "diag list"
  res_error :: "exn option"
  res_operation :: "operation option"

definition completed_with :: "string \<Rightarrow> result_payload \<Rightarrow> exec_result" where
  "completed_with i p =
     \<lparr>res_operation_id = i, res_status = COMPLETED, res_payload = p, res_diagnostics = [], res_error = None,
      res_operation = None\<rparr>"

definition failed_with :: "string \<Rightarrow> exn \<Rightarrow> exec_result" where
  "failed_with i e =
     \<lparr>res_operation_id = i, res_status = FAILED, res_payload = NoPayload, res_diagnostics = [],
      res_error = Some e, res_operation = None\<rparr>"

text \<open>A request for an operation by its id; a live object among the parameters is opaque.\<close>

record dispatch_request =
  req_operation_id :: string
  req_parameters :: "(string, pyval) dict"

section \<open>Transactions\<close>

datatype transaction_status = CREATED | EXECUTING | VALIDATING | COMMITTED | ROLLED_BACK | ABORTED

record transaction =
  tx_session :: nat
  transaction_id :: string
  operations :: "operation list"
  requests :: "dispatch_request list"
  results :: "exec_result list"
  tx_diagnostics :: "diag list"
  tx_status :: transaction_status
  initial_state :: kstruct

definition tx_completed :: "transaction \<Rightarrow> bool" where
  "tx_completed t \<longleftrightarrow> tx_status t \<in> {COMMITTED, ROLLED_BACK, ABORTED}"

text \<open>Every change of the status goes through the guard \<open>_ensure_not_completed\<close>.\<close>

definition mark :: "transaction_status \<Rightarrow> transaction \<Rightarrow> transaction" where
  "mark st t = (if tx_completed t then t else t\<lparr>tx_status := st\<rparr>)"

definition add_operation :: "operation \<Rightarrow> transaction \<Rightarrow> transaction" where
  "add_operation p t = t\<lparr>operations := operations t @ [p]\<rparr>"

definition add_request :: "dispatch_request \<Rightarrow> transaction \<Rightarrow> transaction" where
  "add_request q t = t\<lparr>requests := requests t @ [q]\<rparr>"

definition add_result :: "exec_result \<Rightarrow> transaction \<Rightarrow> transaction" where
  "add_result r t = t\<lparr>results := results t @ [r]\<rparr>"

lemma mark_completed [simp]: "tx_completed t \<Longrightarrow> mark st t = t"
  by (simp add: mark_def)

lemma mark_session [simp]: "tx_session (mark st t) = tx_session t"
  by (simp add: mark_def)

lemma mark_fields [simp]:
  "transaction_id (mark st t) = transaction_id t" "operations (mark st t) = operations t"
  "requests (mark st t) = requests t" "initial_state (mark st t) = initial_state t"
  "results (mark st t) = results t"
  by (simp_all add: mark_def)

section \<open>The runtime\<close>

text \<open>
  \<open>session_table\<close> is the dictionary of the session manager, \<open>tx_table\<close> that of the
  transaction manager, \<open>registry\<close> the ids of the operation registry.  \<open>next_ref\<close> is
  the next free reference, \<open>next_uuid\<close> counts the identifiers drawn, \<open>rt_time\<close> is the
  current time.
\<close>

record 'st rt =
  rt_storage :: 'st
  session_heap :: "nat \<Rightarrow> session"
  tx_heap :: "nat \<Rightarrow> transaction"
  next_ref :: nat
  next_uuid :: nat
  session_table :: "(string, nat) dict"
  tx_table :: "(string, nat) dict"
  registry :: "string list"
  rt_diagnostics :: "diag list"
  rt_bus :: event_bus
  rt_time :: time

text \<open>
  What a runtime is built with: the bridge, \<open>cks\<close>, its replica id, the storage and the
  constructors of registered operations.  \<open>uuid\<close> gives the identifiers that are drawn.
  \<open>run_handler\<close> is what a subscriber of the event bus does to the storage.
\<close>

record 'st env =
  core_bridge :: bridge
  env_cks :: cks_objects
  replica_id :: "string option"
  uuid :: "nat \<Rightarrow> string"
  st_save_session :: "time \<Rightarrow> session \<Rightarrow> string option \<Rightarrow> ('st, unit) sx"
  st_save_version :: "version \<Rightarrow> ('st, unit) sx"
  st_record_operations :: "string \<Rightarrow> string \<Rightarrow> field_operation list \<Rightarrow> ('st, unit) sx"
  st_list_operations :: "string \<Rightarrow> string \<Rightarrow> 'st \<Rightarrow> exn + field_operation list"
  st_list_sessions :: "'st \<Rightarrow> exn + session list"
  supports_operation_log :: bool
  create_operation :: "string \<Rightarrow> (string, pyval) dict \<Rightarrow> exn + operation"
  run_handler :: "time \<Rightarrow> string \<Rightarrow> event \<Rightarrow> ('st, unit) sx"

definition upd_session :: "nat \<Rightarrow> (session \<Rightarrow> session) \<Rightarrow> 'st rt \<Rightarrow> 'st rt" where
  "upd_session r f rt = rt\<lparr>session_heap := (session_heap rt)(r := f (session_heap rt r))\<rparr>"

definition upd_tx :: "nat \<Rightarrow> (transaction \<Rightarrow> transaction) \<Rightarrow> 'st rt \<Rightarrow> 'st rt" where
  "upd_tx t f rt = rt\<lparr>tx_heap := (tx_heap rt)(t := f (tx_heap rt t))\<rparr>"

text \<open>A call of the storage.\<close>

definition on_storage :: "('st, 'a) sx \<Rightarrow> ('st rt, 'a) sx" where
  "on_storage m rt = (case m (rt_storage rt) of (x, st) \<Rightarrow> (x, rt\<lparr>rt_storage := st\<rparr>))"

text \<open>\<open>EventBus.publish\<close>: the history first, then the handlers.\<close>

definition publish :: "'st env \<Rightarrow> event \<Rightarrow> ('st rt, unit) sx" where
  "publish env ev rt =
     on_storage (deliver (run_handler env (rt_time rt)) ev (recipients (rt_bus rt) ev))
       (rt\<lparr>rt_bus := record_event ev (rt_bus rt)\<rparr>)"

definition store_session :: "'st env \<Rightarrow> nat \<Rightarrow> string option \<Rightarrow> ('st rt, unit) sx" where
  "store_session env r expected rt =
     on_storage (st_save_session env (rt_time rt) (session_heap rt r) expected) rt"

text \<open>A fresh identifier.\<close>

definition draw_uuid :: "'st env \<Rightarrow> 'st rt \<Rightarrow> string \<times> 'st rt" where
  "draw_uuid env rt = (uuid env (next_uuid rt), rt\<lparr>next_uuid := next_uuid rt + 1\<rparr>)"

text \<open>What the storage and the bus leave alone.\<close>

definition same_core :: "'st rt \<Rightarrow> 'st rt \<Rightarrow> bool" where
  "same_core rt rt' \<longleftrightarrow>
     (\<exists>st bus. rt' = rt\<lparr>rt_storage := st, rt_bus := bus\<rparr>)"

lemma same_core_refl [simp]: "same_core rt rt"
  by (cases rt) (simp add: same_core_def)

lemma same_core_trans: "same_core a b \<Longrightarrow> same_core b c \<Longrightarrow> same_core a c"
  by (auto simp: same_core_def) blast

lemma same_core_fields:
  assumes "same_core rt rt'"
  shows "session_heap rt' = session_heap rt" "tx_heap rt' = tx_heap rt" "session_table rt' = session_table rt"
    "tx_table rt' = tx_table rt" "next_ref rt' = next_ref rt" "next_uuid rt' = next_uuid rt"
    "rt_diagnostics rt' = rt_diagnostics rt" "rt_time rt' = rt_time rt" "registry rt' = registry rt"
  using assms by (auto simp: same_core_def)

lemma on_storage_core: "same_core rt (snd (on_storage m rt))"
  by (cases rt) (auto simp: on_storage_def same_core_def split: prod.splits)

lemma store_session_core: "same_core rt (snd (store_session env r e rt))"
  by (simp add: store_session_def on_storage_core)

lemma publish_core: "same_core rt (snd (publish env ev rt))"
proof -
  let ?rt = "rt\<lparr>rt_bus := record_event ev (rt_bus rt)\<rparr>"
  have "same_core rt ?rt"
    by (cases rt) (auto simp: same_core_def)
  then show ?thesis
    unfolding publish_def using on_storage_core same_core_trans by blast
qed

end
