(* ===== verification/Operations.thy ===== *)
theory Operations
  imports Runtime_State
begin

text \<open>
  Execution of operations: the \<open>execute\<close> methods of \<open>operations/operation_types.py\<close>, the
  executor that turns exceptions into failed results
  (\<open>execution/operation_executor.py\<close>), the registry (\<open>operations/operation_registry.py\<close>)
  and the dispatcher (\<open>dispatcher/dispatcher.py\<close>).
\<close>

section \<open>Merging\<close>

definition EMPTY_STATE_VERSION_ID :: string where
  "EMPTY_STATE_VERSION_ID = ''00000000-0000-0000-0000-000000000000''"

definition versions_since :: "string \<Rightarrow> session \<Rightarrow> string list option" where
  "versions_since base s =
     (let ids = map version_id (version_history s)
      in if base \<in> set ids then Some (tl (dropWhile (\<lambda>i. i \<noteq> base) ids))
         else if parent_version_id s = Some base then Some ids
         else None)"

definition made_in :: "string list \<Rightarrow> field_operation \<Rightarrow> bool" where
  "made_in vids p = (case fo_version_id p of None \<Rightarrow> False | Some v \<Rightarrow> v \<in> set vids)"

definition is_field_edit :: "field_operation \<Rightarrow> bool" where
  "is_field_edit p = (fo_op_type p \<in> {''set_field'', ''delete_field''})"

definition share_a_key :: "field_operation list \<Rightarrow> field_operation list \<Rightarrow> bool" where
  "share_a_key a_ops b_ops = list_ex (\<lambda>p. fo_field_key p \<in> set (map fo_field_key b_ops)) a_ops"

text \<open>The loop over the conflicts; \<open>list_ops\<close> reads the operation log of a session for an
  object.  An object whose edits touch a common field, or whose synthesis raises, is left out.\<close>

fun resolve_loop ::
  "bridge \<Rightarrow> (string \<Rightarrow> string \<Rightarrow> exn + field_operation list) \<Rightarrow> string \<times> string list \<Rightarrow> string \<times> string list
     \<Rightarrow> merge_conflict list \<Rightarrow> (string, kobj) dict \<Rightarrow> exn + (string, kobj) dict" where
  "resolve_loop core list_ops a b [] acc = Inr acc"
| "resolve_loop core list_ops (a_sid, a_versions) (b_sid, b_versions) (c # cs) acc =
     (case mc_base c of
        None \<Rightarrow> resolve_loop core list_ops (a_sid, a_versions) (b_sid, b_versions) cs acc
      | Some base \<Rightarrow>
          (case list_ops a_sid (mc_object_id c) of
             Inl e \<Rightarrow> Inl e
           | Inr a_all \<Rightarrow>
               (case list_ops b_sid (mc_object_id c) of
                  Inl e \<Rightarrow> Inl e
                | Inr b_all \<Rightarrow>
                    let a_ops = filter (made_in a_versions) a_all;
                        b_ops = filter (made_in b_versions) b_all
                    in if a_ops = [] \<and> b_ops = [] \<or> list_ex (\<lambda>p. \<not> is_field_edit p) (a_ops @ b_ops) \<or>
                          share_a_key a_ops b_ops
                       then resolve_loop core list_ops (a_sid, a_versions) (b_sid, b_versions) cs acc
                       else case bridge_synthesize_merge core base (a_ops @ b_ops) of
                              Inl _ \<Rightarrow> resolve_loop core list_ops (a_sid, a_versions) (b_sid, b_versions) cs acc
                            | Inr k \<Rightarrow>
                                resolve_loop core list_ops (a_sid, a_versions) (b_sid, b_versions) cs
                                  (dset acc (mc_object_id c) k))))"

definition field_level_resolutions ::
  "'st env \<Rightarrow> 'st \<Rightarrow> merge_conflict list \<Rightarrow> session \<Rightarrow> session \<Rightarrow> string option \<Rightarrow> exn + (string, kobj) dict" where
  "field_level_resolutions env st conflicts s src base_version_id =
     (case base_version_id of
        None \<Rightarrow> Inr []
      | Some base \<Rightarrow>
          if \<not> supports_operation_log env \<or> \<not> supports_synthesize_merge (core_bridge env) then Inr []
          else case (versions_since base s, versions_since base src) of
                 (Some a_versions, Some b_versions) \<Rightarrow>
                   resolve_loop (core_bridge env) (\<lambda>sid oid. st_list_operations env sid oid st)
                     (session_id s, a_versions) (session_id src, b_versions) conflicts []
               | _ \<Rightarrow> Inr [])"

text \<open>\<open>{**auto, **explicit}\<close>.\<close>

definition dict_merge :: "('k, 'v) dict \<Rightarrow> ('k, 'v) dict \<Rightarrow> ('k, 'v) dict" where
  "dict_merge d e = fold (\<lambda>(k, v) d. dset d k v) e d"

text \<open>The base of the three-way merge, with the version it was found at.\<close>

definition merge_base ::
  "'st env \<Rightarrow> session \<Rightarrow> session \<Rightarrow> string option \<Rightarrow> kstruct option \<Rightarrow> exn + (kstruct \<times> string option)" where
  "merge_base env s src base_version_id base_structure =
     (case base_structure of
        Some ks \<Rightarrow> Inr (ks, None)
      | None \<Rightarrow>
          (case (case base_version_id of None \<Rightarrow> parent_version_id src | Some v \<Rightarrow> Some v) of
             None \<Rightarrow> Inl ValueError
           | Some v \<Rightarrow>
               if v = EMPTY_STATE_VERSION_ID then Inr (make_structure (env_cks env) [], Some v)
               else case get_version_state s v (Some (core_bridge env)) of
                      Inl e \<Rightarrow> Inl e
                    | Inr ks \<Rightarrow> Inr (ks, Some v)))"

text \<open>The calls of the merge: once as asked, and once more with the conflicts that the
  operation log resolves.\<close>

definition three_way ::
  "'st env \<Rightarrow> 'st \<Rightarrow> string \<Rightarrow> session \<Rightarrow> session \<Rightarrow> kstruct \<times> string option \<Rightarrow> (string, kobj) dict option
     \<Rightarrow> exn + exec_result" where
  "three_way env st i s src base resolutions =
     (let call = (\<lambda>rs. bridge_merge (core_bridge env) (fst base) (knowledge_structure s) (knowledge_structure src) rs)
      in case call resolutions of
           Inr merged \<Rightarrow> Inr (completed_with i (StructurePayload merged))
         | Inl (RuntimeMergeConflictError conflicts) \<Rightarrow>
             (case field_level_resolutions env st conflicts s src (snd base) of
                Inl e \<Rightarrow> Inl e
              | Inr auto \<Rightarrow>
                  if auto = [] then Inr (failed_with i (RuntimeMergeConflictError conflicts))
                  else case call (Some (dict_merge auto (opt_or resolutions []))) of
                         Inl e \<Rightarrow> Inr (failed_with i e)
                       | Inr merged \<Rightarrow> Inr (completed_with i (StructurePayload merged)))
         | Inl e \<Rightarrow> Inr (failed_with i e))"

text \<open>\<open>MergeOperation.execute\<close>; the fast forward absorbs the vector into the metadata of the
  session at once.\<close>

definition execute_merge ::
  "'st env \<Rightarrow> 'st \<Rightarrow> string \<Rightarrow> session option \<Rightarrow> string option \<Rightarrow> kstruct option \<Rightarrow> (string, kobj) dict option
     \<Rightarrow> (session, exec_result) sx" where
  "execute_merge env st i source_session base_version_id base_structure resolutions s =
     (case source_session of
        None \<Rightarrow> (Inr (failed_with i ValueError), s)
      | Some src \<Rightarrow>
          let target_vector = vv_from_metadata (metadata s);
              source_vector = vv_from_metadata (metadata src)
          in if dominates target_vector source_vector
             then (Inr (completed_with i (StructurePayload (knowledge_structure s))), s)
             else if dominates source_vector target_vector
             then (Inr (completed_with i (StructurePayload (knowledge_structure src))),
                   s\<lparr>metadata := vv_to_metadata (absorb target_vector source_vector) (metadata s)\<rparr>)
             else case merge_base env s src base_version_id base_structure of
                    Inl e \<Rightarrow> (if is_value_error e then Inr (failed_with i e) else Inl e, s)
                  | Inr base \<Rightarrow> (three_way env st i s src base resolutions, s))"

section \<open>Executing an operation\<close>

definition lift_exn :: "exn + 'a \<Rightarrow> ('s, 'a) sx" where
  "lift_exn m s = (m, s)"

text \<open>A call whose every exception is captured in the result.\<close>

definition captured :: "string \<Rightarrow> ('a \<Rightarrow> result_payload) \<Rightarrow> exn + 'a \<Rightarrow> exec_result" where
  "captured i f m = (case m of Inl e \<Rightarrow> failed_with i e | Inr x \<Rightarrow> completed_with i (f x))"

text \<open>A call whose exceptions leave \<open>execute\<close>.\<close>

definition uncaptured :: "string \<Rightarrow> ('a \<Rightarrow> result_payload) \<Rightarrow> exn + 'a \<Rightarrow> exn + exec_result" where
  "uncaptured i f m = (case m of Inl e \<Rightarrow> Inl e | Inr x \<Rightarrow> Inr (completed_with i (f x)))"

text \<open>\<open>get_version_state\<close> under \<open>except ValueError\<close>.\<close>

definition version_state_or_failed :: "'st env \<Rightarrow> session \<Rightarrow> string \<Rightarrow> string \<Rightarrow> exn + (exec_result + kstruct)" where
  "version_state_or_failed env s i vid =
     (case get_version_state s vid (Some (core_bridge env)) of
        Inl e \<Rightarrow> if is_value_error e then Inr (Inl (failed_with i e)) else Inl e
      | Inr ks \<Rightarrow> Inr (Inr ks))"

definition execute_validate :: "'st env \<Rightarrow> string \<Rightarrow> kstruct \<Rightarrow> pyval option \<Rightarrow> exn + exec_result" where
  "execute_validate env i ks extra =
     (case bridge_validate (core_bridge env) ks extra of
        Inl e \<Rightarrow> Inl e
      | Inr r \<Rightarrow>
          Inr \<lparr>res_operation_id = i, res_status = (if valid r then COMPLETED else FAILED),
               res_payload = ValidationPayload r, res_diagnostics = diagnostics r,
               res_error = (if valid r then None else Some RuntimeError), res_operation = None\<rparr>)"

definition execute_diff :: "'st env \<Rightarrow> session \<Rightarrow> string \<Rightarrow> string option \<Rightarrow> kstruct option \<Rightarrow> exn + exec_result" where
  "execute_diff env s i target_version_id target_structure =
     (let diff = (\<lambda>target. captured i PatchPayload (bridge_diff (core_bridge env) (knowledge_structure s) target))
      in case target_version_id of
           Some vid \<Rightarrow>
             (case version_state_or_failed env s i vid of
                Inl e \<Rightarrow> Inl e
              | Inr (Inl r) \<Rightarrow> Inr r
              | Inr (Inr target) \<Rightarrow> Inr (diff target))
         | None \<Rightarrow>
             (case target_structure of
                Some target \<Rightarrow> Inr (diff target)
              | None \<Rightarrow> Inr (failed_with i ValueError)))"

definition execute_revert :: "'st env \<Rightarrow> session \<Rightarrow> string \<Rightarrow> string \<Rightarrow> exn + exec_result" where
  "execute_revert env s i vid =
     (case version_state_or_failed env s i vid of
        Inl e \<Rightarrow> Inl e
      | Inr (Inl r) \<Rightarrow> Inr r
      | Inr (Inr ks) \<Rightarrow> Inr (completed_with i (StructurePayload ks)))"

definition execute_explain_inference :: "'st env \<Rightarrow> string \<Rightarrow> kstruct \<Rightarrow> string option \<Rightarrow> exec_result" where
  "execute_explain_inference env i ks object_id =
     (case object_id of
        None \<Rightarrow> failed_with i ValueError
      | Some oid \<Rightarrow>
          if oid = [] then failed_with i ValueError
          else captured i ValuePayload (bridge_explain_inference (core_bridge env) ks oid))"

definition execute_query_subgraph :: "'st env \<Rightarrow> string \<Rightarrow> kstruct \<Rightarrow> subgraph_query option \<Rightarrow> exec_result" where
  "execute_query_subgraph env i ks q =
     (case q of
        None \<Rightarrow> failed_with i ValueError
      | Some query \<Rightarrow> captured i StructurePayload (bridge_query_subgraph (core_bridge env) ks query))"

definition execute_list_versions :: "session \<Rightarrow> string \<Rightarrow> exec_result" where
  "execute_list_versions s i =
     completed_with i (VersionsPayload
       (map (\<lambda>v. (version_id v, v_created_at v, v_transaction_id v, v_metadata v)) (version_history s)))"

definition execute_replace_state :: "string \<Rightarrow> kstruct option \<Rightarrow> exec_result" where
  "execute_replace_state i ks =
     (case ks of None \<Rightarrow> failed_with i ValueError | Some x \<Rightarrow> completed_with i (StructurePayload x))"

text \<open>The dispatch on the class, on the session behind a reference.\<close>

fun run_operation :: "'st env \<Rightarrow> operation \<Rightarrow> nat \<Rightarrow> ('st rt, exec_result) sx" where
  "run_operation env (ValidateOperation i ks extra) r rt = (execute_validate env i ks extra, rt)"
| "run_operation env (EvolveOperation i ks ops) r rt =
     (uncaptured i StructurePayload (bridge_evolve (core_bridge env) ks ops), rt)"
| "run_operation env (SerializeOperation i ks) r rt =
     (uncaptured i TextPayload (bridge_serialize (core_bridge env) ks), rt)"
| "run_operation env (ExplainOperation i ks) r rt =
     (uncaptured i ValuePayload (bridge_explain (core_bridge env) ks), rt)"
| "run_operation env (ExplainInferenceOperation i ks oid) r rt = (Inr (execute_explain_inference env i ks oid), rt)"
| "run_operation env (QuerySubgraphOperation i ks q) r rt = (Inr (execute_query_subgraph env i ks q), rt)"
| "run_operation env (ListVersionsOperation i) r rt = (Inr (execute_list_versions (session_heap rt r) i), rt)"
| "run_operation env (RevertVersionOperation i vid) r rt = (execute_revert env (session_heap rt r) i vid, rt)"
| "run_operation env (DiffOperation i vid ks) r rt = (execute_diff env (session_heap rt r) i vid ks, rt)"
| "run_operation env (MergeOperation i src bv bs res) r rt =
     (case execute_merge env (rt_storage rt) i (map_option (session_heap rt) src) bv bs res (session_heap rt r) of
        (x, s) \<Rightarrow> (x, upd_session r (\<lambda>_. s) rt))"
| "run_operation env (ReplaceStateOperation i ks) r rt = (Inr (execute_replace_state i ks), rt)"

text \<open>\<open>OperationExecutor.execute\<close>: every exception becomes a failed result with a diagnostic.\<close>

definition executor_execute :: "'st env \<Rightarrow> operation \<Rightarrow> nat \<Rightarrow> 'st rt \<Rightarrow> exec_result \<times> 'st rt" where
  "executor_execute env p r rt =
     (case run_operation env p r rt of
        (Inr res, rt') \<Rightarrow> (res\<lparr>res_operation := Some p\<rparr>, rt')
      | (Inl e, rt') \<Rightarrow>
          (\<lparr>res_operation_id = operation_id p, res_status = FAILED, res_payload = NoPayload,
            res_diagnostics = [runtime_error_diag [] [(''operation_id'', PStr (operation_id p))]],
            res_error = Some e, res_operation = Some p\<rparr>, rt'))"

section \<open>Registry and dispatcher\<close>

definition register_operation :: "string \<Rightarrow> ('st rt, unit) sx" where
  "register_operation i rt =
     (if i = [] \<or> i \<in> set (registry rt) then (Inl ValueError, rt) else (Inr (), rt\<lparr>registry := registry rt @ [i]\<rparr>))"

definition unregister_operation :: "string \<Rightarrow> 'st rt \<Rightarrow> bool \<times> 'st rt" where
  "unregister_operation i rt = (i \<in> set (registry rt), rt\<lparr>registry := remove1 i (registry rt)\<rparr>)"

definition registry_create :: "'st env \<Rightarrow> 'st rt \<Rightarrow> string \<Rightarrow> (string, pyval) dict \<Rightarrow> exn + operation" where
  "registry_create env rt i params = (if i \<notin> set (registry rt) then Inl KeyError else create_operation env i params)"

definition undispatched :: "string \<Rightarrow> exn \<Rightarrow> (string, pyval) dict \<Rightarrow> exec_result" where
  "undispatched i e extra =
     \<lparr>res_operation_id = i, res_status = FAILED, res_payload = NoPayload,
      res_diagnostics = [runtime_error_diag [] ((''operation_id'', PStr i) # extra)], res_error = Some e,
      res_operation = None\<rparr>"

text \<open>\<open>Dispatcher.dispatch\<close>; any other exception of a constructor leaves it.\<close>

definition dispatch :: "'st env \<Rightarrow> dispatch_request \<Rightarrow> nat \<Rightarrow> ('st rt, exec_result) sx" where
  "dispatch env q r rt =
     (let i = req_operation_id q
      in case registry_create env rt i (req_parameters q) of
           Inl KeyError \<Rightarrow> (Inr (undispatched i LookupError []), rt)
         | Inl TypeError \<Rightarrow>
             (Inr (undispatched i TypeError [(''parameters'', PDict (req_parameters q))]), rt)
         | Inl e \<Rightarrow> (Inl e, rt)
         | Inr p \<Rightarrow> (case executor_execute env p r rt of (res, rt') \<Rightarrow> (Inr res, rt')))"

section \<open>Frame\<close>

text \<open>Executing an operation changes nothing but the metadata of its session.\<close>

definition only_metadata :: "nat \<Rightarrow> 'st rt \<Rightarrow> 'st rt \<Rightarrow> bool" where
  "only_metadata r rt rt' \<longleftrightarrow> (\<exists>m. rt' = upd_session r (\<lambda>s. s\<lparr>metadata := m\<rparr>) rt)"

lemma upd_session_self: "upd_session r (\<lambda>_. (session_heap rt r)\<lparr>metadata := m\<rparr>) rt = upd_session r (\<lambda>s. s\<lparr>metadata := m\<rparr>) rt"
  by (simp add: upd_session_def)

lemma only_metadata_refl: "only_metadata r rt rt"
proof -
  have "upd_session r (\<lambda>s. s\<lparr>metadata := metadata (session_heap rt r)\<rparr>) rt = rt"
    by (cases rt) (simp add: upd_session_def)
  then show ?thesis
    unfolding only_metadata_def by metis
qed

lemma execute_merge_frame: "\<exists>m. snd (execute_merge env st i src bv bs res s) = s\<lparr>metadata := m\<rparr>"
proof -
  have id: "\<exists>m. s = s\<lparr>metadata := m\<rparr>"
    by (rule exI [of _ "metadata s"]) simp
  show ?thesis
  proof (cases src)
    case (Some x)
    let ?tv = "vv_from_metadata (metadata s)" and ?sv = "vv_from_metadata (metadata x)"
    show ?thesis
    proof (cases "dominates ?tv ?sv \<or> \<not> dominates ?sv ?tv")
      case True
      then show ?thesis
        using id by (auto simp: Some execute_merge_def Let_def split: sum.splits)
    qed (auto simp: Some execute_merge_def Let_def)
  qed (use id in \<open>simp add: execute_merge_def\<close>)
qed

lemma run_operation_frame: "only_metadata r rt (snd (run_operation env p r rt))"
proof (cases p)
  case (MergeOperation i src bv bs res)
  obtain m where m: "snd (execute_merge env (rt_storage rt) i (map_option (session_heap rt) src) bv bs res (session_heap rt r)) =
      (session_heap rt r)\<lparr>metadata := m\<rparr>"
    by (rule exE [OF execute_merge_frame])
  then show ?thesis
    using upd_session_self [of r m rt]
    by (auto simp: MergeOperation only_metadata_def case_prod_unfold)
qed (simp_all add: only_metadata_refl)

lemma executor_frame: "only_metadata r rt (snd (executor_execute env p r rt))"
  using run_operation_frame [of r rt env p] by (auto simp: executor_execute_def split: prod.splits sum.splits)

lemma dispatch_frame: "only_metadata r rt (snd (dispatch env q r rt))"
proof (cases "registry_create env rt (req_operation_id q) (req_parameters q)")
  case (Inr p)
  then show ?thesis
    using executor_frame [of r rt env p] by (simp add: dispatch_def Let_def case_prod_unfold)
next
  case (Inl e)
  then show ?thesis
    by (cases e) (simp_all add: dispatch_def Let_def only_metadata_refl)
qed

end
