(* ===== verification/Pipeline.thy ===== *)
theory Pipeline
  imports Operations
begin

text \<open>
  The transaction manager (\<open>transaction/transaction_manager.py\<close>) and the commit, rollback
  and abort of a transaction (\<open>pipeline/execution_pipeline.py\<close>).  A transaction and a session are
  references into the heaps of the runtime.
\<close>

section \<open>The transaction manager\<close>

abbreviation the_tx :: "'st rt \<Rightarrow> nat \<Rightarrow> transaction" where
  "the_tx rt t \<equiv> tx_heap rt t"

abbreviation the_session :: "'st rt \<Rightarrow> nat \<Rightarrow> session" where
  "the_session rt r \<equiv> session_heap rt r"

definition begin_transaction :: "'st env \<Rightarrow> nat \<Rightarrow> ('st rt, nat) sx" where
  "begin_transaction env r rt =
     (if has_active_transaction (the_session rt r) then (Inl RuntimeError, rt)
      else
        let (tid, rt) = draw_uuid env rt;
            t = next_ref rt;
            tx = \<lparr>tx_session = r, transaction_id = tid, operations = [], requests = [], results = [],
                  tx_diagnostics = [], tx_status = CREATED, initial_state = knowledge_structure (the_session rt r)\<rparr>
        in (Inr t, upd_session r (attach_transaction t)
              (rt\<lparr>tx_heap := (tx_heap rt)(t := tx), next_ref := t + 1, tx_table := dset (tx_table rt) tid t\<rparr>)))"

text \<open>\<open>_finish\<close> detaches whatever transaction the session has.\<close>

definition finish :: "nat \<Rightarrow> 'st rt \<Rightarrow> 'st rt" where
  "finish t rt =
     (let rt = upd_session (tx_session (the_tx rt t)) detach_transaction rt
      in rt\<lparr>tx_table := dpop (tx_table rt) (transaction_id (the_tx rt t))\<rparr>)"

definition manager_end :: "transaction_status \<Rightarrow> nat \<Rightarrow> 'st rt \<Rightarrow> 'st rt" where
  "manager_end st t rt = finish t (upd_tx t (mark st) rt)"

definition retrieve_transaction :: "string \<Rightarrow> 'st rt \<Rightarrow> nat option" where
  "retrieve_transaction tid rt = dget (tx_table rt) tid"

definition get_transaction :: "string \<Rightarrow> 'st rt \<Rightarrow> exn + nat" where
  "get_transaction tid rt = (case dget (tx_table rt) tid of None \<Rightarrow> Inl KeyError | Some t \<Rightarrow> Inr t)"

definition clear_transactions :: "'st rt \<Rightarrow> 'st rt" where
  "clear_transactions rt =
     (fold (\<lambda>t. upd_session (tx_session (the_tx rt t)) detach_transaction) (dvals (tx_table rt)) rt)\<lparr>tx_table := []\<rparr>"

section \<open>Rollback and abort\<close>

definition rollback :: "'st env \<Rightarrow> nat \<Rightarrow> ('st rt, unit) sx" where
  "rollback env t rt =
     (let r = tx_session (the_tx rt t);
          rt = upd_session r (\<lambda>s. s\<lparr>knowledge_structure := initial_state (the_tx rt t)\<rparr>) rt;
          rt = manager_end ROLLED_BACK t rt
      in bindM (store_session env r None) (\<lambda>_.
           publish env (TransactionRolledBack (transaction_id (the_tx rt t)) (session_id (the_session rt r)))) rt)"

definition abort :: "'st env \<Rightarrow> nat \<Rightarrow> ('st rt, unit) sx" where
  "abort env t rt =
     (let r = tx_session (the_tx rt t);
          rt = manager_end ABORTED t rt
      in bindM (store_session env r None) (\<lambda>_.
           publish env (TransactionAborted (transaction_id (the_tx rt t)) (session_id (the_session rt r)))) rt)"

section \<open>Executing the operations of a commit\<close>

definition handle_result :: "'st env \<Rightarrow> nat \<Rightarrow> exec_result \<Rightarrow> ('st rt, unit) sx" where
  "handle_result env t res rt =
     (if res_status res = FAILED
      then bindM (rollback env t) (\<lambda>_. raiseM RuntimeError) rt
      else
        (Inr (), upd_session (tx_session (the_tx rt t)) (\<lambda>s. fold add_diagnostic (res_diagnostics res) s)
                   (rt\<lparr>rt_diagnostics := rt_diagnostics rt @ res_diagnostics res\<rparr>)))"

text \<open>The state becomes the payload of a completed operation of one of the four classes.\<close>

definition new_state :: "operation \<Rightarrow> exec_result \<Rightarrow> kstruct option" where
  "new_state p res =
     (if res_status res = COMPLETED \<and> mutates p
      then case res_payload res of StructurePayload ks \<Rightarrow> Some ks | _ \<Rightarrow> None
      else None)"

definition apply_state_mutation :: "operation \<Rightarrow> exec_result \<Rightarrow> nat \<Rightarrow> 'st rt \<Rightarrow> 'st rt" where
  "apply_state_mutation p res r rt =
     (case new_state p res of None \<Rightarrow> rt | Some ks \<Rightarrow> upd_session r (\<lambda>s. s\<lparr>knowledge_structure := ks\<rparr>) rt)"

definition operation_step :: "'st env \<Rightarrow> nat \<Rightarrow> operation \<Rightarrow> ('st rt, unit) sx" where
  "operation_step env t p rt =
     (let r = tx_session (the_tx rt t);
          (res, rt) = executor_execute env p r rt
      in bindM (handle_result env t res) (\<lambda>_ rt. (Inr (), apply_state_mutation p res r rt))
           (upd_tx t (add_result res) rt))"

definition request_step :: "'st env \<Rightarrow> nat \<Rightarrow> dispatch_request \<Rightarrow> ('st rt, unit) sx" where
  "request_step env t q rt =
     (let r = tx_session (the_tx rt t)
      in bindM (dispatch env q r) (\<lambda>res rt.
           bindM (handle_result env t res) (\<lambda>_ rt.
             (Inr (), case res_operation res of None \<Rightarrow> rt | Some p \<Rightarrow> apply_state_mutation p res r rt))
             (upd_tx t (add_result res) rt)) rt)"

fun run_steps :: "('x \<Rightarrow> ('s, unit) sx) \<Rightarrow> 'x list \<Rightarrow> ('s, unit) sx" where
  "run_steps step [] s = (Inr (), s)"
| "run_steps step (x # xs) s = bindM (step x) (\<lambda>_. run_steps step xs) s"

definition execute_operations :: "'st env \<Rightarrow> nat \<Rightarrow> ('st rt, unit) sx" where
  "execute_operations env t rt =
     bindM (run_steps (operation_step env t) (operations (the_tx rt t))) (\<lambda>_.
       run_steps (request_step env t) (requests (the_tx rt t))) rt"

section \<open>Commit\<close>

definition quality_gate :: "'st env \<Rightarrow> validation_result \<Rightarrow> nat \<Rightarrow> ('st rt, unit) sx" where
  "quality_gate env v t rt =
     (if valid v then (Inr (), rt)
      else bindM (rollback env t) (\<lambda>_.
             bindM (publish env (ValidationFailed (transaction_id (the_tx rt t))
                      (session_id (the_session rt (tx_session (the_tx rt t)))) ''Validation failed''))
               (\<lambda>_. raiseM RuntimeError)) rt)"

definition validate_only :: "'st env \<Rightarrow> nat \<Rightarrow> ('st rt, unit) sx" where
  "validate_only env t rt =
     (case bridge_validate (core_bridge env) (knowledge_structure (the_session rt (tx_session (the_tx rt t)))) None of
        Inl e \<Rightarrow> (Inl e, rt)
      | Inr v \<Rightarrow>
          quality_gate env v t
            (if has_diagnostics v then rt\<lparr>rt_diagnostics := rt_diagnostics rt @ diagnostics v\<rparr> else rt))"

text \<open>\<open>session.metadata.get("node_id")\<close>, a string in every session the runtime creates.\<close>

definition node_id_of :: "session \<Rightarrow> string option" where
  "node_id_of s = (case dget (metadata s) ''node_id'' of Some (PStr n) \<Rightarrow> Some n | _ \<Rightarrow> None)"

definition pipeline_create_version :: "'st env \<Rightarrow> nat \<Rightarrow> kstruct \<Rightarrow> ('st rt, version) sx" where
  "pipeline_create_version env t initial rt =
     (let r = tx_session (the_tx rt t);
          s = the_session rt r;
          (vid, rt) = draw_uuid env rt;
          tid = (case active_transaction s of None \<Rightarrow> [] | Some a \<Rightarrow> transaction_id (the_tx rt a))
      in case create_version (Some (core_bridge env)) (Some initial) (node_id_of s) (replica_id env) tid vid
                (rt_time rt) s of
           (Inl e, s') \<Rightarrow> (Inl e, upd_session r (\<lambda>_. s') rt)
         | (Inr v, s') \<Rightarrow>
             bindM (publish env (VersionCreated (version_id v) (session_id s') (transaction_id (the_tx rt t))))
               (\<lambda>_. retM v) (upd_session r (\<lambda>_. s') rt))"

definition pipeline_record_operations :: "'st env \<Rightarrow> version \<Rightarrow> nat \<Rightarrow> kstruct \<Rightarrow> ('st rt, unit) sx" where
  "pipeline_record_operations env v r initial rt =
     (if \<not> supports_operation_log env \<or> \<not> supports_field_diff (core_bridge env) then (Inr (), rt)
      else case bridge_field_diff (core_bridge env) initial (knowledge_structure (the_session rt r)) of
             Inl e \<Rightarrow> (Inl e, rt)
           | Inr ops \<Rightarrow>
               if ops = [] then (Inr (), rt)
               else on_storage (st_record_operations env (session_id (the_session rt r)) (version_id v) ops) rt)"

definition pipeline_persist :: "'st env \<Rightarrow> version \<Rightarrow> nat \<Rightarrow> string option \<Rightarrow> kstruct \<Rightarrow> ('st rt, unit) sx" where
  "pipeline_persist env v r expected initial =
     bindM (on_storage (st_save_version env v)) (\<lambda>_.
     bindM (store_session env r expected) (\<lambda>_.
       pipeline_record_operations env v r initial))"

definition commit :: "'st env \<Rightarrow> nat \<Rightarrow> ('st rt, version) sx" where
  "commit env t rt =
     (let r = tx_session (the_tx rt t);
          initial = knowledge_structure (the_session rt r);
          expected = latest_id (the_session rt r)
      in bindM (if operations (the_tx rt t) \<noteq> [] \<or> requests (the_tx rt t) \<noteq> []
                then execute_operations env t else validate_only env t) (\<lambda>_.
         bindM (pipeline_create_version env t initial) (\<lambda>v.
         bindM (pipeline_persist env v r expected initial) (\<lambda>_.
         bindM (\<lambda>rt. (Inr (), manager_end COMMITTED t rt)) (\<lambda>_.
         bindM (\<lambda>rt. publish env (TransactionCommitted (transaction_id (the_tx rt t)) (session_id (the_session rt r))) rt) (\<lambda>_.
         retM v))))) rt)"

section \<open>Frames\<close>

lemma bind_core:
  assumes "same_core rt (snd (m rt))" and "\<And>x rt'. same_core rt' (snd (f x rt'))"
  shows "same_core rt (snd (bindM m f rt))"
proof (cases "m rt")
  case (Pair x rt1)
  then show ?thesis
    using assms(1) same_core_trans [OF _ assms(2) [of rt1]] by (cases x) (simp_all add: bindM_def)
qed

text \<open>What ending a transaction does to the runtime, whatever storage and handlers do.\<close>

definition ended :: "transaction_status \<Rightarrow> nat \<Rightarrow> (session \<Rightarrow> session) \<Rightarrow> 'st rt \<Rightarrow> 'st rt \<Rightarrow> bool" where
  "ended st t f rt rt' \<longleftrightarrow>
     same_core (manager_end st t (upd_session (tx_session (the_tx rt t)) f rt)) rt'"

lemma upd_simps [simp]:
  "session_heap (upd_session r f rt) = (session_heap rt)(r := f (session_heap rt r))"
  "tx_heap (upd_session r f rt) = tx_heap rt" "tx_table (upd_session r f rt) = tx_table rt"
  "session_table (upd_session r f rt) = session_table rt" "next_ref (upd_session r f rt) = next_ref rt"
  "next_uuid (upd_session r f rt) = next_uuid rt" "rt_storage (upd_session r f rt) = rt_storage rt"
  "rt_diagnostics (upd_session r f rt) = rt_diagnostics rt" "rt_time (upd_session r f rt) = rt_time rt"
  "rt_bus (upd_session r f rt) = rt_bus rt" "registry (upd_session r f rt) = registry rt"
  by (simp_all add: upd_session_def)

lemma upd_tx_simps [simp]:
  "tx_heap (upd_tx t g rt) = (tx_heap rt)(t := g (tx_heap rt t))"
  "session_heap (upd_tx t g rt) = session_heap rt" "tx_table (upd_tx t g rt) = tx_table rt"
  "session_table (upd_tx t g rt) = session_table rt" "next_ref (upd_tx t g rt) = next_ref rt"
  "next_uuid (upd_tx t g rt) = next_uuid rt" "rt_storage (upd_tx t g rt) = rt_storage rt"
  "rt_diagnostics (upd_tx t g rt) = rt_diagnostics rt" "rt_time (upd_tx t g rt) = rt_time rt"
  "rt_bus (upd_tx t g rt) = rt_bus rt" "registry (upd_tx t g rt) = registry rt"
  by (simp_all add: upd_tx_def)

lemma manager_end_simps [simp]:
  "session_heap (manager_end st t rt) =
     (session_heap rt)(tx_session (the_tx rt t) := detach_transaction (the_session rt (tx_session (the_tx rt t))))"
  "tx_heap (manager_end st t rt) = (tx_heap rt)(t := mark st (the_tx rt t))"
  "tx_table (manager_end st t rt) = dpop (tx_table rt) (transaction_id (the_tx rt t))"
  "session_table (manager_end st t rt) = session_table rt" "next_ref (manager_end st t rt) = next_ref rt"
  "next_uuid (manager_end st t rt) = next_uuid rt" "rt_storage (manager_end st t rt) = rt_storage rt"
  "rt_time (manager_end st t rt) = rt_time rt" "rt_bus (manager_end st t rt) = rt_bus rt"
  by (simp_all add: manager_end_def finish_def Let_def)

lemma rollback_ended:
  "ended ROLLED_BACK t (\<lambda>s. s\<lparr>knowledge_structure := initial_state (the_tx rt t)\<rparr>) rt (snd (rollback env t rt))"
  unfolding ended_def rollback_def Let_def by (intro bind_core store_session_core publish_core)

lemma abort_ended: "ended ABORTED t (\<lambda>s. s) rt (snd (abort env t rt))"
proof -
  have id: "upd_session r (\<lambda>s. s) rt = rt" for r
    by (cases rt) (simp add: upd_session_def)
  show ?thesis
    unfolding ended_def abort_def Let_def id by (intro bind_core store_session_core publish_core)
qed

lemma ended_fields:
  assumes "ended st t f rt rt'" and "r = tx_session (the_tx rt t)"
  shows "session_heap rt' = (session_heap rt)(r := detach_transaction (f (the_session rt r)))"
    "tx_heap rt' = (tx_heap rt)(t := mark st (the_tx rt t))"
    "tx_table rt' = dpop (tx_table rt) (transaction_id (the_tx rt t))"
    "session_table rt' = session_table rt" "next_ref rt' = next_ref rt" "next_uuid rt' = next_uuid rt"
  using same_core_fields [OF assms(1) [unfolded ended_def]] assms(2) by simp_all

section \<open>The execution of the operations\<close>

text \<open>The state that a list of results leaves.\<close>

definition state_after :: "kstruct \<Rightarrow> exec_result list \<Rightarrow> kstruct" where
  "state_after ks rs =
     fold (\<lambda>res ks. case res_operation res of None \<Rightarrow> ks | Some p \<Rightarrow> opt_or (new_state p res) ks) rs ks"

definition set_parts :: "kstruct \<Rightarrow> (string, pyval) dict \<Rightarrow> diag list \<Rightarrow> session \<Rightarrow> session" where
  "set_parts ks m ds s = s\<lparr>knowledge_structure := ks, metadata := m, session_diagnostics := ds\<rparr>"

lemma set_parts_simps [simp]:
  "knowledge_structure (set_parts ks m ds s) = ks" "metadata (set_parts ks m ds s) = m"
  "session_diagnostics (set_parts ks m ds s) = ds" "session_id (set_parts ks m ds s) = session_id s"
  "version_history (set_parts ks m ds s) = version_history s"
  "active_transaction (set_parts ks m ds s) = active_transaction s"
  "snapshot_interval (set_parts ks m ds s) = snapshot_interval s"
  "set_parts ks m ds (set_parts ks' m' ds' s) = set_parts ks m ds s"
  "set_parts (knowledge_structure s) (metadata s) (session_diagnostics s) s = s"
  by (simp_all add: set_parts_def)

text \<open>
  While operations run, the session changes in its state, metadata and diagnostics, the
  transaction in its results and the runtime in its diagnostics; neither storage nor bus is
  touched.
\<close>

definition ran :: "nat \<Rightarrow> kstruct \<Rightarrow> exec_result list \<Rightarrow> 'st rt \<Rightarrow> 'st rt \<Rightarrow> bool" where
  "ran t ks rs rt rt' \<longleftrightarrow>
     (\<exists>m ds dd. rt' =
        (upd_tx t (\<lambda>x. x\<lparr>results := results x @ rs\<rparr>)
          (upd_session (tx_session (the_tx rt t)) (set_parts ks m ds) rt))\<lparr>rt_diagnostics := dd\<rparr>)"

lemma ran_refl: "ran t (knowledge_structure (the_session rt (tx_session (the_tx rt t)))) [] rt rt"
proof -
  let ?r = "tx_session (the_tx rt t)"
  let ?s = "the_session rt ?r"
  have "rt = (upd_tx t (\<lambda>x. x\<lparr>results := results x @ []\<rparr>)
          (upd_session ?r (set_parts (knowledge_structure ?s) (metadata ?s) (session_diagnostics ?s)) rt))
            \<lparr>rt_diagnostics := rt_diagnostics rt\<rparr>"
    by (cases rt) (simp add: upd_tx_def upd_session_def)
  then show ?thesis
    unfolding ran_def by blast
qed

lemma ran_trans:
  assumes "ran t ks rs rt rt1" and "ran t ks' rs' rt1 rt2"
  shows "ran t ks' (rs @ rs') rt rt2"
proof -
  obtain m ds dd where 1: "rt1 =
        (upd_tx t (\<lambda>x. x\<lparr>results := results x @ rs\<rparr>)
          (upd_session (tx_session (the_tx rt t)) (set_parts ks m ds) rt))\<lparr>rt_diagnostics := dd\<rparr>"
    using assms(1) unfolding ran_def by blast
  obtain m' ds' dd' where 2: "rt2 =
        (upd_tx t (\<lambda>x. x\<lparr>results := results x @ rs'\<rparr>)
          (upd_session (tx_session (the_tx rt1 t)) (set_parts ks' m' ds') rt1))\<lparr>rt_diagnostics := dd'\<rparr>"
    using assms(2) unfolding ran_def by blast
  have "rt2 = (upd_tx t (\<lambda>x. x\<lparr>results := results x @ (rs @ rs')\<rparr>)
          (upd_session (tx_session (the_tx rt t)) (set_parts ks' m' ds') rt))\<lparr>rt_diagnostics := dd'\<rparr>"
    unfolding 2 1 by (cases rt) (simp add: upd_tx_def upd_session_def)
  then show ?thesis
    unfolding ran_def by blast
qed

lemma ran_fields:
  assumes "ran t ks rs rt rt'" and "r = tx_session (the_tx rt t)"
  shows "tx_session (the_tx rt' t) = r" "initial_state (the_tx rt' t) = initial_state (the_tx rt t)"
    "tx_status (the_tx rt' t) = tx_status (the_tx rt t)" "transaction_id (the_tx rt' t) = transaction_id (the_tx rt t)"
    "operations (the_tx rt' t) = operations (the_tx rt t)" "requests (the_tx rt' t) = requests (the_tx rt t)"
    "results (the_tx rt' t) = results (the_tx rt t) @ rs"
    "knowledge_structure (the_session rt' r) = ks" "version_history (the_session rt' r) = version_history (the_session rt r)"
    "session_id (the_session rt' r) = session_id (the_session rt r)"
    "active_transaction (the_session rt' r) = active_transaction (the_session rt r)"
    "snapshot_interval (the_session rt' r) = snapshot_interval (the_session rt r)"
    "\<And>q. q \<noteq> r \<Longrightarrow> the_session rt' q = the_session rt q" "\<And>u. u \<noteq> t \<Longrightarrow> the_tx rt' u = the_tx rt u"
    "tx_table rt' = tx_table rt" "session_table rt' = session_table rt" "next_ref rt' = next_ref rt"
    "rt_storage rt' = rt_storage rt" "rt_bus rt' = rt_bus rt" "next_uuid rt' = next_uuid rt"
  using assms unfolding ran_def by auto

lemma only_metadata_ran:
  assumes "only_metadata (tx_session (the_tx rt t)) rt rt'"
  shows "ran t (knowledge_structure (the_session rt (tx_session (the_tx rt t)))) rs rt (upd_tx t (\<lambda>x. x\<lparr>results := results x @ rs\<rparr>) rt')"
proof -
  let ?r = "tx_session (the_tx rt t)"
  let ?s = "the_session rt ?r"
  obtain m where "rt' = upd_session ?r (\<lambda>s. s\<lparr>metadata := m\<rparr>) rt"
    using assms unfolding only_metadata_def by blast
  then have "upd_tx t (\<lambda>x. x\<lparr>results := results x @ rs\<rparr>) rt' = (upd_tx t (\<lambda>x. x\<lparr>results := results x @ rs\<rparr>)
          (upd_session ?r (set_parts (knowledge_structure ?s) m (session_diagnostics ?s)) rt))
            \<lparr>rt_diagnostics := rt_diagnostics rt\<rparr>"
    by (cases rt) (simp add: upd_tx_def upd_session_def set_parts_def)
  then show ?thesis
    unfolding ran_def by blast
qed

text \<open>The end of a failed operation: rolled back from a state reached by operations.\<close>

definition stopped :: "'st env \<Rightarrow> nat \<Rightarrow> 'st rt \<Rightarrow> 'st rt \<Rightarrow> exn \<Rightarrow> bool" where
  "stopped env t rt rt' e \<longleftrightarrow>
     (\<exists>ks rs rt1. ran t ks rs rt rt1 \<and> rs \<noteq> [] \<and> res_status (last rs) = FAILED \<and>
        rt' = snd (rollback env t rt1) \<and>
        e = (case fst (rollback env t rt1) of Inl e' \<Rightarrow> e' | Inr _ \<Rightarrow> RuntimeError))"

lemma fold_add_diagnostic: "fold add_diagnostic ds s = s\<lparr>session_diagnostics := session_diagnostics s @ ds\<rparr>"
  by (induction ds arbitrary: s) (simp_all add: add_diagnostic_def)

lemma finish_step:
  assumes "ran t ks rs rt rt1" and "rs \<noteq> []" and "res_status (last rs) = res_status res" and "r = tx_session (the_tx rt t)"
  shows "case bindM (handle_result env t res)
           (\<lambda>_ rt. (Inr (), case res_operation res of None \<Rightarrow> rt | Some p \<Rightarrow> apply_state_mutation p res r rt)) rt1 of
     (Inr _, rt') \<Rightarrow> res_status res = COMPLETED \<and>
       ran t (case res_operation res of None \<Rightarrow> ks | Some p \<Rightarrow> opt_or (new_state p res) ks) rs rt rt'
   | (Inl e, rt') \<Rightarrow> stopped env t rt rt' e"
proof (cases "res_status res")
  case FAILED
  have "bindM (handle_result env t res) f rt1 =
      (Inl (case fst (rollback env t rt1) of Inl e' \<Rightarrow> e' | Inr _ \<Rightarrow> RuntimeError), snd (rollback env t rt1))"
    for f :: "unit \<Rightarrow> ('a rt, unit) sx"
    by (simp add: handle_result_def FAILED bindM_def raiseM_def split: prod.splits sum.splits)
  moreover have "stopped env t rt (snd (rollback env t rt1))
      (case fst (rollback env t rt1) of Inl e' \<Rightarrow> e' | Inr _ \<Rightarrow> RuntimeError)"
    unfolding stopped_def using assms(1,2,3) FAILED by metis
  ultimately show ?thesis
    by simp
next
  case COMPLETED
  obtain m ds dd where 1: "rt1 = (upd_tx t (\<lambda>x. x\<lparr>results := results x @ rs\<rparr>)
          (upd_session r (set_parts ks m ds) rt))\<lparr>rt_diagnostics := dd\<rparr>"
    using assms(1,4) unfolding ran_def by blast
  let ?ks = "case res_operation res of None \<Rightarrow> ks | Some p \<Rightarrow> opt_or (new_state p res) ks"
  have "bindM (handle_result env t res)
           (\<lambda>_ rt. (Inr (), case res_operation res of None \<Rightarrow> rt | Some p \<Rightarrow> apply_state_mutation p res r rt)) rt1 =
      (Inr (), (upd_tx t (\<lambda>x. x\<lparr>results := results x @ rs\<rparr>)
          (upd_session r (set_parts ?ks m (ds @ res_diagnostics res)) rt))
            \<lparr>rt_diagnostics := dd @ res_diagnostics res\<rparr>)"
    unfolding 1 using assms(4)
    by (cases rt) (auto simp: handle_result_def COMPLETED bindM_def fold_add_diagnostic upd_tx_def upd_session_def
        set_parts_def apply_state_mutation_def split: option.splits)
  then show ?thesis
    using assms(4) COMPLETED unfolding ran_def by auto
qed

text \<open>The constructor of a requested operation raised something the dispatcher lets pass.\<close>

definition escaped :: "'st env \<Rightarrow> nat \<Rightarrow> 'st rt \<Rightarrow> 'st rt \<Rightarrow> exn \<Rightarrow> bool" where
  "escaped env t rt rt' e \<longleftrightarrow>
     (\<exists>ks rs. ran t ks rs rt rt') \<and> e \<notin> {KeyError, TypeError} \<and> (\<exists>i ps. create_operation env i ps = Inl e)"

definition current_state :: "nat \<Rightarrow> 'st rt \<Rightarrow> kstruct" where
  "current_state t rt = knowledge_structure (the_session rt (tx_session (the_tx rt t)))"

definition went :: "'st env \<Rightarrow> nat \<Rightarrow> 'st rt \<Rightarrow> (exn + unit) \<times> 'st rt \<Rightarrow> bool" where
  "went env t rt x \<longleftrightarrow>
     (case x of
        (Inr _, rt') \<Rightarrow>
          (\<exists>rs. ran t (state_after (current_state t rt) rs) rs rt rt' \<and>
                list_all (\<lambda>res. res_status res = COMPLETED) rs)
      | (Inl e, rt') \<Rightarrow> stopped env t rt rt' e \<or> escaped env t rt rt' e)"

lemma state_after_simps [simp]:
  "state_after ks [] = ks"
  "state_after ks (rs @ rs') = state_after (state_after ks rs) rs'"
  by (simp_all add: state_after_def)

lemma executor_result: "res_operation (fst (executor_execute env p r rt)) = Some p"
  by (auto simp: executor_execute_def split: prod.splits sum.splits)

lemma attempt_outcome:
  assumes "only_metadata (tx_session (the_tx rt t)) rt rt1" and "r = tx_session (the_tx rt t)"
  shows "went env t rt (bindM (handle_result env t res)
           (\<lambda>_ rt. (Inr (), case res_operation res of None \<Rightarrow> rt | Some p \<Rightarrow> apply_state_mutation p res r rt))
           (upd_tx t (add_result res) rt1))"
proof -
  have "ran t (current_state t rt) [res] rt (upd_tx t (add_result res) rt1)"
    using only_metadata_ran [OF assms(1), of "[res]"] by (simp add: current_state_def add_result_def [abs_def])
  note step = finish_step [OF this _ _ assms(2), of res env, simplified]
  have after: "state_after (current_state t rt) [res] =
      (case res_operation res of None \<Rightarrow> current_state t rt | Some p \<Rightarrow> opt_or (new_state p res) (current_state t rt))"
    by (simp add: state_after_def)
  obtain y rt2 where y: "bindM (handle_result env t res)
           (\<lambda>_ rt. (Inr (), case res_operation res of None \<Rightarrow> rt | Some p \<Rightarrow> apply_state_mutation p res r rt))
           (upd_tx t (add_result res) rt1) = (y, rt2)"
    by fastforce
  show ?thesis
  proof (cases y)
    case (Inl e)
    then show ?thesis
      using step unfolding y by (simp add: went_def)
  next
    case (Inr u)
    then have "res_status res = COMPLETED" "ran t (state_after (current_state t rt) [res]) [res] rt rt2"
      using step unfolding y after by simp_all
    then show ?thesis
      unfolding y Inr went_def by (auto intro!: exI [of _ "[res]"])
  qed
qed

lemma stopped_after:
  assumes "ran t ks rs rt rt1" and "stopped env t rt1 rt2 e"
  shows "stopped env t rt rt2 e"
  using assms(2) unfolding stopped_def
proof (elim exE conjE)
  fix ks' rs' rt'
  assume s: "ran t ks' rs' rt1 rt'" "rs' \<noteq> []" "res_status (last rs') = FAILED" "rt2 = snd (rollback env t rt')"
    "e = (case fst (rollback env t rt') of Inl e' \<Rightarrow> e' | Inr _ \<Rightarrow> RuntimeError)"
  have "ran t ks' (rs @ rs') rt rt'" "rs @ rs' \<noteq> []" "res_status (last (rs @ rs')) = FAILED"
    using ran_trans [OF assms(1) s(1)] s(2,3) by simp_all
  then show "\<exists>ks rs rt1. ran t ks rs rt rt1 \<and> rs \<noteq> [] \<and> res_status (last rs) = FAILED \<and>
      rt2 = snd (rollback env t rt1) \<and> e = (case fst (rollback env t rt1) of Inl e' \<Rightarrow> e' | Inr _ \<Rightarrow> RuntimeError)"
    using s(4,5) by blast
qed

lemma operation_step_outcome: "went env t rt (operation_step env t p rt)"
proof -
  obtain res rt1 where x: "executor_execute env p (tx_session (the_tx rt t)) rt = (res, rt1)"
    by fastforce
  moreover have "only_metadata (tx_session (the_tx rt t)) rt rt1" "res_operation res = Some p"
    using executor_frame [of "tx_session (the_tx rt t)" rt env p] executor_result [of env p "tx_session (the_tx rt t)" rt] x
    by simp_all
  ultimately show ?thesis
    using attempt_outcome [of rt t rt1 "tx_session (the_tx rt t)" env res] by (simp add: operation_step_def)
qed

lemma dispatch_escape:
  "dispatch env q r rt = (Inl e, rt') \<Longrightarrow>
   rt' = rt \<and> e \<notin> {KeyError, TypeError} \<and> (\<exists>i ps. create_operation env i ps = Inl e)"
  by (auto simp: dispatch_def Let_def registry_create_def split: sum.splits exn.splits if_splits prod.splits)

lemma request_step_outcome: "went env t rt (request_step env t q rt)"
proof (cases "dispatch env q (tx_session (the_tx rt t)) rt")
  case (Pair x rt1)
  show ?thesis
  proof (cases x)
    case (Inl e)
    have "escaped env t rt rt e"
      using dispatch_escape [OF Pair [unfolded Inl]] ran_refl unfolding escaped_def by blast
    then show ?thesis
      using dispatch_escape [OF Pair [unfolded Inl]]
      by (simp add: request_step_def Pair Inl bindM_def went_def)
  next
    case (Inr res)
    then show ?thesis
      using attempt_outcome [of rt t rt1 "tx_session (the_tx rt t)" env res]
        dispatch_frame [of "tx_session (the_tx rt t)" rt env q] Pair
      by (simp add: request_step_def bindM_Inr)
  qed
qed

lemma went_after:
  assumes "ran t (state_after (current_state t rt) rs) rs rt rt1" and "list_all (\<lambda>res. res_status res = COMPLETED) rs"
    and "went env t rt1 x"
  shows "went env t rt x"
proof -
  obtain y rt2 where x: "x = (y, rt2)"
    by fastforce
  show ?thesis
  proof (cases y)
    case (Inl e)
    have "stopped env t rt rt2 e" if "stopped env t rt1 rt2 e"
      using stopped_after [OF assms(1) that] .
    moreover have "escaped env t rt rt2 e" if "escaped env t rt1 rt2 e"
      using that ran_trans [OF assms(1)] unfolding escaped_def by blast
    ultimately show ?thesis
      using assms(3) unfolding went_def x Inl by auto
  next
    case (Inr u)
    then obtain rs' where rs': "ran t (state_after (current_state t rt1) rs') rs' rt1 rt2"
        "list_all (\<lambda>res. res_status res = COMPLETED) rs'"
      using assms(3) by (auto simp: went_def x)
    have "current_state t rt1 = state_after (current_state t rt) rs"
      using ran_fields [OF assms(1) refl] by (simp add: current_state_def)
    then have "ran t (state_after (current_state t rt) (rs @ rs')) (rs @ rs') rt rt2"
      using ran_trans [OF assms(1) rs'(1)] by simp
    moreover have "list_all (\<lambda>res. res_status res = COMPLETED) (rs @ rs')"
      using assms(2) rs'(2) by simp
    ultimately have "\<exists>rs. ran t (state_after (current_state t rt) rs) rs rt rt2 \<and>
        list_all (\<lambda>res. res_status res = COMPLETED) rs"
      by blast
    then show ?thesis
      unfolding went_def x Inr by simp
  qed
qed

lemma run_steps_outcome:
  assumes "\<And>x rt. went env t rt (step x rt)"
  shows "went env t rt (run_steps step xs rt)"
proof (induction xs arbitrary: rt)
  case Nil
  then show ?case
    using ran_refl [of t rt] by (auto simp: went_def current_state_def intro!: exI [of _ "[]"])
next
  case (Cons x xs)
  obtain y rt1 where y: "step x rt = (y, rt1)"
    by fastforce
  show ?case
  proof (cases y)
    case (Inl e)
    then show ?thesis
      using assms [of rt x] y by (simp add: bindM_def went_def)
  next
    case (Inr u)
    then obtain rs where "ran t (state_after (current_state t rt) rs) rs rt rt1"
        "list_all (\<lambda>res. res_status res = COMPLETED) rs"
      using assms [of rt x] y by (auto simp: went_def)
    then have "went env t rt (run_steps step xs rt1)"
      using went_after Cons.IH by blast
    then show ?thesis
      by (simp add: y Inr bindM_def)
  qed
qed

lemma execute_operations_outcome: "went env t rt (execute_operations env t rt)"
proof -
  have 1: "went env t rt (run_steps (operation_step env t) (operations (the_tx rt t)) rt)"
    by (rule run_steps_outcome) (rule operation_step_outcome)
  obtain y rt1 where y: "run_steps (operation_step env t) (operations (the_tx rt t)) rt = (y, rt1)"
    by fastforce
  show ?thesis
  proof (cases y)
    case (Inl e)
    then show ?thesis
      using 1 y by (simp add: execute_operations_def bindM_def)
  next
    case (Inr u)
    then obtain rs where "ran t (state_after (current_state t rt) rs) rs rt rt1"
        "list_all (\<lambda>res. res_status res = COMPLETED) rs"
      using 1 y by (auto simp: went_def)
    moreover have "went env t rt1 (run_steps (request_step env t) (requests (the_tx rt t)) rt1)"
      by (rule run_steps_outcome) (rule request_step_outcome)
    ultimately have "went env t rt (run_steps (request_step env t) (requests (the_tx rt t)) rt1)"
      using went_after by blast
    then show ?thesis
      by (simp add: execute_operations_def bindM_def y Inr)
  qed
qed

section \<open>A commit that returns\<close>

lemma bindM_InrE:
  assumes "bindM m f s = (Inr x, s')"
  obtains y s1 where "m s = (Inr y, s1)" "f y s1 = (Inr x, s')"
  using assms by (auto simp: bindM_def split: prod.splits sum.splits)

lemma persist_core: "same_core rt (snd (pipeline_persist env v r e initial rt))"
proof -
  have "same_core rt (snd (pipeline_record_operations env v r initial rt))" for rt
    by (auto simp: pipeline_record_operations_def on_storage_core split: sum.splits)
  then show ?thesis
    unfolding pipeline_persist_def by (intro bind_core on_storage_core store_session_core)
qed

lemma ran_diagnostics: "ran t (current_state t rt) [] rt (rt\<lparr>rt_diagnostics := ds\<rparr>)"
proof -
  let ?s = "the_session rt (tx_session (the_tx rt t))"
  have "rt\<lparr>rt_diagnostics := ds\<rparr> = (upd_tx t (\<lambda>x. x\<lparr>results := results x @ []\<rparr>)
      (upd_session (tx_session (the_tx rt t)) (set_parts (knowledge_structure ?s) (metadata ?s) (session_diagnostics ?s)) rt))
        \<lparr>rt_diagnostics := ds\<rparr>"
    by (cases rt) (simp add: upd_tx_def upd_session_def)
  then show ?thesis
    unfolding ran_def current_state_def by blast
qed

lemma validate_only_Inr:
  assumes "validate_only env t rt = (Inr u, rt1)"
  shows "ran t (current_state t rt) [] rt rt1 \<and>
    (\<exists>v. bridge_validate (core_bridge env) (current_state t rt) None = Inr v \<and> valid v)"
proof -
  obtain v where v: "bridge_validate (core_bridge env) (current_state t rt) None = Inr v"
    using assms by (auto simp: validate_only_def current_state_def split: sum.splits)
  have "valid v"
    using assms v by (auto simp: validate_only_def current_state_def quality_gate_def raiseM_def bindM_def
        split: if_splits prod.splits sum.splits)
  moreover have "rt1 = (if has_diagnostics v then rt\<lparr>rt_diagnostics := rt_diagnostics rt @ diagnostics v\<rparr> else rt)"
    using assms v \<open>valid v\<close> by (simp add: validate_only_def current_state_def quality_gate_def)
  ultimately show ?thesis
    using v ran_diagnostics [of t rt] ran_refl [of t rt] by (auto simp: current_state_def)
qed

text \<open>The phase before the version: the operations, or the validation when there are none.\<close>

definition first_phase :: "'st env \<Rightarrow> nat \<Rightarrow> ('st rt, unit) sx" where
  "first_phase env t rt =
     (if operations (the_tx rt t) \<noteq> [] \<or> requests (the_tx rt t) \<noteq> []
      then execute_operations env t else validate_only env t) rt"

lemma first_phase_Inr:
  assumes "first_phase env t rt = (Inr u, rt1)"
  shows "\<exists>rs. ran t (state_after (current_state t rt) rs) rs rt rt1 \<and>
    list_all (\<lambda>res. res_status res = COMPLETED) rs"
proof (cases "operations (the_tx rt t) \<noteq> [] \<or> requests (the_tx rt t) \<noteq> []")
  case True
  then show ?thesis
    using execute_operations_outcome [of env t rt] assms by (simp add: first_phase_def went_def)
next
  case False
  then have "ran t (current_state t rt) [] rt rt1"
    using validate_only_Inr [of env t rt u rt1] assms by (simp add: first_phase_def)
  then show ?thesis
    by (auto intro!: exI [of _ "[]"])
qed

lemma commit_phases:
  "commit env t rt =
     bindM (first_phase env t) (\<lambda>_.
     bindM (pipeline_create_version env t (current_state t rt)) (\<lambda>v.
     bindM (pipeline_persist env v (tx_session (the_tx rt t)) (latest_id (the_session rt (tx_session (the_tx rt t))))
              (current_state t rt)) (\<lambda>_.
     bindM (\<lambda>rt. (Inr (), manager_end COMMITTED t rt)) (\<lambda>_.
     bindM (\<lambda>rt'. publish env (TransactionCommitted (transaction_id (the_tx rt' t))
              (session_id (the_session rt' (tx_session (the_tx rt t))))) rt') (\<lambda>_.
     retM v))))) rt"
  by (simp add: commit_def Let_def current_state_def bindM_def first_phase_def)

text \<open>The version that a commit makes of the state the operations left.\<close>

definition makes_version :: "'st env \<Rightarrow> nat \<Rightarrow> kstruct \<Rightarrow> 'st rt \<Rightarrow> version \<Rightarrow> session \<Rightarrow> bool" where
  "makes_version env t initial rt v s' \<longleftrightarrow>
     (let s = the_session rt (tx_session (the_tx rt t))
      in create_version (Some (core_bridge env)) (Some initial) (node_id_of s) (replica_id env)
           (case active_transaction s of None \<Rightarrow> [] | Some a \<Rightarrow> transaction_id (the_tx rt a))
           (uuid env (next_uuid rt)) (rt_time rt) s = (Inr v, s'))"

definition drawn :: "'st rt \<Rightarrow> 'st rt" where
  "drawn rt = rt\<lparr>next_uuid := next_uuid rt + 1\<rparr>"

lemma draw_uuid_drawn: "draw_uuid env rt = (uuid env (next_uuid rt), drawn rt)"
  by (simp add: draw_uuid_def drawn_def)

lemma drawn_simps [simp]:
  "session_heap (drawn rt) = session_heap rt" "tx_heap (drawn rt) = tx_heap rt" "tx_table (drawn rt) = tx_table rt"
  "session_table (drawn rt) = session_table rt" "next_ref (drawn rt) = next_ref rt" "rt_storage (drawn rt) = rt_storage rt"
  "rt_time (drawn rt) = rt_time rt" "rt_bus (drawn rt) = rt_bus rt" "next_uuid (drawn rt) = next_uuid rt + 1"
  by (simp_all add: drawn_def)

lemma create_phase_run:
  "makes_version env t initial rt v s' \<Longrightarrow>
   pipeline_create_version env t initial rt =
     bindM (publish env (VersionCreated (version_id v) (session_id s') (transaction_id (the_tx rt t))))
       (\<lambda>_. retM v) (upd_session (tx_session (the_tx rt t)) (\<lambda>_. s') (drawn rt))"
  by (simp add: makes_version_def pipeline_create_version_def Let_def draw_uuid_drawn
      cong: sum.case_cong prod.case_cong option.case_cong)

lemma create_phase_Inr:
  assumes "pipeline_create_version env t initial rt = (Inr v, rt')"
  shows "\<exists>s'. makes_version env t initial rt v s' \<and>
    same_core (upd_session (tx_session (the_tx rt t)) (\<lambda>_. s') (drawn rt)) rt'"
proof -
  let ?r = "tx_session (the_tx rt t)"
  let ?s = "the_session rt ?r"
  let ?c = "create_version (Some (core_bridge env)) (Some initial) (node_id_of ?s) (replica_id env)
      (case active_transaction ?s of None \<Rightarrow> [] | Some a \<Rightarrow> transaction_id (the_tx rt a))
      (uuid env (next_uuid rt)) (rt_time rt) ?s"
  have run: "pipeline_create_version env t initial rt =
      (case ?c of
         (Inl e, s') \<Rightarrow> (Inl e, upd_session ?r (\<lambda>_. s') (drawn rt))
       | (Inr v, s') \<Rightarrow>
           bindM (publish env (VersionCreated (version_id v) (session_id s') (transaction_id (the_tx rt t))))
             (\<lambda>_. retM v) (upd_session ?r (\<lambda>_. s') (drawn rt)))"
    by (simp add: pipeline_create_version_def Let_def draw_uuid_drawn cong: sum.case_cong prod.case_cong option.case_cong)
  obtain w s' where c: "?c = (Inr w, s')"
    using assms run by (cases ?c; cases "fst ?c") auto
  obtain y where y: "publish env (VersionCreated (version_id w) (session_id s') (transaction_id (the_tx rt t)))
      (upd_session ?r (\<lambda>_. s') (drawn rt)) = (Inr y, rt')" "w = v"
    using assms run c by (auto simp: bindM_def retM_def split: prod.splits sum.splits)
  then show ?thesis
    using publish_core [of "upd_session ?r (\<lambda>_. s') (drawn rt)" env
        "VersionCreated (version_id w) (session_id s') (transaction_id (the_tx rt t))"] c
    by (auto simp: makes_version_def Let_def)
qed

lemma commit_first_phase:
  assumes "commit env t rt = (Inr v, rt')" and "r = tx_session (the_tx rt t)"
  shows "\<exists>rs rt1 s2. first_phase env t rt = (Inr (), rt1) \<and> ran t (state_after (current_state t rt) rs) rs rt rt1 \<and>
    list_all (\<lambda>res. res_status res = COMPLETED) rs \<and>
    makes_version env t (current_state t rt) rt1 v s2 \<and>
    session_heap rt' = (session_heap rt1)(r := detach_transaction s2) \<and>
    tx_heap rt' = (tx_heap rt1)(t := mark COMMITTED (the_tx rt1 t)) \<and>
    tx_table rt' = dpop (tx_table rt1) (transaction_id (the_tx rt1 t)) \<and>
    session_table rt' = session_table rt1 \<and> next_ref rt' = next_ref rt1 \<and> next_uuid rt' = next_uuid rt1 + 1"
proof -
  let ?init = "current_state t rt"
  obtain u rt1 w rt2 u3 rt3 u' rt3' u4 rt4 where 1: "first_phase env t rt = (Inr u, rt1)"
    and 2: "pipeline_create_version env t ?init rt1 = (Inr w, rt2)"
    and 3: "pipeline_persist env w r (latest_id (the_session rt r)) ?init rt2 = (Inr u3, rt3)"
    and e: "(Inr (), manager_end COMMITTED t rt3) = (Inr u' :: exn + unit, rt3')"
    and 4: "publish env (TransactionCommitted (transaction_id (the_tx rt3' t))
       (session_id (the_session rt3' r))) rt3' = (Inr u4, rt4)"
    and 5: "retM w rt4 = (Inr v, rt')"
    using assms(1) [unfolded commit_phases, folded assms(2)] by (elim bindM_InrE) (rule that)
  have core3: "same_core rt2 rt3"
    using persist_core [of rt2 env w r "latest_id (the_session rt r)" ?init] 3 by simp
  have v: "w = v" and core': "same_core (manager_end COMMITTED t rt3) rt'"
    using 5 4 e publish_core [of rt3' env "TransactionCommitted (transaction_id (the_tx rt3' t))
       (session_id (the_session rt3' r))"] by (simp_all add: retM_def)
  obtain rs where rs: "ran t (state_after ?init rs) rs rt rt1" "list_all (\<lambda>res. res_status res = COMPLETED) rs"
    using first_phase_Inr [OF 1] by blast
  have r1: "tx_session (the_tx rt1 t) = r"
    using ran_fields(1) [OF rs(1) assms(2)] .
  obtain s2 where s2: "makes_version env t ?init rt1 v s2" "same_core (upd_session r (\<lambda>_. s2) (drawn rt1)) rt2"
    using create_phase_Inr [OF 2] r1 v by auto
  note f = same_core_fields [OF core'] same_core_fields [OF core3] same_core_fields [OF s2(2)]
  show ?thesis
    by (intro exI [of _ rs] exI [of _ rt1] exI [of _ s2]) (use 1 in \<open>simp add: rs s2(1) f r1\<close>)
qed

lemma commit_Inr:
  assumes "commit env t rt = (Inr v, rt')" and "r = tx_session (the_tx rt t)"
  shows "\<exists>rs rt1 s2. ran t (state_after (current_state t rt) rs) rs rt rt1 \<and>
    list_all (\<lambda>res. res_status res = COMPLETED) rs \<and>
    makes_version env t (current_state t rt) rt1 v s2 \<and>
    session_heap rt' = (session_heap rt1)(r := detach_transaction s2) \<and>
    tx_heap rt' = (tx_heap rt1)(t := mark COMMITTED (the_tx rt1 t)) \<and>
    tx_table rt' = dpop (tx_table rt1) (transaction_id (the_tx rt1 t)) \<and>
    session_table rt' = session_table rt1 \<and> next_ref rt' = next_ref rt1 \<and> next_uuid rt' = next_uuid rt1 + 1"
  using commit_first_phase [OF assms] by blast

section \<open>A transaction of one operation\<close>

lemma operation_step_Inr:
  assumes "operation_step env t p rt = (Inr u, rt')"
  shows "\<exists>res rt1. executor_execute env p (tx_session (the_tx rt t)) rt = (res, rt1) \<and> res_status res = COMPLETED \<and>
    ran t (opt_or (new_state p res) (current_state t rt)) [res] rt rt'"
proof -
  let ?r = "tx_session (the_tx rt t)"
  obtain res rt1 where x: "executor_execute env p ?r rt = (res, rt1)"
    by fastforce
  have res: "res_operation res = Some p"
    using executor_result [of env p ?r rt] x by simp
  have "only_metadata ?r rt rt1"
    using executor_frame [of ?r rt env p] x by simp
  then have "ran t (current_state t rt) [res] rt (upd_tx t (add_result res) rt1)"
    using only_metadata_ran [of rt t rt1 "[res]"] by (simp add: current_state_def add_result_def [abs_def])
  from finish_step [OF this, of res ?r env] assms show ?thesis
    using x res by (simp add: operation_step_def)
qed

lemma first_phase_single:
  assumes "operations (the_tx rt t) = [p]" and "requests (the_tx rt t) = []" and "first_phase env t rt = (Inr u, rt1)"
  shows "\<exists>res rt0. executor_execute env p (tx_session (the_tx rt t)) rt = (res, rt0) \<and> res_status res = COMPLETED \<and>
    ran t (opt_or (new_state p res) (current_state t rt)) [res] rt rt1"
proof -
  obtain u1 where 1: "operation_step env t p rt = (Inr u1, rt1)"
    using assms by (auto simp: first_phase_def execute_operations_def bindM_def split: prod.splits sum.splits)
  show ?thesis
    using operation_step_Inr [OF 1] .
qed

text \<open>A transaction is begun, given its operations and committed.\<close>

lemma begin_Inr:
  assumes "begin_transaction env r rt = (Inr t, rt')"
  shows "t = next_ref rt" "\<not> has_active_transaction (the_session rt r)"
    "rt' = upd_session r (attach_transaction t)
       ((drawn rt)\<lparr>tx_heap := (tx_heap rt)(t := \<lparr>tx_session = r, transaction_id = uuid env (next_uuid rt),
          operations = [], requests = [], results = [], tx_diagnostics = [], tx_status = CREATED,
          initial_state = knowledge_structure (the_session rt r)\<rparr>),
          next_ref := t + 1, tx_table := dset (tx_table rt) (uuid env (next_uuid rt)) t\<rparr>)"
  using assms by (auto simp: begin_transaction_def draw_uuid_drawn Let_def split: if_splits)

end
