(* ===== verification/Commit.thy ===== *)
theory Commit
  imports Pipeline Sqlite_Storage
begin

text \<open>
  What commit, rollback and abort guarantee, over any storage and over the SQLite backend.
  The projection that turns \<open>VersionCreated\<close> into an outbox task
  (\<open>projection/embedding_projection.py\<close>) is the subscriber every runtime has.
\<close>

section \<open>The runtime on SQLite\<close>

definition PROJECTION :: string where
  "PROJECTION = ''embedding_projection''"

text \<open>\<open>_on_version_created\<close>: the previous version is always given as \<open>None\<close>.\<close>

definition on_version_created :: "time \<Rightarrow> event \<Rightarrow> sqlite_db \<Rightarrow> sqlite_db" where
  "on_version_created now ev db =
     (case ev of
        VersionCreated vid sid tid \<Rightarrow> db\<lparr>task_table := enqueue_outbox_task sid None vid now (task_table db)\<rparr>
      | _ \<Rightarrow> db)"

definition sqlite_env ::
  "cks_objects \<Rightarrow> bridge \<Rightarrow> string option \<Rightarrow> (nat \<Rightarrow> string) \<Rightarrow> (string \<Rightarrow> (string, pyval) dict \<Rightarrow> exn + operation)
     \<Rightarrow> sqlite_db env" where
  "sqlite_env cks b replica ids create =
     \<lparr>core_bridge = b, env_cks = cks, replica_id = replica, uuid = ids,
      st_save_session = (\<lambda>now s e. save_session cks s e now), st_save_version = save_version cks,
      st_record_operations = (\<lambda>sid vid ops db. (Inr (), record_operations sid vid ops db)),
      st_list_operations = (\<lambda>sid oid db. Inr (list_operations sid (Some oid) None db)),
      st_list_sessions = list_sessions cks, supports_operation_log = True, create_operation = create,
      run_handler = (\<lambda>now h ev db. (Inr (), if h = PROJECTION then on_version_created now ev db else db))\<rparr>"

section \<open>Storage and handlers that do not fail\<close>

definition quiet :: "'st env \<Rightarrow> bool" where
  "quiet env \<longleftrightarrow>
     (\<forall>now s st. fst (st_save_session env now s None st) = Inr ()) \<and>
     (\<forall>now h ev st. fst (run_handler env now h ev st) = Inr ()) \<and>
     (\<forall>i ps e. create_operation env i ps = Inl e \<longrightarrow> e = KeyError \<or> e = TypeError)"

lemma deliver_quiet: "(\<And>h s. fst (run h ev s) = Inr ()) \<Longrightarrow> fst (deliver run ev hs s) = Inr ()"
proof (induction hs arbitrary: s)
  case (Cons h hs)
  obtain s' where "run h ev s = (Inr (), s')"
    using Cons.prems [of h s] by (cases "run h ev s") auto
  then show ?case
    using Cons by simp
qed simp

lemma publish_quiet: "quiet env \<Longrightarrow> fst (publish env ev rt) = Inr ()"
  using deliver_quiet [of "run_handler env (rt_time rt)" ev "recipients (rt_bus rt) ev" "rt_storage rt"]
  by (simp add: publish_def on_storage_def quiet_def case_prod_unfold)

lemma store_quiet: "quiet env \<Longrightarrow> fst (store_session env r None rt) = Inr ()"
  by (simp add: store_session_def on_storage_def quiet_def case_prod_unfold)

lemma bindM_quiet: "fst (m s) = Inr () \<Longrightarrow> (\<And>s'. fst (f () s') = Inr ()) \<Longrightarrow> fst (bindM m f s) = Inr ()"
  by (cases "m s") (simp add: bindM_def)

lemma rollback_quiet: "quiet env \<Longrightarrow> fst (rollback env t rt) = Inr ()"
  unfolding rollback_def Let_def by (intro bindM_quiet store_quiet publish_quiet)

text \<open>The session and the transaction after a rollback.\<close>

definition rolled_back :: "nat \<Rightarrow> 'st rt \<Rightarrow> 'st rt \<Rightarrow> bool" where
  "rolled_back t rt rt' \<longleftrightarrow>
     (let r = tx_session (the_tx rt t)
      in knowledge_structure (the_session rt' r) = initial_state (the_tx rt t) \<and>
         version_history (the_session rt' r) = version_history (the_session rt r) \<and>
         active_transaction (the_session rt' r) = None \<and>
         tx_status (the_tx rt' t) = ROLLED_BACK \<and>
         dget (tx_table rt') (transaction_id (the_tx rt t)) = None \<and>
         (\<forall>q. q \<noteq> r \<longrightarrow> the_session rt' q = the_session rt q))"

lemma rollback_after:
  assumes "ran t ks rs rt rt1" and "\<not> tx_completed (the_tx rt t)"
  shows "rolled_back t rt (snd (rollback env t rt1))"
proof -
  let ?r = "tx_session (the_tx rt t)"
  note f = ran_fields [OF assms(1) refl]
  have r: "?r = tx_session (the_tx rt1 t)"
    using f(1) by simp
  note e = ended_fields [OF rollback_ended [of t rt1 env] r]
  have "\<not> tx_completed (the_tx rt1 t)"
    using assms(2) f(3) by (simp add: tx_completed_def)
  then show ?thesis
    using f by (simp add: rolled_back_def Let_def e detach_transaction_def mark_def)
qed

section \<open>A sample runtime\<close>

text \<open>A runtime whose storage accepts everything and keeps nothing.\<close>

definition bare_env :: "unit env" where
  "bare_env =
     \<lparr>core_bridge = Some sample_core, env_cks = text_cks, replica_id = None,
      uuid = (\<lambda>n. replicate (n + 1) (CHR ''u'')), st_save_session = (\<lambda>now s e st. (Inr (), st)),
      st_save_version = (\<lambda>v st. (Inr (), st)), st_record_operations = (\<lambda>sid vid ops st. (Inr (), st)),
      st_list_operations = (\<lambda>sid oid st. Inr []), st_list_sessions = (\<lambda>st. Inr []),
      supports_operation_log = False, create_operation = (\<lambda>i ps. Inl TypeError),
      run_handler = (\<lambda>now h ev st. (Inr (), st))\<rparr>"

text \<open>A session with one version at reference 0 and a transaction on it at reference 1.\<close>

definition sample_rt :: "operation list \<Rightarrow> 'st \<Rightarrow> 'st rt" where
  "sample_rt ops st =
     \<lparr>rt_storage = st, session_heap = (\<lambda>_. first_session\<lparr>active_transaction := Some 1\<rparr>),
      tx_heap = (\<lambda>_. \<lparr>tx_session = 0, transaction_id = ''t'', operations = ops, requests = [], results = [],
                      tx_diagnostics = [], tx_status = CREATED, initial_state = \<lparr>ks_objects = []\<rparr>\<rparr>),
      next_ref = 2, next_uuid = 0, session_table = [(''s'', 0)], tx_table = [(''t'', 1)], registry = [],
      rt_diagnostics = [], rt_bus = empty_bus, rt_time = 5\<rparr>"

definition set_one :: operation where
  "set_one = ReplaceStateOperation ''replace_state'' (Some one_object)"

lemmas run_defs = run_steps.simps bindM_def operation_step_def executor_execute_def execute_replace_state_def
  completed_with_def add_result_def handle_result_def apply_state_mutation_def new_state_def

text \<open>Without an operation log, a storage that accepts every save lets every commit through
  whose operations complete and whose version can be made.\<close>

definition accepting :: "'st env \<Rightarrow> bool" where
  "accepting env \<longleftrightarrow>
     quiet env \<and> \<not> supports_operation_log env \<and>
     (\<forall>now s e st. fst (st_save_session env now s e st) = Inr ()) \<and> (\<forall>v st. fst (st_save_version env v st) = Inr ())"

lemma bindM_returns:
  "fst (m s) = Inr x \<Longrightarrow> (\<And>s'. \<exists>y. fst (f x s') = Inr y) \<Longrightarrow> \<exists>y. fst (bindM m f s) = Inr y"
  by (cases "m s") (simp add: bindM_def)

lemma accepting_persist: "accepting env \<Longrightarrow> fst (pipeline_persist env v r e initial rt) = Inr ()"
  unfolding pipeline_persist_def
  by (intro bindM_quiet) (auto simp: accepting_def on_storage_def store_session_def pipeline_record_operations_def
      case_prod_unfold)

lemma commit_returns:
  assumes "accepting env" and "first_phase env t rt = (Inr u, rt1)" and "makes_version env t (current_state t rt) rt1 v s2"
  shows "\<exists>w rt'. commit env t rt = (Inr w, rt')"
proof -
  have quiet: "quiet env"
    using assms(1) by (simp add: accepting_def)
  have publish: "\<exists>rt'. publish env ev rt = (Inr (), rt')" for ev rt
    using publish_quiet [OF quiet, of ev rt] by (metis prod.collapse)
  obtain rt2 where 2: "pipeline_create_version env t (current_state t rt) rt1 = (Inr v, rt2)"
    using publish [of "VersionCreated (version_id v) (session_id s2) (transaction_id (the_tx rt1 t))"
        "upd_session (tx_session (the_tx rt1 t)) (\<lambda>_. s2) (drawn rt1)"]
    by (auto simp: create_phase_run [OF assms(3)] bindM_Inr retM_def)
  obtain rt3 where 3: "pipeline_persist env v (tx_session (the_tx rt t))
      (latest_id (the_session rt (tx_session (the_tx rt t)))) (current_state t rt) rt2 = (Inr (), rt3)"
    using accepting_persist [OF assms(1)] by (metis prod.collapse)
  obtain rt4 where 4: "publish env (TransactionCommitted (transaction_id (the_tx (manager_end COMMITTED t rt3) t))
      (session_id (the_session (manager_end COMMITTED t rt3) (tx_session (the_tx rt t))))) (manager_end COMMITTED t rt3)
      = (Inr (), rt4)"
    using publish by blast
  have "commit env t rt = (Inr v, rt4)"
    unfolding commit_phases bindM_Inr [where m = "first_phase env t" and s = rt, OF assms(2)]
      bindM_Inr [where m = "pipeline_create_version env t (current_state t rt)" and s = rt1, OF 2]
    using 3 4 by (simp add: bindM_def retM_def)
  then show ?thesis
    by blast
qed

lemma bare_accepting: "accepting bare_env" "quiet bare_env"
  by (simp_all add: accepting_def quiet_def bare_env_def)

lemma sample_execution:
  "\<exists>rt1. first_phase env 1 (sample_rt [set_one] st) = (Inr (), rt1) \<and> next_uuid rt1 = 0 \<and>
     tx_session (the_tx rt1 1) = 0 \<and> the_session rt1 0 = first_session\<lparr>active_transaction := Some 1, knowledge_structure := one_object\<rparr>"
  by (simp add: first_phase_def execute_operations_def run_defs set_one_def sample_rt_def upd_tx_def upd_session_def)

lemma sample_version_metadata:
  "\<exists>v s'. create_version (Some (Some sample_core)) (Some \<lparr>ks_objects = []\<rparr>) node None tid vid now
     (first_session\<lparr>active_transaction := a, knowledge_structure := one_object, metadata := m\<rparr>) = (Inr v, s') \<and>
     version_id v = vid \<and> (\<exists>row. version_row_of text_cks v = Inr row)"
  by (simp add: create_version_def Let_def bridge_hash_def sample_core_def capability_def snapshot_due_def
      bridge_diff_def sample_diff_def one_object_def sample_kobj_def bump_metadata_def first_session_def
      sample_session_def is_runtime_error.simps version_row_of_def serialize_operators_def map_err.simps
      serialize_operator.simps bind_err_def split: option.splits)

lemma sample_version:
  "\<exists>v s'. create_version (Some (Some sample_core)) (Some \<lparr>ks_objects = []\<rparr>) node None tid vid now
     (first_session\<lparr>active_transaction := a, knowledge_structure := one_object\<rparr>) = (Inr v, s') \<and>
     version_id v = vid \<and> (\<exists>row. version_row_of text_cks v = Inr row)"
  using sample_version_metadata [where m = "metadata first_session"]
  by (simp add: first_session_def sample_session_def)

lemma sample_makes:
  assumes "first_phase env 1 (sample_rt [set_one] st) = (Inr (), rt1)" and "core_bridge env = Some sample_core"
    and "replica_id env = None"
  shows "\<exists>v s'. makes_version env 1 (current_state 1 (sample_rt [set_one] st)) rt1 v s' \<and>
    version_id v = uuid env 0 \<and> (\<exists>row. version_row_of text_cks v = Inr row)"
proof -
  obtain rt' where "first_phase env 1 (sample_rt [set_one] st) = (Inr (), rt')" "next_uuid rt' = 0"
    "tx_session (the_tx rt' 1) = 0"
    "the_session rt' 0 = first_session\<lparr>active_transaction := Some 1, knowledge_structure := one_object\<rparr>"
    using sample_execution [of env st] by (elim exE conjE)
  then have rt1: "next_uuid rt1 = 0" "tx_session (the_tx rt1 1) = 0"
    "the_session rt1 0 = first_session\<lparr>active_transaction := Some 1, knowledge_structure := one_object\<rparr>"
    unfolding assms(1) prod.inject by (simp_all only: simp_thms)
  have "current_state 1 (sample_rt [set_one] st) = \<lparr>ks_objects = []\<rparr>"
    by (simp add: current_state_def sample_rt_def)
  then show ?thesis
    using sample_version unfolding makes_version_def Let_def rt1 assms(2,3) by metis
qed

lemma sample_commit: "\<exists>v rt'. commit bare_env 1 (sample_rt [set_one] ()) = (Inr v, rt')"
proof -
  obtain rt1 where rt1: "first_phase bare_env 1 (sample_rt [set_one] ()) = (Inr (), rt1)"
    using sample_execution [of bare_env "()"] by (elim exE conjE)
  have "core_bridge bare_env = Some sample_core" "replica_id bare_env = None"
    by (simp_all add: bare_env_def)
  then show ?thesis
    using commit_returns [OF bare_accepting(1) rt1] sample_makes [OF rt1] by blast
qed

section \<open>Properties\<close>



text \<open>C7: A commit with a failing operation leaves nothing behind but metadata: whatever the
  operations before it did, the commit raises, the session's state is the one from the begin
  of the transaction, its history is unchanged, the transaction is rolled back and detached,
  and no other session has changed.\<close>

theorem failed_operation_rolls_back:
  assumes "quiet env" and "\<not> tx_completed (the_tx rt t)"
    and "operations (the_tx rt t) \<noteq> [] \<or> requests (the_tx rt t) \<noteq> []"
    and "execute_operations env t rt = (Inl e, rt')"
  shows "commit env t rt = (Inl RuntimeError, rt') \<and> rolled_back t rt rt'"
proof -
  have "\<not> escaped env t rt rt' e"
    using assms(1) unfolding escaped_def quiet_def by blast
  then have "stopped env t rt rt' e"
    using execute_operations_outcome [of env t rt] assms(4) by (simp add: went_def)
  then obtain ks rs rt1 where s: "ran t ks rs rt rt1" "rt' = snd (rollback env t rt1)"
      "e = (case fst (rollback env t rt1) of Inl e' \<Rightarrow> e' | Inr _ \<Rightarrow> RuntimeError)"
    unfolding stopped_def by metis
  then have "e = RuntimeError"
    using rollback_quiet [OF assms(1), of t rt1] by simp
  moreover have "commit env t rt = (Inl e, rt')"
    using assms(3,4) by (auto simp: commit_def Let_def bindM_def)
  ultimately show ?thesis
    using rollback_after [OF s(1) assms(2), of env] s(2) by simp
qed

theorem failed_operation_rolls_back_witness:
  "\<exists>rt'. commit bare_env 1 (sample_rt [set_one, ReplaceStateOperation ''replace_state'' None] ()) = (Inl RuntimeError, rt') \<and>
     knowledge_structure (the_session rt' 0) = \<lparr>ks_objects = []\<rparr>"
proof -
  let ?rt = "sample_rt [set_one, ReplaceStateOperation ''replace_state'' None] ()"
  have ops: "operations (the_tx ?rt 1) = [set_one, ReplaceStateOperation ''replace_state'' None]"
    "\<not> tx_completed (the_tx ?rt 1)" "tx_session (the_tx ?rt 1) = 0" "initial_state (the_tx ?rt 1) = \<lparr>ks_objects = []\<rparr>"
    by (simp_all add: sample_rt_def tx_completed_def)
  have "isl (fst (execute_operations bare_env 1 ?rt))"
    using rollback_quiet [OF bare_accepting(2)]
    by (simp add: execute_operations_def run_defs set_one_def sample_rt_def upd_tx_def upd_session_def failed_with_def
        case_prod_unfold raiseM_def)
  then obtain e rt' where "execute_operations bare_env 1 ?rt = (Inl e, rt')"
    by (metis isl_def prod.collapse)
  then show ?thesis
    using failed_operation_rolls_back [OF bare_accepting(2) ops(2), of e rt'] ops by (auto simp: rolled_back_def Let_def)
qed

lemma deliver_unchanged: "(\<And>h. run h ev s = (Inr (), s)) \<Longrightarrow> deliver run ev hs s = (Inr (), s)"
  by (induction hs) simp_all

lemma publish_sqlite:
  "on_version_created (rt_time rt) ev (rt_storage rt) = rt_storage rt \<Longrightarrow>
   publish (sqlite_env cks b replica ids create) ev rt = (Inr (), rt\<lparr>rt_bus := record_event ev (rt_bus rt)\<rparr>)"
  using deliver_unchanged [of "run_handler (sqlite_env cks b replica ids create) (rt_time rt)" ev "rt_storage rt"
      "recipients (rt_bus rt) ev"]
  by (simp add: publish_def on_storage_def sqlite_env_def)

text \<open>A rollback is not guarded: whatever another process has committed for the session in
  the meantime, a rollback on SQLite succeeds and makes the database record this process's
  latest version and its state before the transaction, as does an abort with its state.\<close>

theorem rollback_overwrites:
  "(\<exists>rt'. rollback (sqlite_env cks b replica ids create) t rt = (Inr (), rt') \<and>
     recorded_latest (rt_storage rt') (session_id (the_session rt (tx_session (the_tx rt t)))) =
       Some (latest_id (the_session rt (tx_session (the_tx rt t)))) \<and>
     map_option sr_structure (dget (session_rows (rt_storage rt')) (session_id (the_session rt (tx_session (the_tx rt t))))) =
       Some (serialize_structure cks (initial_state (the_tx rt t)))) \<and>
   (\<exists>rt'. abort (sqlite_env cks b replica ids create) t rt = (Inr (), rt') \<and>
     recorded_latest (rt_storage rt') (session_id (the_session rt (tx_session (the_tx rt t)))) =
       Some (latest_id (the_session rt (tx_session (the_tx rt t)))))"
proof -
  let ?env = "sqlite_env cks b replica ids create"
  have store: "store_session ?env r None rt =
      (Inr (), rt\<lparr>rt_storage := (rt_storage rt)\<lparr>session_rows := dset (session_rows (rt_storage rt))
         (session_id (the_session rt r)) (session_row_of cks (the_session rt r) (rt_time rt))\<rparr>\<rparr>)" for r rt
    by (simp add: store_session_def on_storage_def sqlite_env_def save_session_def)
  have event: "on_version_created now (TransactionRolledBack x y) db = db"
    "on_version_created now (TransactionAborted x y) db = db" for now x y db
    by (simp_all add: on_version_created_def)
  show ?thesis
    by (simp add: rollback_def abort_def Let_def bindM_def store publish_sqlite event recorded_latest_def
        session_row_of_def latest_id_def detach_transaction_def)
qed

text \<open>A fast forward survives the rollback of its transaction: a merge that takes over a
  source with a newer vector changes the session's vector while it executes; once the state
  has been put back, merging the same source again completes and returns the old state, so
  the content of the source never arrives.\<close>

theorem fast_forward_not_undone:
  assumes "vv_ok (vv_from_metadata (metadata s))" and "vv_ok (vv_from_metadata (metadata src))"
    and "dominates (vv_from_metadata (metadata src)) (vv_from_metadata (metadata s))"
    and "\<not> dominates (vv_from_metadata (metadata s)) (vv_from_metadata (metadata src))"
  shows "\<exists>s'. execute_merge env st i (Some src) bv bs rs s =
      (Inr (completed_with i (StructurePayload (knowledge_structure src))), s') \<and>
    (\<forall>old. execute_merge env st i (Some src) bv bs rs (s'\<lparr>knowledge_structure := old\<rparr>) =
      (Inr (completed_with i (StructurePayload old)), s'\<lparr>knowledge_structure := old\<rparr>))"
proof -
  let ?s = "vv_from_metadata (metadata s)" and ?src = "vv_from_metadata (metadata src)"
  have "dominates (absorb ?s ?src) ?src"
    using absorb_dominates [OF assms(1-3)] .
  then show ?thesis
    using assms(3,4) by (simp add: execute_merge_def Let_def)
qed

definition vector_metadata :: "(string \<times> int) list \<Rightarrow> (string, pyval) dict" where
  "vector_metadata es = [(VERSION_VECTOR_KEY, PDict (map (\<lambda>(n, c). (n, PInt c)) es))]"

lemma vector_metadata_vv: "vv_from_metadata (vector_metadata es) = \<lparr>clocks = es\<rparr>"
  by (simp add: vv_from_metadata_def vector_metadata_def dict_simps)

lemma one_clock_ok: "0 < c \<Longrightarrow> vv_ok \<lparr>clocks = [(n, c)]\<rparr>"
  by (simp add: vv_ok_def dict_ok_Cons)

theorem fast_forward_not_undone_witness:
  "\<exists>s'. execute_merge bare_env () ''merge''
       (Some (first_session\<lparr>knowledge_structure := one_object, metadata := vector_metadata [(''a'', 2)]\<rparr>)) None None None
       (first_session\<lparr>metadata := vector_metadata [(''a'', 1)]\<rparr>) =
     (Inr (completed_with ''merge'' (StructurePayload one_object)), s') \<and>
     fst (execute_merge bare_env () ''merge''
       (Some (first_session\<lparr>knowledge_structure := one_object, metadata := vector_metadata [(''a'', 2)]\<rparr>)) None None None
       (s'\<lparr>knowledge_structure := \<lparr>ks_objects = []\<rparr>\<rparr>)) =
     Inr (completed_with ''merge'' (StructurePayload \<lparr>ks_objects = []\<rparr>))"
proof -
  note v = vector_metadata_vv
  have "vv_ok \<lparr>clocks = [(''a'', c)]\<rparr>" if "0 < c" for c
    using that by (rule one_clock_ok)
  then show ?thesis
    using fast_forward_not_undone [of "first_session\<lparr>metadata := vector_metadata [(''a'', 1)]\<rparr>"
        "first_session\<lparr>knowledge_structure := one_object, metadata := vector_metadata [(''a'', 2)]\<rparr>" bare_env "()" "''merge''" None None None]
    by (fastforce simp: v dominates_def clk_def dict_simps dget_or_def)
qed

lemma deliver_sqlite:
  "\<exists>db'. deliver (run_handler (sqlite_env cks b replica ids create) now) ev hs db = (Inr (), db') \<and>
     session_rows db' = session_rows db \<and> version_rows db' = version_rows db"
proof (induction hs arbitrary: db)
  case (Cons h hs)
  have "session_rows (on_version_created now ev db) = session_rows db"
    "version_rows (on_version_created now ev db) = version_rows db" for db
    by (simp_all add: on_version_created_def split: event.split)
  then show ?case
    using Cons [of db] Cons [of "on_version_created now ev db"] by (auto simp: sqlite_env_def)
qed simp

lemma publish_sqlite_rows:
  "\<exists>rt'. publish (sqlite_env cks b replica ids create) ev rt = (Inr (), rt') \<and> same_core rt rt' \<and>
     session_rows (rt_storage rt') = session_rows (rt_storage rt) \<and>
     version_rows (rt_storage rt') = version_rows (rt_storage rt)"
  using deliver_sqlite [of cks b replica ids create "rt_time rt" ev "recipients (rt_bus rt) ev" "rt_storage rt"]
    publish_core [of rt "sqlite_env cks b replica ids create" ev]
  by (auto simp: publish_def on_storage_def)

text \<open>C32: A commit that loses the race leaves a phantom: when the database records another latest
  version than the session had, the commit on SQLite raises, but the session's history ends
  with the refused version, its row is stored, the transaction is still open, and the
  database still records the winner.\<close>

theorem lost_race_keeps_phantom:
  assumes "first_phase (sqlite_env cks b replica ids create) t rt = (Inr u, rt1)"
    and "makes_version (sqlite_env cks b replica ids create) t (current_state t rt) rt1 v s2"
    and "latest_id (the_session rt (tx_session (the_tx rt t))) = Some e"
    and "recorded_latest (rt_storage rt) (session_id (the_session rt (tx_session (the_tx rt t)))) = Some l"
    and "l \<noteq> Some e" and "version_row_of cks v = Inr row" and "\<not> has_version (version_id v) (rt_storage rt)"
  shows "\<exists>rt'. commit (sqlite_env cks b replica ids create) t rt = (Inl ConcurrentModificationError, rt') \<and>
    version_history (the_session rt' (tx_session (the_tx rt t))) =
      version_history (the_session rt (tx_session (the_tx rt t))) @ [v] \<and>
    active_transaction (the_session rt' (tx_session (the_tx rt t))) =
      active_transaction (the_session rt (tx_session (the_tx rt t))) \<and>
    tx_status (the_tx rt' t) = tx_status (the_tx rt t) \<and> has_version (version_id v) (rt_storage rt') \<and>
    recorded_latest (rt_storage rt') (session_id (the_session rt (tx_session (the_tx rt t)))) = Some l"
proof -
  let ?env = "sqlite_env cks b replica ids create" and ?r = "tx_session (the_tx rt t)"
  let ?s = "the_session rt ?r"
  obtain rs where "ran t (state_after (current_state t rt) rs) rs rt rt1"
    using first_phase_Inr [OF assms(1)] by blast
  note f = ran_fields [OF this refl]
  obtain prev node rep tid vid now where
    c: "create_version (Some (core_bridge ?env)) (Some prev) node rep tid vid now (the_session rt1 ?r) = (Inr v, s2)"
    using assms(2) f(1) by (simp add: makes_version_def Let_def)
  have "s2 = add_version v (bump_metadata node rep (the_session rt1 ?r))"
    using create_version_records [OF c] by simp
  then have s2: "version_history s2 = version_history ?s @ [v]" "session_id s2 = session_id ?s"
    "active_transaction s2 = active_transaction ?s"
    using f(9-11) by (simp_all add: add_version_def bump_metadata_def Let_def)
  let ?rt2 = "upd_session ?r (\<lambda>_. s2) (drawn rt1)"
  obtain rt2 where 2: "publish ?env (VersionCreated (version_id v) (session_id s2) (transaction_id (the_tx rt1 t))) ?rt2 = (Inr (), rt2)"
      "same_core ?rt2 rt2" "session_rows (rt_storage rt2) = session_rows (rt_storage rt)"
      "version_rows (rt_storage rt2) = version_rows (rt_storage rt)"
    using publish_sqlite_rows [of cks b replica ids create _ ?rt2] f(18) by fastforce
  note g = same_core_fields [OF 2(2)]
  have create: "pipeline_create_version ?env t (current_state t rt) rt1 = (Inr v, rt2)"
    using create_phase_run [OF assms(2)] 2(1) f(1) by (simp add: bindM_def retM_def)
  let ?db = "rt_storage rt2" and ?new = "version_rows (rt_storage rt2) @ [(version_id v, row)]"
  have save: "on_storage (st_save_version ?env v) rt2 = (Inr (), rt2\<lparr>rt_storage := ?db\<lparr>version_rows := ?new\<rparr>\<rparr>)"
    using assms(6,7) 2(4) by (simp add: on_storage_def sqlite_env_def save_version_def has_version_def)
  obtain r where r: "dget (session_rows (rt_storage rt)) (session_id ?s) = Some r" "latest_version_id r = l"
    using assms(4) by (auto simp: recorded_latest_def)
  have cas: "store_session ?env ?r (Some e) (rt2\<lparr>rt_storage := ?db\<lparr>version_rows := ?new\<rparr>\<rparr>) =
      (Inl ConcurrentModificationError, rt2\<lparr>rt_storage := ?db\<lparr>version_rows := ?new\<rparr>\<rparr>)"
    using r assms(5) 2(3) s2(2) by (simp add: store_session_def on_storage_def sqlite_env_def save_session_def g)
  have "commit ?env t rt = (Inl ConcurrentModificationError, rt2\<lparr>rt_storage := ?db\<lparr>version_rows := ?new\<rparr>\<rparr>)"
    unfolding commit_phases bindM_Inr [where m = "first_phase ?env t" and s = rt, OF assms(1)]
      bindM_Inr [where m = "pipeline_create_version ?env t (current_state t rt)" and s = rt1, OF create] assms(3)
    using save cas by (simp add: pipeline_persist_def bindM_def)
  moreover have "recorded_latest (?db\<lparr>version_rows := ?new\<rparr>) (session_id ?s) = Some l"
    using r 2(3) by (simp add: recorded_latest_def)
  moreover have "has_version (version_id v) (?db\<lparr>version_rows := ?new\<rparr>)"
    by (simp add: has_version_def dhas_iff dkeys_def)
  ultimately show ?thesis
    using s2 f(3) by (simp add: g)
qed

text \<open>Another process has committed the version \<open>w\<close> of the session.\<close>

definition raced_db :: sqlite_db where
  "raced_db = first_db\<lparr>session_rows :=
     [(''s'', (session_row_of text_cks first_session 1)\<lparr>latest_version_id := Some ''w''\<rparr>)]\<rparr>"

theorem lost_race_keeps_phantom_witness:
  "\<exists>v rt'. commit (sqlite_env text_cks (Some sample_core) None (\<lambda>n. replicate (n + 1) (CHR ''u'')) (\<lambda>i ps. Inl TypeError)) 1
       (sample_rt [set_one] raced_db) = (Inl ConcurrentModificationError, rt') \<and>
     version_history (the_session rt' 0) = version_history first_session @ [v] \<and>
     has_version (version_id v) (rt_storage rt') \<and> recorded_latest (rt_storage rt') ''s'' = Some (Some ''w'')"
proof -
  let ?env = "sqlite_env text_cks (Some sample_core) None (\<lambda>n. replicate (n + 1) (CHR ''u'')) (\<lambda>i ps. Inl TypeError)"
  let ?rt = "sample_rt [set_one] raced_db"
  obtain rt1 where rt1: "first_phase ?env 1 ?rt = (Inr (), rt1)"
    using sample_execution [of ?env raced_db] by (elim exE conjE)
  obtain v s2 row where m: "makes_version ?env 1 (current_state 1 ?rt) rt1 v s2" "version_id v = ''u''"
      "version_row_of text_cks v = Inr row"
    using sample_makes [OF rt1] by (auto simp: sqlite_env_def)
  have t: "tx_session (the_tx ?rt 1) = 0" "the_session ?rt 0 = first_session\<lparr>active_transaction := Some 1\<rparr>"
    by (simp_all add: sample_rt_def)
  have "rt_storage ?rt = raced_db" "recorded_latest raced_db ''s'' = Some (Some ''w'')" "\<not> has_version ''u'' raced_db"
    using first_durable(2)
    by (simp_all add: sample_rt_def raced_db_def recorded_latest_def dict_simps has_version_def dhas_iff)
  then show ?thesis
    using lost_race_keeps_phantom [OF rt1 m(1) _ _ _ m(3), of "''v0''" "Some ''w''"] m(2)
    by (auto simp: t latest_id_def simp del: One_nat_def)
qed

end
