(* ===== verification/Runtime.thy ===== *)
theory Runtime
  imports Commit
begin

text \<open>
  The session manager (\<open>session/session_manager.py\<close>) and the calls of the \<open>Runtime\<close> facade
  (\<open>runtime.py\<close>), and the steps of a runtime: any sequence of its calls, with whatever other
  processes do to the storage in between.
\<close>

section \<open>The session manager\<close>

definition register_session :: "session \<Rightarrow> 'st rt \<Rightarrow> nat \<times> 'st rt" where
  "register_session s rt =
     (next_ref rt,
      rt\<lparr>session_heap := (session_heap rt)(next_ref rt := s), next_ref := next_ref rt + 1,
         session_table := dset (session_table rt) (session_id s) (next_ref rt)\<rparr>)"

text \<open>A new session with its own node id; the default interval passes the constructor's check.\<close>

definition new_session :: "kstruct \<Rightarrow> string \<Rightarrow> string \<Rightarrow> string option \<Rightarrow> string option \<Rightarrow> session" where
  "new_session ks sid node parent parent_version =
     \<lparr>knowledge_structure = ks, session_id = sid, metadata = [(''node_id'', PStr node)], snapshot_interval = 10,
      session_diagnostics = [], version_history = [], active_transaction = None, closed = False,
      parent_session_id = parent, parent_version_id = parent_version\<rparr>"

definition manager_create ::
  "'st env \<Rightarrow> kstruct \<Rightarrow> string option \<Rightarrow> string option \<Rightarrow> 'st rt \<Rightarrow> nat \<times> 'st rt" where
  "manager_create env ks parent parent_version rt =
     (let (sid, rt) = draw_uuid env rt; (node, rt) = draw_uuid env rt
      in register_session (new_session ks sid node parent parent_version) rt)"

definition get_session :: "string \<Rightarrow> 'st rt \<Rightarrow> nat option" where
  "get_session sid rt = dget (session_table rt) sid"

definition runtime_list_sessions :: "'st rt \<Rightarrow> nat list" where
  "runtime_list_sessions rt = dvals (session_table rt)"

definition manager_close :: "string \<Rightarrow> 'st rt \<Rightarrow> bool \<times> 'st rt" where
  "manager_close sid rt =
     (case dget (session_table rt) sid of
        None \<Rightarrow> (False, rt)
      | Some r \<Rightarrow> (True, (upd_session r Session.close_session rt)\<lparr>session_table := dpop (session_table rt) sid\<rparr>))"

definition clear_sessions :: "'st rt \<Rightarrow> 'st rt" where
  "clear_sessions rt = (fold (\<lambda>r. upd_session r Session.close_session) (dvals (session_table rt)) rt)\<lparr>session_table := []\<rparr>"

text \<open>A closed session is not registered again.\<close>

definition restore_session :: "session \<Rightarrow> 'st rt \<Rightarrow> 'st rt" where
  "restore_session s rt = (if closed s then rt else snd (register_session s rt))"

section \<open>The facade\<close>

definition announce :: "'st env \<Rightarrow> nat \<Rightarrow> ('st rt, nat) sx" where
  "announce env r rt =
     bindM (store_session env r None) (\<lambda>_.
     bindM (publish env (SessionCreated (session_id (the_session rt r)))) (\<lambda>_. retM r)) rt"

definition create_session :: "'st env \<Rightarrow> kstruct \<Rightarrow> ('st rt, nat) sx" where
  "create_session env ks rt =
     (let (r, rt) = manager_create env ks None None rt in announce env r rt)"

text \<open>The structure a branch starts from, with the version it is recorded to fork from.\<close>

definition fork_point :: "'st env \<Rightarrow> session \<Rightarrow> string option \<Rightarrow> exn + (kstruct \<times> string option)" where
  "fork_point env s vid =
     (case vid of
        Some v \<Rightarrow>
          (case get_version_state s v (Some (core_bridge env)) of Inl e \<Rightarrow> Inl e | Inr ks \<Rightarrow> Inr (ks, Some v))
      | None \<Rightarrow>
          Inr (knowledge_structure s,
               if has_versions s \<and> \<not> has_active_transaction s then latest_id s else None))"

definition create_branch :: "'st env \<Rightarrow> nat \<Rightarrow> string option \<Rightarrow> ('st rt, nat) sx" where
  "create_branch env r vid rt =
     (case fork_point env (the_session rt r) vid of
        Inl e \<Rightarrow> (Inl e, rt)
      | Inr (ks, fork) \<Rightarrow>
          let (b, rt) = manager_create env ks (Some (session_id (the_session rt r))) fork rt in announce env b rt)"

definition register_foreign_branch ::
  "'st env \<Rightarrow> nat \<Rightarrow> kstruct \<Rightarrow> string option \<Rightarrow> (string, pyval) dict \<Rightarrow> ('st rt, nat) sx" where
  "register_foreign_branch env r ks parent_version extra rt =
     (let (b, rt) = manager_create env ks (Some (session_id (the_session rt r))) parent_version rt
      in announce env b (upd_session b (\<lambda>s. s\<lparr>metadata := fold (\<lambda>(k, v) d. dset d k v) extra (metadata s)\<rparr>) rt))"

definition runtime_close_session :: "'st env \<Rightarrow> string \<Rightarrow> ('st rt, unit) sx" where
  "runtime_close_session env sid rt =
     (let found = get_session sid rt; rt = snd (manager_close sid rt)
      in case found of
           None \<Rightarrow> (Inr (), rt)
         | Some r \<Rightarrow> bindM (store_session env r None) (\<lambda>_. publish env (SessionClosed sid)) rt)"

definition runtime_latest_version :: "nat \<Rightarrow> 'st rt \<Rightarrow> version option" where
  "runtime_latest_version r rt = latest_version (the_session rt r)"

definition restore_from_storage :: "'st env \<Rightarrow> ('st rt, unit) sx" where
  "restore_from_storage env rt =
     (case st_list_sessions env (rt_storage rt) of
        Inl e \<Rightarrow> (Inl e, rt)
      | Inr ss \<Rightarrow> (Inr (), fold restore_session ss rt))"

section \<open>Steps\<close>

text \<open>
  A runtime moves by its calls, returning or raising; by the lists of operations and requests
  of a transaction growing; and by what happens outside, time passing and other processes
  writing to the storage.
\<close>

inductive rt_step :: "'st env \<Rightarrow> 'st rt \<Rightarrow> 'st rt \<Rightarrow> bool" for env where
  step_create: "rt_step env rt (snd (create_session env ks rt))"
| step_branch: "r < next_ref rt \<Longrightarrow> rt_step env rt (snd (create_branch env r vid rt))"
| step_foreign: "r < next_ref rt \<Longrightarrow> rt_step env rt (snd (register_foreign_branch env r ks pv extra rt))"
| step_close: "rt_step env rt (snd (runtime_close_session env sid rt))"
| step_begin: "r < next_ref rt \<Longrightarrow> rt_step env rt (snd (begin_transaction env r rt))"
| step_operation: "rt_step env rt (upd_tx t (add_operation p) rt)"
| step_request: "rt_step env rt (upd_tx t (add_request q) rt)"
| step_commit: "rt_step env rt (snd (commit env t rt))"
| step_rollback: "rt_step env rt (snd (rollback env t rt))"
| step_abort: "rt_step env rt (snd (abort env t rt))"
| step_outside: "rt_step env rt (rt\<lparr>rt_storage := st, rt_time := now\<rparr>)"

text \<open>At the start no transaction is open; cells that are not in use hold completed ones.\<close>

definition fresh_runtime :: "'st env \<Rightarrow> 'st rt \<Rightarrow> bool" where
  "fresh_runtime env rt \<longleftrightarrow>
     (\<forall>r. active_transaction (the_session rt r) = None) \<and> (\<forall>t. tx_completed (the_tx rt t)) \<and>
     (\<forall>t n. transaction_id (the_tx rt t) \<noteq> uuid env n) \<and> tx_table rt = []"

inductive reachable :: "'st env \<Rightarrow> 'st rt \<Rightarrow> bool" for env where
  reachable_start: "fresh_runtime env rt \<Longrightarrow> reachable env rt"
| reachable_step: "reachable env rt \<Longrightarrow> rt_step env rt rt' \<Longrightarrow> reachable env rt'"

section \<open>What a call does to transactions\<close>

text \<open>Either it leaves them as they are (a cell taken for a new session has none), or it ends one
  of them.\<close>

definition calm :: "'st rt \<Rightarrow> 'st rt \<Rightarrow> bool" where
  "calm rt rt' \<longleftrightarrow>
     (\<forall>r. active_transaction (the_session rt' r) \<in> {active_transaction (the_session rt r), None}) \<and>
     (\<forall>t. tx_session (the_tx rt' t) = tx_session (the_tx rt t) \<and>
          transaction_id (the_tx rt' t) = transaction_id (the_tx rt t) \<and>
          tx_status (the_tx rt' t) = tx_status (the_tx rt t)) \<and>
     tx_table rt' = tx_table rt \<and> next_ref rt \<le> next_ref rt' \<and> next_uuid rt \<le> next_uuid rt'"

definition ends :: "'st rt \<Rightarrow> 'st rt \<Rightarrow> bool" where
  "ends rt rt' \<longleftrightarrow> (\<exists>t st. st \<in> {COMMITTED, ROLLED_BACK, ABORTED} \<and> rt' = manager_end st t rt)"

definition tx_moves :: "'st rt \<Rightarrow> 'st rt \<Rightarrow> bool" where
  "tx_moves = (\<lambda>a b. calm a b \<or> ends a b)\<^sup>*\<^sup>*"

named_theorems moves "effects of calls on transactions"

lemma calm_refl [simp]: "calm rt rt"
  by (simp add: calm_def)

lemma tx_moves_refl [simp, moves]: "tx_moves rt rt"
  by (simp add: tx_moves_def)

lemma tx_moves_trans: "tx_moves a b \<Longrightarrow> tx_moves b c \<Longrightarrow> tx_moves a c"
  unfolding tx_moves_def by (rule rtranclp_trans)

lemma calm_moves: "calm a b \<Longrightarrow> tx_moves a b"
  unfolding tx_moves_def by (rule r_into_rtranclp) simp

lemma end_moves: "st \<in> {COMMITTED, ROLLED_BACK, ABORTED} \<Longrightarrow> tx_moves rt (manager_end st t rt)"
  unfolding tx_moves_def ends_def by (rule r_into_rtranclp) blast

lemma moves_bind:
  assumes "tx_moves rt (snd (m rt))" and "\<And>x rt'. tx_moves rt' (snd (f x rt'))"
  shows "tx_moves rt (snd (bindM m f rt))"
proof (cases "m rt")
  case (Pair x rt1)
  then show ?thesis
    using assms(1) tx_moves_trans [OF _ assms(2) [of rt1]] by (cases x) (simp_all add: bindM_def)
qed

lemma core_moves: "same_core rt rt' \<Longrightarrow> tx_moves rt rt'"
  using same_core_fields [of rt rt'] by (intro calm_moves) (simp add: calm_def)

lemma store_moves [moves]: "tx_moves rt (snd (store_session env r e rt))"
  by (intro core_moves store_session_core)

lemma publish_moves [moves]: "tx_moves rt (snd (publish env ev rt))"
  by (intro core_moves publish_core)

lemma storage_moves [moves]: "tx_moves rt (snd (on_storage m rt))"
  by (intro core_moves on_storage_core)

lemma ret_moves [moves]: "tx_moves rt (snd (retM x rt))" "tx_moves rt (snd (raiseM e rt))"
  by (simp_all add: retM_def raiseM_def)

lemma session_calm:
  "active_transaction (f (the_session rt r)) \<in> {active_transaction (the_session rt r), None} \<Longrightarrow>
   calm rt (upd_session r f rt)"
  by (simp add: calm_def)

lemma tx_calm:
  "tx_session (f (the_tx rt t)) = tx_session (the_tx rt t) \<Longrightarrow>
   transaction_id (f (the_tx rt t)) = transaction_id (the_tx rt t) \<Longrightarrow>
   tx_status (f (the_tx rt t)) = tx_status (the_tx rt t) \<Longrightarrow> calm rt (upd_tx t f rt)"
  by (simp add: calm_def)

lemma diagnostics_calm: "calm rt (rt\<lparr>rt_diagnostics := ds\<rparr>)"
  by (simp add: calm_def)

lemma executor_moves: "tx_moves rt (snd (executor_execute env p r rt))"
proof -
  obtain m where "snd (executor_execute env p r rt) = upd_session r (\<lambda>s. s\<lparr>metadata := m\<rparr>) rt"
    using executor_frame [of r rt env p] unfolding only_metadata_def by blast
  then show ?thesis
    by (simp add: calm_moves session_calm)
qed

lemma dispatch_moves: "tx_moves rt (snd (dispatch env q r rt))"
proof -
  obtain m where "snd (dispatch env q r rt) = upd_session r (\<lambda>s. s\<lparr>metadata := m\<rparr>) rt"
    using dispatch_frame [of r rt env q] unfolding only_metadata_def by blast
  then show ?thesis
    by (simp add: calm_moves session_calm)
qed

lemma rollback_moves [moves]: "tx_moves rt (snd (rollback env t rt))"
proof -
  let ?rt1 = "upd_session (tx_session (the_tx rt t)) (\<lambda>s. s\<lparr>knowledge_structure := initial_state (the_tx rt t)\<rparr>) rt"
  have "tx_moves rt ?rt1"
    by (intro calm_moves session_calm) simp
  moreover have "tx_moves ?rt1 (manager_end ROLLED_BACK t ?rt1)"
    by (intro end_moves) simp
  moreover have "tx_moves (manager_end ROLLED_BACK t ?rt1) (snd (rollback env t rt))"
    unfolding rollback_def Let_def by (intro moves_bind moves)
  ultimately show ?thesis
    using tx_moves_trans by blast
qed

lemma abort_moves [moves]: "tx_moves rt (snd (abort env t rt))"
proof -
  have "tx_moves rt (manager_end ABORTED t rt)"
    by (intro end_moves) simp
  moreover have "tx_moves (manager_end ABORTED t rt) (snd (abort env t rt))"
    unfolding abort_def Let_def by (intro moves_bind moves)
  ultimately show ?thesis
    using tx_moves_trans by blast
qed

lemma handle_moves [moves]: "tx_moves rt (snd (handle_result env t res rt))"
proof (cases "res_status res")
  case FAILED
  have "tx_moves rt (snd (bindM (rollback env t) (\<lambda>_. raiseM RuntimeError) rt))"
    by (intro moves_bind moves)
  then show ?thesis
    by (simp add: handle_result_def FAILED)
next
  case COMPLETED
  then show ?thesis
    by (simp add: handle_result_def calm_moves calm_def fold_add_diagnostic)
qed

lemma mutation_moves: "tx_moves rt (apply_state_mutation p res r rt)"
  by (auto simp: apply_state_mutation_def intro!: calm_moves session_calm split: option.split)

lemma mutation_option_moves [moves]:
  "tx_moves rt (snd (Inr (), case po of None \<Rightarrow> rt | Some p \<Rightarrow> apply_state_mutation p res r rt))"
  "tx_moves rt (snd (Inr (), apply_state_mutation p res r rt))"
  by (simp_all add: mutation_moves split: option.split)

lemma add_result_moves: "tx_moves rt (upd_tx t (add_result res) rt)"
  by (intro calm_moves tx_calm) (simp_all add: add_result_def)

lemma operation_step_moves: "tx_moves rt (snd (operation_step env t p rt))"
proof -
  let ?x = "executor_execute env p (tx_session (the_tx rt t)) rt"
  have "tx_moves rt (upd_tx t (add_result (fst ?x)) (snd ?x))"
    by (rule tx_moves_trans [OF executor_moves add_result_moves])
  moreover have "tx_moves (upd_tx t (add_result (fst ?x)) (snd ?x)) (snd (operation_step env t p rt))"
    unfolding operation_step_def Let_def case_prod_unfold by (intro moves_bind moves)
  ultimately show ?thesis
    by (rule tx_moves_trans)
qed

lemma request_step_moves: "tx_moves rt (snd (request_step env t q rt))"
proof -
  have "tx_moves rt' (snd (bindM (handle_result env t res) (\<lambda>_ rt.
        (Inr (), case res_operation res of None \<Rightarrow> rt | Some p \<Rightarrow> apply_state_mutation p res r rt))
        (upd_tx t (add_result res) rt')))" for res r and rt' :: "'a rt"
    by (rule tx_moves_trans [OF add_result_moves [of rt' t res]]) (intro moves_bind moves)
  then show ?thesis
    unfolding request_step_def Let_def by (intro moves_bind dispatch_moves)
qed

lemma run_steps_moves: "(\<And>x rt. tx_moves rt (snd (step x rt))) \<Longrightarrow> tx_moves rt (snd (run_steps step xs rt))"
proof (induction xs arbitrary: rt)
  case (Cons x xs)
  show ?case
    unfolding run_steps.simps using Cons by (intro moves_bind) blast+
qed simp

lemma first_phase_moves: "tx_moves rt (snd (first_phase env t rt))"
proof -
  have 1: "tx_moves rt (snd (execute_operations env t rt))"
    unfolding execute_operations_def
    by (intro moves_bind run_steps_moves operation_step_moves request_step_moves)
  have gate: "tx_moves rt (snd (quality_gate env v t rt))" for v and rt :: "'a rt"
  proof (cases "valid v")
    case False
    have "tx_moves rt (snd (bindM (rollback env t) (\<lambda>_.
             bindM (publish env (ValidationFailed (transaction_id (the_tx rt t))
                      (session_id (the_session rt (tx_session (the_tx rt t)))) ''Validation failed''))
               (\<lambda>_. raiseM RuntimeError)) rt))"
      by (intro moves_bind moves)
    then show ?thesis
      by (simp add: quality_gate_def False)
  qed (simp add: quality_gate_def)
  have "tx_moves rt (snd (validate_only env t rt))"
    using gate tx_moves_trans [OF calm_moves [OF diagnostics_calm] gate]
    by (auto simp: validate_only_def split: sum.split)
  then show ?thesis
    using 1 by (simp add: first_phase_def)
qed

lemma create_phase_moves: "tx_moves rt (snd (pipeline_create_version env t initial rt))"
proof -
  let ?r = "tx_session (the_tx rt t)"
  let ?c = "create_version (Some (core_bridge env)) (Some initial) (node_id_of (the_session rt ?r)) (replica_id env)
      (case active_transaction (the_session rt ?r) of None \<Rightarrow> [] | Some a \<Rightarrow> transaction_id (the_tx rt a))
      (uuid env (next_uuid rt)) (rt_time rt) (the_session rt ?r)"
  have "active_transaction (snd ?c) = active_transaction (the_session rt ?r)"
    by (auto simp: create_version_def Let_def add_version_def bump_metadata_def split: sum.splits option.splits)
  then have calm: "tx_moves rt (upd_session ?r (\<lambda>_. snd ?c) (drawn rt))"
    by (intro calm_moves) (simp add: calm_def)
  have "tx_moves rt (snd (bindM (publish env ev) (\<lambda>_. retM v) (upd_session ?r (\<lambda>_. snd ?c) (drawn rt))))" for ev v
    by (rule tx_moves_trans [OF calm]) (intro moves_bind moves)
  then show ?thesis
    using calm by (cases ?c; cases "fst ?c")
      (simp_all add: pipeline_create_version_def Let_def draw_uuid_drawn cong: option.case_cong)
qed

lemma commit_moves: "tx_moves rt (snd (commit env t rt))"
proof -
  have finish: "tx_moves rt' (snd (Inr (), manager_end COMMITTED t rt'))" for rt' :: "'a rt"
    by (simp add: end_moves)
  show ?thesis
    unfolding commit_phases
    by (intro moves_bind first_phase_moves create_phase_moves core_moves [OF persist_core] finish moves)
qed

lemma register_moves: "active_transaction s = None \<Longrightarrow> tx_moves rt (snd (register_session s rt))"
  by (intro calm_moves) (simp add: calm_def register_session_def)

lemma draw_moves: "tx_moves rt (snd (draw_uuid env rt))"
  by (intro calm_moves) (simp add: calm_def draw_uuid_def)

lemma manager_create_moves: "tx_moves rt (snd (manager_create env ks parent pv rt))"
proof -
  have "active_transaction (new_session ks sid node parent pv) = None" for sid node
    by (simp add: new_session_def)
  then show ?thesis
    unfolding manager_create_def Let_def case_prod_unfold
    by (rule tx_moves_trans [OF draw_moves tx_moves_trans [OF draw_moves register_moves]])
qed

lemma announce_moves: "tx_moves rt (snd (announce env r rt))"
  unfolding announce_def by (intro moves_bind moves)

lemma create_session_moves: "tx_moves rt (snd (create_session env ks rt))"
  unfolding create_session_def Let_def case_prod_unfold
  by (rule tx_moves_trans [OF manager_create_moves announce_moves])

lemma create_branch_moves: "tx_moves rt (snd (create_branch env r vid rt))"
  using tx_moves_trans [OF manager_create_moves announce_moves]
  by (auto simp: create_branch_def Let_def case_prod_unfold split: sum.split)

lemma foreign_branch_moves: "tx_moves rt (snd (register_foreign_branch env r ks pv extra rt))"
proof -
  have extra: "tx_moves rt' (upd_session b (\<lambda>s. s\<lparr>metadata := g s\<rparr>) rt')" for b g and rt' :: "'a rt"
    by (intro calm_moves session_calm) simp
  show ?thesis
    unfolding register_foreign_branch_def Let_def case_prod_unfold
    by (rule tx_moves_trans [OF manager_create_moves tx_moves_trans [OF extra announce_moves]])
qed

lemma manager_close_moves: "tx_moves rt (snd (manager_close sid rt))"
  by (auto simp: manager_close_def calm_def Session.close_session_def intro!: calm_moves split: option.split)

lemma close_session_moves: "tx_moves rt (snd (runtime_close_session env sid rt))"
proof (cases "get_session sid rt")
  case None
  then show ?thesis
    using manager_close_moves by (simp add: runtime_close_session_def)
next
  case (Some r)
  have "tx_moves (snd (manager_close sid rt))
      (snd (bindM (store_session env r None) (\<lambda>_. publish env (SessionClosed sid)) (snd (manager_close sid rt))))"
    by (intro moves_bind moves)
  then show ?thesis
    using tx_moves_trans [OF manager_close_moves] by (simp add: runtime_close_session_def Some Let_def)
qed

section \<open>The invariant of transactions\<close>

definition tx_inv :: "'st env \<Rightarrow> 'st rt \<Rightarrow> bool" where
  "tx_inv env rt \<longleftrightarrow>
     (\<forall>r t. active_transaction (the_session rt r) = Some t \<longrightarrow> \<not> tx_completed (the_tx rt t) \<and> tx_session (the_tx rt t) = r) \<and>
     (\<forall>t. \<not> tx_completed (the_tx rt t) \<longrightarrow> dget (tx_table rt) (transaction_id (the_tx rt t)) = Some t \<and> t < next_ref rt) \<and>
     (\<forall>tid t. dget (tx_table rt) tid = Some t \<longrightarrow> transaction_id (the_tx rt t) = tid \<and> \<not> tx_completed (the_tx rt t)) \<and>
     (\<forall>t u. transaction_id (the_tx rt t) = transaction_id (the_tx rt u) \<longrightarrow> \<not> tx_completed (the_tx rt t) \<longrightarrow> t = u) \<and>
     (\<forall>t n. transaction_id (the_tx rt t) = uuid env n \<longrightarrow> n < next_uuid rt)"

lemma calm_inv: "tx_inv env rt \<Longrightarrow> calm rt rt' \<Longrightarrow> tx_inv env rt'"
  unfolding tx_inv_def calm_def tx_completed_def
  by (intro conjI) (metis empty_iff insert_iff option.distinct(1) order_less_le_trans)+

lemma completed_mark: "st \<in> {COMMITTED, ROLLED_BACK, ABORTED} \<Longrightarrow> tx_completed (mark st t)"
  by (auto simp: mark_def tx_completed_def)

lemma ends_inv:
  assumes "tx_inv env rt" and "ends rt rt'"
  shows "tx_inv env rt'"
proof -
  obtain t st where st: "st \<in> {COMMITTED, ROLLED_BACK, ABORTED}" "rt' = manager_end st t rt"
    using assms(2) unfolding ends_def by blast
  have c: "tx_completed (mark st (the_tx rt t))"
    using completed_mark [OF st(1)] .
  show ?thesis
    unfolding tx_inv_def st(2)
  proof (intro conjI allI impI)
    fix r u
    assume "active_transaction (the_session (manager_end st t rt) r) = Some u"
    then have a: "active_transaction (the_session rt r) = Some u" "r \<noteq> tx_session (the_tx rt t)"
      by (auto simp: detach_transaction_def split: if_splits)
    then have "u \<noteq> t"
      using assms(1) unfolding tx_inv_def by blast
    then show "\<not> tx_completed (the_tx (manager_end st t rt) u)" "tx_session (the_tx (manager_end st t rt) u) = r"
      using assms(1) a unfolding tx_inv_def by auto
  next
    fix u
    assume u: "\<not> tx_completed (the_tx (manager_end st t rt) u)"
    then have "u \<noteq> t" "\<not> tx_completed (the_tx rt u)"
      using c by (auto split: if_splits)
    then show "dget (tx_table (manager_end st t rt)) (transaction_id (the_tx (manager_end st t rt) u)) = Some u"
      "u < next_ref (manager_end st t rt)"
      using assms(1) unfolding tx_inv_def by auto
  next
    fix tid u
    assume "dget (tx_table (manager_end st t rt)) tid = Some u"
    then have u: "dget (tx_table rt) tid = Some u" "tid \<noteq> transaction_id (the_tx rt t)"
      by (auto split: if_splits)
    then have i: "transaction_id (the_tx rt u) = tid" "\<not> tx_completed (the_tx rt u)"
      using assms(1) unfolding tx_inv_def by blast+
    then have "u \<noteq> t"
      using u(2) by blast
    then show "transaction_id (the_tx (manager_end st t rt) u) = tid" "\<not> tx_completed (the_tx (manager_end st t rt) u)"
      using i by auto
  next
    fix u w
    assume "transaction_id (the_tx (manager_end st t rt) u) = transaction_id (the_tx (manager_end st t rt) w)"
      "\<not> tx_completed (the_tx (manager_end st t rt) u)"
    then have "transaction_id (the_tx rt u) = transaction_id (the_tx rt w)" "\<not> tx_completed (the_tx rt u)"
      using c by (auto split: if_splits)
    then show "u = w"
      using assms(1) unfolding tx_inv_def by blast
  next
    fix u n
    assume "transaction_id (the_tx (manager_end st t rt) u) = uuid env n"
    then have "transaction_id (the_tx rt u) = uuid env n"
      by (auto split: if_splits)
    then show "n < next_uuid (manager_end st t rt)"
      using assms(1) unfolding tx_inv_def by simp
  qed
qed

lemma moves_inv: "tx_moves rt rt' \<Longrightarrow> tx_inv env rt \<Longrightarrow> tx_inv env rt'"
  unfolding tx_moves_def
proof (induction rule: rtranclp_induct)
  case (step a b)
  then show ?case
    using calm_inv ends_inv by blast
qed

text \<open>What \<open>begin\<close> does when it succeeds.\<close>

definition opened :: "'st env \<Rightarrow> nat \<Rightarrow> 'st rt \<Rightarrow> 'st rt \<Rightarrow> bool" where
  "opened env r rt rt' \<longleftrightarrow>
     (let t = next_ref rt;
          x = \<lparr>tx_session = r, transaction_id = uuid env (next_uuid rt), operations = [], requests = [], results = [],
               tx_diagnostics = [], tx_status = CREATED, initial_state = knowledge_structure (the_session rt r)\<rparr>
      in active_transaction (the_session rt r) = None \<and>
         session_heap rt' = (session_heap rt)(r := attach_transaction t (the_session rt r)) \<and>
         tx_heap rt' = (tx_heap rt)(t := x) \<and> tx_table rt' = dset (tx_table rt) (uuid env (next_uuid rt)) t \<and>
         next_ref rt' = t + 1 \<and> next_uuid rt' = next_uuid rt + 1)"

lemma begin_cases:
  "begin_transaction env r rt = (Inl RuntimeError, rt) \<and> active_transaction (the_session rt r) \<noteq> None \<or>
   (\<exists>rt'. begin_transaction env r rt = (Inr (next_ref rt), rt') \<and> opened env r rt rt')"
  by (simp add: begin_transaction_def has_active_transaction_def draw_uuid_def opened_def Let_def)

lemma opened_inv:
  assumes "tx_inv env rt" and "opened env r rt rt'" and "inj (uuid env)"
  shows "tx_inv env rt'"
proof -
  let ?t = "next_ref rt" and ?id = "uuid env (next_uuid rt)"
  have o: "session_heap rt' = (session_heap rt)(r := attach_transaction ?t (the_session rt r))"
    "tx_table rt' = dset (tx_table rt) ?id ?t" "next_ref rt' = ?t + 1" "next_uuid rt' = next_uuid rt + 1"
    "the_tx rt' u = the_tx rt u" if "u \<noteq> ?t" for u
    using assms(2) that by (simp_all add: opened_def Let_def)
  have o': "session_heap rt' = (session_heap rt)(r := attach_transaction ?t (the_session rt r))"
    "tx_table rt' = dset (tx_table rt) ?id ?t" "next_ref rt' = ?t + 1" "next_uuid rt' = next_uuid rt + 1"
    using assms(2) by (simp_all add: opened_def Let_def)
  have new: "transaction_id (the_tx rt' ?t) = ?id" "\<not> tx_completed (the_tx rt' ?t)" "tx_session (the_tx rt' ?t) = r"
    using assms(2) by (simp_all add: opened_def Let_def tx_completed_def)
  have fresh: "transaction_id (the_tx rt u) \<noteq> ?id" for u
    using assms(1) unfolding tx_inv_def by blast
  have cell: "tx_completed (the_tx rt ?t)"
    using assms(1) unfolding tx_inv_def by blast
  show ?thesis
    unfolding tx_inv_def
  proof (intro conjI allI impI)
    fix q u
    assume "active_transaction (the_session rt' q) = Some u"
    then have "q = r \<and> u = ?t \<or> active_transaction (the_session rt q) = Some u"
      by (auto simp: o' attach_transaction_def split: if_splits)
    moreover have "u \<noteq> ?t" if "active_transaction (the_session rt q) = Some u"
      using that assms(1) cell unfolding tx_inv_def by blast
    ultimately show "\<not> tx_completed (the_tx rt' u)" "tx_session (the_tx rt' u) = q"
      using new o(5) assms(1) unfolding tx_inv_def by metis+
  next
    fix u
    assume "\<not> tx_completed (the_tx rt' u)"
    then have "u = ?t \<or> u \<noteq> ?t \<and> dget (tx_table rt) (transaction_id (the_tx rt u)) = Some u \<and> u < next_ref rt"
      using o(5) [of u] assms(1) unfolding tx_inv_def by metis
    then show "dget (tx_table rt') (transaction_id (the_tx rt' u)) = Some u" "u < next_ref rt'"
      using new(1) o(5) [of u] fresh [of u] by (auto simp: o')
  next
    fix tid u
    assume "dget (tx_table rt') tid = Some u"
    then have "tid = ?id \<and> u = ?t \<or> tid \<noteq> ?id \<and> dget (tx_table rt) tid = Some u"
      by (auto simp: o' split: if_splits)
    moreover have "u \<noteq> ?t \<and> transaction_id (the_tx rt u) = tid \<and> \<not> tx_completed (the_tx rt u)"
      if "dget (tx_table rt) tid = Some u"
      using that assms(1) cell unfolding tx_inv_def by blast
    ultimately show "transaction_id (the_tx rt' u) = tid" "\<not> tx_completed (the_tx rt' u)"
      using new o(5) by metis+
  next
    fix u w
    assume "transaction_id (the_tx rt' u) = transaction_id (the_tx rt' w)" "\<not> tx_completed (the_tx rt' u)"
    then show "u = w"
      using new(1) o(5) fresh assms(1) unfolding tx_inv_def by metis
  next
    fix u n
    assume "transaction_id (the_tx rt' u) = uuid env n"
    then have "n = next_uuid rt \<or> n < next_uuid rt"
      using new(1) o(5) [of u] assms(1,3) unfolding tx_inv_def by (metis injD)
    then show "n < next_uuid rt'"
      by (auto simp: o')
  qed
qed

lemma step_inv: "rt_step env rt rt' \<Longrightarrow> inj (uuid env) \<Longrightarrow> tx_inv env rt \<Longrightarrow> tx_inv env rt'"
proof (induction rule: rt_step.induct)
  case (step_begin r rt)
  then show ?case
    using begin_cases [of env r rt] opened_inv by fastforce
next
  case (step_operation rt t p)
  have "tx_moves rt (upd_tx t (add_operation p) rt)"
    by (intro calm_moves tx_calm) (simp_all add: add_operation_def)
  then show ?case
    using moves_inv step_operation by blast
next
  case (step_request rt t q)
  have "tx_moves rt (upd_tx t (add_request q) rt)"
    by (intro calm_moves tx_calm) (simp_all add: add_request_def)
  then show ?case
    using moves_inv step_request by blast
next
  case (step_outside rt now st)
  have "tx_moves rt (rt\<lparr>rt_storage := st, rt_time := now\<rparr>)"
    by (intro calm_moves) (simp add: calm_def)
  then show ?case
    using moves_inv step_outside by blast
next
  case step_create
  then show ?case
    by (intro moves_inv [OF create_session_moves])
next
  case step_branch
  then show ?case
    by (intro moves_inv [OF create_branch_moves])
next
  case step_foreign
  then show ?case
    by (intro moves_inv [OF foreign_branch_moves])
next
  case step_close
  then show ?case
    by (intro moves_inv [OF close_session_moves])
next
  case step_commit
  then show ?case
    by (intro moves_inv [OF commit_moves])
next
  case step_rollback
  then show ?case
    by (intro moves_inv [OF rollback_moves])
next
  case step_abort
  then show ?case
    by (intro moves_inv [OF abort_moves])
qed

lemma reachable_inv: "reachable env rt \<Longrightarrow> inj (uuid env) \<Longrightarrow> tx_inv env rt"
proof (induction rule: reachable.induct)
  case (reachable_start rt)
  then show ?case
    by (auto simp: fresh_runtime_def tx_inv_def)
qed (use step_inv in blast)

section \<open>Properties\<close>

text \<open>C4: Transactions stay consistent: in every state a runtime reaches from a fresh one, by any
  calls on any sessions and transactions, returning or raising, and whatever happens to the
  storage outside, the transaction a session has is open, is its own and is found by its id,
  and the manager knows exactly the open transactions, each under its id.\<close>

theorem transactions_consistent:
  assumes "reachable env rt" and "inj (uuid env)"
  shows "(\<forall>r t. active_transaction (the_session rt r) = Some t \<longrightarrow>
      \<not> tx_completed (the_tx rt t) \<and> tx_session (the_tx rt t) = r \<and>
      retrieve_transaction (transaction_id (the_tx rt t)) rt = Some t) \<and>
    (\<forall>t tid. retrieve_transaction tid rt = Some t \<longleftrightarrow> transaction_id (the_tx rt t) = tid \<and> \<not> tx_completed (the_tx rt t))"
  using reachable_inv [OF assms] unfolding tx_inv_def retrieve_transaction_def by blast

definition fresh_rt :: "unit rt" where
  "fresh_rt =
     \<lparr>rt_storage = (), session_heap = (\<lambda>_. first_session),
      tx_heap = (\<lambda>_. \<lparr>tx_session = 0, transaction_id = ''t'', operations = [], requests = [], results = [],
                      tx_diagnostics = [], tx_status = COMMITTED, initial_state = \<lparr>ks_objects = []\<rparr>\<rparr>),
      next_ref = 1, next_uuid = 0, session_table = [(''s'', 0)], tx_table = [], registry = [],
      rt_diagnostics = [], rt_bus = empty_bus, rt_time = 5\<rparr>"

lemma fresh_rt_ok: "fresh_runtime bare_env fresh_rt" "inj (uuid bare_env)"
proof -
  have "''t'' \<noteq> replicate (n + 1) (CHR ''u'')" for n
    by simp
  then show "fresh_runtime bare_env fresh_rt"
    by (simp add: fresh_runtime_def fresh_rt_def bare_env_def tx_completed_def first_session_def sample_session_def)
  show "inj (uuid bare_env)"
    by (rule injI) (metis bare_env_def env.select_convs(4) length_replicate add_right_cancel)
qed

theorem transactions_consistent_witness:
  "active_transaction (the_session (snd (begin_transaction bare_env 0 fresh_rt)) 0) = Some 1 \<and>
   retrieve_transaction ''u'' (snd (begin_transaction bare_env 0 fresh_rt)) = Some 1 \<and>
   \<not> tx_completed (the_tx (snd (begin_transaction bare_env 0 fresh_rt)) 1)"
proof -
  let ?rt = "snd (begin_transaction bare_env 0 fresh_rt)"
  have "rt_step bare_env fresh_rt ?rt"
    by (rule step_begin) (simp add: fresh_rt_def)
  then have r: "reachable bare_env ?rt"
    using reachable_step [OF reachable_start [OF fresh_rt_ok(1)]] by blast
  have a: "active_transaction (the_session ?rt 0) = Some 1" "transaction_id (the_tx ?rt 1) = ''u''"
    by (simp_all add: begin_transaction_def fresh_rt_def has_active_transaction_def draw_uuid_def attach_transaction_def
        bare_env_def first_session_def sample_session_def upd_session_def Let_def)
  then show ?thesis
    using transactions_consistent [OF r fresh_rt_ok(2)] by metis
qed

lemma moves_final:
  "tx_moves rt rt' \<Longrightarrow> next_ref rt \<le> next_ref rt' \<and>
     (tx_completed (the_tx rt t) \<longrightarrow> tx_status (the_tx rt' t) = tx_status (the_tx rt t))"
  unfolding tx_moves_def
proof (induction rule: rtranclp_induct)
  case (step a b)
  have "next_ref a \<le> next_ref b \<and> (tx_completed (the_tx a t) \<longrightarrow> tx_status (the_tx b t) = tx_status (the_tx a t))"
    using step(2)
  proof
    assume "calm a b"
    then show ?thesis
      by (simp add: calm_def)
  next
    assume "ends a b"
    then show ?thesis
      by (auto simp: ends_def)
  qed
  then show ?case
    using step(3) by (auto simp: tx_completed_def)
qed simp

lemma step_final:
  "rt_step env rt rt' \<Longrightarrow> t < next_ref rt \<Longrightarrow> tx_completed (the_tx rt t) \<Longrightarrow>
   t < next_ref rt' \<and> tx_status (the_tx rt' t) = tx_status (the_tx rt t)"
proof (induction rule: rt_step.induct)
  case (step_begin r rt)
  then show ?case
    using begin_cases [of env r rt] by (fastforce simp: opened_def Let_def)
next
  case step_create
  then show ?case
    using moves_final [OF create_session_moves] by (meson order_less_le_trans)
next
  case step_branch
  then show ?case
    using moves_final [OF create_branch_moves] by (meson order_less_le_trans)
next
  case step_foreign
  then show ?case
    using moves_final [OF foreign_branch_moves] by (meson order_less_le_trans)
next
  case step_close
  then show ?case
    using moves_final [OF close_session_moves] by (meson order_less_le_trans)
next
  case step_commit
  then show ?case
    using moves_final [OF commit_moves] by (meson order_less_le_trans)
next
  case step_rollback
  then show ?case
    using moves_final [OF rollback_moves] by (meson order_less_le_trans)
next
  case step_abort
  then show ?case
    using moves_final [OF abort_moves] by (meson order_less_le_trans)
qed (simp_all add: add_operation_def add_request_def)

text \<open>A completed transaction stays as it ended: no sequence of calls changes the status of a
  transaction that was committed, rolled back or aborted.\<close>

theorem completed_is_final:
  assumes "(rt_step env)\<^sup>*\<^sup>* rt rt'" and "t < next_ref rt" and "tx_completed (the_tx rt t)"
  shows "tx_status (the_tx rt' t) = tx_status (the_tx rt t)"
proof -
  have "t < next_ref rt' \<and> tx_status (the_tx rt' t) = tx_status (the_tx rt t)"
    using assms
  proof (induction rule: rtranclp_induct)
    case (step a b)
    then have "tx_completed (the_tx a t)"
      by (simp add: tx_completed_def)
    then show ?case
      using step step_final [of env a b t] by simp
  qed simp
  then show ?thesis
    by blast
qed

theorem completed_is_final_witness:
  "tx_status (the_tx (snd (abort bare_env 0 (snd (rollback bare_env 0 fresh_rt)))) 0) = COMMITTED"
proof -
  have "(rt_step bare_env)\<^sup>*\<^sup>* fresh_rt (snd (abort bare_env 0 (snd (rollback bare_env 0 fresh_rt))))"
    using step_rollback step_abort by (meson rtranclp.intros)
  from completed_is_final [OF this, of 0] show ?thesis
    by (simp add: fresh_rt_def tx_completed_def)
qed

text \<open>A late rollback undoes the session: rolling back a transaction that has already ended
  keeps its status but still puts the session back to the state from before it, drops the
  transaction the session has open without ending it, and leaves the history as it is.\<close>

theorem late_rollback_undoes:
  assumes "tx_completed (the_tx rt t)" and "active_transaction (the_session rt (tx_session (the_tx rt t))) = Some u"
    and "tx_status (the_tx rt u) = CREATED"
  shows "let rt' = snd (rollback env t rt); r = tx_session (the_tx rt t)
    in knowledge_structure (the_session rt' r) = initial_state (the_tx rt t) \<and>
       version_history (the_session rt' r) = version_history (the_session rt r) \<and>
       active_transaction (the_session rt' r) = None \<and>
       tx_status (the_tx rt' t) = tx_status (the_tx rt t) \<and> tx_status (the_tx rt' u) = CREATED"
proof -
  have "u \<noteq> t"
    using assms(1,3) by (auto simp: tx_completed_def)
  then show ?thesis
    using assms ended_fields [OF rollback_ended [of t rt env] refl]
    by (simp add: Let_def detach_transaction_def)
qed

theorem late_rollback_undoes_witness:
  "let rt = snd (begin_transaction bare_env 0 (fresh_rt\<lparr>session_heap := (\<lambda>_. first_session\<lparr>knowledge_structure := one_object\<rparr>)\<rparr>))
   in active_transaction (the_session rt 0) = Some 1 \<and>
      knowledge_structure (the_session (snd (rollback bare_env 0 rt)) 0) = \<lparr>ks_objects = []\<rparr> \<and>
      active_transaction (the_session (snd (rollback bare_env 0 rt)) 0) = None"
proof -
  let ?rt = "snd (begin_transaction bare_env 0 (fresh_rt\<lparr>session_heap := (\<lambda>_. first_session\<lparr>knowledge_structure := one_object\<rparr>)\<rparr>))"
  have "tx_completed (the_tx ?rt 0)" "tx_session (the_tx ?rt 0) = 0" "active_transaction (the_session ?rt 0) = Some 1"
    "tx_status (the_tx ?rt 1) = CREATED" "initial_state (the_tx ?rt 0) = \<lparr>ks_objects = []\<rparr>"
    by (simp_all add: begin_transaction_def fresh_rt_def has_active_transaction_def draw_uuid_def attach_transaction_def
        bare_env_def first_session_def sample_session_def upd_session_def Let_def tx_completed_def)
  then show ?thesis
    using late_rollback_undoes [of ?rt 0 1 bare_env] by (simp add: Let_def)
qed

end
