(* ===== verification/Causality.thy ===== *)
theory Causality
  imports Version_Vector
begin

text \<open>
  The CRDT layer's own version vectors (\<open>crdt/version_vector.py\<close>) and the causal
  comparison of two of them (\<open>crdt/causality.py\<close>).  The locale \<open>vector_join\<close> is
  the contract both kinds of vector meet: a join that is the pointwise maximum of the
  clocks.  Its lemmas (least upper bound, order independence of a batch of joins) serve
  the CRDT vectors and the session vectors of \<open>Version_Vector\<close> alike.
\<close>

section \<open>CRDT version vectors\<close>

record crdt_vector =
  crdt_clocks :: "(string, int) dict"

definition empty_cvv :: crdt_vector where
  "empty_cvv = \<lparr>crdt_clocks = []\<rparr>"

definition cclk :: "crdt_vector \<Rightarrow> string \<Rightarrow> int" where
  "cclk v n = dget_or (crdt_clocks v) n 0"

definition crdt_bump :: "crdt_vector \<Rightarrow> string \<Rightarrow> int \<times> crdt_vector" where
  "crdt_bump v n =
     (let new_value = cclk v n + 1
      in (new_value, v\<lparr>crdt_clocks := dset (crdt_clocks v) n new_value\<rparr>))"

definition crdt_observe :: "crdt_vector \<Rightarrow> string \<Rightarrow> int \<Rightarrow> crdt_vector" where
  "crdt_observe v n c =
     (if c > cclk v n then v\<lparr>crdt_clocks := dset (crdt_clocks v) n c\<rparr> else v)"

definition crdt_seen :: "crdt_vector \<Rightarrow> string \<Rightarrow> int \<Rightarrow> bool" where
  "crdt_seen v n c = (c \<le> cclk v n)"

text \<open>The loop of \<open>merge\<close> over the other vector's items.\<close>

fun merge_items :: "(string, int) dict \<Rightarrow> (string \<times> int) list \<Rightarrow> (string, int) dict" where
  "merge_items m [] = m"
| "merge_items m ((n, c) # es) =
     merge_items (if c > dget_or m n 0 then dset m n c else m) es"

definition crdt_merge :: "crdt_vector \<Rightarrow> crdt_vector \<Rightarrow> crdt_vector" where
  "crdt_merge v w = \<lparr>crdt_clocks = merge_items (crdt_clocks v) (crdt_clocks w)\<rparr>"

definition cvv_to_dict :: "crdt_vector \<Rightarrow> pyval" where
  "cvv_to_dict v = PDict (map (\<lambda>(n, c). (n, PInt c)) (crdt_clocks v))"

definition cvv_from_dict :: "pyval \<Rightarrow> crdt_vector" where
  "cvv_from_dict x =
     (case x of PDict raw \<Rightarrow> \<lparr>crdt_clocks = int_entries raw\<rparr> | _ \<Rightarrow> empty_cvv)"

definition cvv_ok :: "crdt_vector \<Rightarrow> bool" where
  "cvv_ok v = (dict_ok (crdt_clocks v) \<and> list_all (\<lambda>(_, c). 0 < c) (crdt_clocks v))"

section \<open>The causal comparison\<close>

datatype causality = DOMINATES | DOMINATED | CONCURRENT | EQUAL

text \<open>
  The loop of \<open>causality_check\<close> over the union of the node ids.  The set is iterated
  in some order; the two flags do not depend on it.
\<close>

fun check_loop ::
  "crdt_vector \<Rightarrow> crdt_vector \<Rightarrow> string list \<Rightarrow> bool \<times> bool \<Rightarrow> bool \<times> bool" where
  "check_loop a b [] flags = flags"
| "check_loop a b (n # ns) (a_gt, b_gt) =
     check_loop a b ns
       (if cclk a n > cclk b n then (True, b_gt)
        else if cclk b n > cclk a n then (a_gt, True)
        else (a_gt, b_gt))"

definition causality_check :: "crdt_vector \<Rightarrow> crdt_vector \<Rightarrow> causality" where
  "causality_check a b =
     (case check_loop a b (remdups (dkeys (crdt_clocks a) @ dkeys (crdt_clocks b))) (False, False) of
        (a_gt, b_gt) \<Rightarrow>
          if a_gt \<and> b_gt then CONCURRENT
          else if a_gt then DOMINATES
          else if b_gt then DOMINATED
          else EQUAL)"

section \<open>Joins of vectors\<close>

locale vector_join =
  fixes ok :: "'v \<Rightarrow> bool"
    and clock :: "'v \<Rightarrow> string \<Rightarrow> int"
    and join :: "'v \<Rightarrow> 'v \<Rightarrow> 'v"
  assumes ok_join: "ok v \<Longrightarrow> ok w \<Longrightarrow> ok (join v w)"
    and clock_join: "ok v \<Longrightarrow> ok w \<Longrightarrow> clock (join v w) n = max (clock v n) (clock w n)"
begin

lemma join_upper: "ok v \<Longrightarrow> ok w \<Longrightarrow> clock v n \<le> clock (join v w) n \<and> clock w n \<le> clock (join v w) n"
  by (simp add: clock_join)

lemma join_least:
  "ok v \<Longrightarrow> ok w \<Longrightarrow> clock v n \<le> c \<Longrightarrow> clock w n \<le> c \<Longrightarrow> clock (join v w) n \<le> c"
  by (simp add: clock_join)

lemma join_commute: "ok v \<Longrightarrow> ok w \<Longrightarrow> clock (join v w) n = clock (join w v) n"
  by (simp add: clock_join max.commute)

lemma join_idem: "ok v \<Longrightarrow> clock (join v v) n = clock v n"
  by (simp add: clock_join)

lemma join_assoc:
  "ok u \<Longrightarrow> ok v \<Longrightarrow> ok w \<Longrightarrow> clock (join (join u v) w) n = clock (join u (join v w)) n"
  by (simp add: clock_join ok_join max.assoc)

lemma ok_fold: "ok v \<Longrightarrow> (\<And>w. w \<in> set ws \<Longrightarrow> ok w) \<Longrightarrow> ok (foldl join v ws)"
  by (induction ws arbitrary: v) (auto simp: ok_join)

lemma clock_fold:
  "ok v \<Longrightarrow> (\<And>w. w \<in> set ws \<Longrightarrow> ok w) \<Longrightarrow>
   clock (foldl join v ws) n = Max (insert (clock v n) ((\<lambda>w. clock w n) ` set ws))"
proof (induction ws arbitrary: v)
  case (Cons w ws)
  then have "clock (foldl join (join v w) ws) n
      = Max (insert (clock (join v w) n) ((\<lambda>w. clock w n) ` set ws))"
    by (simp add: ok_join)
  also have "\<dots> = Max (insert (clock v n) ((\<lambda>w. clock w n) ` set (w # ws)))"
    using Cons.prems by (cases "ws = []") (simp_all add: clock_join max.assoc)
  finally show ?case by simp
qed simp

text \<open>Any order and any repetition of the same vectors gives the same clocks.\<close>

lemma fold_order_free:
  assumes "ok v" and "\<And>w. w \<in> set ws \<Longrightarrow> ok w" and "set ws = set us"
  shows "clock (foldl join v ws) n = clock (foldl join v us) n"
  using clock_fold [of v ws n] clock_fold [of v us n] assms by simp

end

section \<open>Both kinds of vector meet the contract\<close>

interpretation session_vv: vector_join vv_ok clk absorb
  by unfold_locales (simp_all add: vv_ok_absorb clk_absorb)

lemma cclk_nonneg: "cvv_ok v \<Longrightarrow> 0 \<le> cclk v n"
  by (fastforce simp: cvv_ok_def cclk_def dget_or_def dget_Some_iff list_all_iff
      split: option.splits)

lemma merge_items_ok:
  "dict_ok m \<Longrightarrow> list_all (\<lambda>(_, c). 0 < c) m \<Longrightarrow> list_all (\<lambda>(_, c). 0 < c) es \<Longrightarrow>
   dict_ok (merge_items m es) \<and> list_all (\<lambda>(_, c). 0 < c) (merge_items m es)"
proof (induction m es rule: merge_items.induct)
  case (2 m n c es)
  have "list_all (\<lambda>(_, c). 0 < c) (dset m n c)"
    if "0 < c" using "2.prems" that by (simp add: list_all_dset)
  with 2 show ?case by simp
qed simp

lemma dget_or_merge_items:
  "distinct (map fst es) \<Longrightarrow>
   dget_or (merge_items m es) n 0 =
     (case map_of es n of None \<Rightarrow> dget_or m n 0 | Some c \<Rightarrow> max (dget_or m n 0) c)"
  by (induction m es rule: merge_items.induct)
    (auto split: option.splits simp: map_of_eq_None_iff rev_image_eqI max_def)

lemma cclk_merge:
  assumes "cvv_ok v" "cvv_ok w"
  shows "cclk (crdt_merge v w) n = max (cclk v n) (cclk w n)"
  using assms cclk_nonneg [OF assms(1), of n]
  by (auto simp: cclk_def crdt_merge_def dget_or_merge_items cvv_ok_def dict_ok_def dkeys_def
      dget_or_def [of "crdt_clocks w"] dget_def max_def split: option.splits)

lemma cvv_ok_merge: "cvv_ok v \<Longrightarrow> cvv_ok w \<Longrightarrow> cvv_ok (crdt_merge v w)"
  by (simp add: cvv_ok_def crdt_merge_def merge_items_ok)

interpretation crdt_vv: vector_join cvv_ok cclk crdt_merge
  by unfold_locales (simp_all add: cvv_ok_merge cclk_merge)

lemma cvv_ok_empty [simp]: "cvv_ok empty_cvv"
  by (simp add: cvv_ok_def empty_cvv_def)

lemma cclk_empty [simp]: "cclk empty_cvv n = 0"
  by (simp add: cclk_def empty_cvv_def)

lemma cclk_observe [simp]:
  "cclk (crdt_observe v m c) n = (if n = m then max (cclk v n) c else cclk v n)"
  by (simp add: crdt_observe_def cclk_def max_def)

lemma cvv_dict_roundtrip [simp]: "cvv_from_dict (cvv_to_dict v) = v"
  by (simp add: cvv_from_dict_def cvv_to_dict_def)

section \<open>What the comparison decides\<close>

lemma check_loop_flags:
  "check_loop a b ns (f, g) =
     (f \<or> (\<exists>n \<in> set ns. cclk b n < cclk a n), g \<or> (\<exists>n \<in> set ns. cclk a n < cclk b n))"
  by (induction ns arbitrary: f g) auto

lemma cclk_absent: "n \<notin> set (dkeys (crdt_clocks v)) \<Longrightarrow> cclk v n = 0"
  by (simp add: cclk_def dget_or_def dget_None_iff [symmetric])

lemma cclk_diff_key:
  "cclk a n \<noteq> cclk b n \<Longrightarrow> n \<in> set (dkeys (crdt_clocks a)) \<union> set (dkeys (crdt_clocks b))"
  by (metis UnCI cclk_absent)

definition cvv_le :: "crdt_vector \<Rightarrow> crdt_vector \<Rightarrow> bool" where
  "cvv_le a b \<longleftrightarrow> (\<forall>n. cclk a n \<le> cclk b n)"

lemma check_flags:
  "check_loop a b (remdups (dkeys (crdt_clocks a) @ dkeys (crdt_clocks b))) (False, False)
     = (\<not> cvv_le a b, \<not> cvv_le b a)"
proof -
  let ?ns = "remdups (dkeys (crdt_clocks a) @ dkeys (crdt_clocks b))"
  have key: "n \<in> set ?ns" if "cclk a n \<noteq> cclk b n" for n
    using cclk_diff_key [OF that] by simp
  have "(\<exists>n \<in> set ?ns. cclk b n < cclk a n) \<longleftrightarrow> (\<exists>n. cclk b n < cclk a n)"
    and "(\<exists>n \<in> set ?ns. cclk a n < cclk b n) \<longleftrightarrow> (\<exists>n. cclk a n < cclk b n)"
    using key by (metis less_irrefl)+
  then show ?thesis
    by (simp add: check_loop_flags cvv_le_def not_le)
qed

lemma causality_cases:
  "causality_check a b =
     (if cvv_le a b then (if cvv_le b a then EQUAL else DOMINATED)
      else if cvv_le b a then DOMINATES else CONCURRENT)"
  by (simp add: causality_check_def check_flags)

lemma cvv_le_refl [simp]: "cvv_le a a"
  by (simp add: cvv_le_def)

lemma cvv_le_trans: "cvv_le a b \<Longrightarrow> cvv_le b c \<Longrightarrow> cvv_le a c"
  unfolding cvv_le_def by (blast intro: order_trans)

lemma causality_iffs [simp]:
  "causality_check a b = EQUAL \<longleftrightarrow> cvv_le a b \<and> cvv_le b a"
  "causality_check a b = DOMINATED \<longleftrightarrow> cvv_le a b \<and> \<not> cvv_le b a"
  "causality_check a b = DOMINATES \<longleftrightarrow> \<not> cvv_le a b \<and> cvv_le b a"
  "causality_check a b = CONCURRENT \<longleftrightarrow> \<not> cvv_le a b \<and> \<not> cvv_le b a"
  by (auto simp: causality_cases)

fun causality_flip :: "causality \<Rightarrow> causality" where
  "causality_flip DOMINATES = DOMINATED"
| "causality_flip DOMINATED = DOMINATES"
| "causality_flip CONCURRENT = CONCURRENT"
| "causality_flip EQUAL = EQUAL"

lemma causality_swap: "causality_check b a = causality_flip (causality_check a b)"
  by (auto simp: causality_cases)

end
