(* ===== verification/Merkle_Tree.thy ===== *)
theory Merkle_Tree
  imports Sha256 Py_Text
begin

text \<open>
  The radix-16 Merkle prefix tree over object ids (\<open>crdt/merkle_tree.py\<close>): the
  SQLite table with its incremental root-to-leaf update, the PostgreSQL twin, and the
  abstract tree hash \<open>subtree_hash\<close> of a set of ids that both compute.  A row is
  \<open>prefix_path \<mapsto> (level, hash)\<close>; the column \<open>updated_at\<close> is never read and is
  left out.
\<close>

section \<open>Constants and helpers\<close>

definition ID_HEX_LENGTH :: nat where
  "ID_HEX_LENGTH = 64"

definition EMPTY_MARKER :: string where
  "EMPTY_MARKER = ''cks-crdt-merkle-empty-subtree''"

definition EMPTY_SUBTREE_HASH :: string where
  "EMPTY_SUBTREE_HASH = sha256_hex EMPTY_MARKER"

definition validate_id :: "string \<Rightarrow> bool" where
  "validate_id oid =
     (\<not> (length oid \<noteq> ID_HEX_LENGTH \<or> list_ex (\<lambda>c. c \<notin> set NIBBLES) (lower oid)))"

definition node_hash :: "string \<Rightarrow> string list \<Rightarrow> string" where
  "node_hash prefix children = sha256_hex (prefix @ concat children)"

text \<open>\<open>_like_children_pattern\<close>: the three replacements are one pass over the characters.\<close>

definition like_escape :: "char \<Rightarrow> string" where
  "like_escape c = (if c \<in> {CHR 0x5C, CHR ''%'', CHR ''_''} then [CHR 0x5C, c] else [c])"

definition like_children_pattern :: "string \<Rightarrow> string" where
  "like_children_pattern prefix = concat (map like_escape prefix) @ ''_''"

text \<open>
  SQL's \<open>LIKE\<close>: \<open>%\<close> stands for any string, \<open>_\<close> for any character, \<open>esc\<close> is
  the escape character, if there is one.  \<open>lc\<close> is what the comparison of two letters ignores: the case
  in SQLite (\<open>lower_char\<close>), nothing in PostgreSQL (\<open>id\<close>).
\<close>

fun sql_like :: "(char \<Rightarrow> char) \<Rightarrow> char option \<Rightarrow> string \<Rightarrow> string \<Rightarrow> bool" where
  "sql_like lc esc [] s = (s = [])"
| "sql_like lc esc (c # p) [] = (Some c \<noteq> esc \<and> c = CHR ''%'' \<and> sql_like lc esc p [])"
| "sql_like lc esc (c # p) (x # s) =
     (if Some c = esc
      then (case p of [] \<Rightarrow> False | c' # p' \<Rightarrow> lc c' = lc x \<and> sql_like lc esc p' s)
      else if c = CHR ''%'' then sql_like lc esc p (x # s) \<or> sql_like lc esc (c # p) s
      else if c = CHR ''_'' then sql_like lc esc p s
      else lc c = lc x \<and> sql_like lc esc p s)"

section \<open>The SQLite tree\<close>

type_synonym merkle_table = "(string, nat \<times> string) dict"

definition get_hash :: "merkle_table \<Rightarrow> string \<Rightarrow> string" where
  "get_hash t prefix =
     (case dget t prefix of None \<Rightarrow> EMPTY_SUBTREE_HASH | Some (_, h) \<Rightarrow> h)"

definition get_root_hash :: "merkle_table \<Rightarrow> string" where
  "get_root_hash t = get_hash t []"

text \<open>The rows the \<open>SELECT\<close> of \<open>get_children_hashes\<close> returns, as a dictionary.\<close>

definition select_children :: "merkle_table \<Rightarrow> string \<Rightarrow> (string, string) dict" where
  "select_children t prefix =
     map (\<lambda>(p, _, h). (p, h))
       (filter (\<lambda>(p, level, _). level = length prefix + 1 \<and>
                  sql_like lower_char (Some (CHR 0x5C)) (like_children_pattern prefix) p) t)"

definition get_children_hashes :: "merkle_table \<Rightarrow> string \<Rightarrow> string list" where
  "get_children_hashes t prefix =
     (let found = select_children t prefix
      in map (\<lambda>nibble. dget_or found (prefix @ [nibble]) EMPTY_SUBTREE_HASH) NIBBLES)"

definition upsert :: "merkle_table \<Rightarrow> string \<Rightarrow> nat \<Rightarrow> string \<Rightarrow> merkle_table" where
  "upsert t prefix level h = dset t prefix (level, h)"

definition path_step :: "string \<Rightarrow> nat \<Rightarrow> merkle_table \<Rightarrow> merkle_table" where
  "path_step oid level t =
     (let prefix = take level oid;
          children = get_children_hashes t prefix
      in upsert t prefix level (node_hash prefix children))"

datatype merkle_error = InvalidId string

definition update_merkle_path :: "merkle_table \<Rightarrow> string \<Rightarrow> merkle_error + merkle_table" where
  "update_merkle_path t object_id =
     (if \<not> validate_id object_id then Inl (InvalidId object_id)
      else
        let oid = lower object_id
        in Inr (fold (path_step oid) (rev [0..<ID_HEX_LENGTH]) (upsert t oid ID_HEX_LENGTH oid)))"

section \<open>The PostgreSQL tree\<close>

definition pg_select_children :: "merkle_table \<Rightarrow> string \<Rightarrow> (string, string) dict" where
  "pg_select_children t prefix =
     map (\<lambda>(p, _, h). (p, h))
       (filter (\<lambda>(p, level, _). level = length prefix + 1 \<and> sql_like id (Some (CHR 0x5C)) (prefix @ ''%'') p) t)"

definition pg_get_children_hashes :: "merkle_table \<Rightarrow> string \<Rightarrow> string list" where
  "pg_get_children_hashes t prefix =
     (let rows = pg_select_children t prefix
      in map (\<lambda>nibble. dget_or rows (prefix @ [nibble]) EMPTY_SUBTREE_HASH) NIBBLES)"

definition pg_path_step :: "string \<Rightarrow> nat \<Rightarrow> merkle_table \<Rightarrow> merkle_table" where
  "pg_path_step oid level t =
     (let prefix = take level oid;
          children = map (\<lambda>nibble. get_hash t (prefix @ [nibble])) NIBBLES
      in upsert t prefix level (node_hash prefix children))"

definition pg_update_merkle_path :: "merkle_table \<Rightarrow> string \<Rightarrow> merkle_error + merkle_table" where
  "pg_update_merkle_path t object_id =
     (if \<not> validate_id object_id then Inl (InvalidId object_id)
      else
        let oid = lower object_id
        in Inr (fold (pg_path_step oid) (rev [0..<ID_HEX_LENGTH]) (upsert t oid ID_HEX_LENGTH oid)))"

section \<open>The abstract tree\<close>

text \<open>An id as the store produces it: 64 lowercase hexadecimal characters.\<close>

definition hex_id :: "string \<Rightarrow> bool" where
  "hex_id s \<longleftrightarrow> length s = ID_HEX_LENGTH \<and> set s \<subseteq> set NIBBLES"

definition under :: "string set \<Rightarrow> string \<Rightarrow> bool" where
  "under ids p \<longleftrightarrow> (\<exists>i \<in> ids. take (length p) i = p)"

fun subtree_hash :: "string set \<Rightarrow> nat \<Rightarrow> string \<Rightarrow> string" where
  "subtree_hash ids 0 p = (if under ids p then p else EMPTY_SUBTREE_HASH)"
| "subtree_hash ids (Suc k) p =
     (if under ids p then node_hash p (map (\<lambda>n. subtree_hash ids k (p @ [n])) NIBBLES)
      else EMPTY_SUBTREE_HASH)"

definition tree_hash :: "string set \<Rightarrow> string \<Rightarrow> string" where
  "tree_hash ids p = subtree_hash ids (ID_HEX_LENGTH - length p) p"

lemma tree_hash_inner:
  "length p < ID_HEX_LENGTH \<Longrightarrow>
   tree_hash ids p =
     (if under ids p then node_hash p (map (\<lambda>n. tree_hash ids (p @ [n])) NIBBLES)
      else EMPTY_SUBTREE_HASH)"
  by (cases "ID_HEX_LENGTH - length p") (auto simp: tree_hash_def diff_Suc split: nat.splits)

lemma tree_hash_leaf:
  "length p = ID_HEX_LENGTH \<Longrightarrow> tree_hash ids p = (if under ids p then p else EMPTY_SUBTREE_HASH)"
  by (simp add: tree_hash_def)

lemma tree_hash_not_under: "\<not> under ids p \<Longrightarrow> tree_hash ids p = EMPTY_SUBTREE_HASH"
  unfolding tree_hash_def by (cases "ID_HEX_LENGTH - length p") simp_all

lemma under_insert [simp]: "under (insert i ids) p \<longleftrightarrow> take (length p) i = p \<or> under ids p"
  by (auto simp: under_def)

lemma under_empty [simp]: "\<not> under {} p"
  by (simp add: under_def)

lemma take_prefix: "take m i = p \<Longrightarrow> k \<le> m \<Longrightarrow> take k i = take k p"
  by (metis min.absorb1 take_take)

lemma under_child: "under ids (p @ [n]) \<Longrightarrow> under ids p"
  unfolding under_def using take_prefix [of "Suc (length p)" _ "p @ [n]" "length p"] by fastforce

section \<open>Reading children\<close>

text \<open>The pattern matches every one-character extension of the prefix.\<close>

lemma like_children: "sql_like lc (Some (CHR 0x5C)) (like_children_pattern p) (p @ [n])"
  by (induction p) (auto simp: like_children_pattern_def like_escape_def)

lemma like_prefix:
  "CHR 0x5C \<notin> set p \<Longrightarrow> CHR ''%'' \<notin> set p \<Longrightarrow> CHR ''_'' \<notin> set p \<Longrightarrow>
   sql_like lc (Some (CHR 0x5C)) (p @ ''%'') (p @ s)"
proof (induction p)
  case Nil
  show ?case by (induction s) auto
qed auto

definition level_ok :: "merkle_table \<Rightarrow> bool" where
  "level_ok t \<longleftrightarrow> dict_ok t \<and> (\<forall>p l h. dget t p = Some (l, h) \<longrightarrow> l = length p)"

lemma level_okD: "level_ok t \<Longrightarrow> dget t p = Some (l, h) \<Longrightarrow> l = length p"
  by (simp add: level_ok_def)

lemma dget_select:
  "dict_ok t \<Longrightarrow>
   dget (map (\<lambda>(p, _, h). (p, h)) (filter (\<lambda>(p, l, _). P p l) t)) q =
     (case dget t q of Some (l, h) \<Rightarrow> if P q l then Some h else None | None \<Rightarrow> None)"
proof (induction t)
  case (Cons r t)
  then show ?case
    by (cases r) (auto simp: dict_simps dict_ok_Cons)
qed simp

lemma get_children_hashes_eq:
  assumes "level_ok t"
  shows "get_children_hashes t p = map (\<lambda>n. get_hash t (p @ [n])) NIBBLES"
proof -
  have "dget (select_children t p) (p @ [n]) = map_option snd (dget t (p @ [n]))" for n
    using assms level_okD [OF assms, of "p @ [n]"] unfolding select_children_def
    by (subst dget_select) (auto simp: like_children level_ok_def split: option.splits)
  then show ?thesis
    by (auto simp: get_children_hashes_def dget_or_def get_hash_def Let_def split: option.splits)
qed

lemma pg_get_children_hashes_eq:
  assumes "level_ok t" and "set p \<subseteq> set NIBBLES"
  shows "pg_get_children_hashes t p = map (\<lambda>n. get_hash t (p @ [n])) NIBBLES"
proof -
  have "CHR 0x5C \<notin> set p" "CHR ''%'' \<notin> set p" "CHR ''_'' \<notin> set p"
    using assms(2) by (auto simp: NIBBLES_def)
  then have "dget (pg_select_children t p) (p @ [n]) = map_option snd (dget t (p @ [n]))" for n
    using assms(1) level_okD [OF assms(1), of "p @ [n]"] unfolding pg_select_children_def
    by (subst dget_select) (auto simp: like_prefix level_ok_def split: option.splits)
  then show ?thesis
    by (auto simp: pg_get_children_hashes_def dget_or_def get_hash_def Let_def split: option.splits)
qed

section \<open>An update represents an insertion\<close>

text \<open>The table stores exactly the hashes of the abstract tree of \<open>ids\<close>.\<close>

definition tree_repr :: "merkle_table \<Rightarrow> string set \<Rightarrow> bool" where
  "tree_repr t ids \<longleftrightarrow> level_ok t \<and> (\<forall>p. length p \<le> ID_HEX_LENGTH \<longrightarrow> get_hash t p = tree_hash ids p)"

lemma tree_repr_Nil: "tree_repr [] {}"
  by (simp add: tree_repr_def level_ok_def get_hash_def tree_hash_not_under)

lemma tree_repr_hash: "tree_repr t ids \<Longrightarrow> length p \<le> ID_HEX_LENGTH \<Longrightarrow> get_hash t p = tree_hash ids p"
  by (simp add: tree_repr_def)

lemma tree_repr_root: "tree_repr t ids \<Longrightarrow> get_root_hash t = tree_hash ids []"
  by (simp add: tree_repr_hash get_root_hash_def)

lemma level_ok_upsert: "level_ok t \<Longrightarrow> level_ok (upsert t p (length p) h)"
  by (auto simp: level_ok_def upsert_def)

lemma get_hash_upsert: "get_hash (upsert t p l h) q = (if q = p then h else get_hash t q)"
  by (simp add: get_hash_def upsert_def)

lemma subtree_hash_off:
  "take (length p) i \<noteq> p \<Longrightarrow> subtree_hash (insert i ids) k p = subtree_hash ids k p"
proof (induction k arbitrary: p)
  case (Suc k)
  then have "subtree_hash (insert i ids) k (p @ [n]) = subtree_hash ids k (p @ [n])" for n
    using take_prefix [of "Suc (length p)" i "p @ [n]" "length p"] by force
  with Suc.prems show ?case
    by simp
qed simp

text \<open>While the levels from \<open>n\<close> on have been rewritten, the rows above still hold the old hashes.\<close>

definition tree_mixed :: "merkle_table \<Rightarrow> string set \<Rightarrow> string \<Rightarrow> nat \<Rightarrow> bool" where
  "tree_mixed t ids i n \<longleftrightarrow>
     level_ok t \<and>
     (\<forall>p. length p \<le> ID_HEX_LENGTH \<longrightarrow>
        get_hash t p = tree_hash (if n \<le> length p then insert i ids else ids) p)"

lemma tree_mixed_start:
  assumes "tree_repr t ids" and "length i = ID_HEX_LENGTH"
  shows "tree_mixed (upsert t i ID_HEX_LENGTH i) ids i ID_HEX_LENGTH"
  using assms level_ok_upsert [of t i i]
  by (auto simp: tree_mixed_def tree_repr_def get_hash_upsert tree_hash_leaf)

lemma tree_mixed_upsert:
  assumes "tree_mixed t ids i (Suc n)" and "length i = ID_HEX_LENGTH" and "n < ID_HEX_LENGTH"
  shows "tree_mixed (upsert t (take n i) n
           (node_hash (take n i) (map (\<lambda>c. get_hash t (take n i @ [c])) NIBBLES))) ids i n"
proof -
  let ?p = "take n i"
  have len: "length ?p = n"
    using assms by simp
  have kids: "get_hash t (?p @ [c]) = tree_hash (insert i ids) (?p @ [c])" for c
    using assms len by (simp add: tree_mixed_def)
  have new: "node_hash ?p (map (\<lambda>c. get_hash t (?p @ [c])) NIBBLES) = tree_hash (insert i ids) ?p"
    using assms len by (subst tree_hash_inner) (simp_all add: kids)
  have same: "tree_hash (insert i ids) q = tree_hash ids q" if "length q = n" "q \<noteq> ?p" for q
    using that by (simp add: tree_hash_def subtree_hash_off)
  have "level_ok (upsert t ?p n h)" for h
    using assms(1) level_ok_upsert [of t ?p h] len by (simp add: tree_mixed_def)
  then show ?thesis
    using assms len unfolding tree_mixed_def new
    by (auto simp: get_hash_upsert same not_less_eq_eq [symmetric] le_less_Suc_eq)
qed

lemma path_step_eq:
  "level_ok t \<Longrightarrow> path_step i n t =
     upsert t (take n i) n (node_hash (take n i) (map (\<lambda>c. get_hash t (take n i @ [c])) NIBBLES))"
  by (simp add: path_step_def get_children_hashes_eq Let_def)

lemma path_step_mixed:
  "tree_mixed t ids i (Suc n) \<Longrightarrow> length i = ID_HEX_LENGTH \<Longrightarrow> n < ID_HEX_LENGTH \<Longrightarrow>
   tree_mixed (path_step i n t) ids i n"
  using tree_mixed_upsert by (simp add: path_step_eq tree_mixed_def)

lemma fold_path_mixed:
  "tree_mixed t ids i n \<Longrightarrow> length i = ID_HEX_LENGTH \<Longrightarrow> n \<le> ID_HEX_LENGTH \<Longrightarrow>
   tree_mixed (fold (path_step i) (rev [0..<n]) t) ids i 0"
proof (induction n arbitrary: t)
  case (Suc n)
  then show ?case
    using path_step_mixed [of t ids i n] by simp
qed simp

lemma lower_hex: "set s \<subseteq> set NIBBLES \<Longrightarrow> lower s = s"
  by (induction s) (auto simp: lower_def lower_char_def NIBBLES_def)

lemma validate_hex_id: "hex_id i \<Longrightarrow> validate_id i"
  by (auto simp: hex_id_def validate_id_def lower_hex list_ex_iff)

lemma validate_lower: "validate_id i \<Longrightarrow> hex_id (lower i)"
  by (auto simp: hex_id_def validate_id_def list_ex_iff lower_def)

lemma update_merkle_path_repr:
  assumes "tree_repr t ids" and "validate_id i"
  shows "\<exists>t'. update_merkle_path t i = Inr t' \<and> tree_repr t' (insert (lower i) ids)"
proof -
  have len: "length (lower i) = ID_HEX_LENGTH"
    using validate_lower [OF assms(2)] by (simp add: hex_id_def)
  show ?thesis
    using fold_path_mixed [OF tree_mixed_start [OF assms(1) len] len] assms(2)
    by (simp add: update_merkle_path_def Let_def tree_repr_def tree_mixed_def)
qed

lemma pg_path_eq:
  "level_ok t \<Longrightarrow> length i = ID_HEX_LENGTH \<Longrightarrow> n \<le> ID_HEX_LENGTH \<Longrightarrow>
   fold (pg_path_step i) (rev [0..<n]) t = fold (path_step i) (rev [0..<n]) t"
proof (induction n arbitrary: t)
  case (Suc n)
  then show ?case
    using level_ok_upsert [of t "take n i"]
    by (simp add: path_step_eq pg_path_step_def Let_def)
qed simp

lemma pg_update_eq:
  assumes "level_ok t"
  shows "pg_update_merkle_path t i = update_merkle_path t i"
proof (cases "validate_id i")
  case True
  then have len: "length (lower i) = ID_HEX_LENGTH"
    using validate_lower by (simp add: hex_id_def)
  then have "level_ok (upsert t (lower i) ID_HEX_LENGTH (lower i))"
    using level_ok_upsert [OF assms, of "lower i" "lower i"] by simp
  with len show ?thesis
    by (simp add: pg_update_merkle_path_def update_merkle_path_def Let_def pg_path_eq)
qed (simp add: pg_update_merkle_path_def update_merkle_path_def)


section \<open>Tables that stand for a set of ids\<close>

text \<open>
  What the replicas of the tree have in common: an update inserts an id into the set
  the table stands for, and the root hash is that of the abstract tree of the set.
\<close>

locale id_digest =
  fixes repr :: "'t \<Rightarrow> string set \<Rightarrow> bool"
    and add :: "string \<Rightarrow> 't \<Rightarrow> 't"
    and root :: "'t \<Rightarrow> string"
  assumes repr_add: "repr t ids \<Longrightarrow> hex_id i \<Longrightarrow> repr (add i t) (insert i ids)"
    and root_repr: "repr t ids \<Longrightarrow> root t = tree_hash ids []"
begin

lemma repr_fold:
  "repr t ids \<Longrightarrow> list_all hex_id is \<Longrightarrow> repr (fold add is t) (ids \<union> set is)"
  by (induction "is" arbitrary: t ids) (use repr_add in force)+

lemma root_fold:
  "repr t ids \<Longrightarrow> list_all hex_id is \<Longrightarrow> root (fold add is t) = tree_hash (ids \<union> set is) []"
  using repr_fold root_repr by blast

lemma root_order_free:
  "repr t ids \<Longrightarrow> list_all hex_id is \<Longrightarrow> list_all hex_id js \<Longrightarrow> set is = set js \<Longrightarrow>
   root (fold add is t) = root (fold add js t)"
  by (simp add: root_fold)

end

text \<open>An update that is known to succeed.\<close>

definition merkle_add :: "string \<Rightarrow> merkle_table \<Rightarrow> merkle_table" where
  "merkle_add i t = (case update_merkle_path t i of Inl _ \<Rightarrow> t | Inr t' \<Rightarrow> t')"

definition pg_merkle_add :: "string \<Rightarrow> merkle_table \<Rightarrow> merkle_table" where
  "pg_merkle_add i t = (case pg_update_merkle_path t i of Inl _ \<Rightarrow> t | Inr t' \<Rightarrow> t')"

lemma merkle_add_repr: "tree_repr t ids \<Longrightarrow> hex_id i \<Longrightarrow> tree_repr (merkle_add i t) (insert i ids)"
  using update_merkle_path_repr [of t ids i] validate_hex_id [of i]
  by (auto simp: merkle_add_def lower_hex hex_id_def)

lemma pg_merkle_add_eq: "level_ok t \<Longrightarrow> pg_merkle_add i t = merkle_add i t"
  by (simp add: pg_merkle_add_def merkle_add_def pg_update_eq)

lemma tree_repr_level: "tree_repr t ids \<Longrightarrow> level_ok t"
  by (simp add: tree_repr_def)

interpretation sqlite_digest: id_digest tree_repr merkle_add get_root_hash
  by unfold_locales (auto intro: merkle_add_repr tree_repr_root)

interpretation pg_digest: id_digest tree_repr pg_merkle_add get_root_hash
  by unfold_locales (auto intro: merkle_add_repr tree_repr_root simp: pg_merkle_add_eq tree_repr_level)

section \<open>Equal roots\<close>

text \<open>The inputs hashed while a tree is computed.\<close>

definition payload :: "string set \<Rightarrow> string \<Rightarrow> string" where
  "payload ids p = p @ concat (map (\<lambda>n. tree_hash ids (p @ [n])) NIBBLES)"

definition payloads :: "string set \<Rightarrow> string set" where
  "payloads ids = insert EMPTY_MARKER {payload ids p | p. length p < ID_HEX_LENGTH \<and> under ids p}"

definition collision :: "string set \<Rightarrow> bool" where
  "collision ps \<longleftrightarrow> (\<exists>x \<in> ps. \<exists>y \<in> ps. x \<noteq> y \<and> sha256_hex x = sha256_hex y)"

lemma length_tree_hash: "length p \<le> ID_HEX_LENGTH \<Longrightarrow> length (tree_hash ids p) = ID_HEX_LENGTH"
  by (cases "length p = ID_HEX_LENGTH")
    (auto simp: tree_hash_leaf tree_hash_inner EMPTY_SUBTREE_HASH_def node_hash_def length_sha256_hex
       ID_HEX_LENGTH_def)

lemma concat_eq_length:
  "concat (map f ns) = concat (map g ns) \<Longrightarrow> (\<And>n. n \<in> set ns \<Longrightarrow> length (f n) = length (g n)) \<Longrightarrow>
   n \<in> set ns \<Longrightarrow> f n = g n"
  by (induction ns) auto

lemma length_concat_const: "(\<And>n. n \<in> set ns \<Longrightarrow> length (f n) = k) \<Longrightarrow> length (concat (map f ns)) = k * length ns"
  by (induction ns) auto

lemma payload_not_marker:
  assumes "length p < ID_HEX_LENGTH"
  shows "payload ids p \<noteq> EMPTY_MARKER"
proof -
  have "length (concat (map (\<lambda>n. tree_hash ids (p @ [n])) NIBBLES)) = 64 * 16"
    using assms by (subst length_concat_const [where k = 64])
      (auto simp: length_tree_hash, auto simp: NIBBLES_def ID_HEX_LENGTH_def)
  then show ?thesis
    by (auto simp: EMPTY_MARKER_def payload_def dest: arg_cong [where f = length])
qed

lemma payload_hash:
  assumes "length p < ID_HEX_LENGTH"
  obtains x where "x \<in> payloads ids" "tree_hash ids p = sha256_hex x"
    "under ids p \<longleftrightarrow> x \<noteq> EMPTY_MARKER" "under ids p \<Longrightarrow> x = payload ids p"
proof (cases "under ids p")
  case True
  then have "tree_hash ids p = sha256_hex (payload ids p)"
    using assms by (simp add: tree_hash_inner node_hash_def payload_def)
  then show ?thesis
    using that [of "payload ids p"] True assms payload_not_marker [OF assms, of ids]
    by (auto simp: payloads_def)
next
  case False
  then show ?thesis
    using that [of EMPTY_MARKER] by (simp add: payloads_def tree_hash_not_under EMPTY_SUBTREE_HASH_def)
qed

lemma payload_inj:
  "payload ids p = payload ids' p \<Longrightarrow> length p < ID_HEX_LENGTH \<Longrightarrow> n \<in> set NIBBLES \<Longrightarrow>
   tree_hash ids (p @ [n]) = tree_hash ids' (p @ [n])"
  unfolding payload_def
  by (rule concat_eq_length [of "\<lambda>n. tree_hash ids (p @ [n])" NIBBLES "\<lambda>n. tree_hash ids' (p @ [n])"])
    (simp_all add: length_tree_hash)

lemma payload_same:
  assumes "tree_hash ids p = tree_hash ids' p" and "length p < ID_HEX_LENGTH"
    and "\<not> collision (payloads ids \<union> payloads ids')"
  shows "under ids p = under ids' p \<and> (under ids p \<longrightarrow> payload ids p = payload ids' p)"
proof -
  obtain x where x: "x \<in> payloads ids" "tree_hash ids p = sha256_hex x" "under ids p \<longleftrightarrow> x \<noteq> EMPTY_MARKER"
    "under ids p \<Longrightarrow> x = payload ids p"
    using payload_hash [OF assms(2), of ids] by blast
  obtain y where y: "y \<in> payloads ids'" "tree_hash ids' p = sha256_hex y" "under ids' p \<longleftrightarrow> y \<noteq> EMPTY_MARKER"
    "under ids' p \<Longrightarrow> y = payload ids' p"
    using payload_hash [OF assms(2), of ids'] by blast
  have "x = y"
    using assms(1,3) x(1,2) y(1,2) by (auto simp: collision_def)
  then show ?thesis
    using x(3,4) y(3,4) by simp
qed

lemma under_leaf: "\<forall>i \<in> ids. hex_id i \<Longrightarrow> length p = ID_HEX_LENGTH \<Longrightarrow> under ids p \<longleftrightarrow> p \<in> ids"
  by (auto simp: under_def hex_id_def)

lemma next_nibble:
  assumes "hex_id i" and "take (length p) i = p" and "length p < ID_HEX_LENGTH"
  shows "take (Suc (length p)) i = p @ [i ! length p] \<and> i ! length p \<in> set NIBBLES"
  using assms nth_mem [of "length p" i] by (auto simp: hex_id_def take_Suc_conv_app_nth)

lemma equal_subtrees:
  assumes "\<not> collision (payloads ids \<union> payloads ids')" and "EMPTY_SUBTREE_HASH \<notin> ids \<union> ids'"
    and hex: "\<forall>i \<in> ids. hex_id i" "\<forall>i \<in> ids'. hex_id i" "hex_id i"
    and "length p + k = ID_HEX_LENGTH" and "tree_hash ids p = tree_hash ids' p"
    and "take (length p) i = p"
  shows "i \<in> ids \<longleftrightarrow> i \<in> ids'"
  using assms(6-)
proof (induction k arbitrary: p)
  case 0
  then have "p = i" "length p = ID_HEX_LENGTH"
    using hex(3) by (simp_all add: hex_id_def)
  then show ?case
    using 0 assms(2) under_leaf [OF hex(1)] under_leaf [OF hex(2)]
    by (auto simp: tree_hash_leaf split: if_splits)
next
  case (Suc k)
  then have len: "length p < ID_HEX_LENGTH"
    by simp
  note same = payload_same [OF Suc.prems(2) len assms(1)]
  note nib = next_nibble [OF hex(3) Suc.prems(3) len]
  show ?case
  proof (cases "under ids p")
    case True
    then have "tree_hash ids (p @ [i ! length p]) = tree_hash ids' (p @ [i ! length p])"
      using same nib len payload_inj by blast
    then show ?thesis
      using Suc.IH [of "p @ [i ! length p]"] Suc.prems(1) nib by simp
  next
    case False
    then show ?thesis
      using same Suc.prems(3) unfolding under_def by blast
  qed
qed

lemma equal_roots:
  assumes "tree_hash ids [] = tree_hash ids' []" and "EMPTY_SUBTREE_HASH \<notin> ids \<union> ids'"
    and "\<not> collision (payloads ids \<union> payloads ids')"
    and "\<forall>i \<in> ids. hex_id i" "\<forall>i \<in> ids'. hex_id i"
  shows "ids = ids'"
  using equal_subtrees [OF assms(3,2,4,5), where p = "[]" and k = ID_HEX_LENGTH] assms by auto

end
