(* ===== verification/Crdt_Store.thy ===== *)
theory Crdt_Store
  imports Causality Merkle_Tree Knowledge
begin

text \<open>
  The CRDT stores (\<open>crdt/crdt_store.py\<close>): a grow-only set of knowledge objects with
  its Merkle tree, a multi-value register of pointers, and the fork events, each in the
  SQLite, the PostgreSQL and the in-memory backend.  A table is a dictionary from its
  primary key to the other columns, a timestamp is the number of microseconds, and an
  operation that writes one takes it as \<open>now\<close>.
\<close>

section \<open>The identity of an object\<close>

definition recompute_dict_object_id :: "cks_objects \<Rightarrow> (string, pyval) dict \<Rightarrow> string option" where
  "recompute_dict_object_id cks record =
     (case (dget record ''identity'', dget record ''structure'') of
        (Some (PDict identity), Some (PDict structure)) \<Rightarrow>
          (case (dget identity ''id'', dget identity ''type'', dget identity ''name'') of
             (Some i, Some t, Some n) \<Rightarrow>
               map_option ko_hash
                 (make_object cks
                    \<lparr>oi_id = str_of cks i, oi_type = str_of cks t, oi_name = str_of cks n\<rparr> structure)
           | _ \<Rightarrow> None)
      | _ \<Rightarrow> None)"

text \<open>\<open>hmac.compare_digest\<close> raises \<open>TypeError\<close> on a string that is not ASCII.\<close>

definition object_id_for :: "cks_objects \<Rightarrow> payload \<Rightarrow> exn + string" where
  "object_id_for cks p =
     (case p of
        Live k \<Rightarrow> Inr (ko_hash k)
      | Json (PDict d) \<Rightarrow>
          (case dget d ''id'' of
             Some (PStr claimed_id) \<Rightarrow>
               (case recompute_dict_object_id cks d of
                  None \<Rightarrow> Inl TypeError
                | Some recomputed_id \<Rightarrow>
                    if \<not> is_ascii claimed_id \<or> \<not> is_ascii recomputed_id then Inl TypeError
                    else if recomputed_id \<noteq> claimed_id then Inl ObjectIdentityMismatch
                    else Inr claimed_id)
           | _ \<Rightarrow> Inl TypeError)
      | Json _ \<Rightarrow> Inl TypeError)"

definition serialize_object :: "payload \<Rightarrow> string \<Rightarrow> (string, pyval) dict" where
  "serialize_object p object_id =
     (case p of
        Json (PDict d) \<Rightarrow> d
      | Json _ \<Rightarrow> []
      | Live k \<Rightarrow>
          [(''id'', PStr object_id),
           (''identity'', PDict [(''id'', PStr (oi_id (ko_identity k))),
                                 (''type'', PStr (oi_type (ko_identity k))),
                                 (''name'', PStr (oi_name (ko_identity k)))]),
           (''structure'', PDict (ko_structure k))])"

definition object_type :: "cks_objects \<Rightarrow> (string, pyval) dict \<Rightarrow> exn + string" where
  "object_type cks record =
     (let identity = dget_or record ''identity'' PNone;
          default = dget_or record ''type'' (PStr ''unknown'')
      in if \<not> truthy identity then Inr (str_of cks default)
         else case identity of
                PDict d \<Rightarrow> Inr (str_of cks (dget_or d ''type'' default))
              | _ \<Rightarrow> Inl AttributeError)"

section \<open>Retrying a write\<close>

definition WRITE_RETRIES :: nat where
  "WRITE_RETRIES = 5"

text \<open>
  \<open>_retry_on_locked\<close>: \<open>attempts\<close> calls are left, \<open>attempt\<close> were made.  The result
  carries the delays slept, in units of the base delay.
\<close>

fun retry_loop ::
  "(string \<Rightarrow> bool) \<Rightarrow> nat \<Rightarrow> nat \<Rightarrow> ('s, 'a) sx \<Rightarrow> 's \<Rightarrow> (exn + 'a) \<times> 's \<times> nat list" where
  "retry_loop locked 0 attempt fn s = (Inl RuntimeError, s, [])"
| "retry_loop locked (Suc left) attempt fn s =
     (case fn s of
        (Inr x, s') \<Rightarrow> (Inr x, s', [])
      | (Inl (OperationalError msg), s') \<Rightarrow>
          if \<not> locked msg \<or> left = 0 then (Inl (OperationalError msg), s', [])
          else
            let (r, s'', delays) = retry_loop locked left (attempt + 1) fn s'
            in (r, s'', 2 ^ attempt # delays)
      | (Inl e, s') \<Rightarrow> (Inl e, s', []))"

definition contains :: "string \<Rightarrow> string \<Rightarrow> bool" where
  "contains needle hay =
     list_ex (\<lambda>i. take (length needle) (drop i hay) = needle) [0..<Suc (length hay)]"

definition retry_on_locked :: "('s, 'a) sx \<Rightarrow> 's \<Rightarrow> (exn + 'a) \<times> 's \<times> nat list" where
  "retry_on_locked = retry_loop (\<lambda>msg. contains ''locked'' (lower msg)) WRITE_RETRIES 0"

definition retry_on_transient :: "('s, 'a) sx \<Rightarrow> 's \<Rightarrow> (exn + 'a) \<times> 's \<times> nat list" where
  "retry_on_transient = retry_loop (\<lambda>_. True) WRITE_RETRIES 0"

section \<open>The SQLite store\<close>

record object_row =
  ob_type :: string
  ob_data :: pyval
  ob_created :: time

record pointer_row =
  pt_clock :: pyval
  pt_origin :: string
  pt_created :: time

datatype fork_status = PENDING | RESOLVED

record fork_row =
  fk_pointer :: string
  fk_objects :: "string list"
  fk_clocks :: "pyval list"
  fk_status :: fork_status
  fk_created :: time

record sql_store =
  objects :: "(string, object_row) dict"
  vectors :: "(string, pyval) dict"
  mv_register :: "(string \<times> string, pointer_row) dict"
  conflicts :: "(string, fork_row) dict"
  merkle :: merkle_table

definition empty_store :: sql_store where
  "empty_store = \<lparr>objects = [], vectors = [], mv_register = [], conflicts = [], merkle = []\<rparr>"

text \<open>
  \<open>update\<close> is the tree's \<open>update_merkle_path\<close>.  The row is committed before the tree
  is updated: an id the tree refuses leaves the row behind.
\<close>

definition add_object :: "cks_objects \<Rightarrow> time \<Rightarrow> payload \<Rightarrow> (sql_store, bool) sx" where
  "add_object cks now p s =
     (case object_id_for cks p of
        Inl e \<Rightarrow> (Inl e, s)
      | Inr object_id \<Rightarrow>
          let record = serialize_object p object_id
          in case object_type cks record of
               Inl e \<Rightarrow> (Inl e, s)
             | Inr ty \<Rightarrow>
                 if dhas (objects s) object_id then (Inr False, s)
                 else
                   let row = \<lparr>ob_type = ty, ob_data = json_sorted (PDict record), ob_created = now\<rparr>;
                       s1 = s\<lparr>objects := dset (objects s) object_id row\<rparr>
                   in case update_merkle_path (merkle s1) object_id of
                        Inl _ \<Rightarrow> (Inl ValueError, s1)
                      | Inr t \<Rightarrow> (Inr True, s1\<lparr>merkle := t\<rparr>))"

definition get_object :: "sql_store \<Rightarrow> string \<Rightarrow> pyval option" where
  "get_object s object_id = map_option ob_data (dget (objects s) object_id)"

definition list_objects :: "sql_store \<Rightarrow> pyval list" where
  "list_objects s = map ob_data (sort_key ob_created (dvals (objects s)))"

text \<open>
  The loop of \<open>merge_objects\<close>, the same text in the three backends: each object comes
  with the time at which its row is written.
\<close>

fun merge_loop ::
  "(time \<Rightarrow> payload \<Rightarrow> ('s, bool) sx) \<Rightarrow> (time \<times> payload) list \<Rightarrow> nat \<Rightarrow> ('s, nat) sx" where
  "merge_loop add [] count s = (Inr count, s)"
| "merge_loop add ((now, p) # ps) count s =
     (case add now p s of
        (Inr was_new, s') \<Rightarrow> merge_loop add ps (if was_new then count + 1 else count) s'
      | (Inl e, s') \<Rightarrow>
          if e = TypeError \<or> e = ObjectIdentityMismatch then merge_loop add ps count s'
          else (Inl e, s'))"

definition merge_objects :: "cks_objects \<Rightarrow> (time \<times> payload) list \<Rightarrow> (sql_store, nat) sx" where
  "merge_objects cks ps = merge_loop (add_object cks) ps 0"

definition store_root_hash :: "sql_store \<Rightarrow> string" where
  "store_root_hash s = get_root_hash (merkle s)"

definition store_children_hashes :: "sql_store \<Rightarrow> string \<Rightarrow> string list" where
  "store_children_hashes s prefix = get_children_hashes (merkle s) prefix"

definition update_version_vector :: "string \<Rightarrow> crdt_vector \<Rightarrow> sql_store \<Rightarrow> sql_store" where
  "update_version_vector node_id vv s = s\<lparr>vectors := dset (vectors s) node_id (cvv_to_dict vv)\<rparr>"

definition get_version_vector :: "sql_store \<Rightarrow> string \<Rightarrow> crdt_vector" where
  "get_version_vector s node_id =
     (case dget (vectors s) node_id of None \<Rightarrow> empty_cvv | Some x \<Rightarrow> cvv_from_dict x)"

subsection \<open>Pointers\<close>

text \<open>
  The loop over the existing pointers, the same text in the three backends: \<open>None\<close>
  where the write is stale, else the ids to delete.
\<close>

fun scan_pointers ::
  "string \<Rightarrow> crdt_vector \<Rightarrow> (string \<times> crdt_vector) list \<Rightarrow> string list \<Rightarrow> string list option" where
  "scan_pointers object_id vv [] to_delete = Some to_delete"
| "scan_pointers object_id vv ((existing_id, existing_vv) # es) to_delete =
     (let relation = causality_check vv existing_vv
      in if relation = DOMINATED \<and> existing_id \<noteq> object_id then None
         else scan_pointers object_id vv es
                (if relation \<noteq> CONCURRENT \<and> existing_id \<noteq> object_id
                 then to_delete @ [existing_id] else to_delete))"

definition rows_of :: "string \<Rightarrow> (string \<times> string, pointer_row) dict \<Rightarrow> (string \<times> pointer_row) list" where
  "rows_of key t = map (\<lambda>((_, i), r). (i, r)) (filter (\<lambda>((k, _), _). k = key) t)"

definition upsert_pointer ::
  "(string \<times> string, pointer_row) dict \<Rightarrow> string \<Rightarrow> string \<Rightarrow> crdt_vector \<Rightarrow> string \<Rightarrow> time
     \<Rightarrow> (string \<times> string, pointer_row) dict" where
  "upsert_pointer t key i vv origin now =
     dset t (key, i)
       \<lparr>pt_clock = cvv_to_dict vv, pt_origin = origin,
        pt_created = (case dget t (key, i) of None \<Rightarrow> now | Some r \<Rightarrow> pt_created r)\<rparr>"

definition update_pointer ::
  "string \<Rightarrow> string \<Rightarrow> crdt_vector \<Rightarrow> string \<Rightarrow> time \<Rightarrow> sql_store \<Rightarrow> bool \<times> sql_store" where
  "update_pointer pointer_key object_id vv origin_node now s =
     (let existing = map (\<lambda>(i, r). (i, cvv_from_dict (pt_clock r))) (rows_of pointer_key (mv_register s))
      in case scan_pointers object_id vv existing [] of
           None \<Rightarrow> (False, s)
         | Some to_delete \<Rightarrow>
             let t = fold (\<lambda>stale_id t. dpop t (pointer_key, stale_id)) to_delete (mv_register s)
             in (True, s\<lparr>mv_register := upsert_pointer t pointer_key object_id vv origin_node now\<rparr>))"

record pointer =
  p_key :: string
  p_object :: string
  p_clock :: pyval
  p_origin :: string
  p_created :: time

definition get_pointers :: "sql_store \<Rightarrow> string \<Rightarrow> pointer list" where
  "get_pointers s pointer_key =
     map (\<lambda>(i, r). \<lparr>p_key = pointer_key, p_object = i, p_clock = pt_clock r, p_origin = pt_origin r,
                    p_created = pt_created r\<rparr>)
       (sort_key (\<lambda>(_, r). pt_created r) (rows_of pointer_key (mv_register s)))"

definition resolve_pointer :: "string \<Rightarrow> string \<Rightarrow> sql_store \<Rightarrow> bool \<times> sql_store" where
  "resolve_pointer pointer_key winner s =
     (if \<not> dhas (mv_register s) (pointer_key, winner) then (False, s)
      else (True, s\<lparr>mv_register :=
              filter (\<lambda>((k, i), _). \<not> (k = pointer_key \<and> i \<noteq> winner)) (mv_register s)\<rparr>))"

subsection \<open>Fork events\<close>

text \<open>\<open>event_id\<close> is the fresh \<open>uuid4\<close>; a repeated primary key is an integrity error.\<close>

definition escalate_fork ::
  "string \<Rightarrow> time \<Rightarrow> string \<Rightarrow> string list \<Rightarrow> pyval list \<Rightarrow> (sql_store, string) sx" where
  "escalate_fork event_id now pointer_key object_ids vector_clocks s =
     (if dhas (conflicts s) event_id then (Inl DatabaseError, s)
      else (Inr event_id,
            s\<lparr>conflicts := dset (conflicts s) event_id
                \<lparr>fk_pointer = pointer_key, fk_objects = object_ids, fk_clocks = vector_clocks,
                 fk_status = PENDING, fk_created = now\<rparr>\<rparr>))"

definition list_pending_forks :: "sql_store \<Rightarrow> (string \<times> fork_row) list" where
  "list_pending_forks s =
     sort_key (\<lambda>(_, r). fk_created r) (filter (\<lambda>(_, r). fk_status r = PENDING) (conflicts s))"

definition mark_fork_resolved :: "string \<Rightarrow> sql_store \<Rightarrow> sql_store" where
  "mark_fork_resolved event_id s =
     (case dget (conflicts s) event_id of
        None \<Rightarrow> s
      | Some r \<Rightarrow> s\<lparr>conflicts := dset (conflicts s) event_id (r\<lparr>fk_status := RESOLVED\<rparr>)\<rparr>)"

definition refresh_from_storage :: "'s \<Rightarrow> nat" where
  "refresh_from_storage s = 0"


section \<open>The PostgreSQL store\<close>

text \<open>
  The tables are the same.  The trigger updates the tree inside the insert, without
  validating the id, and \<open>add_object\<close> updates it once more.  A string that does not
  fit its \<open>VARCHAR\<close> column is a database error.
\<close>

definition trigger_update_merkle :: "merkle_table \<Rightarrow> string \<Rightarrow> merkle_table" where
  "trigger_update_merkle t new_id =
     (let obj_id = lower new_id
      in fold (pg_path_step obj_id) (rev [0..<64]) (upsert t obj_id 64 obj_id))"

definition pg_add_object :: "cks_objects \<Rightarrow> time \<Rightarrow> payload \<Rightarrow> (sql_store, bool) sx" where
  "pg_add_object cks now p s =
     (case object_id_for cks p of
        Inl e \<Rightarrow> (Inl e, s)
      | Inr object_id \<Rightarrow>
          let record = serialize_object p object_id
          in case object_type cks record of
               Inl e \<Rightarrow> (Inl e, s)
             | Inr ty \<Rightarrow>
                 if length object_id > 64 then (Inl DatabaseError, s)
                 else if dhas (objects s) object_id then (Inr False, s)
                 else
                   let row = \<lparr>ob_type = ty, ob_data = json_sorted (PDict record), ob_created = now\<rparr>;
                       s1 = s\<lparr>objects := dset (objects s) object_id row,
                              merkle := trigger_update_merkle (merkle s) object_id\<rparr>
                   in case pg_update_merkle_path (merkle s1) object_id of
                        Inl _ \<Rightarrow> (Inl ValueError, s1)
                      | Inr t \<Rightarrow> (Inr True, s1\<lparr>merkle := t\<rparr>))"

definition pg_merge_objects :: "cks_objects \<Rightarrow> (time \<times> payload) list \<Rightarrow> (sql_store, nat) sx" where
  "pg_merge_objects cks ps = merge_loop (pg_add_object cks) ps 0"

definition pg_update_pointer ::
  "string \<Rightarrow> string \<Rightarrow> crdt_vector \<Rightarrow> string \<Rightarrow> time \<Rightarrow> (sql_store, bool) sx" where
  "pg_update_pointer pointer_key object_id vv origin_node now s =
     (let existing = map (\<lambda>(i, r). (i, cvv_from_dict (pt_clock r))) (rows_of pointer_key (mv_register s))
      in case scan_pointers object_id vv existing [] of
           None \<Rightarrow> (Inr False, s)
         | Some to_delete \<Rightarrow>
             if length pointer_key > 255 \<or> length object_id > 64 \<or> length origin_node > 64
             then (Inl DatabaseError, s)
             else
               let t = fold (\<lambda>stale_id t. dpop t (pointer_key, stale_id)) to_delete (mv_register s)
               in (Inr True, s\<lparr>mv_register := upsert_pointer t pointer_key object_id vv origin_node now\<rparr>))"

section \<open>The in-memory store\<close>

record mem_store =
  m_objects :: "(string, (string, pyval) dict) dict"
  m_vectors :: "(string, crdt_vector) dict"
  m_tree_dirty :: bool
  m_nodes :: "(string, string) dict"
  m_pointers :: "(string, (string, crdt_vector \<times> string \<times> time) dict) dict"
  m_conflicts :: "(string, fork_row) dict"

definition empty_mem :: mem_store where
  "empty_mem = \<lparr>m_objects = [], m_vectors = [], m_tree_dirty = True, m_nodes = [],
                m_pointers = [], m_conflicts = []\<rparr>"

definition mem_add_object :: "cks_objects \<Rightarrow> time \<Rightarrow> payload \<Rightarrow> (mem_store, bool) sx" where
  "mem_add_object cks now p s =
     (case object_id_for cks p of
        Inl e \<Rightarrow> (Inl e, s)
      | Inr object_id \<Rightarrow>
          if dhas (m_objects s) object_id then (Inr False, s)
          else (Inr True,
                s\<lparr>m_objects := dset (m_objects s) object_id (serialize_object p object_id),
                  m_tree_dirty := True\<rparr>))"

definition mem_merge_objects :: "cks_objects \<Rightarrow> (time \<times> payload) list \<Rightarrow> (mem_store, nat) sx" where
  "mem_merge_objects cks ps = merge_loop (mem_add_object cks) ps 0"

text \<open>
  \<open>_rebuild_tree\<close>.  The prefixes of a level are a Python set: here without repetitions
  in the order of the ids, on which the result does not depend.
\<close>

definition rebuild_node :: "(string, string) dict \<Rightarrow> string \<Rightarrow> (string, string) dict" where
  "rebuild_node nodes prefix =
     (let children = map (\<lambda>nibble. dget_or nodes (prefix @ [nibble]) EMPTY_SUBTREE_HASH) NIBBLES
      in dset nodes prefix (node_hash prefix children))"

definition rebuild_level :: "string list \<Rightarrow> nat \<Rightarrow> (string, string) dict \<Rightarrow> (string, string) dict" where
  "rebuild_level ids level nodes =
     fold (\<lambda>prefix nodes. rebuild_node nodes prefix) (remdups (map (take level) ids)) nodes"

definition rebuild_tree :: "mem_store \<Rightarrow> mem_store" where
  "rebuild_tree s =
     (let ids = dkeys (m_objects s);
          nodes = fold (\<lambda>object_id nodes. dset nodes object_id object_id) ids [];
          nodes = fold (rebuild_level ids) (rev [0..<ID_HEX_LENGTH]) nodes;
          nodes = (if m_objects s = [] then dset nodes [] EMPTY_SUBTREE_HASH else nodes)
      in s\<lparr>m_nodes := nodes, m_tree_dirty := False\<rparr>)"

definition mem_get_root_hash :: "mem_store \<Rightarrow> string \<times> mem_store" where
  "mem_get_root_hash s =
     (let s = (if m_tree_dirty s then rebuild_tree s else s)
      in (dget_or (m_nodes s) [] EMPTY_SUBTREE_HASH, s))"

definition mem_get_children_hashes :: "string \<Rightarrow> mem_store \<Rightarrow> string list \<times> mem_store" where
  "mem_get_children_hashes prefix s =
     (let s = (if m_tree_dirty s then rebuild_tree s else s)
      in (map (\<lambda>n. dget_or (m_nodes s) (prefix @ [n]) EMPTY_SUBTREE_HASH) NIBBLES, s))"

definition mem_update_version_vector :: "string \<Rightarrow> crdt_vector \<Rightarrow> mem_store \<Rightarrow> mem_store" where
  "mem_update_version_vector node_id vv s = s\<lparr>m_vectors := dset (m_vectors s) node_id vv\<rparr>"

definition mem_get_version_vector :: "mem_store \<Rightarrow> string \<Rightarrow> crdt_vector" where
  "mem_get_version_vector s node_id = dget_or (m_vectors s) node_id empty_cvv"

text \<open>\<open>setdefault\<close> leaves an empty bucket behind when the write is refused.\<close>

definition mem_update_pointer ::
  "string \<Rightarrow> string \<Rightarrow> crdt_vector \<Rightarrow> string \<Rightarrow> time \<Rightarrow> mem_store \<Rightarrow> bool \<times> mem_store" where
  "mem_update_pointer pointer_key object_id vv origin_node now s =
     (let bucket = dget_or (m_pointers s) pointer_key [];
          s1 = s\<lparr>m_pointers := dset (m_pointers s) pointer_key bucket\<rparr>
      in case scan_pointers object_id vv (map (\<lambda>(i, v, _). (i, v)) bucket) [] of
           None \<Rightarrow> (False, s1)
         | Some to_delete \<Rightarrow>
             let bucket = fold (\<lambda>stale_id b. dpop b stale_id) to_delete bucket;
                 bucket = dset bucket object_id (vv, origin_node, now)
             in (True, s1\<lparr>m_pointers := dset (m_pointers s1) pointer_key bucket\<rparr>))"

definition mem_get_pointers :: "mem_store \<Rightarrow> string \<Rightarrow> pointer list" where
  "mem_get_pointers s pointer_key =
     map (\<lambda>(i, v, origin, created).
            \<lparr>p_key = pointer_key, p_object = i, p_clock = cvv_to_dict v, p_origin = origin,
             p_created = created\<rparr>)
       (dget_or (m_pointers s) pointer_key [])"

definition mem_resolve_pointer :: "string \<Rightarrow> string \<Rightarrow> mem_store \<Rightarrow> bool \<times> mem_store" where
  "mem_resolve_pointer pointer_key winner s =
     (case dget (m_pointers s) pointer_key of
        None \<Rightarrow> (False, s)
      | Some bucket \<Rightarrow>
          (case dget bucket winner of
             None \<Rightarrow> (False, s)
           | Some w \<Rightarrow> (True, s\<lparr>m_pointers := dset (m_pointers s) pointer_key [(winner, w)]\<rparr>)))"

definition mem_escalate_fork ::
  "string \<Rightarrow> time \<Rightarrow> string \<Rightarrow> string list \<Rightarrow> pyval list \<Rightarrow> mem_store \<Rightarrow> string \<times> mem_store" where
  "mem_escalate_fork event_id now pointer_key object_ids vector_clocks s =
     (event_id,
      s\<lparr>m_conflicts := dset (m_conflicts s) event_id
          \<lparr>fk_pointer = pointer_key, fk_objects = object_ids, fk_clocks = vector_clocks,
           fk_status = PENDING, fk_created = now\<rparr>\<rparr>)"

definition mem_list_pending_forks :: "mem_store \<Rightarrow> (string \<times> fork_row) list" where
  "mem_list_pending_forks s = filter (\<lambda>(_, r). fk_status r = PENDING) (m_conflicts s)"

definition mem_mark_fork_resolved :: "string \<Rightarrow> mem_store \<Rightarrow> mem_store" where
  "mem_mark_fork_resolved event_id s =
     (case dget (m_conflicts s) event_id of
        None \<Rightarrow> s
      | Some r \<Rightarrow> s\<lparr>m_conflicts := dset (m_conflicts s) event_id (r\<lparr>fk_status := RESOLVED\<rparr>)\<rparr>)"


section \<open>Identities\<close>

text \<open>
  The documented behaviour of \<open>cks\<close> the stores rely on: the leaf hash of an object is
  a SHA-256 digest, printed as 64 lowercase hexadecimal characters.
\<close>

definition hash_ok :: "cks_objects \<Rightarrow> bool" where
  "hash_ok cks \<longleftrightarrow> (\<forall>i d k. make_object cks i d = Some k \<longrightarrow> hex_id (ko_hash k))"

fun payload_ok :: "payload \<Rightarrow> bool" where
  "payload_ok (Live k) = hex_id (ko_hash k)"
| "payload_ok (Json _) = True"

definition identified :: "cks_objects \<Rightarrow> payload \<Rightarrow> bool" where
  "identified cks p \<longleftrightarrow> (\<forall>i. object_id_for cks p = Inr i \<longrightarrow> hex_id i)"

lemma recompute_hex: "hash_ok cks \<Longrightarrow> recompute_dict_object_id cks d = Some i \<Longrightarrow> hex_id i"
  by (auto simp: recompute_dict_object_id_def hash_ok_def split: option.splits pyval.splits prod.splits)

lemma object_id_json:
  "object_id_for cks (Json x) = Inr i \<Longrightarrow>
   \<exists>d. x = PDict d \<and> dget d ''id'' = Some (PStr i) \<and> recompute_dict_object_id cks d = Some i"
  by (auto simp: object_id_for_def split: pyval.splits option.splits if_splits)

lemma identifiedI: "hash_ok cks \<Longrightarrow> payload_ok p \<Longrightarrow> identified cks p"
  by (cases p) (auto simp: identified_def object_id_for_def dest: object_id_json intro: recompute_hex
    split: pyval.splits option.splits if_splits)

lemma object_id_errors: "object_id_for cks p = Inl e \<Longrightarrow> e = TypeError \<or> e = ObjectIdentityMismatch"
  by (auto simp: object_id_for_def split: payload.splits pyval.splits option.splits if_splits)

lemma object_type_total:
  assumes "object_id_for cks p = Inr i"
  shows "\<exists>t. object_type cks (serialize_object p i) = Inr t"
proof (cases p)
  case (Live k)
  then show ?thesis
    by (simp add: object_type_def serialize_object_def dget_or_def dict_simps Let_def)
next
  case (Json x)
  then obtain d where x: "x = PDict d" "recompute_dict_object_id cks d = Some i"
    using assms object_id_json by blast
  then obtain e where "dget d ''identity'' = Some (PDict e)" "e \<noteq> []"
    by (auto simp: recompute_dict_object_id_def dest: dget_Some_nonempty split: option.splits pyval.splits)
  then show ?thesis
    using Json x by (simp add: object_type_def serialize_object_def dget_or_def Let_def)
qed

section \<open>Rebuilding the in-memory tree\<close>

lemma rebuild_nodes:
  "list_all (\<lambda>p. length p = n) ps \<Longrightarrow>
   dget_or (fold (\<lambda>prefix nodes. rebuild_node nodes prefix) ps nodes) q E =
     (if q \<in> set ps
      then node_hash q (map (\<lambda>c. dget_or nodes (q @ [c]) EMPTY_SUBTREE_HASH) NIBBLES)
      else dget_or nodes q E)"
proof (induction ps arbitrary: nodes)
  case (Cons p ps)
  have "dget_or (rebuild_node nodes p) (r @ [c]) EMPTY_SUBTREE_HASH = dget_or nodes (r @ [c]) EMPTY_SUBTREE_HASH"
    if "length r = n" for r c
    using that Cons.prems by (auto simp: rebuild_node_def Let_def)
  then show ?case
    using Cons by (auto simp: rebuild_node_def Let_def list_all_iff)
qed simp

text \<open>The levels from \<open>n\<close> on are built, the rows above are absent.\<close>

definition nodes_from :: "(string, string) dict \<Rightarrow> string set \<Rightarrow> nat \<Rightarrow> bool" where
  "nodes_from nodes ids n \<longleftrightarrow>
     (\<forall>p. length p \<le> ID_HEX_LENGTH \<longrightarrow>
        dget_or nodes p EMPTY_SUBTREE_HASH = (if n \<le> length p then tree_hash ids p else EMPTY_SUBTREE_HASH))"

lemma under_prefixes:
  "length p = n \<Longrightarrow> under (set ids) p \<longleftrightarrow> p \<in> set (map (take n) ids)"
  unfolding under_def set_map image_iff by metis

lemma rebuild_level_step:
  assumes "nodes_from nodes (set ids) (Suc n)" and "list_all hex_id ids" and "n < ID_HEX_LENGTH"
  shows "nodes_from (rebuild_level ids n nodes) (set ids) n"
proof -
  have len: "list_all (\<lambda>p. length p = n) (remdups (map (take n) ids))"
    using assms(2,3) by (auto simp: list_all_iff hex_id_def)
  have kids: "dget_or nodes (q @ [c]) EMPTY_SUBTREE_HASH = tree_hash (set ids) (q @ [c])"
    if "length q = n" for q c
    using assms(1,3) that by (simp add: nodes_from_def)
  show ?thesis
    unfolding nodes_from_def rebuild_level_def rebuild_nodes [OF len]
  proof (intro allI impI)
    fix q :: string
    assume q: "length q \<le> ID_HEX_LENGTH"
    consider "length q = n" | "length q \<noteq> n"
      by blast
    then show "(if q \<in> set (remdups (map (take n) ids))
          then node_hash q (map (\<lambda>c. dget_or nodes (q @ [c]) EMPTY_SUBTREE_HASH) NIBBLES)
          else dget_or nodes q EMPTY_SUBTREE_HASH) =
        (if n \<le> length q then tree_hash (set ids) q else EMPTY_SUBTREE_HASH)"
    proof cases
      case 1
      then show ?thesis
        using assms q kids [OF 1] under_prefixes [OF 1] tree_hash_inner [of q "set ids"]
        by (simp add: nodes_from_def)
    next
      case 2
      then have "q \<notin> set (map (take n) ids)"
        using len by (auto simp: list_all_iff)
      then show ?thesis
        using assms(1) q 2 by (simp add: nodes_from_def)
    qed
  qed
qed

lemma rebuild_levels:
  "nodes_from nodes (set ids) n \<Longrightarrow> list_all hex_id ids \<Longrightarrow> n \<le> ID_HEX_LENGTH \<Longrightarrow>
   nodes_from (fold (rebuild_level ids) (rev [0..<n]) nodes) (set ids) 0"
proof (induction n arbitrary: nodes)
  case (Suc n)
  then show ?case
    using rebuild_level_step [of nodes ids n] by simp
qed simp

lemma rebuild_leaves: "dget (fold (\<lambda>i nodes. dset nodes i i) ids nodes) p = (if p \<in> set ids then Some p else dget nodes p)"
  by (induction ids arbitrary: nodes) auto

lemma nodes_from_start:
  assumes "list_all hex_id ids"
  shows "nodes_from (fold (\<lambda>i nodes. dset nodes i i) ids []) (set ids) ID_HEX_LENGTH"
  unfolding nodes_from_def
proof (intro allI impI)
  fix p :: string
  assume "length p \<le> ID_HEX_LENGTH"
  then consider "length p = ID_HEX_LENGTH" | "length p < ID_HEX_LENGTH"
    by linarith
  then show "dget_or (fold (\<lambda>i nodes. dset nodes i i) ids []) p EMPTY_SUBTREE_HASH =
      (if ID_HEX_LENGTH \<le> length p then tree_hash (set ids) p else EMPTY_SUBTREE_HASH)"
    using assms
    by cases (auto simp: dget_or_def rebuild_leaves tree_hash_leaf under_leaf list_all_iff hex_id_def)
qed

lemma rebuild_tree_nodes:
  assumes "list_all hex_id (dkeys (m_objects s))" and "length p \<le> ID_HEX_LENGTH"
  shows "dget_or (m_nodes (rebuild_tree s)) p EMPTY_SUBTREE_HASH = tree_hash (set (dkeys (m_objects s))) p"
  using rebuild_levels [OF nodes_from_start [OF assms(1)] assms(1)] assms(2)
  by (auto simp: rebuild_tree_def Let_def nodes_from_def dkeys_def tree_hash_not_under)


section \<open>The grow-only set\<close>

text \<open>
  The contract the gossip layer has with any backend: \<open>add\<close> inserts an identified
  payload and says whether it was new, refuses any other payload without effect, and
  \<open>root\<close> is the hash of the abstract tree of the ids held.
\<close>

locale gset_store =
  fixes ok :: "'s \<Rightarrow> bool"
    and ids :: "'s \<Rightarrow> string set"
    and ident :: "payload \<Rightarrow> exn + string"
    and add :: "time \<Rightarrow> payload \<Rightarrow> ('s, bool) sx"
    and root :: "'s \<Rightarrow> string"
  assumes add_ident: "ok s \<Longrightarrow> ident p = Inr i \<Longrightarrow> hex_id i \<Longrightarrow>
      \<exists>s'. add now p s = (Inr (i \<notin> ids s), s') \<and> ok s' \<and> ids s' = insert i (ids s)"
    and add_refused: "ident p = Inl e \<Longrightarrow> add now p s = (Inl e, s)"
    and ident_errors: "ident p = Inl e \<Longrightarrow> e = TypeError \<or> e = ObjectIdentityMismatch"
    and root_ids: "ok s \<Longrightarrow> root s = tree_hash (ids s) []"
begin

definition idents :: "payload set \<Rightarrow> string set" where
  "idents ps = {i. \<exists>p \<in> ps. ident p = Inr i}"

definition hexed :: "payload set \<Rightarrow> bool" where
  "hexed ps \<longleftrightarrow> (\<forall>p \<in> ps. \<forall>i. ident p = Inr i \<longrightarrow> hex_id i)"

lemma hexed_insert [simp]: "hexed (insert p ps) \<longleftrightarrow> (\<forall>i. ident p = Inr i \<longrightarrow> hex_id i) \<and> hexed ps"
  by (simp add: hexed_def)

lemma idents_insert: "idents (insert p ps) = (case ident p of Inl _ \<Rightarrow> idents ps | Inr i \<Rightarrow> insert i (idents ps))"
  by (auto simp: idents_def split: sum.splits)

lemma finite_idents: "finite ps \<Longrightarrow> finite (idents ps)"
  by (induction ps rule: finite_induct) (auto simp: idents_insert split: sum.splits, simp add: idents_def)

lemma merge_loop_result:
  assumes "ok s" and "hexed (snd ` set ps)"
  shows "\<exists>s'. merge_loop add ps c s = (Inr (c + card (idents (snd ` set ps) - ids s)), s') \<and>
           ok s' \<and> ids s' = ids s \<union> idents (snd ` set ps)"
  using assms
proof (induction ps arbitrary: c s)
  case Nil
  then show ?case
    by (simp add: idents_def)
next
  case (Cons np ps)
  obtain now p where np: "np = (now, p)"
    by fastforce
  show ?case
  proof (cases "ident p")
    case (Inl e)
    then show ?thesis
      using Cons.IH [OF Cons.prems(1), of c] Cons.prems(2) add_refused [OF Inl] ident_errors [OF Inl]
      by (auto simp: np idents_insert)
  next
    case (Inr i)
    obtain s1 where s1: "add now p s = (Inr (i \<notin> ids s), s1)" "ok s1" "ids s1 = insert i (ids s)"
      using add_ident [of s p i now] Cons.prems Inr by (auto simp: np)
    let ?I = "idents (snd ` set ps)"
    have "finite (?I - insert i (ids s))"
      by (simp add: finite_idents)
    moreover have "insert i ?I - ids s =
        (if i \<notin> ids s then insert i (?I - insert i (ids s)) else ?I - insert i (ids s))"
      by auto
    ultimately have card: "(if i \<notin> ids s then c + 1 else c) + card (?I - insert i (ids s))
        = c + card (insert i ?I - ids s)"
      by simp
    show ?thesis
      using Cons.IH [OF s1(2), of "if i \<notin> ids s then c + 1 else c"] Cons.prems(2) s1 card
      by (auto simp: np Inr idents_insert)
  qed
qed

lemma merge_loop_ids:
  "ok s \<Longrightarrow> hexed (snd ` set ps) \<Longrightarrow>
   ids (snd (merge_loop add ps c s)) = ids s \<union> idents (snd ` set ps)"
  using merge_loop_result [of s ps c] by fastforce

lemma merge_loop_root:
  "ok s \<Longrightarrow> hexed (snd ` set ps) \<Longrightarrow>
   root (snd (merge_loop add ps c s)) = tree_hash (ids s \<union> idents (snd ` set ps)) []"
  using merge_loop_result [of s ps c] root_ids by fastforce

lemma merge_loop_again:
  assumes "ok s" and "hexed (snd ` set ps)"
    and "snd ` set qs \<subseteq> snd ` set ps"
  shows "fst (merge_loop add qs 0 (snd (merge_loop add ps c s))) = Inr 0"
proof -
  obtain s' where s': "merge_loop add ps c s = (Inr (c + card (idents (snd ` set ps) - ids s)), s')"
    "ok s'" "ids s' = ids s \<union> idents (snd ` set ps)"
    using merge_loop_result [of s ps c] assms by blast
  have "idents (snd ` set qs) \<subseteq> idents (snd ` set ps)" "hexed (snd ` set qs)"
    using assms(2,3) unfolding idents_def hexed_def by blast+
  moreover from this(1) have "card (idents (snd ` set qs) - ids s') = 0"
    using s'(3) by (metis Diff_eq_empty_iff card.empty le_supI2)
  ultimately show ?thesis
    using merge_loop_result [OF s'(2), of qs 0] by (auto simp: s'(1))
qed

end

definition store_ok :: "sql_store \<Rightarrow> bool" where
  "store_ok s \<longleftrightarrow>
     list_all hex_id (dkeys (objects s)) \<and> tree_repr (merkle s) (set (dkeys (objects s)))"

definition store_ids :: "sql_store \<Rightarrow> string set" where
  "store_ids s = set (dkeys (objects s))"

definition mem_ok :: "mem_store \<Rightarrow> bool" where
  "mem_ok s \<longleftrightarrow> list_all hex_id (dkeys (m_objects s)) \<and>
     (m_tree_dirty s \<or>
      (\<forall>p. length p \<le> ID_HEX_LENGTH \<longrightarrow>
         dget_or (m_nodes s) p EMPTY_SUBTREE_HASH = tree_hash (set (dkeys (m_objects s))) p))"

definition mem_ids :: "mem_store \<Rightarrow> string set" where
  "mem_ids s = set (dkeys (m_objects s))"

lemma store_ok_empty [simp]: "store_ok empty_store" "store_ids empty_store = {}"
  by (simp_all add: store_ok_def store_ids_def empty_store_def dkeys_def tree_repr_Nil)

lemma mem_ok_empty [simp]: "mem_ok empty_mem" "mem_ids empty_mem = {}"
  by (simp_all add: mem_ok_def mem_ids_def empty_mem_def dkeys_def)

lemma add_object_ident:
  assumes "store_ok s" and "object_id_for cks p = Inr i" and "hex_id i"
  shows "\<exists>s'. add_object cks now p s = (Inr (i \<notin> store_ids s), s') \<and> store_ok s' \<and>
           store_ids s' = insert i (store_ids s)"
proof -
  obtain ty where ty: "object_type cks (serialize_object p i) = Inr ty"
    using object_type_total [OF assms(2)] by blast
  have "tree_repr (merkle s) (store_ids s)"
    using assms(1) by (simp add: store_ok_def store_ids_def)
  then obtain t where t: "update_merkle_path (merkle s) i = Inr t" "tree_repr t (insert i (store_ids s))"
    using update_merkle_path_repr [of _ _ i] validate_hex_id [OF assms(3)] assms(3)
    by (fastforce simp: lower_hex hex_id_def)
  show ?thesis
    using assms ty t
    by (auto simp: add_object_def Let_def dhas_iff store_ids_def store_ok_def list_all_iff insert_absorb)
qed

lemma trigger_update_eq:
  "level_ok t \<Longrightarrow> hex_id i \<Longrightarrow> trigger_update_merkle t i = merkle_add i t"
  using pg_update_eq [of t i] validate_hex_id [of i]
  by (auto simp: trigger_update_merkle_def merkle_add_def pg_update_merkle_path_def ID_HEX_LENGTH_def Let_def
    split: sum.splits)

lemma pg_add_object_ident:
  assumes "store_ok s" and "object_id_for cks p = Inr i" and "hex_id i"
  shows "\<exists>s'. pg_add_object cks now p s = (Inr (i \<notin> store_ids s), s') \<and> store_ok s' \<and>
           store_ids s' = insert i (store_ids s)"
proof -
  obtain ty where ty: "object_type cks (serialize_object p i) = Inr ty"
    using object_type_total [OF assms(2)] by blast
  have low: "lower i = i" "validate_id i" "\<not> length i > 64"
    using assms(3) validate_hex_id by (auto simp: lower_hex hex_id_def ID_HEX_LENGTH_def)
  have repr: "tree_repr (trigger_update_merkle (merkle s) i) (insert i (store_ids s))"
    using assms merkle_add_repr [of "merkle s" "store_ids s" i] tree_repr_level [of "merkle s" "store_ids s"]
    by (simp add: trigger_update_eq store_ok_def store_ids_def)
  then obtain t where t: "pg_update_merkle_path (trigger_update_merkle (merkle s) i) i = Inr t"
    "tree_repr t (insert i (store_ids s))"
    using update_merkle_path_repr [OF repr low(2)] low(1) by (auto simp: pg_update_eq tree_repr_level)
  show ?thesis
    using assms ty t low
    by (auto simp: pg_add_object_def Let_def dhas_iff store_ids_def store_ok_def list_all_iff insert_absorb)
qed

lemma mem_add_object_ident:
  assumes "mem_ok s" and "object_id_for cks p = Inr i" and "hex_id i"
  shows "\<exists>s'. mem_add_object cks now p s = (Inr (i \<notin> mem_ids s), s') \<and> mem_ok s' \<and>
           mem_ids s' = insert i (mem_ids s)"
  using assms by (auto simp: mem_add_object_def dhas_iff mem_ids_def mem_ok_def list_all_iff insert_absorb)

lemma mem_root_hash: "mem_ok s \<Longrightarrow> fst (mem_get_root_hash s) = tree_hash (mem_ids s) []"
  using rebuild_tree_nodes [of s "[]"] by (auto simp: mem_get_root_hash_def mem_ok_def mem_ids_def Let_def)

lemma store_root_ids: "store_ok s \<Longrightarrow> store_root_hash s = tree_hash (store_ids s) []"
  by (simp add: store_root_hash_def tree_repr_root store_ok_def store_ids_def)

lemma add_object_refused:
  "object_id_for cks p = Inl e \<Longrightarrow> add_object cks now p s = (Inl e, s)"
  "object_id_for cks p = Inl e \<Longrightarrow> pg_add_object cks now p s = (Inl e, s)"
  "object_id_for cks p = Inl e \<Longrightarrow> mem_add_object cks now p s' = (Inl e, s')"
  by (simp_all add: add_object_def pg_add_object_def mem_add_object_def)

interpretation sqlite_gset: gset_store store_ok store_ids "object_id_for cks" "add_object cks" store_root_hash
  for cks
  by unfold_locales (simp_all add: add_object_ident add_object_refused object_id_errors store_root_ids)

interpretation pg_gset: gset_store store_ok store_ids "object_id_for cks" "pg_add_object cks" store_root_hash
  for cks
  by unfold_locales (simp_all add: pg_add_object_ident add_object_refused object_id_errors store_root_ids)

interpretation mem_gset:
  gset_store mem_ok mem_ids "object_id_for cks" "mem_add_object cks" "\<lambda>s. fst (mem_get_root_hash s)"
  for cks
  by unfold_locales (simp_all add: mem_add_object_ident add_object_refused object_id_errors mem_root_hash)


section \<open>The multi-value register\<close>

text \<open>
  The abstract register: for each key, the competing objects with their vectors and
  origins.  A write loses to any other pointer that dominates it; otherwise it replaces
  every pointer it does not run concurrently with.
\<close>

type_synonym mv_view = "string \<Rightarrow> string \<Rightarrow> (crdt_vector \<times> string) option"

definition mv_stale :: "(string \<Rightarrow> (crdt_vector \<times> string) option) \<Rightarrow> string \<Rightarrow> crdt_vector \<Rightarrow> bool" where
  "mv_stale b i vv \<longleftrightarrow> (\<exists>j w o'. j \<noteq> i \<and> b j = Some (w, o') \<and> causality_check vv w = DOMINATED)"

definition mv_write ::
  "(string \<Rightarrow> (crdt_vector \<times> string) option) \<Rightarrow> string \<Rightarrow> crdt_vector \<Rightarrow> string
     \<Rightarrow> string \<Rightarrow> (crdt_vector \<times> string) option" where
  "mv_write b i vv origin j =
     (if j = i then Some (vv, origin)
      else case b j of
             Some (w, o') \<Rightarrow> if causality_check vv w = CONCURRENT then Some (w, o') else None
           | None \<Rightarrow> None)"

text \<open>The pointers of a key are pairwise concurrent.\<close>

definition antichain :: "(string \<Rightarrow> (crdt_vector \<times> string) option) \<Rightarrow> bool" where
  "antichain b \<longleftrightarrow>
     (\<forall>i j v w o1 o2. b i = Some (v, o1) \<longrightarrow> b j = Some (w, o2) \<longrightarrow> i \<noteq> j \<longrightarrow> causality_check v w = CONCURRENT)"

text \<open>Some pointer reflects at least what \<open>vv\<close> reflects.\<close>

definition covered :: "(string \<Rightarrow> (crdt_vector \<times> string) option) \<Rightarrow> crdt_vector \<Rightarrow> bool" where
  "covered b vv \<longleftrightarrow> (\<exists>i w o'. b i = Some (w, o') \<and> cvv_le vv w)"

lemma antichain_empty [simp]: "antichain (\<lambda>_. None)"
  by (simp add: antichain_def)

lemma mv_write_antichain: "antichain b \<Longrightarrow> antichain (mv_write b i vv origin)"
  unfolding antichain_def mv_write_def by (auto split: if_splits option.splits)

lemma mv_write_covers_new: "covered (mv_write b i vv origin) vv"
  by (auto simp: covered_def mv_write_def)

lemma mv_write_covers_old:
  assumes "covered b u" and "\<not> mv_stale b i vv"
    and same: "\<And>w o'. b i = Some (w, o') \<Longrightarrow> cvv_le w vv"
  shows "covered (mv_write b i vv origin) u"
proof -
  obtain j w o' where j: "b j = Some (w, o')" "cvv_le u w"
    using assms(1) by (auto simp: covered_def)
  show ?thesis
  proof (cases "cvv_le w vv")
    case True
    then have "cvv_le u vv"
      using j(2) cvv_le_trans by blast
    then show ?thesis
      by (auto simp: covered_def mv_write_def)
  next
    case False
    then have "j \<noteq> i"
      using same j(1) by blast
    moreover from this have "\<not> cvv_le vv w"
      using assms(2) j(1) False by (auto simp: mv_stale_def)
    ultimately show ?thesis
      using j False by (auto simp: covered_def mv_write_def intro!: exI [of _ j])
  qed
qed

text \<open>The contract of a backend's register.\<close>

locale mv_store =
  fixes ok :: "'s \<Rightarrow> bool"
    and view :: "'s \<Rightarrow> mv_view"
    and update :: "string \<Rightarrow> string \<Rightarrow> crdt_vector \<Rightarrow> string \<Rightarrow> time \<Rightarrow> 's \<Rightarrow> bool \<times> 's"
    and resolve :: "string \<Rightarrow> string \<Rightarrow> 's \<Rightarrow> bool \<times> 's"
  assumes ok_update: "ok s \<Longrightarrow> ok (snd (update k i vv origin now s))"
    and fst_update: "ok s \<Longrightarrow> fst (update k i vv origin now s) = (\<not> mv_stale (view s k) i vv)"
    and view_update: "ok s \<Longrightarrow> view (snd (update k i vv origin now s)) =
        (if mv_stale (view s k) i vv then view s else (view s)(k := mv_write (view s k) i vv origin))"
    and ok_resolve: "ok s \<Longrightarrow> ok (snd (resolve k i s))"
    and fst_resolve: "ok s \<Longrightarrow> fst (resolve k i s) = (view s k i \<noteq> None)"
    and view_resolve: "ok s \<Longrightarrow> view (snd (resolve k i s)) =
        (if view s k i = None then view s else (view s)(k := (\<lambda>j. if j = i then view s k i else None)))"
begin

lemma update_antichain:
  "ok s \<Longrightarrow> antichain (view s k') \<Longrightarrow> antichain (view (snd (update k i vv origin now s)) k')"
  by (cases "k' = k") (simp_all add: view_update mv_write_antichain)

lemma resolve_antichain:
  "ok s \<Longrightarrow> antichain (view s k') \<Longrightarrow> antichain (view (snd (resolve k i s)) k')"
  by (auto simp: view_resolve antichain_def split: if_splits)

lemma update_covers:
  "ok s \<Longrightarrow> covered (view s k) u \<Longrightarrow> (\<And>w o'. view s k i = Some (w, o') \<Longrightarrow> cvv_le w vv) \<Longrightarrow>
   covered (view (snd (update k i vv origin now s)) k) u \<and>
   covered (view (snd (update k i vv origin now s)) k) vv"
  using mv_write_covers_old mv_write_covers_new
  by (auto simp: view_update mv_stale_def) (auto simp: covered_def)

lemma resolve_alone:
  "ok s \<Longrightarrow> view s k i \<noteq> None \<Longrightarrow> dom (view (snd (resolve k i s)) k) = {i}"
  by (auto simp: view_resolve split: if_splits)

end


lemma scan_pointers_result:
  "scan_pointers i vv es acc =
     (if \<exists>(j, w) \<in> set es. j \<noteq> i \<and> causality_check vv w = DOMINATED then None
      else Some (acc @ map fst (filter (\<lambda>(j, w). causality_check vv w \<noteq> CONCURRENT \<and> j \<noteq> i) es)))"
proof (induction es arbitrary: acc)
  case (Cons e es)
  then show ?case
    by (cases e) (auto simp: Let_def simp del: causality_iffs)
qed simp

lemma rows_of_iff: "(j, r) \<in> set (rows_of k t) \<longleftrightarrow> ((k, j), r) \<in> set t"
  by (force simp: rows_of_def)

lemma dget_fold_dpop:
  "dget (fold (\<lambda>i t. dpop t (k, i)) ds t) (k', j) = (if k' = k \<and> j \<in> set ds then None else dget t (k', j))"
  by (induction ds arbitrary: t) auto

lemma dict_ok_fold_dpop: "dict_ok t \<Longrightarrow> dict_ok (fold (\<lambda>i t. dpop t (f i)) ds t)"
  by (induction ds arbitrary: t) auto

lemma dget_fold_dpop_flat:
  "dget (fold (\<lambda>i b. dpop b i) ds b) j = (if j \<in> set ds then None else dget b j)"
  by (induction ds arbitrary: b) auto

lemma dict_ok_filter: "dict_ok d \<Longrightarrow> dict_ok (filter P d)"
  by (simp add: dict_ok_def dkeys_def distinct_map_filter)

lemma in_map_fst_filter: "j \<in> set (map fst (filter P xs)) \<longleftrightarrow> (\<exists>w. (j, w) \<in> set xs \<and> P (j, w))"
  by force

definition register_ok :: "sql_store \<Rightarrow> bool" where
  "register_ok s = dict_ok (mv_register s)"

definition register_view :: "sql_store \<Rightarrow> mv_view" where
  "register_view s k i =
     map_option (\<lambda>r. (cvv_from_dict (pt_clock r), pt_origin r)) (dget (mv_register s) (k, i))"

abbreviation existing_pointers :: "string \<Rightarrow> sql_store \<Rightarrow> (string \<times> crdt_vector) list" where
  "existing_pointers k s \<equiv> map (\<lambda>(i, r). (i, cvv_from_dict (pt_clock r))) (rows_of k (mv_register s))"

lemma existing_pointers_iff:
  "register_ok s \<Longrightarrow> (j, w) \<in> set (existing_pointers k s) \<longleftrightarrow> (\<exists>o'. register_view s k j = Some (w, o'))"
  by (force simp: rows_of_iff register_ok_def register_view_def dget_Some_iff [symmetric])

lemma register_scan:
  assumes "register_ok s"
  shows "scan_pointers i vv (existing_pointers k s) [] =
     (if mv_stale (register_view s k) i vv then None
      else Some (map fst (filter (\<lambda>(j, w). causality_check vv w \<noteq> CONCURRENT \<and> j \<noteq> i) (existing_pointers k s))))"
proof -
  have "(\<exists>(j, w) \<in> set (existing_pointers k s). j \<noteq> i \<and> causality_check vv w = DOMINATED)
      = mv_stale (register_view s k) i vv"
    using existing_pointers_iff [OF assms, of _ _ k] unfolding mv_stale_def by blast
  then show ?thesis
    unfolding scan_pointers_result by simp
qed

definition register_stored :: "string \<Rightarrow> string \<Rightarrow> crdt_vector \<Rightarrow> string \<Rightarrow> time \<Rightarrow> sql_store \<Rightarrow> sql_store" where
  "register_stored k i vv origin now s =
     s\<lparr>mv_register := upsert_pointer
         (fold (\<lambda>stale t. dpop t (k, stale))
            (map fst (filter (\<lambda>(j, w). causality_check vv w \<noteq> CONCURRENT \<and> j \<noteq> i) (existing_pointers k s)))
            (mv_register s)) k i vv origin now\<rparr>"

lemma register_stored_view:
  assumes "register_ok s"
  shows "register_view (register_stored k i vv origin now s) =
     (register_view s)(k := mv_write (register_view s k) i vv origin)"
proof (intro ext)
  fix k' j
  let ?ds = "map fst (filter (\<lambda>(j, w). causality_check vv w \<noteq> CONCURRENT \<and> j \<noteq> i) (existing_pointers k s))"
  have "j \<in> set ?ds \<longleftrightarrow> (\<exists>w. (j, w) \<in> set (existing_pointers k s) \<and> causality_check vv w \<noteq> CONCURRENT \<and> j \<noteq> i)"
    unfolding in_map_fst_filter by simp
  then have "j \<in> set ?ds \<longleftrightarrow>
      (\<exists>w o'. register_view s k j = Some (w, o') \<and> causality_check vv w \<noteq> CONCURRENT \<and> j \<noteq> i)"
    using existing_pointers_iff [OF assms] by blast
  then show "register_view (register_stored k i vv origin now s) k' j =
      ((register_view s)(k := mv_write (register_view s k) i vv origin)) k' j"
    by (auto simp: register_view_def register_stored_def upsert_pointer_def dget_fold_dpop mv_write_def
        simp del: causality_iffs set_map split: option.splits)
qed

lemma register_stored_ok: "register_ok s \<Longrightarrow> register_ok (register_stored k i vv origin now s)"
  by (simp add: register_ok_def register_stored_def upsert_pointer_def dict_ok_fold_dpop)

lemma update_pointer_eq:
  "register_ok s \<Longrightarrow>
   update_pointer k i vv origin now s =
     (if mv_stale (register_view s k) i vv then (False, s) else (True, register_stored k i vv origin now s))"
  by (simp add: update_pointer_def register_scan register_stored_def Let_def)

lemma pg_update_pointer_eq:
  "register_ok s \<Longrightarrow> length k \<le> 255 \<Longrightarrow> length i \<le> 64 \<Longrightarrow> length origin \<le> 64 \<Longrightarrow>
   pg_update_pointer k i vv origin now s =
     (case update_pointer k i vv origin now s of (b, s') \<Rightarrow> (Inr b, s'))"
  by (simp add: pg_update_pointer_def update_pointer_def Let_def split: option.splits)

lemma resolve_pointer_view:
  "register_view (snd (resolve_pointer k i s)) =
     (if register_view s k i = None then register_view s
      else (register_view s)(k := (\<lambda>j. if j = i then register_view s k i else None)))"
proof -
  have "dget (filter (\<lambda>((k', j), _). \<not> (k' = k \<and> j \<noteq> i)) t) (k', j) =
      (if k' = k \<and> j \<noteq> i then None else dget t (k', j))" for t :: "(string \<times> string, pointer_row) dict" and k' j
    using dget_filter_key [of "\<lambda>(k', j). \<not> (k' = k \<and> j \<noteq> i)" t "(k', j)"] by (simp add: case_prod_unfold)
  then show ?thesis
    by (auto simp: resolve_pointer_def register_view_def dhas_def fun_eq_iff)
qed

interpretation sqlite_mv: mv_store register_ok register_view update_pointer resolve_pointer
proof unfold_locales
  fix s k i
  show "fst (resolve_pointer k i s) = (register_view s k i \<noteq> None)"
    by (auto simp: resolve_pointer_def register_view_def dhas_def)
  show "register_ok s \<Longrightarrow> register_ok (snd (resolve_pointer k i s))"
    by (simp add: resolve_pointer_def register_ok_def dict_ok_filter)
qed (simp_all add: update_pointer_eq register_stored_ok register_stored_view resolve_pointer_view)


definition mem_register_ok :: "mem_store \<Rightarrow> bool" where
  "mem_register_ok s \<longleftrightarrow> (\<forall>k. dict_ok (dget_or (m_pointers s) k []))"

definition mem_register_view :: "mem_store \<Rightarrow> mv_view" where
  "mem_register_view s k i = map_option (\<lambda>(v, origin, _). (v, origin)) (dget (dget_or (m_pointers s) k []) i)"

lemma bucket_scan:
  assumes "dict_ok b"
  shows "scan_pointers i vv (map (\<lambda>(i, v, _). (i, v)) b) [] =
     (if mv_stale (\<lambda>j. map_option (\<lambda>(v, origin, _). (v, origin)) (dget b j)) i vv then None
      else Some (map fst (filter (\<lambda>(j, w). causality_check vv w \<noteq> CONCURRENT \<and> j \<noteq> i)
                            (map (\<lambda>(i, v, _). (i, v)) b))))"
proof -
  have "(\<exists>(j, w) \<in> set (map (\<lambda>(i, v, _). (i, v)) b). j \<noteq> i \<and> causality_check vv w = DOMINATED) =
      mv_stale (\<lambda>j. map_option (\<lambda>(v, origin, _). (v, origin)) (dget b j)) i vv"
    unfolding mv_stale_def by (force simp: dget_Some_iff [OF assms] simp del: causality_iffs)
  then show ?thesis
    unfolding scan_pointers_result by simp
qed

definition bucket_stored ::
  "string \<Rightarrow> crdt_vector \<Rightarrow> string \<Rightarrow> time \<Rightarrow> (string, crdt_vector \<times> string \<times> time) dict
     \<Rightarrow> (string, crdt_vector \<times> string \<times> time) dict" where
  "bucket_stored i vv origin now b =
     dset (fold (\<lambda>stale b. dpop b stale)
       (map fst (filter (\<lambda>(j, w). causality_check vv w \<noteq> CONCURRENT \<and> j \<noteq> i) (map (\<lambda>(i, v, _). (i, v)) b))) b)
       i (vv, origin, now)"

lemma bucket_stored_view:
  assumes "dict_ok b"
  shows "map_option (\<lambda>(v, origin, _). (v, origin)) (dget (bucket_stored i vv origin now b) j) =
     mv_write (\<lambda>j. map_option (\<lambda>(v, origin, _). (v, origin)) (dget b j)) i vv origin j"
proof -
  let ?ds = "map fst (filter (\<lambda>(j, w). causality_check vv w \<noteq> CONCURRENT \<and> j \<noteq> i) (map (\<lambda>(i, v, _). (i, v)) b))"
  have "j \<in> set ?ds \<longleftrightarrow> (\<exists>w o' c. dget b j = Some (w, o', c) \<and> causality_check vv w \<noteq> CONCURRENT \<and> j \<noteq> i)"
    unfolding in_map_fst_filter by (force simp: dget_Some_iff [OF assms] simp del: causality_iffs)
  then show ?thesis
    by (auto simp: bucket_stored_def dget_fold_dpop_flat mv_write_def simp del: causality_iffs set_map
        split: option.splits)
qed

lemma dict_ok_bucket: "dict_ok b \<Longrightarrow> dict_ok (bucket_stored i vv origin now b)"
  by (simp add: bucket_stored_def dict_ok_fold_dpop [where f = "\<lambda>i. i"])

lemma mem_update_pointer_eq:
  "mem_register_ok s \<Longrightarrow>
   mem_update_pointer k i vv origin now s =
     (let b = dget_or (m_pointers s) k []; p = dset (m_pointers s) k b
      in if mv_stale (mem_register_view s k) i vv then (False, s\<lparr>m_pointers := p\<rparr>)
         else (True, s\<lparr>m_pointers := dset p k (bucket_stored i vv origin now b)\<rparr>))"
  by (simp add: mem_update_pointer_def mem_register_ok_def bucket_scan mem_register_view_def [abs_def]
      bucket_stored_def Let_def)

interpretation mem_mv: mv_store mem_register_ok mem_register_view mem_update_pointer mem_resolve_pointer
proof unfold_locales
  fix s k i vv origin now
  assume ok: "mem_register_ok s"
  show "mem_register_ok (snd (mem_update_pointer k i vv origin now s))"
    using ok dict_ok_bucket by (simp add: mem_update_pointer_eq Let_def) (simp add: mem_register_ok_def)
  show "mem_register_view (snd (mem_update_pointer k i vv origin now s)) =
      (if mv_stale (mem_register_view s k) i vv then mem_register_view s
       else (mem_register_view s)(k := mv_write (mem_register_view s k) i vv origin))"
    using ok bucket_stored_view
    by (auto simp: mem_update_pointer_eq Let_def)
      (auto simp: mem_register_view_def [abs_def] mem_register_ok_def fun_eq_iff)
  show "mem_register_ok (snd (mem_resolve_pointer k i s))"
    using ok by (auto simp: mem_resolve_pointer_def mem_register_ok_def dict_ok_Cons split: option.splits)
qed (auto simp: mem_update_pointer_eq mem_resolve_pointer_def mem_register_view_def dget_or_def fun_eq_iff Let_def
      dict_simps split: option.splits)

section \<open>Fork events\<close>

text \<open>What the consumers of forks may count on, for the SQL and for the in-memory table.\<close>

locale fork_log =
  fixes pending :: "'s \<Rightarrow> (string \<times> fork_row) list"
    and log :: "'s \<Rightarrow> (string, fork_row) dict"
    and escalate :: "string \<Rightarrow> time \<Rightarrow> string \<Rightarrow> string list \<Rightarrow> pyval list \<Rightarrow> 's \<Rightarrow> 's"
    and mark :: "string \<Rightarrow> 's \<Rightarrow> 's"
  assumes pending_log: "set (pending s) = {(e, r) \<in> set (log s). fk_status r = PENDING}"
    and log_escalate: "e \<notin> set (dkeys (log s)) \<Longrightarrow>
      log (escalate e now k os vs s) = log s @ [(e, \<lparr>fk_pointer = k, fk_objects = os, fk_clocks = vs,
         fk_status = PENDING, fk_created = now\<rparr>)]"
    and log_mark: "log (mark e s) =
      (case dget (log s) e of None \<Rightarrow> log s | Some r \<Rightarrow> dset (log s) e (r\<lparr>fk_status := RESOLVED\<rparr>))"
begin

lemma pending_escalate:
  "e \<notin> set (dkeys (log s)) \<Longrightarrow>
   set (pending (escalate e now k os vs s)) =
     insert (e, \<lparr>fk_pointer = k, fk_objects = os, fk_clocks = vs, fk_status = PENDING, fk_created = now\<rparr>)
       (set (pending s))"
  by (auto simp: pending_log log_escalate)

lemma pending_mark:
  assumes "dict_ok (log s)"
  shows "set (pending (mark e s)) = {(e', r) \<in> set (pending s). e' \<noteq> e}"
proof -
  have "(e', r) \<in> set (pending (mark e s)) \<longleftrightarrow> (e', r) \<in> set (pending s) \<and> e' \<noteq> e" for e' r
    by (auto simp: pending_log dget_Some_iff [OF dict_ok_dset [OF assms], symmetric]
        dget_Some_iff [OF assms, symmetric] log_mark split: option.splits if_splits)
  then show ?thesis
    by auto
qed

end

lemma mark_fork_log:
  "conflicts (mark_fork_resolved e s) =
     (case dget (conflicts s) e of None \<Rightarrow> conflicts s | Some r \<Rightarrow> dset (conflicts s) e (r\<lparr>fk_status := RESOLVED\<rparr>))"
  by (simp add: mark_fork_resolved_def split: option.splits)

interpretation sql_forks: fork_log list_pending_forks conflicts
  "\<lambda>e now k os vs s. snd (escalate_fork e now k os vs s)" mark_fork_resolved
  by unfold_locales
    (auto simp: list_pending_forks_def escalate_fork_def mark_fork_log dset_new dhas_iff)

interpretation mem_forks: fork_log mem_list_pending_forks m_conflicts
  "\<lambda>e now k os vs s. snd (mem_escalate_fork e now k os vs s)" mem_mark_fork_resolved
  by unfold_locales
    (auto simp: mem_list_pending_forks_def mem_escalate_fork_def mem_mark_fork_resolved_def dset_new
      split: option.splits)


section \<open>Runs of register operations\<close>

datatype mv_op =
    Update string string crdt_vector string time
  | Resolve string string

fun mv_step ::
  "(string \<Rightarrow> string \<Rightarrow> crdt_vector \<Rightarrow> string \<Rightarrow> time \<Rightarrow> 's \<Rightarrow> bool \<times> 's)
     \<Rightarrow> (string \<Rightarrow> string \<Rightarrow> 's \<Rightarrow> bool \<times> 's) \<Rightarrow> mv_op \<Rightarrow> 's \<Rightarrow> bool \<times> 's" where
  "mv_step upd res (Update k i vv origin now) s = upd k i vv origin now s"
| "mv_step upd res (Resolve k i) s = res k i s"

fun mv_run ::
  "(string \<Rightarrow> string \<Rightarrow> crdt_vector \<Rightarrow> string \<Rightarrow> time \<Rightarrow> 's \<Rightarrow> bool \<times> 's)
     \<Rightarrow> (string \<Rightarrow> string \<Rightarrow> 's \<Rightarrow> bool \<times> 's) \<Rightarrow> mv_op list \<Rightarrow> 's \<Rightarrow> bool list \<times> 's" where
  "mv_run upd res [] s = ([], s)"
| "mv_run upd res (p # ps) s =
     (case mv_step upd res p s of
        (b, s') \<Rightarrow> case mv_run upd res ps s' of (bs, s'') \<Rightarrow> (b # bs, s''))"

text \<open>One operation on the abstract register.\<close>

definition spec_step :: "mv_op \<Rightarrow> mv_view \<Rightarrow> bool \<times> mv_view" where
  "spec_step p V =
     (case p of
        Update k i vv origin now \<Rightarrow>
          if mv_stale (V k) i vv then (False, V) else (True, V(k := mv_write (V k) i vv origin))
      | Resolve k i \<Rightarrow>
          if V k i = None then (False, V) else (True, V(k := (\<lambda>j. if j = i then V k i else None))))"

context mv_store
begin

lemma step_spec:
  "ok s \<Longrightarrow> ok (snd (mv_step update resolve p s)) \<and>
     (fst (mv_step update resolve p s), view (snd (mv_step update resolve p s))) = spec_step p (view s)"
  by (cases p)
    (auto simp: spec_step_def ok_update ok_resolve fst_update fst_resolve view_update view_resolve)

lemma run_antichain:
  "ok s \<Longrightarrow> (\<And>k. antichain (view s k)) \<Longrightarrow> antichain (view (snd (mv_run update resolve ps s)) k)"
proof (induction ps arbitrary: s)
  case (Cons p ps)
  have "antichain (view (snd (mv_step update resolve p s)) k)" for k
    using Cons.prems by (cases p) (simp_all add: update_antichain resolve_antichain)
  then show ?case
    using Cons.IH [of "snd (mv_step update resolve p s)"] step_spec [OF Cons.prems(1), of p]
    by (auto split: prod.splits)
qed simp

end

lemma run_same:
  "register_ok s \<Longrightarrow> mem_register_ok m \<Longrightarrow> register_view s = mem_register_view m \<Longrightarrow>
   fst (mv_run update_pointer resolve_pointer ps s) = fst (mv_run mem_update_pointer mem_resolve_pointer ps m) \<and>
   register_view (snd (mv_run update_pointer resolve_pointer ps s)) =
     mem_register_view (snd (mv_run mem_update_pointer mem_resolve_pointer ps m))"
proof (induction ps arbitrary: s m)
  case (Cons p ps)
  obtain b s' where s': "mv_step update_pointer resolve_pointer p s = (b, s')"
    by fastforce
  obtain c m' where m': "mv_step mem_update_pointer mem_resolve_pointer p m = (c, m')"
    by fastforce
  have "register_ok s'" "mem_register_ok m'" "b = c" "register_view s' = mem_register_view m'"
    using sqlite_mv.step_spec [OF Cons.prems(1), of p] mem_mv.step_spec [OF Cons.prems(2), of p] Cons.prems(3)
    unfolding s' m' by simp_all (metis prod.inject)+
  then show ?case
    using Cons.IH [of s' m'] by (auto simp: s' m' split: prod.splits)
qed simp

lemma view_empty [simp]:
  "register_ok empty_store" "mem_register_ok empty_mem"
  "register_view empty_store = (\<lambda>_ _. None)" "mem_register_view empty_mem = (\<lambda>_ _. None)"
  by (simp_all add: register_ok_def mem_register_ok_def register_view_def mem_register_view_def
      empty_store_def empty_mem_def fun_eq_iff)

section \<open>Retries\<close>

text \<open>A function that plays back a list of outcomes, one for each call.\<close>

fun playback :: "((exn + 'a) list, 'a) sx" where
  "playback [] = (Inl OtherException, [])"
| "playback (r # rs) = (r, rs)"

fun locked_error :: "exn + 'a \<Rightarrow> bool" where
  "locked_error (Inl (OperationalError msg)) = contains ''locked'' (lower msg)"
| "locked_error _ = False"

lemma locked_errorE:
  assumes "locked_error r"
  obtains msg where "r = Inl (OperationalError msg)" "contains ''locked'' (lower msg)"
  using assms by (cases r rule: locked_error.cases) auto

abbreviation play_retry :: "nat \<Rightarrow> nat \<Rightarrow> (exn + 'a) list \<Rightarrow> (exn + 'a) \<times> (exn + 'a) list \<times> nat list" where
  "play_retry \<equiv> \<lambda>left attempt. retry_loop (\<lambda>msg. contains ''locked'' (lower msg)) left attempt playback"

lemma play_retry_stop:
  "\<not> locked_error r \<Longrightarrow> 0 < left \<Longrightarrow> play_retry left attempt (r # rest) = (r, rest, [])"
  by (cases left) (auto split: sum.splits exn.splits)

lemma play_retry_locked:
  "locked_error r \<Longrightarrow> 0 < left \<Longrightarrow>
   play_retry (Suc left) attempt (r # rest) =
     (case play_retry left (attempt + 1) rest of (x, s, ds) \<Rightarrow> (x, s, 2 ^ attempt # ds))"
  by (erule locked_errorE) simp

lemma play_retry_last: "locked_error r \<Longrightarrow> play_retry (Suc 0) attempt (r # rest) = (r, rest, [])"
  by (erule locked_errorE) simp

lemma play_retry_run:
  "list_all locked_error fails \<Longrightarrow> \<not> locked_error r \<Longrightarrow> length fails < left \<Longrightarrow>
   play_retry left attempt (fails @ r # rest) = (r, rest, map (\<lambda>i. 2 ^ (attempt + i)) [0..<length fails])"
proof (induction fails arbitrary: left attempt)
  case (Cons f fails)
  obtain l where l: "left = Suc l" "0 < l"
    using Cons.prems(3) by (cases left) auto
  have "[0..<length (f # fails)] = 0 # map Suc [0..<length fails]"
    by (simp add: upt_conv_Cons map_Suc_upt del: upt_Suc)
  then show ?case
    using Cons l by (simp add: play_retry_locked del: retry_loop.simps upt_Suc)
qed (simp add: play_retry_stop)

lemma play_retry_exhausted:
  "list_all locked_error fails \<Longrightarrow> length fails = Suc left \<Longrightarrow>
   play_retry (Suc left) attempt (fails @ rest) = (last fails, rest, map (\<lambda>i. 2 ^ (attempt + i)) [0..<left])"
proof (induction left arbitrary: fails attempt)
  case 0
  then show ?case
    by (cases fails) (auto simp: play_retry_last simp del: retry_loop.simps)
next
  case (Suc left)
  then obtain f fs where fs: "fails = f # fs" "length fs = Suc left"
    by (cases fails) auto
  have "[0..<Suc left] = 0 # map Suc [0..<left]"
    by (simp add: upt_conv_Cons map_Suc_upt del: upt_Suc)
  moreover have "fs \<noteq> []"
    using fs(2) by auto
  ultimately show ?case
    using Suc fs by (simp add: play_retry_locked del: retry_loop.simps upt_Suc)
qed

section \<open>Properties\<close>

lemma hexed_identified:
  assumes "hash_ok cks" and "\<forall>p \<in> ps. payload_ok p"
  shows "gset_store.hexed (object_id_for cks) ps"
  using assms identifiedI unfolding sqlite_gset.hexed_def identified_def by blast


definition sample_object :: "char \<Rightarrow> kobj" where
  "sample_object c =
     \<lparr>ko_identity = \<lparr>oi_id = [c], oi_type = ''fact'', oi_name = ''n''\<rparr>, ko_structure = [],
      ko_hash = replicate 64 c, ko_relation = None\<rparr>"

text \<open>A library in which every object hashes to zeros.\<close>

definition sample_make :: "kident \<Rightarrow> (string, pyval) dict \<Rightarrow> (string list \<times> string) option \<Rightarrow> kobj option" where
  "sample_make i d r =
     Some \<lparr>ko_identity = i, ko_structure = d, ko_hash = replicate 64 (CHR ''0''), ko_relation = r\<rparr>"

definition sample_cks :: cks_objects where
  "sample_cks =
     \<lparr>make_identity = (\<lambda>d. None), make_object = (\<lambda>i d. sample_make i d None),
      make_relation = (\<lambda>i ps t d. sample_make i d (Some (ps, t))),
      serialize_structure = (\<lambda>ks. []), parse_structure = (\<lambda>t. None), structure_get = (\<lambda>ks i. None),
      make_structure = (\<lambda>ks. \<lparr>ks_objects = ks\<rparr>), str_of = (\<lambda>v. case v of PStr s \<Rightarrow> s | _ \<Rightarrow> [])\<rparr>"

lemma sample_ok: "hash_ok sample_cks" "hex_id (replicate 64 (CHR ''0''))" "hex_id (replicate 64 (CHR ''f''))"
  by (auto simp: hash_ok_def sample_cks_def sample_make_def hex_id_def ID_HEX_LENGTH_def NIBBLES_def)


text \<open>A batch is merged once: handing a replica any selection of the objects it has
  already merged, in any order, adds nothing and reports 0.\<close>

theorem merge_idempotent:
  assumes "hash_ok cks" and "\<forall>p \<in> snd ` set ps. payload_ok p" and "snd ` set qs \<subseteq> snd ` set ps"
    and "store_ok s" and "mem_ok m"
  shows "fst (merge_objects cks qs (snd (merge_objects cks ps s))) = Inr 0 \<and>
    fst (pg_merge_objects cks qs (snd (pg_merge_objects cks ps s))) = Inr 0 \<and>
    fst (mem_merge_objects cks qs (snd (mem_merge_objects cks ps m))) = Inr 0"
  using sqlite_gset.merge_loop_again [OF assms(4) _ assms(3), of cks 0]
    pg_gset.merge_loop_again [OF assms(4) _ assms(3), of cks 0]
    mem_gset.merge_loop_again [OF assms(5) _ assms(3), of cks 0] hexed_identified [OF assms(1,2)]
  by (simp add: merge_objects_def pg_merge_objects_def mem_merge_objects_def)

theorem merge_idempotent_witness:
  "fst (merge_objects sample_cks [(7, Live (sample_object (CHR ''0'')))]
     (snd (merge_objects sample_cks [(1, Live (sample_object (CHR ''f''))), (2, Live (sample_object (CHR ''0'')))]
        empty_store))) = Inr 0"
  using merge_idempotent [of sample_cks
      "[(1, Live (sample_object (CHR ''f''))), (2, Live (sample_object (CHR ''0'')))]"
      "[(7, Live (sample_object (CHR ''0'')))]" empty_store empty_mem] sample_ok
  by (simp add: sample_object_def)


lemma sample_stores:
  "\<exists>s m. store_ok s \<and> mem_ok m \<and> store_ids s = {replicate 64 (CHR ''0'')} \<and> mem_ids m = {replicate 64 (CHR ''0'')}"
  using add_object_ident [of empty_store sample_cks "Live (sample_object (CHR ''0''))" "replicate 64 (CHR ''0'')" 1]
    mem_add_object_ident [of empty_mem sample_cks "Live (sample_object (CHR ''0''))" "replicate 64 (CHR ''0'')" 1]
    sample_ok(2)
  by (auto simp: object_id_for_def sample_object_def)


text \<open>The register never keeps two comparable pointers: after any run of updates and
  resolutions from an empty store, SQLite's pointers of every key are pairwise
  concurrent.\<close>

theorem register_antichain:
  "antichain (register_view (snd (mv_run update_pointer resolve_pointer ps empty_store)) k)"
  by (rule sqlite_mv.run_antichain) simp_all

text \<open>The SQLite register and the in-memory register implement the same abstract one:
  over any run of updates and resolutions they give the same answers and hold the same
  pointers.\<close>

theorem register_backends_agree:
  assumes "register_ok s" and "mem_register_ok m" and "register_view s = mem_register_view m"
  shows "fst (mv_run update_pointer resolve_pointer ps s) = fst (mv_run mem_update_pointer mem_resolve_pointer ps m) \<and>
    register_view (snd (mv_run update_pointer resolve_pointer ps s)) =
      mem_register_view (snd (mv_run mem_update_pointer mem_resolve_pointer ps m))"
  using run_same [OF assms] by blast

definition sample_vector :: "int \<Rightarrow> int \<Rightarrow> crdt_vector" where
  "sample_vector a b = \<lparr>crdt_clocks = [(''a'', a), (''b'', b)]\<rparr>"

theorem register_backends_agree_witness:
  "fst (mv_run update_pointer resolve_pointer
      [Update ''k'' ''x'' (sample_vector 1 0) ''a'' 1, Update ''k'' ''y'' (sample_vector 0 1) ''b'' 2, Resolve ''k'' ''y'']
      empty_store) =
   fst (mv_run mem_update_pointer mem_resolve_pointer
      [Update ''k'' ''x'' (sample_vector 1 0) ''a'' 1, Update ''k'' ''y'' (sample_vector 0 1) ''b'' 2, Resolve ''k'' ''y'']
      empty_mem)"
  using register_backends_agree [of empty_store empty_mem
      "[Update ''k'' ''x'' (sample_vector 1 0) ''a'' 1, Update ''k'' ''y'' (sample_vector 0 1) ''b'' 2, Resolve ''k'' ''y'']"]
  by simp

text \<open>No write is lost to another one: what some pointer of the key reflects before
  an update, some pointer reflects after it, and so is the new write, provided a pointer
  to the same object is not replaced by an older vector.\<close>

theorem update_keeps_writes:
  assumes "register_ok s" and "covered (register_view s k) u"
    and "\<And>w o'. register_view s k i = Some (w, o') \<Longrightarrow> cvv_le w vv"
  shows "covered (register_view (snd (update_pointer k i vv origin now s)) k) u \<and>
    covered (register_view (snd (update_pointer k i vv origin now s)) k) vv"
  using sqlite_mv.update_covers [OF assms] .

theorem update_keeps_writes_witness:
  "covered (register_view (snd (update_pointer ''k'' ''y'' (sample_vector 0 1) ''b'' 2
     (snd (update_pointer ''k'' ''x'' (sample_vector 1 0) ''a'' 1 empty_store)))) ''k'') (sample_vector 1 0)"
proof -
  let ?s = "snd (update_pointer ''k'' ''x'' (sample_vector 1 0) ''a'' 1 empty_store)"
  have ok: "register_ok ?s"
    by (simp add: sqlite_mv.ok_update)
  have view: "register_view ?s ''k'' = mv_write (\<lambda>_. None) ''x'' (sample_vector 1 0) ''a''"
    by (simp add: sqlite_mv.view_update mv_stale_def)
  have "covered (register_view ?s ''k'') (sample_vector 1 0)"
    unfolding view by (rule mv_write_covers_new)
  moreover have "register_view ?s ''k'' ''y'' = None"
    unfolding view by (simp add: mv_write_def)
  ultimately show ?thesis
    using update_keeps_writes [OF ok, of "''k''" "sample_vector 1 0" "''y''" "sample_vector 0 1" "''b''" 2] by simp
qed

text \<open>The proviso is needed: a replayed older write to the same object is not discarded
  but takes the newer vector's place.\<close>

lemma stale_replay_regresses:
  "register_view (snd (update_pointer ''k'' ''x'' (sample_vector 1 0) ''a'' 2
     (snd (update_pointer ''k'' ''x'' (sample_vector 2 0) ''a'' 1 empty_store)))) ''k'' ''x''
     = Some (sample_vector 1 0, ''a'') \<and>
   fst (update_pointer ''k'' ''x'' (sample_vector 1 0) ''a'' 2
     (snd (update_pointer ''k'' ''x'' (sample_vector 2 0) ''a'' 1 empty_store)))"
  by (simp add: sqlite_mv.view_update sqlite_mv.fst_update sqlite_mv.ok_update mv_stale_def mv_write_def)

text \<open>A retried write is called until it first succeeds or fails for another reason
  than a locked database, but at most five times, with the delays doubling; five locked
  calls let the last error through.\<close>

theorem retry_on_locked_calls:
  assumes "list_all locked_error fails" and "\<not> locked_error r"
  shows "retry_on_locked playback (fails @ r # rest) =
    (if length fails < WRITE_RETRIES then (r, rest, map (\<lambda>i. 2 ^ i) [0..<length fails])
     else (fails ! 4, drop WRITE_RETRIES fails @ r # rest, [1, 2, 4, 8]))"
proof (cases "length fails < WRITE_RETRIES")
  case True
  then show ?thesis
    using play_retry_run [OF assms, of 5 0] by (simp add: retry_on_locked_def WRITE_RETRIES_def)
next
  case False
  then have 5: "list_all locked_error (take 5 fails)" "length (take 5 fails) = Suc 4"
    using assms(1) by (auto simp: WRITE_RETRIES_def list_all_iff dest: in_set_takeD)
  have split: "fails @ r # rest = take 5 fails @ drop 5 fails @ r # rest"
    by (simp add: append_assoc [symmetric])
  have last: "last (take 5 fails) = fails ! 4"
    using 5(2) by (subst last_conv_nth) auto
  have delays: "map (\<lambda>i. 2 ^ (0 + i)) [0..<4] = [1, 2, 4, 8::nat]"
    by (simp add: upt_rec)
  have five: "Suc 4 = (5::nat)"
    by simp
  show ?thesis
    using False play_retry_exhausted [OF 5, of 0 "drop 5 fails @ r # rest"]
    unfolding retry_on_locked_def WRITE_RETRIES_def split [symmetric] last delays five
    by simp
qed

theorem retry_on_locked_calls_witness:
  "retry_on_locked playback
     [Inl (OperationalError ''Database is LOCKED''), Inl (OperationalError ''locked''), Inr (7::nat), Inr 8]
     = (Inr 7, [Inr 8], [1, 2])"
proof -
  have "locked_error (Inl (OperationalError ''Database is LOCKED'') :: exn + nat)"
    "locked_error (Inl (OperationalError ''locked'') :: exn + nat)"
    by code_simp+
  then show ?thesis
    using retry_on_locked_calls
      [of "[Inl (OperationalError ''Database is LOCKED''), Inl (OperationalError ''locked'')]" "Inr 7" "[Inr (8::nat)]"]
    by (simp add: WRITE_RETRIES_def upt_rec)
qed

end
