(* ===== verification/Quarantine.thy ===== *)
theory Quarantine
  imports Crdt_Store
begin

text \<open>
  The quarantine in front of a CRDT store (\<open>crdt/quarantine.py\<close>): an object enters
  only after the structural validation and the identity check.  The validator is the
  engine's and a parameter; what \<open>_is_structurally_valid\<close> distinguishes in its
  behaviour is the datatype \<open>verdict\<close>.
\<close>

text \<open>What the validator is handed: a one-object structure, or the payload itself.\<close>

datatype validation_input = Structure "kobj list" | Raw payload

text \<open>A plain boolean, a result with \<open>is_valid\<close> or \<open>valid\<close> (that attribute's truth
  value), any other result, or an exception.\<close>

datatype verdict = Plain bool | Attribute bool | Unmarked | Raised

type_synonym validator = "(validation_input \<Rightarrow> verdict) option"

definition is_structurally_valid :: "validator \<Rightarrow> payload \<Rightarrow> bool" where
  "is_structurally_valid v p =
     (case v of
        None \<Rightarrow> True
      | Some validate \<Rightarrow>
          let structure_input = (case p of Live k \<Rightarrow> Structure [k] | Json x \<Rightarrow> Raw (Json x))
          in case validate structure_input of
               Raised \<Rightarrow> False
             | Plain b \<Rightarrow> b
             | Attribute b \<Rightarrow> b
             | Unmarked \<Rightarrow> True)"

definition has_consistent_identity :: "cks_objects \<Rightarrow> payload \<Rightarrow> bool" where
  "has_consistent_identity cks p =
     (case object_id_for cks p of
        Inl e \<Rightarrow> \<not> (e = TypeError \<or> e = ObjectIdentityMismatch)
      | Inr _ \<Rightarrow> True)"

text \<open>\<open>add\<close> is the store's \<open>add_object\<close>.\<close>

definition validate_and_add ::
  "validator \<Rightarrow> cks_objects \<Rightarrow> (payload \<Rightarrow> ('s, bool) sx) \<Rightarrow> payload \<Rightarrow> ('s, bool) sx" where
  "validate_and_add v cks add p s =
     (if \<not> is_structurally_valid v p then (Inr False, s)
      else if \<not> has_consistent_identity cks p then (Inr False, s)
      else add p s)"

fun process_batch ::
  "validator \<Rightarrow> cks_objects \<Rightarrow> (time \<Rightarrow> payload \<Rightarrow> ('s, bool) sx) \<Rightarrow> (time \<times> payload) list \<Rightarrow> nat
     \<Rightarrow> ('s, nat) sx" where
  "process_batch v cks add [] admitted s = (Inr admitted, s)"
| "process_batch v cks add ((now, p) # ps) admitted s =
     (case validate_and_add v cks (add now) p s of
        (Inl e, s') \<Rightarrow> (Inl e, s')
      | (Inr b, s') \<Rightarrow> process_batch v cks add ps (if b then admitted + 1 else admitted) s')"

definition admissible :: "validator \<Rightarrow> cks_objects \<Rightarrow> payload \<Rightarrow> bool" where
  "admissible v cks p \<longleftrightarrow> is_structurally_valid v p \<and> has_consistent_identity cks p"

lemma consistent_iff: "has_consistent_identity cks p \<longleftrightarrow> (\<exists>i. object_id_for cks p = Inr i)"
  using object_id_errors [of cks p] by (cases "object_id_for cks p") (auto simp: has_consistent_identity_def)

lemma admissible_ident:
  "admissible v cks p \<and> object_id_for cks p = Inr i \<longleftrightarrow> is_structurally_valid v p \<and> object_id_for cks p = Inr i"
  by (auto simp: admissible_def consistent_iff)

text \<open>The quarantine over any store is the store's own merge of the admissible objects.\<close>

context gset_store
begin

lemma process_batch_merge:
  assumes "ident = object_id_for cks" and "ok s" and "hexed (snd ` set ps)"
  shows "process_batch v cks add ps c s = merge_loop add (filter (\<lambda>(_, p). admissible v cks p) ps) c s"
  using assms(2,3)
proof (induction ps arbitrary: c s)
  case (Cons np ps)
  obtain now p where np: "np = (now, p)"
    by fastforce
  show ?case
  proof (cases "admissible v cks p")
    case False
    then show ?thesis
      using Cons by (auto simp: np admissible_def validate_and_add_def)
  next
    case True
    then obtain i where i: "ident p = Inr i"
      using assms(1) by (auto simp: admissible_def consistent_iff)
    obtain s' where s': "add now p s = (Inr (i \<notin> ids s), s')" "ok s'"
      using add_ident [OF Cons.prems(1) i, of now] Cons.prems(2) i by (auto simp: np)
    show ?thesis
      using Cons.IH [OF s'(2)] Cons.prems(2) s'(1) True by (simp add: np admissible_def validate_and_add_def)
  qed
qed simp

lemma hexed_subset: "hexed ps \<Longrightarrow> qs \<subseteq> ps \<Longrightarrow> hexed qs"
  by (auto simp: hexed_def)

lemma process_batch_ids:
  assumes "ident = object_id_for cks" and "ok s" and "hexed (snd ` set ps)"
  shows "\<exists>n s'. process_batch v cks add ps 0 s = (Inr n, s') \<and> ok s' \<and>
    ids s' = ids s \<union> {i. \<exists>p \<in> snd ` set ps. admissible v cks p \<and> ident p = Inr i} \<and>
    n = card (ids s' - ids s)"
proof -
  let ?qs = "filter (\<lambda>(_, p). admissible v cks p) ps"
  have "hexed (snd ` set ?qs)"
    using assms(3) by (rule hexed_subset) auto
  then have "\<exists>s'. merge_loop add ?qs 0 s = (Inr (0 + card (idents (snd ` set ?qs) - ids s)), s') \<and> ok s' \<and>
      ids s' = ids s \<union> idents (snd ` set ?qs)"
    by (rule merge_loop_result [OF assms(2)])
  moreover have "idents (snd ` set ?qs) = {i. \<exists>p \<in> snd ` set ps. admissible v cks p \<and> ident p = Inr i}"
    by (force simp: idents_def)
  moreover have "card (ids s \<union> I - ids s) = card (I - ids s)" for I
    by (simp add: Un_Diff)
  ultimately show ?thesis
    unfolding process_batch_merge [OF assms] by auto
qed

end

text \<open>The quarantine admits exactly what passes both checks: a batch through the
  quarantine ends without an exception, the store then holds the ids it held and those of
  the payloads that the validator accepts and whose claimed id is the hash of their
  content, and the count returned is the number of ids that are new.\<close>

theorem quarantine_admits:
  assumes "hash_ok cks" and "\<forall>p \<in> snd ` set ps. payload_ok p" and "store_ok s"
  shows "\<exists>n s'. process_batch v cks (add_object cks) ps 0 s = (Inr n, s') \<and> store_ok s' \<and>
    store_ids s' = store_ids s \<union>
      {i. \<exists>p \<in> snd ` set ps. is_structurally_valid v p \<and> object_id_for cks p = Inr i} \<and>
    n = card (store_ids s' - store_ids s)"
  using sqlite_gset.process_batch_ids [OF refl assms(3) hexed_identified [OF assms(1,2)], of v]
  unfolding admissible_ident by blast

theorem quarantine_admits_witness:
  "\<exists>s'. process_batch (Some (\<lambda>x. case x of Structure _ \<Rightarrow> Attribute True | Raw _ \<Rightarrow> Raised)) sample_cks
     (add_object sample_cks) [(1, Live (sample_object (CHR ''0''))), (2, Json PNone)] 0 empty_store = (Inr 1, s') \<and>
   store_ids s' = {replicate 64 (CHR ''0'')}"
proof -
  let ?v = "Some (\<lambda>x. case x of Structure _ \<Rightarrow> Attribute True | Raw _ \<Rightarrow> Raised)"
  have ids: "{i. \<exists>p \<in> {Live (sample_object (CHR ''0'')), Json PNone}.
      is_structurally_valid ?v p \<and> object_id_for sample_cks p = Inr i} = {replicate 64 (CHR ''0'')}"
    by (auto simp: object_id_for_def sample_object_def is_structurally_valid_def)
  show ?thesis
    using quarantine_admits [of sample_cks "[(1, Live (sample_object (CHR ''0''))), (2, Json PNone)]" empty_store ?v]
      ids sample_ok by (auto simp: sample_object_def)
qed

end
