(* ===== verification/Gossip_Adapter.thy ===== *)
theory Gossip_Adapter
  imports Runtime Quarantine
begin

text \<open>
  Applying another replica's snapshot of a session (\<open>gossip/adapter.py\<close>): its objects go
  through the quarantine into the CRDT store, and its state into the runtime by one of the
  paths the vectors decide.  The lock of a session makes calls for one session follow each
  other; a call is one transition of the model.
\<close>

section \<open>State\<close>

text \<open>
  The CRDT store the adapter is built with (\<open>None\<close> for none), the operations it uses of it,
  and what it uses of \<open>cks\<close> and of the text of exceptions are parameters.
\<close>

record 'c crdt_backend =
  cb_add :: "time \<Rightarrow> payload \<Rightarrow> ('c, bool) sx"
  cb_update_pointer :: "string \<Rightarrow> string \<Rightarrow> crdt_vector \<Rightarrow> string \<Rightarrow> time \<Rightarrow> ('c, bool) sx"
  cb_get_pointers :: "string \<Rightarrow> 'c \<Rightarrow> exn + pointer list"
  cb_escalate :: "string \<Rightarrow> time \<Rightarrow> string \<Rightarrow> string list \<Rightarrow> pyval list \<Rightarrow> ('c, string) sx"

record ('st, 'c) gossip_env =
  g_env :: "'st env"
  own_replica :: string
  crdt_backend :: "'c crdt_backend option"
  structure_validator :: validator
  structurally_equivalent :: "kstruct \<Rightarrow> kstruct \<Rightarrow> bool"
  exn_text :: "exn \<Rightarrow> string"

record ('st, 'c) gossip =
  g_rt :: "'st rt"
  g_crdt :: 'c
  pending_conflicts :: "(string, version_vector) dict"
  pending_duplicates :: "(string, int list) dict"

definition on_rt :: "('st rt, 'a) sx \<Rightarrow> (('st, 'c) gossip, 'a) sx" where
  "on_rt m g = (case m (g_rt g) of (x, rt) \<Rightarrow> (x, g\<lparr>g_rt := rt\<rparr>))"

definition on_crdt :: "('c, 'a) sx \<Rightarrow> (('st, 'c) gossip, 'a) sx" where
  "on_crdt m g = (case m (g_crdt g) of (x, c) \<Rightarrow> (x, g\<lparr>g_crdt := c\<rparr>))"

definition anchor_genesis :: "nat \<Rightarrow> 'st rt \<Rightarrow> 'st rt" where
  "anchor_genesis r = upd_session r (\<lambda>s. s\<lparr>parent_version_id := Some EMPTY_STATE_VERSION_ID\<rparr>)"

definition get_local_vector :: "string \<Rightarrow> ('st, 'c) gossip \<Rightarrow> version_vector" where
  "get_local_vector sid g =
     (case get_session sid (g_rt g) of
        None \<Rightarrow> empty_vv
      | Some r \<Rightarrow> vv_from_metadata (metadata (the_session (g_rt g) r)))"

section \<open>The CRDT layer\<close>

text \<open>Identifiers drawn by the CRDT store come from the same source as the runtime's.\<close>

definition handle_fork ::
  "('st, 'c) gossip_env \<Rightarrow> 'c crdt_backend \<Rightarrow> string \<Rightarrow> string list \<Rightarrow> pyval list \<Rightarrow> (('st, 'c) gossip, unit) sx" where
  "handle_fork ge cb pointer_key oids vector_clocks g =
     (let (event_id, rt) = draw_uuid (g_env ge) (g_rt g)
      in bindM (on_crdt (cb_escalate cb event_id (rt_time rt) pointer_key oids vector_clocks)) (\<lambda>event_id.
           on_rt (publish (g_env ge) (CRDTForkDetected pointer_key oids event_id))) (g\<lparr>g_rt := rt\<rparr>))"

definition detect_and_handle_fork ::
  "('st, 'c) gossip_env \<Rightarrow> 'c crdt_backend \<Rightarrow> string \<Rightarrow> (('st, 'c) gossip, unit) sx" where
  "detect_and_handle_fork ge cb pointer_key g =
     (case cb_get_pointers cb pointer_key (g_crdt g) of
        Inl e \<Rightarrow> (Inl e, g)
      | Inr pointers \<Rightarrow>
          if length pointers \<le> 1 then (Inr (), g)
          else handle_fork ge cb pointer_key (map p_object pointers) (map p_clock pointers) g)"

text \<open>One pointer per object; the objects of a structure are live, so each has its leaf hash.\<close>

definition point_to ::
  "('st, 'c) gossip_env \<Rightarrow> 'c crdt_backend \<Rightarrow> crdt_vector \<Rightarrow> kobj \<Rightarrow> (('st, 'c) gossip, unit) sx" where
  "point_to ge cb remote_vv k g =
     (if obj_id k = [] then (Inr (), g)
      else case object_id_for (env_cks (g_env ge)) (Live k) of
             Inl TypeError \<Rightarrow> (Inr (), g)
           | Inl e \<Rightarrow> (Inl e, g)
           | Inr object_id \<Rightarrow>
               bindM (on_crdt (cb_update_pointer cb (obj_id k) object_id remote_vv (own_replica ge) (rt_time (g_rt g))))
                 (\<lambda>added. if added then detect_and_handle_fork ge cb (obj_id k) else retM ()) g)"

definition merge_crdt_objects :: "('st, 'c) gossip_env \<Rightarrow> session \<Rightarrow> (('st, 'c) gossip, nat) sx" where
  "merge_crdt_objects ge remote g =
     (case crdt_backend ge of
        None \<Rightarrow> (Inr 0, g)
      | Some cb \<Rightarrow>
          let objs = ks_objects (knowledge_structure remote);
              remote_vv = cvv_from_dict (dget_or (metadata remote) ''crdt_version_vector'' PNone)
          in bindM (on_crdt (process_batch (structure_validator ge) (env_cks (g_env ge)) (cb_add cb)
                      (map (\<lambda>k. (rt_time (g_rt g), Live k)) objs) 0)) (\<lambda>result.
             bindM (run_steps (point_to ge cb remote_vv) objs) (\<lambda>_. retM result)) g)"

section \<open>The session layer\<close>

text \<open>The snapshot is an object of its own, held by no table.\<close>

definition place_session :: "session \<Rightarrow> 'st rt \<Rightarrow> nat \<times> 'st rt" where
  "place_session s rt =
     (next_ref rt, rt\<lparr>session_heap := (session_heap rt)(next_ref rt := s), next_ref := next_ref rt + 1\<rparr>)"

definition absorb_into :: "nat \<Rightarrow> version_vector \<Rightarrow> 'st rt \<Rightarrow> 'st rt" where
  "absorb_into r remote_vector =
     upd_session r (\<lambda>s. s\<lparr>metadata := vv_to_metadata (absorb (vv_from_metadata (metadata s)) remote_vector) (metadata s)\<rparr>)"

text \<open>Begin, add an operation, commit.\<close>

definition commit_with :: "'st env \<Rightarrow> nat \<Rightarrow> operation list \<Rightarrow> ('st rt, version) sx" where
  "commit_with env r ps =
     bindM (begin_transaction env r) (\<lambda>t rt. commit env t (fold (\<lambda>p. upd_tx t (add_operation p)) ps rt))"

definition bootstrap_remote_session :: "'st env \<Rightarrow> session \<Rightarrow> ('st rt, bool) sx" where
  "bootstrap_remote_session env remote rt =
     (case make_session (knowledge_structure remote) (session_id remote) (metadata remote) (snapshot_interval remote)
             (parent_session_id remote) (Some EMPTY_STATE_VERSION_ID) of
        Inl e \<Rightarrow> (Inl e, rt)
      | Inr s \<Rightarrow>
          let (node, rt) = draw_uuid env rt;
              (r, rt) = register_session (s\<lparr>metadata := dset (metadata s) ''node_id'' (PStr node)\<rparr>) rt
          in bindM (store_session env r None) (\<lambda>_. bindM (commit_with env r []) (\<lambda>_. retM True)) rt)"

text \<open>The branch that keeps the content of a conflict; whatever goes wrong, its id is then
  empty.\<close>

definition register_conflict_branch :: "('st, 'c) gossip_env \<Rightarrow> nat \<Rightarrow> session \<Rightarrow> 'st rt \<Rightarrow> string \<times> 'st rt" where
  "register_conflict_branch ge r remote rt =
     (case register_foreign_branch (g_env ge) r (knowledge_structure remote) (parent_version_id remote)
             [(''gossip_source_replica_id'', PStr (own_replica ge))] rt of
        (Inl e, rt') \<Rightarrow> ([], rt')
      | (Inr b, rt') \<Rightarrow> (session_id (the_session rt' b), rt'))"

text \<open>A clock of this replica in the remote vector that it cannot have issued, or that it
  issued for another content.\<close>

definition duplicate_id_detected :: "('st, 'c) gossip_env \<Rightarrow> session \<Rightarrow> session \<Rightarrow> bool" where
  "duplicate_id_detected ge local remote =
     (let local_own_clock = clk (vv_from_metadata (metadata local)) (own_replica ge);
          remote_own_clock = clk (vv_from_metadata (metadata remote)) (own_replica ge)
      in remote_own_clock > local_own_clock \<or>
         (remote_own_clock > 0 \<and> remote_own_clock = local_own_clock \<and>
          \<not> structurally_equivalent ge (knowledge_structure local) (knowledge_structure remote)))"

definition report_duplicate :: "('st, 'c) gossip_env \<Rightarrow> session \<Rightarrow> session \<Rightarrow> (('st, 'c) gossip, bool) sx" where
  "report_duplicate ge local remote g =
     (let own = own_replica ge; sid = session_id remote;
          local_clock = clk (vv_from_metadata (metadata local)) own;
          remote_clock = clk (vv_from_metadata (metadata remote)) own;
          pending = dget_or (pending_duplicates g) sid []
      in if remote_clock \<in> set pending then (Inr False, g)
         else bindM (on_rt (publish (g_env ge) (DuplicateReplicaIdDetected sid own local_clock remote_clock)))
                (\<lambda>_. retM False) (g\<lparr>pending_duplicates := dset (pending_duplicates g) sid (pending @ [remote_clock])\<rparr>))"

definition conflict_ids :: "('st, 'c) gossip_env \<Rightarrow> exec_result \<Rightarrow> string list" where
  "conflict_ids ge res =
     (case res_error res of
        Some (RuntimeMergeConflictError cs) \<Rightarrow> map mc_object_id cs
      | Some e \<Rightarrow> [exn_text ge e]
      | None \<Rightarrow> [''None''])"

definition report_conflict ::
  "('st, 'c) gossip_env \<Rightarrow> nat \<Rightarrow> session \<Rightarrow> exec_result \<Rightarrow> (('st, 'c) gossip, bool) sx" where
  "report_conflict ge r remote res g =
     (let sid = session_id remote; remote_vector = vv_from_metadata (metadata remote)
      in if (case dget (pending_conflicts g) sid of None \<Rightarrow> False | Some v \<Rightarrow> vv_eq v remote_vector)
         then (Inr False, g)
         else
           let (branch, rt) = register_conflict_branch ge r remote (g_rt g);
               g = g\<lparr>g_rt := rt, pending_conflicts := dset (pending_conflicts g) sid remote_vector\<rparr>
           in bindM (on_rt (publish (g_env ge)
                (GossipConflictDetected (own_replica ge) (session_id (the_session rt r)) branch (conflict_ids ge res))))
                (\<lambda>_. retM False) g)"

text \<open>The session is known: \<open>q\<close> is the snapshot, \<open>r\<close> the local session.\<close>

definition resolved :: "string \<Rightarrow> (('st, 'c) gossip, bool) sx" where
  "resolved sid g = (Inr True, g\<lparr>pending_conflicts := dpop (pending_conflicts g) sid\<rparr>)"

definition reconcile :: "('st, 'c) gossip_env \<Rightarrow> nat \<Rightarrow> nat \<Rightarrow> (('st, 'c) gossip, bool) sx" where
  "reconcile ge r q g =
     (let env = g_env ge;
          local = the_session (g_rt g) r;
          remote = the_session (g_rt g) q;
          sid = session_id remote;
          local_vector = vv_from_metadata (metadata local);
          remote_vector = vv_from_metadata (metadata remote)
      in if duplicate_id_detected ge local remote then report_duplicate ge local remote g
         else
           let g = g\<lparr>pending_duplicates := dpop (pending_duplicates g) sid\<rparr>
           in if structurally_equivalent ge (knowledge_structure local) (knowledge_structure remote)
              then bindM (if dominates local_vector remote_vector then retM ()
                          else on_rt (\<lambda>rt. store_session env r None (absorb_into r remote_vector rt)))
                     (\<lambda>_. resolved sid) g
              else if dominates local_vector remote_vector then resolved sid g
              else if dominates remote_vector local_vector
              then bindM (on_rt (\<lambda>rt. commit_with env r
                     [ReplaceStateOperation ''gossip-fast-forward'' (Some (knowledge_structure remote))]
                     (absorb_into r remote_vector rt))) (\<lambda>_. resolved sid) g
              else
                let merge = MergeOperation ''gossip-merge'' (Some q) None None None;
                    (probe, rt) = executor_execute env merge r (g_rt g);
                    g = g\<lparr>g_rt := rt\<rparr>
                in if res_status probe = FAILED then report_conflict ge r remote probe g
                   else bindM (on_rt (commit_with env r [merge])) (\<lambda>_. resolved sid) g)"

definition apply_remote_session :: "('st, 'c) gossip_env \<Rightarrow> session \<Rightarrow> (('st, 'c) gossip, bool) sx" where
  "apply_remote_session ge remote =
     bindM (merge_crdt_objects ge remote) (\<lambda>_ g.
       case get_session (session_id remote) (g_rt g) of
         None \<Rightarrow> on_rt (bootstrap_remote_session (g_env ge) remote) g
       | Some r \<Rightarrow> (case place_session remote (g_rt g) of (q, rt) \<Rightarrow> reconcile ge r q (g\<lparr>g_rt := rt\<rparr>)))"

end
