(* ===== verification/Gossip_Outcomes.thy ===== *)
theory Gossip_Outcomes
  imports Gossip_Adapter
begin

text \<open>
  What applying a remote snapshot does to the local session, path by path: the frame of the
  CRDT layer, a transaction of one operation from its begin to its commit, and the properties
  of \<open>apply_remote_session\<close>.
\<close>

section \<open>Vectors after a commit\<close>

definition vector_of :: "session \<Rightarrow> version_vector" where
  "vector_of s = vv_from_metadata (metadata s)"

definition grows :: "version_vector \<Rightarrow> version_vector \<Rightarrow> bool" where
  "grows v w \<longleftrightarrow> (\<forall>n. clk v n \<le> clk w n)"

lemma grows_refl [simp]: "grows v v"
  by (simp add: grows_def)

lemma grows_trans: "grows u v \<Longrightarrow> grows v w \<Longrightarrow> grows u w"
  unfolding grows_def using order_trans by blast

lemma grows_bump: "grows v (bump v n)"
  by (simp add: grows_def)

lemma grows_absorb:
  assumes "vv_ok v" and "vv_ok w"
  shows "grows v (absorb v w)" "grows w (absorb v w)"
  using clk_absorb [OF assms] by (simp_all add: grows_def)

lemma bumped_vector:
  "grows (vector_of s) (vector_of (bump_metadata node rep s))"
  "vv_ok (vector_of s) \<Longrightarrow> vv_ok (vector_of (bump_metadata node rep s))"
  using vv_ok_bump
  by (auto simp: bump_metadata_def Let_def vector_of_def grows_def split: option.splits)

lemma bump_metadata_simps [simp]:
  "knowledge_structure (bump_metadata n r s) = knowledge_structure s"
  "version_history (bump_metadata n r s) = version_history s"
  "session_id (bump_metadata n r s) = session_id s"
  "active_transaction (bump_metadata n r s) = active_transaction s"
  by (simp_all add: bump_metadata_def Let_def)

section \<open>A committed transaction\<close>

definition begun :: "'st env \<Rightarrow> nat \<Rightarrow> operation list \<Rightarrow> 'st rt \<Rightarrow> 'st rt" where
  "begun env r ps rt = fold (\<lambda>p. upd_tx (next_ref rt) (add_operation p)) ps (snd (begin_transaction env r rt))"

lemma fold_add_operation:
  "fold (\<lambda>p. upd_tx t (add_operation p)) ps rt = upd_tx t (\<lambda>x. x\<lparr>operations := operations x @ ps\<rparr>) rt"
proof (induction ps arbitrary: rt)
  case Nil
  then show ?case
    by (cases rt) (simp add: upd_tx_def)
qed (simp add: add_operation_def upd_tx_def)

lemma begun_fields:
  assumes "\<not> has_active_transaction (the_session rt r)"
  shows "session_heap (begun env r ps rt) = (session_heap rt)(r := attach_transaction (next_ref rt) (the_session rt r))"
    "tx_session (the_tx (begun env r ps rt) (next_ref rt)) = r"
    "operations (the_tx (begun env r ps rt) (next_ref rt)) = ps"
    "requests (the_tx (begun env r ps rt) (next_ref rt)) = []"
    "session_table (begun env r ps rt) = session_table rt" "rt_storage (begun env r ps rt) = rt_storage rt"
    "next_ref (begun env r ps rt) = next_ref rt + 1"
  using assms
  by (simp_all add: begun_def fold_add_operation begin_transaction_def Let_def draw_uuid_def)

lemma commit_with_commit:
  assumes "commit_with env r ps rt = (Inr v, rt')"
  shows "\<not> has_active_transaction (the_session rt r) \<and> commit env (next_ref rt) (begun env r ps rt) = (Inr v, rt')"
proof -
  obtain t rt1 where b: "begin_transaction env r rt = (Inr t, rt1)"
      "commit env t (fold (\<lambda>p. upd_tx t (add_operation p)) ps rt1) = (Inr v, rt')"
    using assms unfolding commit_with_def by (rule bindM_InrE)
  then show ?thesis
    using begin_Inr(1,2) [OF b(1)] by (simp add: begun_def)
qed

text \<open>The session after a commit: \<open>s1\<close> is what the operations left.\<close>

lemma commit_with_session:
  assumes "commit_with env r ps rt = (Inr v, rt')"
  shows "\<exists>rt1 s'. first_phase env (next_ref rt) (begun env r ps rt) = (Inr (), rt1) \<and> the_session rt' r = s' \<and>
    knowledge_structure s' = knowledge_structure (the_session rt1 r) \<and>
    version_history s' = version_history (the_session rt r) @ [v] \<and> active_transaction s' = None \<and>
    (\<exists>node rep. metadata s' = metadata (bump_metadata node rep (the_session rt1 r))) \<and>
    (\<forall>q. q \<noteq> r \<longrightarrow> the_session rt' q = the_session rt q) \<and>
    session_table rt' = session_table rt"
proof -
  let ?t = "next_ref rt" and ?b = "begun env r ps rt"
  have a: "\<not> has_active_transaction (the_session rt r)" and c: "commit env ?t ?b = (Inr v, rt')"
    using commit_with_commit [OF assms] by auto
  note b = begun_fields [OF a, of env ps]
  obtain rs rt1 s2 where p: "first_phase env ?t ?b = (Inr (), rt1)"
      "ran ?t (state_after (current_state ?t ?b) rs) rs ?b rt1"
      "makes_version env ?t (current_state ?t ?b) rt1 v s2"
      "session_heap rt' = (session_heap rt1)(r := detach_transaction s2)" "session_table rt' = session_table rt1"
    using commit_first_phase [OF c b(2) [symmetric]] by blast
  note f = ran_fields [OF p(2) b(2) [symmetric]]
  obtain prev node rep tid vid now where
    cv: "create_version (Some (core_bridge env)) (Some prev) node rep tid vid now (the_session rt1 r) = (Inr v, s2)"
    using p(3) f(1) by (simp add: makes_version_def Let_def)
  have s2: "s2 = add_version v (bump_metadata node rep (the_session rt1 r))"
    using create_version_records [OF cv] by simp
  have "metadata (detach_transaction s2) = metadata (bump_metadata node rep (the_session rt1 r))"
    by (simp add: s2 add_version_def detach_transaction_def)
  moreover have "version_history (the_session rt1 r) = version_history (the_session rt r)"
    using f(9) b(1) by (simp add: attach_transaction_def)
  moreover have "the_session rt' q = the_session rt q" if "q \<noteq> r" for q
    using f(13) [OF that] p(4) b(1) that by simp
  ultimately show ?thesis
    using p(1,4,5) f(16) b(5) by (auto simp: s2 add_version_def detach_transaction_def)
qed

lemma operation_step_metadata:
  assumes "operation_step env t p rt = (Inr u, rt')" and "executor_execute env p (tx_session (the_tx rt t)) rt = (res, rt1)"
  shows "metadata (the_session rt' (tx_session (the_tx rt t))) = metadata (the_session rt1 (tx_session (the_tx rt t)))"
proof -
  have "res_status res = COMPLETED"
    using operation_step_Inr [OF assms(1)] assms(2) by auto
  then show ?thesis
    using assms by (auto simp: operation_step_def handle_result_def bindM_def fold_add_diagnostic apply_state_mutation_def
        split: option.splits)
qed

lemma first_phase_step:
  assumes "operations (the_tx rt t) = [p]" and "requests (the_tx rt t) = []" and "first_phase env t rt = (Inr u, rt1)"
  shows "\<exists>u. operation_step env t p rt = (Inr u, rt1)"
  using assms by (auto simp: first_phase_def execute_operations_def bindM_def split: prod.splits sum.splits)

text \<open>A transaction of one operation: the state is what the operation returned, and the metadata
  what it left.\<close>

lemma commit_with_single:
  assumes "commit_with env r [p] rt = (Inr v, rt')"
  shows "\<exists>res rt1. executor_execute env p r (begun env r [p] rt) = (res, rt1) \<and> res_status res = COMPLETED \<and>
    knowledge_structure (the_session rt' r) = opt_or (new_state p res) (knowledge_structure (the_session rt r)) \<and>
    version_history (the_session rt' r) = version_history (the_session rt r) @ [v] \<and>
    active_transaction (the_session rt' r) = None \<and>
    (\<exists>node rep s1. metadata s1 = metadata (the_session rt1 r) \<and>
       metadata (the_session rt' r) = metadata (bump_metadata node rep s1)) \<and>
    (\<forall>q. q \<noteq> r \<longrightarrow> the_session rt' q = the_session rt q) \<and> session_table rt' = session_table rt"
proof -
  let ?t = "next_ref rt" and ?b = "begun env r [p] rt"
  have a: "\<not> has_active_transaction (the_session rt r)"
    using commit_with_commit [OF assms] by blast
  note b = begun_fields [OF a, of env "[p]"]
  obtain rt1 where c: "first_phase env ?t ?b = (Inr (), rt1)"
      "knowledge_structure (the_session rt' r) = knowledge_structure (the_session rt1 r)"
      "version_history (the_session rt' r) = version_history (the_session rt r) @ [v]"
      "active_transaction (the_session rt' r) = None"
      "\<exists>node rep. metadata (the_session rt' r) = metadata (bump_metadata node rep (the_session rt1 r))"
      "\<forall>q. q \<noteq> r \<longrightarrow> the_session rt' q = the_session rt q" "session_table rt' = session_table rt"
    using commit_with_session [OF assms] by blast
  obtain u where step: "operation_step env ?t p ?b = (Inr u, rt1)"
    using first_phase_step [OF b(3,4) c(1)] by blast
  obtain res rt0 where x: "executor_execute env p r ?b = (res, rt0)" "res_status res = COMPLETED"
      "ran ?t (opt_or (new_state p res) (current_state ?t ?b)) [res] ?b rt1"
    using operation_step_Inr [OF step] b(2) by auto
  have "metadata (the_session rt1 r) = metadata (the_session rt0 r)"
    using operation_step_metadata [OF step] x(1) b(2) by simp
  moreover have "knowledge_structure (the_session rt1 r) = opt_or (new_state p res) (knowledge_structure (the_session rt r))"
    using ran_fields(8) [OF x(3) b(2) [symmetric]] b(1,2) by (simp add: current_state_def attach_transaction_def)
  ultimately show ?thesis
    using c(2-7) x(1,2) by metis
qed

definition adopted :: "'st rt \<Rightarrow> 'st rt \<Rightarrow> nat \<Rightarrow> version_vector \<Rightarrow> kstruct \<Rightarrow> version \<Rightarrow> bool" where
  "adopted rt rt' r v ks ver \<longleftrightarrow>
     knowledge_structure (the_session rt' r) = ks \<and>
     version_history (the_session rt' r) = version_history (the_session rt r) @ [ver] \<and>
     active_transaction (the_session rt' r) = None \<and> grows v (vector_of (the_session rt' r)) \<and>
     (\<forall>q. q \<noteq> r \<longrightarrow> the_session rt' q = the_session rt q) \<and> session_table rt' = session_table rt"

lemma commit_replace:
  assumes "commit_with env r [ReplaceStateOperation i (Some ks)] rt = (Inr v, rt')"
  shows "adopted rt rt' r (vector_of (the_session rt r)) ks v"
proof -
  let ?p = "ReplaceStateOperation i (Some ks)"
  let ?b = "begun env r [?p] rt"
  have a: "\<not> has_active_transaction (the_session rt r)"
    using commit_with_commit [OF assms] by blast
  obtain res rt1 where x: "executor_execute env ?p r ?b = (res, rt1)"
      "knowledge_structure (the_session rt' r) = opt_or (new_state ?p res) (knowledge_structure (the_session rt r))"
      "\<exists>node rep s1. metadata s1 = metadata (the_session rt1 r) \<and>
       metadata (the_session rt' r) = metadata (bump_metadata node rep s1)"
      "version_history (the_session rt' r) = version_history (the_session rt r) @ [v]"
      "active_transaction (the_session rt' r) = None"
      "\<forall>q. q \<noteq> r \<longrightarrow> the_session rt' q = the_session rt q" "session_table rt' = session_table rt"
    using commit_with_single [OF assms] by blast
  have "rt1 = ?b" "new_state ?p res = Some ks"
    using x(1) by (auto simp: executor_execute_def execute_replace_state_def new_state_def completed_with_def)
  moreover have "vector_of (the_session ?b r) = vector_of (the_session rt r)"
    using begun_fields(1) [OF a] by (simp add: vector_of_def attach_transaction_def)
  ultimately have "grows (vector_of (the_session rt r)) (vector_of (the_session rt' r))"
    using x(3) bumped_vector(1) unfolding vector_of_def by metis
  then show ?thesis
    using x(2,4-7) \<open>new_state ?p res = Some ks\<close> by (simp add: adopted_def)
qed

definition merges_to :: "'st env \<Rightarrow> 'st \<Rightarrow> session \<Rightarrow> session \<Rightarrow> kstruct \<Rightarrow> bool" where
  "merges_to env st local remote ks \<longleftrightarrow>
     (\<exists>s1. execute_merge env st ''gossip-merge'' (Some remote) None None None local =
        (Inr (completed_with ''gossip-merge'' (StructurePayload ks)), s1))"

lemma commit_merge:
  assumes "commit_with env r [MergeOperation ''gossip-merge'' (Some q) None None None] rt = (Inr v, rt')" and "q \<noteq> r"
    and "\<not> dominates (vector_of (the_session rt r)) (vector_of (the_session rt q))"
    and "\<not> dominates (vector_of (the_session rt q)) (vector_of (the_session rt r))"
  shows "\<exists>ks. merges_to env (rt_storage rt) (attach_transaction (next_ref rt) (the_session rt r)) (the_session rt q) ks \<and>
    adopted rt rt' r (vector_of (the_session rt r)) ks v"
proof -
  let ?p = "MergeOperation ''gossip-merge'' (Some q) None None None"
  let ?b = "begun env r [?p] rt" and ?s = "attach_transaction (next_ref rt) (the_session rt r)"
  have a: "\<not> has_active_transaction (the_session rt r)"
    using commit_with_commit [OF assms(1)] by blast
  note b = begun_fields [OF a, of env "[?p]"]
  obtain res rt1 where x: "executor_execute env ?p r ?b = (res, rt1)" "res_status res = COMPLETED"
      "knowledge_structure (the_session rt' r) = opt_or (new_state ?p res) (knowledge_structure (the_session rt r))"
      "\<exists>node rep s1. metadata s1 = metadata (the_session rt1 r) \<and>
       metadata (the_session rt' r) = metadata (bump_metadata node rep s1)"
      "version_history (the_session rt' r) = version_history (the_session rt r) @ [v]"
      "active_transaction (the_session rt' r) = None"
      "\<forall>q. q \<noteq> r \<longrightarrow> the_session rt' q = the_session rt q" "session_table rt' = session_table rt"
    using commit_with_single [OF assms(1)] by blast
  have vs: "metadata ?s = metadata (the_session rt r)" "the_session ?b r = ?s" "the_session ?b q = the_session rt q"
    using b(1) assms(2) by (simp_all add: attach_transaction_def)
  let ?base = "merge_base env ?s (the_session rt q) None None"
  have m: "execute_merge env (rt_storage rt) ''gossip-merge'' (Some (the_session rt q)) None None None ?s =
      (case ?base of
         Inl e \<Rightarrow> (if is_value_error e then Inr (failed_with ''gossip-merge'' e) else Inl e, ?s)
       | Inr base \<Rightarrow> (three_way env (rt_storage rt) ''gossip-merge'' ?s (the_session rt q) base None, ?s))"
    using assms(3,4) vs(1) by (simp add: execute_merge_def Let_def vector_of_def)
  have run: "run_operation env ?p r ?b =
      (fst (execute_merge env (rt_storage rt) ''gossip-merge'' (Some (the_session rt q)) None None None ?s),
       upd_session r (\<lambda>_. ?s) ?b)"
    by (simp add: vs b(6) m split: sum.splits)
  obtain res' where res': "fst (execute_merge env (rt_storage rt) ''gossip-merge'' (Some (the_session rt q)) None None None ?s) = Inr res'"
      "res = res'\<lparr>res_operation := Some ?p\<rparr>" "rt1 = upd_session r (\<lambda>_. ?s) ?b"
    using x(1,2) unfolding executor_execute_def run by (auto split: sum.splits)
  have "\<exists>ks. res' = completed_with ''gossip-merge'' (StructurePayload ks)"
    using res'(1,2) x(2)
    by (auto simp: m three_way_def Let_def failed_with_def split: sum.splits if_splits exn.splits)
  then obtain ks where ks: "res' = completed_with ''gossip-merge'' (StructurePayload ks)"
    by blast
  have "merges_to env (rt_storage rt) ?s (the_session rt q) ks"
    using res'(1) ks unfolding merges_to_def by (metis prod.collapse)
  moreover have "new_state ?p res = Some ks"
    using res'(2) ks by (simp add: new_state_def completed_with_def)
  moreover have "vector_of (the_session rt1 r) = vector_of (the_session rt r)"
    using res'(3) vs by (simp add: vector_of_def)
  then have "grows (vector_of (the_session rt r)) (vector_of (the_session rt' r))"
    using x(4) bumped_vector(1) unfolding vector_of_def by metis
  ultimately show ?thesis
    using x(3,5-8) by (auto simp: adopted_def)
qed

section \<open>Frames\<close>

text \<open>What the CRDT layer leaves alone.\<close>

definition crdt_frame :: "('st, 'c) gossip \<Rightarrow> ('st, 'c) gossip \<Rightarrow> bool" where
  "crdt_frame g g' \<longleftrightarrow>
     session_heap (g_rt g') = session_heap (g_rt g) \<and> session_table (g_rt g') = session_table (g_rt g) \<and>
     tx_heap (g_rt g') = tx_heap (g_rt g) \<and> tx_table (g_rt g') = tx_table (g_rt g) \<and>
     next_ref (g_rt g') = next_ref (g_rt g) \<and>
     pending_conflicts g' = pending_conflicts g \<and> pending_duplicates g' = pending_duplicates g"

lemma crdt_frame_refl: "crdt_frame g g"
  by (simp add: crdt_frame_def)

lemma crdt_frame_trans: "crdt_frame g g1 \<Longrightarrow> crdt_frame g1 g2 \<Longrightarrow> crdt_frame g g2"
  by (simp add: crdt_frame_def)

lemma bind_frame:
  assumes "crdt_frame g (snd (m g))" and "\<And>x g'. crdt_frame g' (snd (f x g'))"
  shows "crdt_frame g (snd (bindM m f g))"
proof (cases "m g")
  case (Pair x g1)
  then show ?thesis
    using assms(1) crdt_frame_trans [OF _ assms(2) [of g1]] by (cases x) (simp_all add: bindM_def)
qed

lemma on_crdt_frame: "crdt_frame g (snd (on_crdt m g))"
  by (simp add: on_crdt_def crdt_frame_def split: prod.split)

lemma on_rt_snd: "g_rt (snd (on_rt m g)) = snd (m (g_rt g))" "fst (on_rt m g) = fst (m (g_rt g))"
  "pending_conflicts (snd (on_rt m g)) = pending_conflicts g" "pending_duplicates (snd (on_rt m g)) = pending_duplicates g"
  by (simp_all add: on_rt_def split: prod.split)

lemma publish_frame: "crdt_frame g (snd (on_rt (publish env ev) g))"
  using same_core_fields [OF publish_core [of "g_rt g" env ev]] by (simp add: crdt_frame_def on_rt_snd)

lemma handle_fork_frame: "crdt_frame g (snd (handle_fork ge cb k oids vcs g))"
proof -
  have "crdt_frame g (g\<lparr>g_rt := drawn (g_rt g)\<rparr>)"
    by (simp add: crdt_frame_def)
  moreover have "crdt_frame (g\<lparr>g_rt := drawn (g_rt g)\<rparr>) (snd (handle_fork ge cb k oids vcs g))"
    unfolding handle_fork_def draw_uuid_drawn Let_def prod.case by (intro bind_frame on_crdt_frame publish_frame)
  ultimately show ?thesis
    using crdt_frame_trans by blast
qed

lemma point_to_frame: "crdt_frame g (snd (point_to ge cb v k g))"
proof -
  have "crdt_frame g (snd (detect_and_handle_fork ge cb key g))" for key g
    using handle_fork_frame by (auto simp: detect_and_handle_fork_def crdt_frame_refl split: sum.split)
  then have "crdt_frame g (snd ((if a then detect_and_handle_fork ge cb (obj_id k) else retM ()) g))" for a g
    by (simp add: retM_def crdt_frame_refl)
  moreover have "object_id_for cks (Live k) = Inr (ko_hash k)" for cks
    by (simp add: object_id_for_def)
  ultimately show ?thesis
    by (auto simp: point_to_def crdt_frame_refl intro!: bind_frame on_crdt_frame)
qed

lemma run_steps_frame:
  assumes "\<And>x g. crdt_frame g (snd (step x g))"
  shows "crdt_frame g (snd (run_steps step xs g))"
proof (induction xs arbitrary: g)
  case (Cons x xs)
  then show ?case
    unfolding run_steps.simps by (intro bind_frame assms)
qed (simp add: crdt_frame_refl)

lemma merge_crdt_frame: "crdt_frame g (snd (merge_crdt_objects ge remote g))"
  by (auto simp: merge_crdt_objects_def crdt_frame_refl Let_def retM_def split: option.split
      intro!: bind_frame on_crdt_frame run_steps_frame point_to_frame)

text \<open>What the sessions that exist keep while a new one is registered.\<close>

definition keeps_sessions :: "'st rt \<Rightarrow> 'st rt \<Rightarrow> bool" where
  "keeps_sessions rt rt' \<longleftrightarrow> (\<forall>q < next_ref rt. the_session rt' q = the_session rt q)"

lemma announce_core: "same_core rt (snd (announce env b rt))"
  unfolding announce_def by (intro bind_core store_session_core publish_core) (simp add: retM_def)

lemma foreign_branch_keeps: "keeps_sessions rt (snd (register_foreign_branch env r ks pv extra rt))"
proof -
  obtain b rt1 where m: "manager_create env ks (Some (session_id (the_session rt r))) pv rt = (b, rt1)"
    by fastforce
  then have "keeps_sessions rt rt1" "b = next_ref rt"
    by (auto simp: manager_create_def draw_uuid_def register_session_def keeps_sessions_def Let_def)
  then show ?thesis
    by (simp add: register_foreign_branch_def m keeps_sessions_def same_core_fields(1) [OF announce_core])
qed

lemma conflict_branch_keeps: "keeps_sessions rt (snd (register_conflict_branch ge r remote rt))"
  using foreign_branch_keeps [of rt "g_env ge" r "knowledge_structure remote" "parent_version_id remote"
      "[(''gossip_source_replica_id'', PStr (own_replica ge))]"]
  by (auto simp: register_conflict_branch_def split: prod.split sum.split)

lemma report_conflict_keeps:
  assumes "report_conflict ge r remote res g = (Inr b, g')"
  shows "\<not> b \<and> keeps_sessions (g_rt g) (g_rt g')"
proof (cases "case dget (pending_conflicts g) (session_id remote) of None \<Rightarrow> False
    | Some v \<Rightarrow> vv_eq v (vv_from_metadata (metadata remote))")
  case True
  then show ?thesis
    using assms by (auto simp: report_conflict_def Let_def keeps_sessions_def)
next
  case False
  obtain branch rt1 where br: "register_conflict_branch ge r remote (g_rt g) = (branch, rt1)"
    by fastforce
  let ?g = "g\<lparr>g_rt := rt1, pending_conflicts := dset (pending_conflicts g) (session_id remote) (vv_from_metadata (metadata remote))\<rparr>"
  obtain u g1 where p: "on_rt (publish (g_env ge) (GossipConflictDetected (own_replica ge) (session_id (the_session rt1 r))
      branch (conflict_ids ge res))) ?g = (Inr u, g1)" "retM False g1 = (Inr b, g')"
    using assms False br by (auto simp: report_conflict_def Let_def elim!: bindM_InrE)
  have "keeps_sessions (g_rt g) rt1"
    using conflict_branch_keeps [of "g_rt g" ge r remote] br by simp
  moreover have "session_heap (g_rt g1) = session_heap rt1"
    using publish_frame [of ?g "g_env ge"] p(1) unfolding crdt_frame_def by (metis gossip.select_convs(1) gossip.surjective
        gossip.update_convs(1,3) snd_conv)
  ultimately show ?thesis
    using p(2) by (auto simp: keeps_sessions_def retM_def)
qed

section \<open>The paths of a reconciliation\<close>

text \<open>
  The local state before and after, by its session \<open>r\<close>: kept, taken over from a snapshot that
  knew everything, or merged with one that did not.
\<close>

definition kept :: "'st rt \<Rightarrow> 'st rt \<Rightarrow> nat \<Rightarrow> bool" where
  "kept rt rt' r \<longleftrightarrow>
     knowledge_structure (the_session rt' r) = knowledge_structure (the_session rt r) \<and>
     version_history (the_session rt' r) = version_history (the_session rt r) \<and>
     grows (vector_of (the_session rt r)) (vector_of (the_session rt' r)) \<and>
     (\<forall>q < next_ref rt. q \<noteq> r \<longrightarrow> the_session rt' q = the_session rt q)"

definition justified :: "'st env \<Rightarrow> 'st rt \<Rightarrow> 'st rt \<Rightarrow> nat \<Rightarrow> session \<Rightarrow> bool" where
  "justified env rt rt' r remote \<longleftrightarrow>
     (let s = the_session rt r; s' = the_session rt' r; local_vector = vector_of s; remote_vector = vector_of remote
      in \<not> dominates local_vector remote_vector \<and>
         (\<exists>v. version_history s' = version_history s @ [v]) \<and> grows local_vector (vector_of s') \<and>
         (if dominates remote_vector local_vector
          then knowledge_structure s' = knowledge_structure remote \<and> grows remote_vector (vector_of s')
          else \<exists>st t. merges_to env st (attach_transaction t s) remote (knowledge_structure s')) \<and>
         (\<forall>q < next_ref rt. q \<noteq> r \<longrightarrow> the_session rt' q = the_session rt q))"

lemma absorb_into_fields:
  "vector_of (the_session (absorb_into r v rt) r) = absorb (vector_of (the_session rt r)) v"
  "version_history (the_session (absorb_into r v rt) r) = version_history (the_session rt r)"
  "knowledge_structure (the_session (absorb_into r v rt) r) = knowledge_structure (the_session rt r)"
  "q \<noteq> r \<Longrightarrow> the_session (absorb_into r v rt) q = the_session rt q"
  by (simp_all add: absorb_into_def vector_of_def)

lemma equivalent_kept:
  assumes "bindM (if dominates (vector_of (the_session (g_rt g) r)) (vector_of remote) then retM ()
             else on_rt (\<lambda>rt. store_session env r None (absorb_into r (vector_of remote) rt))) (\<lambda>_. resolved sid) g = (Inr b, g')"
    and "vv_ok (vector_of (the_session (g_rt g) r))" and "vv_ok (vector_of remote)"
  shows "b \<and> kept (g_rt g) (g_rt g') r"
proof (cases "dominates (vector_of (the_session (g_rt g) r)) (vector_of remote)")
  case True
  then show ?thesis
    using assms(1) by (auto simp: bindM_def retM_def resolved_def kept_def)
next
  case False
  let ?rt = "absorb_into r (vector_of remote) (g_rt g)"
  have "same_core ?rt (g_rt g')" "b"
    using assms(1) False store_session_core [of ?rt env r None]
    by (auto simp: bindM_def resolved_def on_rt_def split: prod.splits sum.splits)
  then show ?thesis
    using grows_absorb(1) [OF assms(2,3)] by (simp add: kept_def same_core_fields absorb_into_fields)
qed

lemma fast_forward_justified:
  assumes "bindM (on_rt (\<lambda>rt. commit_with env r [ReplaceStateOperation i (Some (knowledge_structure remote))]
             (absorb_into r (vector_of remote) rt))) (\<lambda>_. resolved sid) g = (Inr b, g')"
    and "vv_ok (vector_of (the_session (g_rt g) r))" and "vv_ok (vector_of remote)"
    and "\<not> dominates (vector_of (the_session (g_rt g) r)) (vector_of remote)"
    and "dominates (vector_of remote) (vector_of (the_session (g_rt g) r))"
  shows "b \<and> justified env (g_rt g) (g_rt g') r remote"
proof -
  let ?rt = "absorb_into r (vector_of remote) (g_rt g)"
  obtain v where c: "commit_with env r [ReplaceStateOperation i (Some (knowledge_structure remote))] ?rt = (Inr v, g_rt g')" "b"
    using assms(1) by (auto simp: bindM_def resolved_def on_rt_def split: prod.splits sum.splits)
  have a: "adopted ?rt (g_rt g') r (vector_of (the_session ?rt r)) (knowledge_structure remote) v"
    using commit_replace [OF c(1)] .
  then have "grows (absorb (vector_of (the_session (g_rt g) r)) (vector_of remote)) (vector_of (the_session (g_rt g') r))"
    by (simp add: adopted_def absorb_into_fields)
  then have "grows (vector_of (the_session (g_rt g) r)) (vector_of (the_session (g_rt g') r))"
    "grows (vector_of remote) (vector_of (the_session (g_rt g') r))"
    using grows_absorb [OF assms(2,3)] grows_trans by blast+
  then show ?thesis
    using a c(2) assms(4,5) by (simp add: justified_def adopted_def absorb_into_fields)
qed

lemma merge_justified:
  assumes "bindM (on_rt (commit_with env r [MergeOperation ''gossip-merge'' (Some q) None None None])) (\<lambda>_. resolved sid) g = (Inr b, g')"
    and "q \<noteq> r" and "the_session (g_rt g) q = remote"
    and "\<not> dominates (vector_of (the_session (g_rt g) r)) (vector_of remote)"
    and "\<not> dominates (vector_of remote) (vector_of (the_session (g_rt g) r))"
  shows "b \<and> justified env (g_rt g) (g_rt g') r remote"
proof -
  obtain v where c: "commit_with env r [MergeOperation ''gossip-merge'' (Some q) None None None] (g_rt g) = (Inr v, g_rt g')" "b"
    using assms(1) by (auto simp: bindM_def resolved_def on_rt_def split: prod.splits sum.splits)
  obtain ks where "merges_to env (rt_storage (g_rt g)) (attach_transaction (next_ref (g_rt g)) (the_session (g_rt g) r)) remote ks"
      "adopted (g_rt g) (g_rt g') r (vector_of (the_session (g_rt g) r)) ks v"
    using commit_merge [OF c(1) assms(2)] assms(3-5) by auto
  then show ?thesis
    using c(2) assms(4,5) by (auto simp: justified_def adopted_def)
qed

lemma incomparable_probe:
  assumes "\<not> dominates (vector_of (the_session rt r)) (vector_of (the_session rt q))"
    and "\<not> dominates (vector_of (the_session rt q)) (vector_of (the_session rt r))"
    and "executor_execute env (MergeOperation i (Some q) None None None) r rt = (res, rt')"
  shows "rt' = rt"
proof -
  have "snd (run_operation env (MergeOperation i (Some q) None None None) r rt) = upd_session r (\<lambda>_. the_session rt r) rt"
    using assms(1,2) by (simp add: execute_merge_def Let_def vector_of_def split: sum.splits)
  also have "\<dots> = rt"
    by (cases rt) (simp add: upd_session_def)
  finally show ?thesis
    using assms(3) by (auto simp: executor_execute_def split: prod.splits sum.splits)
qed

lemma report_duplicate_kept:
  assumes "report_duplicate ge local remote g = (Inr b, g')"
  shows "\<not> b \<and> session_heap (g_rt g') = session_heap (g_rt g)"
  using assms publish_core [of "g_rt g" "g_env ge"]
  by (auto simp: report_duplicate_def Let_def bindM_def retM_def on_rt_def same_core_fields split: if_splits prod.splits sum.splits)
    (metis same_core_fields(1) snd_conv)+

lemma reconcile_outcome:
  assumes "reconcile ge r q g = (Inr b, g')" and "the_session (g_rt g) q = remote" and "q \<noteq> r"
    and "vv_ok (vector_of (the_session (g_rt g) r))" and "vv_ok (vector_of remote)" and "r < next_ref (g_rt g)"
  shows "kept (g_rt g) (g_rt g') r \<or> b \<and> justified (g_env ge) (g_rt g) (g_rt g') r remote"
proof -
  let ?env = "g_env ge" and ?local = "the_session (g_rt g) r" and ?sid = "session_id remote"
  let ?L = "vector_of ?local" and ?R = "vector_of remote"
  let ?g = "g\<lparr>pending_duplicates := dpop (pending_duplicates g) ?sid\<rparr>"
  let ?merge = "MergeOperation ''gossip-merge'' (Some q) None None None"
  note run = assms(1) [unfolded reconcile_def Let_def vector_of_def [symmetric] assms(2)]
  have same: "kept (g_rt g) rt' r" if "\<forall>p < next_ref (g_rt g). the_session rt' p = the_session (g_rt g) p" for rt'
    using that assms(6) by (simp add: kept_def)
  consider (duplicate) "duplicate_id_detected ge ?local remote"
    | (equivalent) "\<not> duplicate_id_detected ge ?local remote"
        "structurally_equivalent ge (knowledge_structure ?local) (knowledge_structure remote)"
    | (ahead) "\<not> duplicate_id_detected ge ?local remote"
        "\<not> structurally_equivalent ge (knowledge_structure ?local) (knowledge_structure remote)" "dominates ?L ?R"
    | (behind) "\<not> duplicate_id_detected ge ?local remote"
        "\<not> structurally_equivalent ge (knowledge_structure ?local) (knowledge_structure remote)"
        "\<not> dominates ?L ?R" "dominates ?R ?L"
    | (concurrent) "\<not> duplicate_id_detected ge ?local remote"
        "\<not> structurally_equivalent ge (knowledge_structure ?local) (knowledge_structure remote)"
        "\<not> dominates ?L ?R" "\<not> dominates ?R ?L"
    by blast
  then show ?thesis
  proof cases
    case duplicate
    then have "session_heap (g_rt g') = session_heap (g_rt g)"
      using report_duplicate_kept [of ge ?local remote g b g'] run by simp
    then show ?thesis
      using same by simp
  next
    case equivalent
    then show ?thesis
      using equivalent_kept [of ?g r remote ?env ?sid b g'] run assms(4,5) by simp
  next
    case ahead
    then have "g_rt g' = g_rt g"
      using run by (auto simp: resolved_def)
    then show ?thesis
      using same by simp
  next
    case behind
    then show ?thesis
      using fast_forward_justified [of ?env r "''gossip-fast-forward''" remote ?sid ?g b g'] run assms(4,5) by simp
  next
    case concurrent
    obtain probe rt1 where p: "executor_execute ?env ?merge r (g_rt g) = (probe, rt1)"
      by fastforce
    have rt1: "rt1 = g_rt g"
      using incomparable_probe [OF _ _ p] concurrent(3,4) assms(2) by simp
    have id: "?g\<lparr>g_rt := g_rt g\<rparr> = ?g"
      by (cases g) simp
    have after: "(if res_status probe = FAILED then report_conflict ge r remote probe ?g
        else bindM (on_rt (commit_with ?env r [?merge])) (\<lambda>_. resolved ?sid) ?g) = (Inr b, g')"
      using run concurrent p rt1 by (simp add: id cong: if_cong)
    show ?thesis
    proof (cases "res_status probe = FAILED")
      case True
      then have "keeps_sessions (g_rt g) (g_rt g')"
        using report_conflict_keeps [of ge r remote probe ?g b g'] after by (simp add: keeps_sessions_def)
      then show ?thesis
        using same by (simp add: keeps_sessions_def)
    next
      case False
      then show ?thesis
        using merge_justified [of ?env r q ?sid ?g b g' remote] after concurrent(3,4) assms(2,3) by simp
    qed
  qed
qed


text \<open>A replica without a CRDT store.\<close>

lemma apply_plain:
  assumes "crdt_backend ge = None" and "get_session (session_id remote) (g_rt g) = Some r"
  shows "apply_remote_session ge remote g =
    (case place_session remote (g_rt g) of (q, rt) \<Rightarrow> reconcile ge r q (g\<lparr>g_rt := rt\<rparr>))"
  using assms by (simp add: apply_remote_session_def merge_crdt_objects_def bindM_def)

text \<open>An update that arrives during a transaction is lost: when a newer snapshot of a session
  with an open transaction arrives, the call raises, but the local vector has absorbed the
  remote one; once the transaction has ended, the same snapshot is taken for known, the call
  returns True, and the remote content never arrives.\<close>

theorem busy_session_loses_update:
  assumes "crdt_backend ge = None" and "get_session (session_id remote) (g_rt g) = Some r" and "r < next_ref (g_rt g)"
    and "s = the_session (g_rt g) r" and "has_active_transaction s"
    and "\<not> duplicate_id_detected ge s remote"
    and "\<not> structurally_equivalent ge (knowledge_structure s) (knowledge_structure remote)"
    and "vv_ok (vector_of s)" and "vv_ok (vector_of remote)"
    and "\<not> dominates (vector_of s) (vector_of remote)" and "dominates (vector_of remote) (vector_of s)"
  shows "\<exists>g'. apply_remote_session ge remote g = (Inl RuntimeError, g') \<and>
    knowledge_structure (the_session (g_rt g') r) = knowledge_structure s \<and>
    (\<forall>g2. get_session (session_id remote) (g_rt g2) = Some r \<longrightarrow> r < next_ref (g_rt g2) \<longrightarrow>
       the_session (g_rt g2) r = detach_transaction (the_session (g_rt g') r) \<longrightarrow>
       (\<exists>g3. apply_remote_session ge remote g2 = (Inr True, g3) \<and>
          the_session (g_rt g3) r = the_session (g_rt g2) r))"
proof -
  let ?L = "vector_of s" and ?R = "vector_of remote" and ?q = "next_ref (g_rt g)"
  obtain rt where rt: "place_session remote (g_rt g) = (?q, rt)" "session_heap rt = (session_heap (g_rt g))(?q := remote)"
    by (simp add: place_session_def)
  have at: "the_session rt r = s" "the_session rt ?q = remote"
    using rt(2) assms(3,4) by simp_all
  let ?g = "g\<lparr>g_rt := absorb_into r ?R rt, pending_duplicates := dpop (pending_duplicates g) (session_id remote)\<rparr>"
  have "has_active_transaction (the_session (absorb_into r ?R rt) r)"
    using assms(5) at(1) by (simp add: absorb_into_def has_active_transaction_def)
  then have "commit_with (g_env ge) r ps (absorb_into r ?R rt) = (Inl RuntimeError, absorb_into r ?R rt)" for ps
    by (simp add: commit_with_def begin_transaction_def bindM_def)
  then have "apply_remote_session ge remote g = (Inl RuntimeError, ?g)"
    using assms(6,7,10,11) at
    unfolding apply_plain [OF assms(1,2)] rt(1) prod.case reconcile_def Let_def vector_of_def [symmetric]
    by (simp add: on_rt_def bindM_def cong: if_cong)
  moreover have s': "knowledge_structure (the_session (g_rt ?g) r) = knowledge_structure s"
    "vector_of (the_session (g_rt ?g) r) = absorb ?L ?R"
    using at(1) by (simp_all add: absorb_into_fields)
  moreover have "\<exists>g3. apply_remote_session ge remote g2 = (Inr True, g3) \<and> the_session (g_rt g3) r = the_session (g_rt g2) r"
    if "get_session (session_id remote) (g_rt g2) = Some r" "r < next_ref (g_rt g2)"
      "the_session (g_rt g2) r = detach_transaction (the_session (g_rt ?g) r)" for g2
  proof -
    let ?s = "the_session (g_rt g2) r" and ?p = "next_ref (g_rt g2)"
    have v: "vector_of ?s = absorb ?L ?R" "knowledge_structure ?s = knowledge_structure s"
      using that(3) s' by (simp_all add: detach_transaction_def vector_of_def)
    have "dominates (vector_of ?s) ?R"
      using absorb_dominates [OF assms(8,9,11)] v(1) by simp
    moreover have "clk (vector_of ?s) n = max (clk ?L n) (clk ?R n)" for n
      using clk_absorb [OF assms(8,9)] v(1) by simp
    then have "\<not> duplicate_id_detected ge ?s remote"
      using assms(6,7) v(2) unfolding duplicate_id_detected_def Let_def vector_of_def [symmetric] by auto
    moreover obtain rt2 where rt2: "place_session remote (g_rt g2) = (?p, rt2)"
        "session_heap rt2 = (session_heap (g_rt g2))(?p := remote)"
      by (simp add: place_session_def)
    moreover have "the_session rt2 r = ?s" "the_session rt2 ?p = remote"
      using rt2(2) that(2) by simp_all
    ultimately show ?thesis
      using assms(7) v(2) unfolding apply_plain [OF assms(1) that(1)] reconcile_def Let_def vector_of_def [symmetric]
      by (simp add: resolved_def)
  qed
  ultimately show ?thesis
    by blast
qed

section \<open>A sample replica\<close>

definition sample_ge :: "(unit, unit) gossip_env" where
  "sample_ge = \<lparr>g_env = bare_env, own_replica = ''r'', crdt_backend = None, structure_validator = None,
     structurally_equivalent = (=), exn_text = (\<lambda>e. [])\<rparr>"

definition replica_at :: "int \<Rightarrow> nat option \<Rightarrow> (unit, unit) gossip" where
  "replica_at c a =
     \<lparr>g_rt = fresh_rt\<lparr>session_heap := (\<lambda>_. first_session\<lparr>metadata := vector_metadata [(''a'', c)], active_transaction := a\<rparr>)\<rparr>,
      g_crdt = (), pending_conflicts = [], pending_duplicates = []\<rparr>"

definition remote_at :: "int \<Rightarrow> session" where
  "remote_at c = first_session\<lparr>knowledge_structure := one_object, metadata := vector_metadata [(''a'', c)]\<rparr>"

lemma sample_fields [simp]:
  "crdt_backend sample_ge = None" "g_env sample_ge = bare_env" "structurally_equivalent sample_ge = (=)"
  "get_session ''s'' (g_rt (replica_at c a)) = Some 0" "next_ref (g_rt (replica_at c a)) = 1"
  "the_session (g_rt (replica_at c a)) r = first_session\<lparr>metadata := vector_metadata [(''a'', c)], active_transaction := a\<rparr>"
  "session_id (remote_at c) = ''s''" "vector_of (remote_at c) = \<lparr>clocks = [(''a'', c)]\<rparr>"
  "vector_of (first_session\<lparr>metadata := vector_metadata [(''a'', c)], active_transaction := a\<rparr>) = \<lparr>clocks = [(''a'', c)]\<rparr>"
  "knowledge_structure (remote_at c) = one_object"
  by (simp_all add: sample_ge_def replica_at_def remote_at_def fresh_rt_def get_session_def dict_simps vector_of_def
      vector_metadata_vv)

lemma sample_paths:
  "\<not> duplicate_id_detected sample_ge (first_session\<lparr>metadata := vector_metadata [(''a'', 1)], active_transaction := a\<rparr>) (remote_at 2)"
  "\<not> dominates \<lparr>clocks = [(''a'', 1)]\<rparr> \<lparr>clocks = [(''a'', 2)]\<rparr>" "dominates \<lparr>clocks = [(''a'', 2)]\<rparr> \<lparr>clocks = [(''a'', 1)]\<rparr>"
  "\<lparr>ks_objects = []\<rparr> \<noteq> one_object"
  unfolding duplicate_id_detected_def Let_def vector_of_def [symmetric] sample_fields
  by (simp_all add: sample_ge_def clk_def dict_simps dget_or_def dominates_def one_object_def)

theorem busy_session_loses_update_witness:
  "\<exists>g'. apply_remote_session sample_ge (remote_at 2) (replica_at 1 (Some 0)) = (Inl RuntimeError, g') \<and>
     knowledge_structure (the_session (g_rt g') 0) = \<lparr>ks_objects = []\<rparr>"
proof -
  have "vv_ok (vector_of (the_session (g_rt (replica_at 1 (Some 0))) 0))" "vv_ok (vector_of (remote_at 2))"
    by (simp_all add: one_clock_ok)
  from busy_session_loses_update [where ge = sample_ge, OF _ _ _ refl _ _ _ this] show ?thesis
    using sample_paths by (auto simp: has_active_transaction_def)
qed

lemma replace_first_phase:
  assumes "\<not> has_active_transaction (the_session rt r)"
  shows "\<exists>rt1. first_phase env (next_ref rt) (begun env r [ReplaceStateOperation i (Some ks)] rt) = (Inr (), rt1) \<and>
    the_session rt1 r = (attach_transaction (next_ref rt) (the_session rt r))\<lparr>knowledge_structure := ks\<rparr> \<and>
    tx_session (the_tx rt1 (next_ref rt)) = r"
  using begun_fields [OF assms]
  by (simp add: first_phase_def execute_operations_def run_defs)

lemma sample_fast_forward:
  assumes "the_session rt 0 = first_session\<lparr>metadata := m, active_transaction := None\<rparr>"
  shows "\<exists>v rt'. commit_with bare_env 0 [ReplaceStateOperation i (Some one_object)] rt = (Inr v, rt')"
proof -
  let ?p = "ReplaceStateOperation i (Some one_object)"
  let ?t = "next_ref rt" and ?b = "begun bare_env 0 [?p] rt"
  have a: "\<not> has_active_transaction (the_session rt 0)"
    by (simp add: assms has_active_transaction_def)
  obtain rt1 where 1: "first_phase bare_env ?t ?b = (Inr (), rt1)" "tx_session (the_tx rt1 ?t) = 0"
      "the_session rt1 0 = first_session\<lparr>active_transaction := Some ?t, knowledge_structure := one_object, metadata := m\<rparr>"
    using replace_first_phase [OF a, of bare_env i one_object] assms by (auto simp: attach_transaction_def)
  have "current_state ?t ?b = \<lparr>ks_objects = []\<rparr>"
    using begun_fields(1,2) [OF a] assms by (simp add: current_state_def attach_transaction_def)
  moreover have "core_bridge bare_env = Some sample_core" "replica_id bare_env = None"
    by (simp_all add: bare_env_def)
  ultimately obtain v s' where "makes_version bare_env ?t (current_state ?t ?b) rt1 v s'"
    using sample_version_metadata unfolding makes_version_def Let_def 1(2,3) by metis
  then obtain v rt' where "commit bare_env ?t ?b = (Inr v, rt')"
    using commit_returns [OF bare_accepting(1) 1(1)] by blast
  then show ?thesis
    using a by (simp add: commit_with_def begun_def begin_transaction_def Let_def draw_uuid_def bindM_def)
qed


end
