(* ===== verification/Gossip_Filter.thy ===== *)
theory Gossip_Filter
  imports Py_Text
begin

text \<open>
  The replay, order and clock checks on incoming gossip messages
  (\<open>gossip/filter.py\<close>).  The ordered dictionaries whose values are all \<open>None\<close>
  are lists of keys; the current time \<open>now_ms\<close> is an argument; nonces are strings and
  the numeric fields integers, as the envelope decoder delivers them.
\<close>

record gossip_filter =
  max_clock_skew_ms :: int
  max_nonce_cache :: int
  max_seq_reorder_window :: int
  seen_nonces :: "(string, string list) dict"
  last_seq :: "(string, int) dict"
  seen_seq :: "(string, int list) dict"

definition new_filter :: "int \<Rightarrow> int \<Rightarrow> int \<Rightarrow> gossip_filter" where
  "new_filter skew cache window =
     \<lparr>max_clock_skew_ms = max 0 skew, max_nonce_cache = max 1 cache,
      max_seq_reorder_window = max 1 window, seen_nonces = [], last_seq = [], seen_seq = []\<rparr>"

definition check_timestamp :: "gossip_filter \<Rightarrow> int \<Rightarrow> int option \<Rightarrow> int \<Rightarrow> bool" where
  "check_timestamp f timestamp_ms ttl_ms now_ms =
     (let skew = \<bar>now_ms - timestamp_ms\<bar>
      in if skew > max_clock_skew_ms f then False
         else case ttl_ms of
                None \<Rightarrow> True
              | Some ttl \<Rightarrow> if ttl < 0 then False else \<not> now_ms > timestamp_ms + ttl)"

definition check_nonce :: "string \<Rightarrow> string \<Rightarrow> gossip_filter \<Rightarrow> bool \<times> gossip_filter" where
  "check_nonce sender nonce f =
     (let clean_nonce = py_strip nonce
      in if clean_nonce = [] then (False, f)
         else
           let seen = dget_or (seen_nonces f) sender []
           in if clean_nonce \<in> set seen
              then (False, f\<lparr>seen_nonces := dset (seen_nonces f) sender seen\<rparr>)
              else
                let seen = seen @ [clean_nonce];
                    seen = drop (length seen - nat (max_nonce_cache f)) seen
                in (True, f\<lparr>seen_nonces := dset (seen_nonces f) sender seen\<rparr>))"

definition check_sequence :: "string \<Rightarrow> int \<Rightarrow> gossip_filter \<Rightarrow> bool \<times> gossip_filter" where
  "check_sequence sender seq f =
     (if seq < 0 then (False, f)
      else
        let last = dget_or (last_seq f) sender (-1);
            floor = last - max_seq_reorder_window f
        in if seq \<le> floor then (False, f)
           else
             let seen = dget_or (seen_seq f) sender []
             in if seq \<in> set seen then (False, f\<lparr>seen_seq := dset (seen_seq f) sender seen\<rparr>)
                else
                  let seen = seen @ [seq];
                      last_seqs = (if seq > last then dset (last_seq f) sender seq else last_seq f);
                      new_floor = dget_or last_seqs sender (-1) - max_seq_reorder_window f;
                      seen = filter (\<lambda>s. \<not> s \<le> new_floor) seen
                  in (True, f\<lparr>last_seq := last_seqs, seen_seq := dset (seen_seq f) sender seen\<rparr>))"

record message =
  msg_sender :: string
  msg_nonce :: "string option"
  msg_seq :: "int option"
  msg_time :: "int option"
  msg_ttl :: "int option"

text \<open>\<open>check\<close>: a nonce that passes is remembered also when the sequence number fails.\<close>

definition check :: "int \<Rightarrow> message \<Rightarrow> gossip_filter \<Rightarrow> bool \<times> gossip_filter" where
  "check now_ms m f =
     (let sender = py_strip (msg_sender m)
      in if sender = [] then (False, f)
         else if (case msg_time m of None \<Rightarrow> False | Some t \<Rightarrow> \<not> check_timestamp f t (msg_ttl m) now_ms)
         then (False, f)
         else
           let (nonce_ok, f') = (case msg_nonce m of None \<Rightarrow> (True, f) | Some n \<Rightarrow> check_nonce sender n f)
           in if \<not> nonce_ok then (False, f')
              else case msg_seq m of None \<Rightarrow> (True, f') | Some seq \<Rightarrow> check_sequence sender seq f')"

definition reset :: "string \<Rightarrow> gossip_filter \<Rightarrow> gossip_filter" where
  "reset replica_id f =
     (let sender = py_strip replica_id
      in if sender = [] then f
         else f\<lparr>seen_nonces := dpop (seen_nonces f) sender, last_seq := dpop (last_seq f) sender,
                seen_seq := dpop (seen_seq f) sender\<rparr>)"

definition clear :: "gossip_filter \<Rightarrow> gossip_filter" where
  "clear f = f\<lparr>seen_nonces := [], last_seq := [], seen_seq := []\<rparr>"

definition filter_stats :: "gossip_filter \<Rightarrow> (string \<times> int) list" where
  "filter_stats f =
     [(''senders_with_nonces'', int (length (seen_nonces f))),
      (''senders_with_sequences'', int (length (last_seq f))),
      (''nonce_count'', int (sum_list (map length (dvals (seen_nonces f))))),
      (''max_nonce_cache'', max_nonce_cache f),
      (''max_clock_skew_ms'', max_clock_skew_ms f),
      (''max_seq_reorder_window'', max_seq_reorder_window f)]"

section \<open>The window against the whole history\<close>

text \<open>
  What the filter promises is stated over the whole history of accepted numbers of each
  sender; the filter itself keeps only the numbers inside the window.
\<close>

type_synonym seq_history = "string \<Rightarrow> int set"

definition high_water :: "int set \<Rightarrow> int" where
  "high_water H = (if H = {} then - 1 else Max H)"

definition fresh_seq :: "int \<Rightarrow> int set \<Rightarrow> int \<Rightarrow> bool" where
  "fresh_seq w H seq \<longleftrightarrow> 0 \<le> seq \<and> seq \<notin> H \<and> high_water H - w < seq"

definition window_ok :: "gossip_filter \<Rightarrow> seq_history \<Rightarrow> bool" where
  "window_ok f H \<longleftrightarrow>
     1 \<le> max_seq_reorder_window f \<and>
     (\<forall>sender. finite (H sender) \<and> (\<forall>s \<in> H sender. 0 \<le> s) \<and>
        dget_or (last_seq f) sender (-1) = high_water (H sender) \<and>
        set (dget_or (seen_seq f) sender []) =
          {s \<in> H sender. high_water (H sender) - max_seq_reorder_window f < s} \<and>
        distinct (dget_or (seen_seq f) sender []))"

lemma window_ok_new: "window_ok (new_filter skew cache window) (\<lambda>_. {})"
  by (simp add: window_ok_def new_filter_def high_water_def)

lemma high_water_ge: "finite H \<Longrightarrow> s \<in> H \<Longrightarrow> s \<le> high_water H"
  by (auto simp: high_water_def)

lemma high_water_insert: "finite H \<Longrightarrow> 0 \<le> s \<Longrightarrow> high_water (insert s H) = max s (high_water H)"
  by (auto simp: high_water_def)

lemma check_sequence_result:
  assumes "window_ok f H"
  shows "fst (check_sequence sender seq f) = fresh_seq (max_seq_reorder_window f) (H sender) seq \<and>
    window_ok (snd (check_sequence sender seq f))
      (if fst (check_sequence sender seq f) then H(sender := insert seq (H sender)) else H) \<and>
    max_seq_reorder_window (snd (check_sequence sender seq f)) = max_seq_reorder_window f"
proof -
  let ?w = "max_seq_reorder_window f" and ?m = "high_water (H sender)"
  have f: "finite (H sender)" "\<forall>s \<in> H sender. 0 \<le> s" "dget_or (last_seq f) sender (-1) = ?m"
    "set (dget_or (seen_seq f) sender []) = {s \<in> H sender. ?m - ?w < s}"
    "distinct (dget_or (seen_seq f) sender [])" "1 \<le> ?w"
    using assms unfolding window_ok_def by blast+
  show ?thesis
  proof (cases "fresh_seq ?w (H sender) seq")
    case False
    then have "fst (check_sequence sender seq f) = False"
      using f by (auto simp: fresh_seq_def check_sequence_def Let_def)
    moreover have "window_ok (snd (check_sequence sender seq f)) H"
      using False f assms
      by (auto simp: fresh_seq_def check_sequence_def Let_def window_ok_def)
    moreover have "max_seq_reorder_window (snd (check_sequence sender seq f)) = ?w"
      using False f by (auto simp: fresh_seq_def check_sequence_def Let_def)
    ultimately show ?thesis
      using False by simp
  next
    case True
    then have seq: "0 \<le> seq" "seq \<notin> H sender" "?m - ?w < seq"
      by (simp_all add: fresh_seq_def)
    have last: "dget_or (if seq > ?m then dset (last_seq f) sender seq else last_seq f) s (-1)
        = (if s = sender then max seq ?m else dget_or (last_seq f) s (-1))" for s
      using f(3) by auto
    have res: "check_sequence sender seq f =
        (True, f\<lparr>last_seq := (if seq > ?m then dset (last_seq f) sender seq else last_seq f),
                 seen_seq := dset (seen_seq f) sender
                   (filter (\<lambda>s. \<not> s \<le> max seq ?m - ?w) (dget_or (seen_seq f) sender [] @ [seq]))\<rparr>)"
      using seq f(4) unfolding check_sequence_def f(3) Let_def last
      by auto
    have "window_ok (snd (check_sequence sender seq f)) (H(sender := insert seq (H sender)))"
      using assms seq f(1,2,4,5,6) unfolding res snd_conv window_ok_def
      by (auto simp: last high_water_insert)
    then show ?thesis
      using True by (simp add: res)
  qed
qed


section \<open>Nonces against the whole history\<close>

text \<open>The cache of a sender is the tail of the list of nonces accepted from it.\<close>

definition nonces_ok :: "gossip_filter \<Rightarrow> (string \<Rightarrow> string list) \<Rightarrow> bool" where
  "nonces_ok f N \<longleftrightarrow>
     1 \<le> max_nonce_cache f \<and>
     (\<forall>sender. dget_or (seen_nonces f) sender [] =
        drop (length (N sender) - nat (max_nonce_cache f)) (N sender))"

lemma drop_snoc_window:
  "0 < k \<Longrightarrow> drop (length (drop (length xs - k) xs @ [x]) - k) (drop (length xs - k) xs @ [x])
     = drop (length (xs @ [x]) - k) (xs @ [x])"
  by (cases "length xs < k") (simp_all add: not_less Suc_diff_le)

lemma check_nonce_result:
  assumes "nonces_ok f N"
  shows "fst (check_nonce sender nonce f) =
      (py_strip nonce \<noteq> [] \<and>
       py_strip nonce \<notin> set (drop (length (N sender) - nat (max_nonce_cache f)) (N sender))) \<and>
    nonces_ok (snd (check_nonce sender nonce f))
      (if fst (check_nonce sender nonce f) then N(sender := N sender @ [py_strip nonce]) else N) \<and>
    max_nonce_cache (snd (check_nonce sender nonce f)) = max_nonce_cache f"
proof -
  let ?c = "nat (max_nonce_cache f)"
  have seen: "dget_or (seen_nonces f) s [] = drop (length (N s) - ?c) (N s)" for s
    using assms by (simp add: nonces_ok_def)
  have c: "0 < ?c" "1 \<le> max_nonce_cache f"
    using assms by (auto simp: nonces_ok_def)
  show ?thesis
  proof (cases "py_strip nonce \<noteq> [] \<and> py_strip nonce \<notin> set (drop (length (N sender) - ?c) (N sender))")
    case False
    then have "fst (check_nonce sender nonce f) = False"
      "\<And>s. dget_or (seen_nonces (snd (check_nonce sender nonce f))) s [] = dget_or (seen_nonces f) s []"
      "max_nonce_cache (snd (check_nonce sender nonce f)) = max_nonce_cache f"
      by (auto simp: check_nonce_def seen Let_def)
    then show ?thesis
      using False assms by (simp add: nonces_ok_def)
  next
    case True
    then have "fst (check_nonce sender nonce f)"
      "\<And>s. dget_or (seen_nonces (snd (check_nonce sender nonce f))) s [] =
         (if s = sender then drop (length (N sender @ [py_strip nonce]) - ?c) (N sender @ [py_strip nonce])
          else dget_or (seen_nonces f) s [])"
      "max_nonce_cache (snd (check_nonce sender nonce f)) = max_nonce_cache f"
      unfolding drop_snoc_window [OF c(1), of "N sender" "py_strip nonce", symmetric]
      by (simp_all add: check_nonce_def seen Let_def)
    then show ?thesis
      using True assms by (simp add: nonces_ok_def)
  qed
qed

lemma check_nonce_frame [simp]:
  "last_seq (snd (check_nonce sender nonce f)) = last_seq f"
  "seen_seq (snd (check_nonce sender nonce f)) = seen_seq f"
  "max_seq_reorder_window (snd (check_nonce sender nonce f)) = max_seq_reorder_window f"
  by (simp_all add: check_nonce_def Let_def)

lemma check_sequence_frame [simp]:
  "seen_nonces (snd (check_sequence sender seq f)) = seen_nonces f"
  "max_nonce_cache (snd (check_sequence sender seq f)) = max_nonce_cache f"
  by (simp_all add: check_sequence_def Let_def)

lemma window_ok_frame:
  "last_seq g = last_seq f \<Longrightarrow> seen_seq g = seen_seq f \<Longrightarrow>
   max_seq_reorder_window g = max_seq_reorder_window f \<Longrightarrow> window_ok g H = window_ok f H"
  by (simp add: window_ok_def)

lemma nonces_ok_frame:
  "seen_nonces g = seen_nonces f \<Longrightarrow> max_nonce_cache g = max_nonce_cache f \<Longrightarrow> nonces_ok g N = nonces_ok f N"
  by (simp add: nonces_ok_def)

section \<open>Runs\<close>

fun filter_run :: "(int \<times> message) list \<Rightarrow> gossip_filter \<Rightarrow> bool list \<times> gossip_filter" where
  "filter_run [] f = ([], f)"
| "filter_run ((now_ms, m) # ms) f =
     (case check now_ms m f of
        (b, f') \<Rightarrow> case filter_run ms f' of (bs, f'') \<Rightarrow> (b # bs, f''))"

text \<open>The sequence numbers accepted from a sender, in order.\<close>

fun accepted_seqs :: "string \<Rightarrow> (int \<times> message) list \<Rightarrow> bool list \<Rightarrow> int list" where
  "accepted_seqs sender ((_, m) # ms) (b # bs) =
     (case msg_seq m of
        Some seq \<Rightarrow> if b \<and> py_strip (msg_sender m) = sender then seq # accepted_seqs sender ms bs
                    else accepted_seqs sender ms bs
      | None \<Rightarrow> accepted_seqs sender ms bs)"
| "accepted_seqs sender _ _ = []"

definition history_add :: "message \<Rightarrow> bool \<Rightarrow> seq_history \<Rightarrow> seq_history" where
  "history_add m b H =
     (case msg_seq m of
        Some seq \<Rightarrow> if b then H(py_strip (msg_sender m) := insert seq (H (py_strip (msg_sender m)))) else H
      | None \<Rightarrow> H)"

lemma check_window:
  assumes "window_ok f H"
  shows "window_ok (snd (check now_ms m f)) (history_add m (fst (check now_ms m f)) H) \<and>
    (fst (check now_ms m f) \<longrightarrow>
      (\<forall>seq. msg_seq m = Some seq \<longrightarrow> fresh_seq (max_seq_reorder_window f) (H (py_strip (msg_sender m))) seq)) \<and>
    max_seq_reorder_window (snd (check now_ms m f)) = max_seq_reorder_window f"
proof -
  let ?s = "py_strip (msg_sender m)"
  define g where "g = (case msg_nonce m of None \<Rightarrow> (True, f) | Some n \<Rightarrow> check_nonce ?s n f)"
  have g: "window_ok (snd g) H" "max_seq_reorder_window (snd g) = max_seq_reorder_window f"
    using assms window_ok_frame [of "snd (check_nonce ?s n f)" f H for n]
    by (auto simp: g_def split: option.splits)
  have eq: "check now_ms m f =
      (if ?s = [] \<or> (case msg_time m of None \<Rightarrow> False | Some t \<Rightarrow> \<not> check_timestamp f t (msg_ttl m) now_ms)
       then (False, f)
       else if \<not> fst g then (False, snd g)
       else case msg_seq m of None \<Rightarrow> (True, snd g) | Some seq \<Rightarrow> check_sequence ?s seq (snd g))"
    unfolding check_def Let_def case_prod_unfold g_def [symmetric] by (simp split: option.split)
  show ?thesis
  proof (cases "msg_seq m")
    case None
    then show ?thesis
      using assms g by (simp add: eq history_add_def)
  next
    case (Some seq)
    then show ?thesis
      using assms g check_sequence_result [OF g(1), of ?s seq]
      by (cases "fst (check_sequence ?s seq (snd g))") (simp_all add: eq history_add_def)
  qed
qed

lemma run_window:
  assumes "window_ok f H"
  shows "window_ok (snd (filter_run ms f)) (\<lambda>s. H s \<union> set (accepted_seqs s ms (fst (filter_run ms f)))) \<and>
    distinct (accepted_seqs s ms (fst (filter_run ms f))) \<and>
    set (accepted_seqs s ms (fst (filter_run ms f))) \<inter> H s = {}"
  using assms
proof (induction ms arbitrary: f H)
  case (Cons tm ms)
  obtain now_ms m where tm: "tm = (now_ms, m)"
    by fastforce
  obtain b f1 where 1: "check now_ms m f = (b, f1)"
    by fastforce
  obtain bs f2 where 2: "filter_run ms f1 = (bs, f2)"
    by fastforce
  have w: "window_ok f1 (history_add m b H)"
    "b \<Longrightarrow> msg_seq m = Some seq \<Longrightarrow> fresh_seq (max_seq_reorder_window f) (H (py_strip (msg_sender m))) seq" for seq
    using check_window [OF Cons.prems, of now_ms m] 1 by auto
  have IH: "window_ok f2 (\<lambda>s. history_add m b H s \<union> set (accepted_seqs s ms bs))"
    "distinct (accepted_seqs s ms bs)" "set (accepted_seqs s ms bs) \<inter> history_add m b H s = {}"
    using Cons.IH [OF w(1)] 2 by simp_all
  have acc: "(\<lambda>s. history_add m b H s \<union> set (accepted_seqs s ms bs)) =
      (\<lambda>s. H s \<union> set (accepted_seqs s ((now_ms, m) # ms) (b # bs)))"
    by (rule ext) (simp add: history_add_def split: option.split)
  have run: "filter_run ((now_ms, m) # ms) f = (b # bs, f2)"
    by (simp add: 1 2)
  have new: "accepted_seqs s ((now_ms, m) # ms) (b # bs) = accepted_seqs s ms bs \<and> history_add m b H s = H s \<or>
      (\<exists>seq. accepted_seqs s ((now_ms, m) # ms) (b # bs) = seq # accepted_seqs s ms bs \<and>
         history_add m b H s = insert seq (H s) \<and> seq \<notin> H s)"
    using w(2) by (cases "msg_seq m") (simp_all add: history_add_def fresh_seq_def)
  show ?case
    using IH new unfolding tm run acc fst_conv snd_conv by (auto simp del: accepted_seqs.simps)
qed (simp add: window_ok_def)

lemma card_window_bound:
  assumes "finite H" and "1 \<le> w"
  shows "card {s \<in> H. high_water H - w < s} \<le> nat w"
proof -
  have "{s \<in> H. high_water H - w < s} \<subseteq> {high_water H - w + 1 .. high_water H}"
    using high_water_ge [OF assms(1)] by auto
  from card_mono [OF _ this] show ?thesis
    by simp
qed


section \<open>Properties\<close>

text \<open>C15: No sequence number is accepted twice: over any sequence of incoming messages
  (any senders, nonces, timestamps and clock readings) a new filter accepts each sequence
  number of each sender at most once.\<close>

theorem no_seq_accepted_twice:
  "distinct (accepted_seqs sender ms (fst (filter_run ms (new_filter skew cache window))))"
  using run_window [OF window_ok_new] by blast

text \<open>The bounded state of the filter decides as the unbounded history would: a
  sequence number is accepted iff it is not negative, was never accepted from the sender,
  and is less than the window behind the highest number accepted; the state stays
  representative, and it holds at most \<open>max_seq_reorder_window\<close> numbers per sender.\<close>

theorem check_sequence_exact:
  assumes "window_ok f H"
  shows "fst (check_sequence sender seq f) = fresh_seq (max_seq_reorder_window f) (H sender) seq \<and>
    window_ok (snd (check_sequence sender seq f))
      (if fresh_seq (max_seq_reorder_window f) (H sender) seq then H(sender := insert seq (H sender)) else H) \<and>
    length (dget_or (seen_seq f) sender []) \<le> nat (max_seq_reorder_window f)"
proof -
  have "distinct (dget_or (seen_seq f) sender [])"
    "set (dget_or (seen_seq f) sender []) = {s \<in> H sender. high_water (H sender) - max_seq_reorder_window f < s}"
    "finite (H sender)" "1 \<le> max_seq_reorder_window f"
    using assms unfolding window_ok_def by blast+
  then have "length (dget_or (seen_seq f) sender []) \<le> nat (max_seq_reorder_window f)"
    using card_window_bound by (metis distinct_card)
  then show ?thesis
    using check_sequence_result [OF assms, of sender seq] by metis
qed

theorem check_sequence_exact_witness:
  "fst (check_sequence ''a'' 3 (snd (check_sequence ''a'' 5 (new_filter 0 1 4)))) \<and>
   \<not> fst (check_sequence ''a'' 1 (snd (check_sequence ''a'' 5 (new_filter 0 1 4))))"
proof -
  have first: "fst (check_sequence ''a'' 5 (new_filter 0 1 4)) = True"
    by code_simp
  have 5: "window_ok (snd (check_sequence ''a'' 5 (new_filter 0 1 4))) ((\<lambda>_. {})(''a'' := {5}))"
    "max_seq_reorder_window (snd (check_sequence ''a'' 5 (new_filter 0 1 4))) = 4"
    using check_sequence_result [OF window_ok_new, of "''a''" 5 0 1 4]
    unfolding first by (simp_all add: new_filter_def)
  show ?thesis
    using check_sequence_exact [OF 5(1), of "''a''" 3] check_sequence_exact [OF 5(1), of "''a''" 1]
    by (simp add: 5(2) fresh_seq_def high_water_def)
qed

text \<open>The nonce cache remembers the last \<open>max_nonce_cache\<close> nonces accepted from a sender
  and nothing else: a nonce is accepted iff it is not blank and not among them.\<close>

theorem check_nonce_exact:
  assumes "nonces_ok f N"
  shows "fst (check_nonce sender nonce f) =
      (py_strip nonce \<noteq> [] \<and>
       py_strip nonce \<notin> set (drop (length (N sender) - nat (max_nonce_cache f)) (N sender))) \<and>
    nonces_ok (snd (check_nonce sender nonce f))
      (if fst (check_nonce sender nonce f) then N(sender := N sender @ [py_strip nonce]) else N)"
  using check_nonce_result [OF assms] by blast

theorem check_nonce_exact_witness:
  "\<not> fst (check_nonce ''a'' '' x'' (snd (check_nonce ''a'' ''x '' (new_filter 0 2 4))))"
proof -
  have x: "py_strip ''x '' = ''x''" "py_strip '' x'' = ''x''"
    by code_simp+
  have first: "fst (check_nonce ''a'' ''x '' (new_filter 0 2 4)) = True"
    by code_simp
  have "nonces_ok (new_filter 0 2 4) (\<lambda>_. [])"
    by (simp add: nonces_ok_def new_filter_def)
  from check_nonce_result [OF this, of "''a''" "''x ''"]
  have "nonces_ok (snd (check_nonce ''a'' ''x '' (new_filter 0 2 4))) ((\<lambda>_. [])(''a'' := [''x'']))"
    "max_nonce_cache (snd (check_nonce ''a'' ''x '' (new_filter 0 2 4))) = 2"
    unfolding first x by (simp_all add: new_filter_def)
  then show ?thesis
    using check_nonce_exact [of "snd (check_nonce ''a'' ''x '' (new_filter 0 2 4))" _ "''a''" "'' x''"]
    by (simp add: x)
qed

end
