(* ===== verification/Seq_No.thy ===== *)
theory Seq_No
  imports Gossip_Filter "HOL-Library.Multiset"
begin

text \<open>
  The persisted counter that numbers outgoing envelopes (\<open>gossip/seq_no.py\<close>), over a
  world of one state file and any number of counters: several roles in one process,
  several processes, or one process after another.  \<open>next\<close> holds the file lock for its
  whole read-increment-write, so it is one step.
\<close>

text \<open>
  The state file: its content as \<open>json.loads\<close> reads it (\<open>None\<close> where it is absent,
  unreadable or not JSON), and whether it can be written.
\<close>

record seq_file =
  sf_data :: "pyval option"
  sf_writable :: bool

record seq_counter =
  sc_replica :: string
  sc_persist :: bool
  sc_value :: int

fun number_entries :: "(string \<times> pyval) list \<Rightarrow> (string, int) dict" where
  "number_entries [] = []"
| "number_entries ((k, PInt i) # es) = (k, i) # number_entries es"
| "number_entries ((k, PFloat r) # es) = (k, py_trunc r) # number_entries es"
| "number_entries (_ # es) = number_entries es"

definition read_all :: "seq_file \<Rightarrow> (string, int) dict" where
  "read_all file = (case sf_data file of Some (PDict d) \<Rightarrow> number_entries d | _ \<Rightarrow> [])"

definition read_one :: "seq_file \<Rightarrow> string \<Rightarrow> int" where
  "read_one file replica_id = dget_or (read_all file) replica_id 0"

definition write_all :: "(string, int) dict \<Rightarrow> seq_file \<Rightarrow> seq_file" where
  "write_all data file =
     (if sf_writable file then file\<lparr>sf_data := Some (PDict (map (\<lambda>(k, v). (k, PInt v)) data))\<rparr> else file)"

definition new_counter :: "string \<Rightarrow> bool \<Rightarrow> int \<Rightarrow> seq_file \<Rightarrow> exn + seq_counter" where
  "new_counter replica_id persist start file =
     (if py_strip replica_id = [] then Inl ValueError
      else if start < 0 then Inl ValueError
      else
        let initial = (if persist then read_one file replica_id else 0)
        in Inr \<lparr>sc_replica = replica_id, sc_persist = persist, sc_value = max start initial\<rparr>)"

definition next_seq :: "seq_counter \<Rightarrow> seq_file \<Rightarrow> int \<times> seq_counter \<times> seq_file" where
  "next_seq c file =
     (let all_values = (if sc_persist c then read_all file else []);
          floor = (if sc_persist c then max (sc_value c) (dget_or all_values (sc_replica c) 0) else sc_value c);
          value = floor + 1;
          file' = (if sc_persist c then write_all (dset all_values (sc_replica c) value) file else file)
      in (value, c\<lparr>sc_value := value\<rparr>, file'))"

section \<open>The world of counters\<close>

record seq_world =
  w_file :: seq_file
  w_counters :: "seq_counter list"
  w_issued :: "(string \<times> int) list"

datatype seq_event = NewCounter string bool int | Next nat

text \<open>A refused construction and a call on a counter that does not exist change nothing;
  \<open>w_issued\<close> lists the numbers persisting counters have handed out.\<close>

fun seq_step :: "seq_event \<Rightarrow> seq_world \<Rightarrow> seq_world" where
  "seq_step (NewCounter replica_id persist start) w =
     (case new_counter replica_id persist start (w_file w) of
        Inl _ \<Rightarrow> w
      | Inr c \<Rightarrow> w\<lparr>w_counters := w_counters w @ [c]\<rparr>)"
| "seq_step (Next i) w =
     (if i < length (w_counters w)
      then
        let c = w_counters w ! i;
            (value, c', file') = next_seq c (w_file w)
        in w\<lparr>w_file := file', w_counters := (w_counters w)[i := c'],
             w_issued := (if sc_persist c then w_issued w @ [(sc_replica c, value)] else w_issued w)\<rparr>
      else w)"

definition seq_start :: "pyval option \<Rightarrow> seq_world" where
  "seq_start data = \<lparr>w_file = \<lparr>sf_data = data, sf_writable = True\<rparr>, w_counters = [], w_issued = []\<rparr>"

definition issued_to :: "string \<Rightarrow> seq_world \<Rightarrow> int list" where
  "issued_to r w = map snd (filter (\<lambda>(r', _). r' = r) (w_issued w))"

definition seq_inv :: "seq_file \<Rightarrow> seq_world \<Rightarrow> bool" where
  "seq_inv f0 w \<longleftrightarrow> sf_writable (w_file w) \<and>
     (\<forall>r. sorted_wrt (<) (issued_to r w) \<and> read_one f0 r \<le> read_one (w_file w) r \<and>
        (\<forall>n \<in> set (issued_to r w). 0 < n \<and> read_one f0 r < n \<and> n \<le> read_one (w_file w) r)) \<and>
     (\<forall>c \<in> set (w_counters w). 0 \<le> sc_value c)"

lemma number_entries_PInt [simp]: "number_entries (map (\<lambda>(k, v). (k, PInt v)) d) = d"
  by (induction d) auto

lemma read_write: "sf_writable file \<Longrightarrow> read_all (write_all data file) = data \<and> sf_writable (write_all data file)"
  by (simp add: read_all_def write_all_def)

lemma next_persist:
  assumes "sf_writable file" and "sc_persist c" and "next_seq c file = (value, c', file')"
  shows "sf_writable file' \<and> value = max (sc_value c) (read_one file (sc_replica c)) + 1 \<and>
    (\<forall>r. read_one file' r = (if r = sc_replica c then value else read_one file r)) \<and>
    sc_value c' = value"
  using assms by (auto simp: next_seq_def Let_def read_one_def read_write)

lemma next_volatile:
  "\<not> sc_persist c \<Longrightarrow> next_seq c file = (value, c', file') \<Longrightarrow> file' = file \<and> sc_value c' = sc_value c + 1"
  by (auto simp: next_seq_def Let_def)

lemma new_counter_value: "new_counter r p start file = Inr c \<Longrightarrow> 0 \<le> sc_value c"
  by (auto simp: new_counter_def Let_def split: if_splits)

lemma in_set_update: "c \<in> set (cs[i := x]) \<Longrightarrow> c = x \<or> c \<in> set cs"
  using set_update_subset_insert [of cs i x] by blast

lemma seq_step_inv:
  assumes "seq_inv f0 w"
  shows "seq_inv f0 (seq_step e w)"
proof (cases e)
  case (NewCounter r p start)
  show ?thesis
    using assms new_counter_value [of r p start "w_file w"]
    by (auto simp: NewCounter seq_inv_def issued_to_def split: sum.splits)
next
  case (Next i)
  show ?thesis
  proof (cases "i < length (w_counters w)")
    case i: True
    define c where "c = w_counters w ! i"
    obtain v c' file' where n: "next_seq c (w_file w) = (v, c', file')"
      by (cases "next_seq c (w_file w)") auto
    have c: "0 \<le> sc_value c"
      using assms i by (auto simp: seq_inv_def c_def)
    have step: "seq_step e w = w\<lparr>w_file := file', w_counters := (w_counters w)[i := c'],
        w_issued := (if sc_persist c then w_issued w @ [(sc_replica c, v)] else w_issued w)\<rparr>"
      using i n by (simp add: Next c_def Let_def)
    show ?thesis
    proof (cases "sc_persist c")
      case True
      note np = next_persist [OF _ True n]
      have w: "sf_writable (w_file w)"
        using assms by (simp add: seq_inv_def)
      have issued: "issued_to r (seq_step e w) = issued_to r w @ (if r = sc_replica c then [v] else [])" for r
        using True by (simp add: step issued_to_def)
      have facts: "sf_writable file'" "0 < v" "sc_value c' = v" "read_one (w_file w) (sc_replica c) < v"
        "\<And>r. read_one file' r = (if r = sc_replica c then v else read_one (w_file w) r)"
        using np [OF w] c by auto
      have below: "n < v" if "n \<in> set (issued_to (sc_replica c) w)" for n
        using assms that facts(4) unfolding seq_inv_def by (blast intro: le_less_trans)
      have base: "read_one f0 (sc_replica c) < v"
        using assms facts(4) unfolding seq_inv_def by (blast intro: le_less_trans)
      show ?thesis
        using assms facts below base unfolding seq_inv_def issued
        by (auto simp: step sorted_wrt_append less_imp_le dest!: in_set_update)
    next
      case False
      then show ?thesis
        using assms next_volatile [OF False n] c
        by (auto simp: step seq_inv_def issued_to_def dest!: in_set_update)
    qed
  qed (use assms in \<open>simp add: Next\<close>)
qed

lemma seq_run_inv: "seq_inv f0 w \<Longrightarrow> seq_inv f0 (fold seq_step es w)"
  by (induction es arbitrary: w) (auto simp: seq_step_inv)

lemma seq_start_inv: "seq_inv (w_file (seq_start data)) (seq_start data)"
  by (simp add: seq_inv_def seq_start_def issued_to_def)


section \<open>Numbers at the receiving filter\<close>

fun seq_run :: "string \<Rightarrow> int list \<Rightarrow> gossip_filter \<Rightarrow> bool list \<times> gossip_filter" where
  "seq_run sender [] f = ([], f)"
| "seq_run sender (n # ns) f =
     (case check_sequence sender n f of
        (b, f') \<Rightarrow> case seq_run sender ns f' of (bs, f'') \<Rightarrow> (b # bs, f''))"

text \<open>The delivery order: no number comes after one that is \<open>w\<close> or more above it.\<close>

definition reordered_within :: "int \<Rightarrow> int list \<Rightarrow> bool" where
  "reordered_within w ns \<longleftrightarrow> sorted_wrt (\<lambda>m n. m - w < n) ns"

lemma high_water_less: "finite H \<Longrightarrow> 0 < w \<Longrightarrow> 0 \<le> n \<Longrightarrow> (\<forall>m \<in> H. m - w < n) \<Longrightarrow> high_water H - w < n"
  by (auto simp: high_water_def)

lemma seq_run_accepts:
  "window_ok f H \<Longrightarrow> distinct ns \<Longrightarrow> \<forall>n \<in> set ns. 0 \<le> n \<and> n \<notin> H sender \<and> (\<forall>m \<in> H sender. m - max_seq_reorder_window f < n) \<Longrightarrow>
   reordered_within (max_seq_reorder_window f) ns \<Longrightarrow> list_all (\<lambda>b. b) (fst (seq_run sender ns f))"
proof (induction ns arbitrary: f H)
  case (Cons n ns)
  have w: "1 \<le> max_seq_reorder_window f" "finite (H sender)"
    using Cons.prems(1) unfolding window_ok_def by blast+
  have "fresh_seq (max_seq_reorder_window f) (H sender) n"
    using Cons.prems(3) w high_water_less by (simp add: fresh_seq_def)
  then obtain f' where f': "check_sequence sender n f = (True, f')"
    "window_ok f' (H(sender := insert n (H sender)))" "max_seq_reorder_window f' = max_seq_reorder_window f"
    using check_sequence_result [OF Cons.prems(1), of sender n] by (cases "check_sequence sender n f") auto
  have "list_all (\<lambda>b. b) (fst (seq_run sender ns f'))"
    using Cons.prems(2-4) f'(3) by (intro Cons.IH [OF f'(2)]) (auto simp: reordered_within_def)
  then show ?case
    by (auto simp: f'(1) split: prod.splits)
qed simp

section \<open>Properties\<close>

text \<open>No two envelopes of a replica carry the same number: over any interleaving of
  constructions and calls of persisting counters on one state file, whatever the file held,
  the numbers handed out for a replica id strictly increase in the order they are handed
  out, are positive, and exceed the number the file held for it at the start (so a restart
  never repeats one).\<close>

theorem seq_numbers_increase:
  "sorted_wrt (<) (issued_to r (fold seq_step es (seq_start data))) \<and>
   (\<forall>n \<in> set (issued_to r (fold seq_step es (seq_start data))).
      0 < n \<and> read_one \<lparr>sf_data = data, sf_writable = True\<rparr> r < n)"
  using seq_run_inv [OF seq_start_inv, of data es] by (auto simp: seq_inv_def seq_start_def)

lemma strip_r: "py_strip ''r'' = ''r''"
  by code_simp

lemmas run_simps = seq_start_def issued_to_def new_counter_def next_seq_def read_one_def read_all_def
  write_all_def Let_def dset_def dget_or_def dget_def

theorem seq_numbers_increase_witness:
  "issued_to ''r'' (fold seq_step
     [NewCounter ''r'' True 0, NewCounter ''r'' True 7, Next 0, Next 1, Next 0, NewCounter ''r'' True 0, Next 2]
     (seq_start (Some (PDict [(''r'', PInt 3)])))) = [4, 8, 9, 10] \<and>
   sorted_wrt (<) [4, 8, 9, 10 :: int]"
proof -
  have run: "issued_to ''r'' (fold seq_step
     [NewCounter ''r'' True 0, NewCounter ''r'' True 7, Next 0, Next 1, Next 0, NewCounter ''r'' True 0, Next 2]
     (seq_start (Some (PDict [(''r'', PInt 3)])))) = [4, 8, 9, 10]"
    by (simp add: strip_r run_simps)
  then show ?thesis
    using seq_numbers_increase [of "''r''"
      "[NewCounter ''r'' True 0, NewCounter ''r'' True 7, Next 0, Next 1, Next 0, NewCounter ''r'' True 0, Next 2]"
      "Some (PDict [(''r'', PInt 3)])"] unfolding run by blast
qed

text \<open>The window tolerates reordering: the numbers a replica hands out reach a new
  filter in any order, each once; if none arrives after a number that is a whole window or
  more above it, the filter accepts them all.\<close>

theorem issued_numbers_accepted:
  assumes "mset ns = mset (issued_to r (fold seq_step es (seq_start data)))"
    and "reordered_within (max 1 window) ns"
  shows "list_all (\<lambda>b. b) (fst (seq_run r ns (new_filter skew cache window)))"
proof -
  let ?is = "issued_to r (fold seq_step es (seq_start data))"
  have "sorted_wrt (<) ?is" "\<forall>n \<in> set ?is. 0 < n"
    using seq_run_inv [OF seq_start_inv, of data es] by (auto simp: seq_inv_def)
  then have "distinct ns" "\<forall>n \<in> set ns. 0 \<le> n"
    using assms(1) strict_sorted_iff [of ?is] mset_eq_setD [OF assms(1)]
    by (auto simp: less_imp_le dest: mset_eq_imp_distinct_iff)
  then show ?thesis
    using assms(2) by (intro seq_run_accepts [OF window_ok_new]) (simp_all add: new_filter_def)
qed

theorem issued_numbers_accepted_witness:
  "list_all (\<lambda>b. b) (fst (seq_run ''r'' [2, 1, 3] (new_filter 0 1 2)))"
proof -
  have "issued_to ''r'' (fold seq_step [NewCounter ''r'' True 0, Next 0, Next 0, Next 0] (seq_start None)) = [1, 2, 3]"
    by (simp add: strip_r run_simps)
  then show ?thesis
    using issued_numbers_accepted [of "[2, 1, 3]" "''r''" "[NewCounter ''r'' True 0, Next 0, Next 0, Next 0]" None 2]
    by (simp add: reordered_within_def add_mset_commute)
qed

end
