(* ===== verification/Peer_Scheduler.thy ===== *)
theory Peer_Scheduler
  imports Prelude
begin

text \<open>
  Which peer to gossip with next (\<open>gossip/scheduling.py\<close>) and how discovered peers join
  (\<open>gossip/discovery.py\<close>).  Floats are rationals; \<open>random.choices\<close> is modelled by the
  library's own algorithm over the one random number it draws.
\<close>

record peer_stats =
  successes :: int
  failures :: int
  consecutive_failures :: nat
  last_attempt_ms :: "int option"
  backoff_until_ms :: int

definition new_stats :: peer_stats where
  "new_stats = \<lparr>successes = 0, failures = 0, consecutive_failures = 0, last_attempt_ms = None,
                backoff_until_ms = 0\<rparr>"

definition weight :: "peer_stats \<Rightarrow> rat" where
  "weight st = of_int (successes st + 1) / of_int (successes st + failures st + 2)"

record scheduler =
  peer_table :: "(string, peer_stats) dict"
  base_backoff_s :: rat
  max_backoff_s :: rat

fun add_peers :: "string list \<Rightarrow> (string, peer_stats) dict \<Rightarrow> (string, peer_stats) dict" where
  "add_peers [] d = d"
| "add_peers (p # ps) d = add_peers ps (dset d p new_stats)"

definition new_scheduler :: "string list \<Rightarrow> rat \<Rightarrow> rat \<Rightarrow> exn + scheduler" where
  "new_scheduler ps base mx =
     (if base \<le> 0 then Inl ValueError
      else if mx < base then Inl ValueError
      else Inr \<lparr>peer_table = add_peers ps [], base_backoff_s = base, max_backoff_s = mx\<rparr>)"

definition peers :: "scheduler \<Rightarrow> string list" where
  "peers s = dkeys (peer_table s)"

definition add_peer :: "string \<Rightarrow> scheduler \<Rightarrow> scheduler" where
  "add_peer p s =
     (if dhas (peer_table s) p then s else s\<lparr>peer_table := dset (peer_table s) p new_stats\<rparr>)"

definition remove_peer :: "string \<Rightarrow> scheduler \<Rightarrow> scheduler" where
  "remove_peer p s = s\<lparr>peer_table := dpop (peer_table s) p\<rparr>"

text \<open>\<open>stats_for\<close> is \<open>setdefault\<close>: it starts tracking an unknown peer.\<close>

definition stats_for :: "string \<Rightarrow> scheduler \<Rightarrow> peer_stats \<times> scheduler" where
  "stats_for p s = (dget_or (peer_table s) p new_stats, add_peer p s)"

definition record_success :: "string \<Rightarrow> int \<Rightarrow> scheduler \<Rightarrow> scheduler" where
  "record_success p now_ms s =
     (case stats_for p s of
        (st, s') \<Rightarrow>
          s'\<lparr>peer_table := dset (peer_table s') p
               (st\<lparr>successes := successes st + 1, consecutive_failures := 0, backoff_until_ms := 0,
                  last_attempt_ms := Some now_ms\<rparr>)\<rparr>)"

definition backoff_s :: "scheduler \<Rightarrow> nat \<Rightarrow> rat" where
  "backoff_s s consecutive = min (base_backoff_s s * 2 ^ (consecutive - 1)) (max_backoff_s s)"

definition record_failure :: "string \<Rightarrow> int \<Rightarrow> scheduler \<Rightarrow> scheduler" where
  "record_failure p now_ms s =
     (case stats_for p s of
        (st, s') \<Rightarrow>
          let consecutive = consecutive_failures st + 1
          in s'\<lparr>peer_table := dset (peer_table s') p
               (st\<lparr>failures := failures st + 1, consecutive_failures := consecutive,
                  last_attempt_ms := Some now_ms,
                  backoff_until_ms := now_ms + \<lfloor>backoff_s s consecutive * 1000\<rfloor>\<rparr>)\<rparr>)"

definition eligible_peers :: "int \<Rightarrow> scheduler \<Rightarrow> string list" where
  "eligible_peers now_ms s =
     map fst (filter (\<lambda>(_, st). backoff_until_ms st \<le> now_ms) (peer_table s))"

text \<open>
  \<open>random.choices(candidates, weights, k=1)[0]\<close> with \<open>u = random()\<close>: bisect the
  cumulative weights at \<open>u\<close> times their sum, the last candidate being the upper limit.
\<close>

fun pick :: "rat \<Rightarrow> (string \<times> rat) list \<Rightarrow> string" where
  "pick x [] = []"
| "pick x [(p, w)] = p"
| "pick x ((p, w) # q # qs) = (if x < w then p else pick (x - w) (q # qs))"

definition choose_peer :: "int \<Rightarrow> rat \<Rightarrow> scheduler \<Rightarrow> string option" where
  "choose_peer now_ms u s =
     (let candidates = eligible_peers now_ms s
      in if candidates = [] then None
         else
           let weights = map (\<lambda>p. weight (dget_or (peer_table s) p new_stats)) candidates
           in Some (pick (u * sum_list weights) (zip candidates weights)))"

section \<open>Discovered peers\<close>

fun merge_discovered ::
  "string option \<Rightarrow> string list \<Rightarrow> string list \<Rightarrow> string list \<Rightarrow> scheduler \<Rightarrow> string list \<times> scheduler" where
  "merge_discovered self [] known newly s = (newly, s)"
| "merge_discovered self (a # as) known newly s =
     (if Some a = self \<or> a \<in> set known then merge_discovered self as known newly s
      else merge_discovered self as (known @ [a]) (newly @ [a]) (add_peer a s))"

definition merge_discovered_peers ::
  "string list \<Rightarrow> string option \<Rightarrow> scheduler \<Rightarrow> string list \<times> scheduler" where
  "merge_discovered_peers discovered self_address s =
     merge_discovered self_address discovered (peers s) [] s"

section \<open>Lemmas\<close>

definition stats_ok :: "peer_stats \<Rightarrow> bool" where
  "stats_ok st \<longleftrightarrow> 0 \<le> successes st \<and> 0 \<le> failures st \<and> int (consecutive_failures st) \<le> failures st"

definition scheduler_ok :: "scheduler \<Rightarrow> bool" where
  "scheduler_ok s \<longleftrightarrow>
     dict_ok (peer_table s) \<and> 0 < base_backoff_s s \<and> base_backoff_s s \<le> max_backoff_s s \<and>
     (\<forall>p st. dget (peer_table s) p = Some st \<longrightarrow> stats_ok st)"

lemma stats_ok_new [simp]: "stats_ok new_stats"
  by (simp add: stats_ok_def new_stats_def)

lemma dget_add_peer:
  "dget (peer_table (add_peer p s)) q =
     (if q = p then Some (dget_or (peer_table s) p new_stats) else dget (peer_table s) q)"
  by (auto simp: add_peer_def dhas_def dget_or_def split: option.splits)

lemma add_peer_frame [simp]:
  "base_backoff_s (add_peer p s) = base_backoff_s s" "max_backoff_s (add_peer p s) = max_backoff_s s"
  by (simp_all add: add_peer_def)

lemma dict_ok_add_peer: "dict_ok (peer_table s) \<Longrightarrow> dict_ok (peer_table (add_peer p s))"
  by (simp add: add_peer_def)

lemma add_peers_ok:
  "dict_ok d \<Longrightarrow> (\<forall>p st. dget d p = Some st \<longrightarrow> stats_ok st) \<Longrightarrow>
   dict_ok (add_peers ps d) \<and> (\<forall>p st. dget (add_peers ps d) p = Some st \<longrightarrow> stats_ok st)"
proof (induction ps arbitrary: d)
  case (Cons a ps)
  have "\<forall>p st. dget (dset d a new_stats) p = Some st \<longrightarrow> stats_ok st"
    using Cons.prems(2) by auto
  then show ?case
    using Cons.IH [OF dict_ok_dset [OF Cons.prems(1)]] by (simp only: add_peers.simps) blast
qed simp

lemma stats_ok_or: "scheduler_ok s \<Longrightarrow> stats_ok (dget_or (peer_table s) p new_stats)"
  by (auto simp: scheduler_ok_def dget_or_def split: option.splits)

lemma scheduler_ok_ops:
  assumes "scheduler_ok s"
  shows "scheduler_ok (add_peer p s)" "scheduler_ok (remove_peer p s)"
    "scheduler_ok (record_success p now s)" "scheduler_ok (record_failure p now s)"
  using assms stats_ok_or [OF assms, of p]
  by (auto simp: scheduler_ok_def dget_add_peer dict_ok_add_peer remove_peer_def record_success_def
      record_failure_def stats_for_def Let_def stats_ok_def split: if_splits)

lemma new_scheduler_ok: "new_scheduler ps base mx = Inr s \<Longrightarrow> scheduler_ok s"
  using add_peers_ok [of "[]" ps] by (auto simp: new_scheduler_def scheduler_ok_def split: if_splits)

lemma eligible_iff:
  "scheduler_ok s \<Longrightarrow> p \<in> set (eligible_peers now s) \<longleftrightarrow>
     (\<exists>st. dget (peer_table s) p = Some st \<and> backoff_until_ms st \<le> now)"
  by (force simp: eligible_peers_def dget_Some_iff scheduler_ok_def)

lemma pick_in: "ps \<noteq> [] \<Longrightarrow> pick x ps \<in> fst ` set ps"
  by (induction x ps rule: pick.induct) auto

lemma weight_bounds: "stats_ok st \<Longrightarrow> 0 < weight st \<and> weight st < 1"
  by (auto simp: weight_def stats_ok_def field_simps)

lemma peers_add_peer: "peers (add_peer p s) = (if p \<in> set (peers s) then peers s else peers s @ [p])"
  by (auto simp: add_peer_def peers_def dhas_iff dset_new) (simp_all add: dkeys_def)

definition new_addresses :: "string option \<Rightarrow> string list \<Rightarrow> string list \<Rightarrow> string set" where
  "new_addresses self as known = {a \<in> set as. a \<notin> set known \<and> Some a \<noteq> self}"

lemma merge_discovered_result:
  "set known = set (peers s) \<Longrightarrow>
   \<exists>N. fst (merge_discovered self as known newly s) = newly @ N \<and>
       distinct N \<and> set N = new_addresses self as known \<and>
       peers (snd (merge_discovered self as known newly s)) = peers s @ N"
proof (induction as arbitrary: known newly s)
  case (Cons a as)
  show ?case
  proof (cases "Some a = self \<or> a \<in> set known")
    case True
    then have "new_addresses self (a # as) known = new_addresses self as known"
      by (auto simp: new_addresses_def)
    then show ?thesis
      using True Cons.IH [OF Cons.prems, of newly] by simp
  next
    case False
    have "peers (add_peer a s) = peers s @ [a]"
      using False Cons.prems by (simp add: peers_add_peer)
    then obtain N where N: "fst (merge_discovered self as (known @ [a]) (newly @ [a]) (add_peer a s)) =
        (newly @ [a]) @ N"
      "distinct N" "set N = new_addresses self as (known @ [a])"
      "peers (snd (merge_discovered self as (known @ [a]) (newly @ [a]) (add_peer a s))) = peers s @ [a] @ N"
      using Cons.IH [of "known @ [a]" "add_peer a s" "newly @ [a]"] Cons.prems by auto
    have "set (a # N) = new_addresses self (a # as) known" "a \<notin> set N"
      using N(3) False by (auto simp: new_addresses_def)
    then show ?thesis
      using False N by (intro exI [of _ "a # N"]) simp
  qed
qed (simp add: new_addresses_def)

section \<open>Properties\<close>

text \<open>Backoff grows and is bounded: after a failure a peer is skipped until at least
  the whole milliseconds of the smaller of \<open>base * 2 ^ (n - 1)\<close> and the maximum, where \<open>n\<close>
  counts the failures since the last success; never longer than the maximum; and a success
  makes it eligible at once.\<close>

theorem backoff_bounds:
  assumes "scheduler_ok s" and "0 \<le> now"
  shows "(\<exists>st. dget (peer_table (record_failure p now s)) p = Some st \<and>
      consecutive_failures st = consecutive_failures (dget_or (peer_table s) p new_stats) + 1 \<and>
      backoff_until_ms st = now + \<lfloor>1000 * min (base_backoff_s s * 2 ^ consecutive_failures (dget_or (peer_table s) p new_stats))
                                              (max_backoff_s s)\<rfloor> \<and>
      now \<le> backoff_until_ms st \<and> backoff_until_ms st \<le> now + \<lfloor>1000 * max_backoff_s s\<rfloor>) \<and>
    p \<in> set (eligible_peers now (record_success p now (record_failure p now s)))"
proof
  let ?n = "consecutive_failures (dget_or (peer_table s) p new_stats)"
  have pos: "0 < base_backoff_s s" "0 < max_backoff_s s"
    using assms(1) by (auto simp: scheduler_ok_def)
  have "0 \<le> \<lfloor>1000 * min (base_backoff_s s * 2 ^ ?n) (max_backoff_s s)\<rfloor>"
    using pos by (simp add: min_def)
  moreover have "\<lfloor>1000 * min (base_backoff_s s * 2 ^ ?n) (max_backoff_s s)\<rfloor> \<le> \<lfloor>1000 * max_backoff_s s\<rfloor>"
    by (intro floor_mono mult_left_mono) simp_all
  ultimately show "\<exists>st. dget (peer_table (record_failure p now s)) p = Some st \<and>
      consecutive_failures st = ?n + 1 \<and>
      backoff_until_ms st = now + \<lfloor>1000 * min (base_backoff_s s * 2 ^ ?n) (max_backoff_s s)\<rfloor> \<and>
      now \<le> backoff_until_ms st \<and> backoff_until_ms st \<le> now + \<lfloor>1000 * max_backoff_s s\<rfloor>"
    by (simp add: record_failure_def stats_for_def Let_def backoff_s_def mult.commute)
  show "p \<in> set (eligible_peers now (record_success p now (record_failure p now s)))"
    using scheduler_ok_ops(3) [OF scheduler_ok_ops(4) [OF assms(1)]] assms(2)
    by (simp add: eligible_iff record_success_def stats_for_def)
qed

definition sample_scheduler :: scheduler where
  "sample_scheduler = \<lparr>peer_table = add_peers [''p'', ''q''] [], base_backoff_s = 1, max_backoff_s = 300\<rparr>"

lemma sample_scheduler_ok: "scheduler_ok sample_scheduler"
  by (rule new_scheduler_ok [of "[''p'', ''q'']" 1 300]) (simp add: new_scheduler_def sample_scheduler_def)

theorem backoff_bounds_witness:
  "\<exists>st. dget (peer_table (record_failure ''p'' 5 sample_scheduler)) ''p'' = Some st \<and> backoff_until_ms st \<le> 300005"
  using backoff_bounds [OF sample_scheduler_ok, of 5 "''p''"] by (auto simp: sample_scheduler_def)

text \<open>The choice is sound and live: whatever the random number, the peer chosen is a
  known one that is not backing off, and there is a choice exactly when such a peer
  exists.\<close>

theorem choose_peer_eligible:
  assumes "scheduler_ok s"
  shows "(choose_peer now u s = None) = (\<nexists>p st. dget (peer_table s) p = Some st \<and> backoff_until_ms st \<le> now) \<and>
    (\<forall>p. choose_peer now u s = Some p \<longrightarrow>
       (\<exists>st. dget (peer_table s) p = Some st \<and> backoff_until_ms st \<le> now \<and> 0 < weight st))"
proof -
  let ?c = "eligible_peers now s"
  have "?c = [] \<longleftrightarrow> (\<forall>p. p \<notin> set ?c)"
    by (cases ?c) auto
  moreover have "choose_peer now u s = Some p \<Longrightarrow> p \<in> set ?c" for p
    using pick_in [of "zip ?c (map (\<lambda>p. weight (dget_or (peer_table s) p new_stats)) ?c)"]
    by (fastforce simp: choose_peer_def Let_def split: if_splits dest: set_zip_leftD)
  moreover have "choose_peer now u s = None \<longleftrightarrow> ?c = []"
    by (simp add: choose_peer_def Let_def)
  moreover have "0 < weight st" if "dget (peer_table s) p = Some st" for p st
    using assms that weight_bounds unfolding scheduler_ok_def by blast
  ultimately show ?thesis
    using eligible_iff [OF assms, of _ now] by metis
qed

theorem choose_peer_eligible_witness:
  "choose_peer 7 (1/2) (record_failure ''p'' 5 sample_scheduler) = Some ''q'' \<and>
   (\<exists>st. dget (peer_table (record_failure ''p'' 5 sample_scheduler)) ''q'' = Some st \<and> backoff_until_ms st \<le> 7)"
proof -
  have "peer_table (record_failure ''p'' 5 sample_scheduler) =
      [(''p'', new_stats\<lparr>failures := 1, consecutive_failures := 1, last_attempt_ms := Some 5,
                backoff_until_ms := 1005\<rparr>), (''q'', new_stats)]"
    by (simp add: sample_scheduler_def record_failure_def stats_for_def add_peer_def dhas_def dget_or_def
        dget_def dset_def new_stats_def backoff_s_def Let_def)
  then have "choose_peer 7 (1/2) (record_failure ''p'' 5 sample_scheduler) = Some ''q''"
    by (simp add: choose_peer_def eligible_peers_def new_stats_def Let_def)
  then show ?thesis
    using choose_peer_eligible [OF scheduler_ok_ops(4) [OF sample_scheduler_ok], of 7 "1/2" "''p''" 5] by blast
qed

text \<open>Discovery adds exactly the unknown addresses, each once and never the replica's
  own, and returns what it added; known peers keep their place.\<close>

theorem discovery_adds_new:
  "set (fst (merge_discovered_peers as self s)) = {a \<in> set as. a \<notin> set (peers s) \<and> Some a \<noteq> self} \<and>
   distinct (fst (merge_discovered_peers as self s)) \<and>
   peers (snd (merge_discovered_peers as self s)) = peers s @ fst (merge_discovered_peers as self s)"
  using merge_discovered_result [OF refl, of self as s "[]"]
  by (auto simp: merge_discovered_peers_def new_addresses_def)

end
