(* ===== verification/Gossip_Node.thy ===== *)
theory Gossip_Node
  imports Envelope Gossip_Outcomes Seq_No Peer_Scheduler
begin

text \<open>
  A replica on the network: one exchange over a transport (\<open>gossip/transport.py\<close>) and inside a
  process (\<open>gossip/exchange.py\<close>), the replies of a server and the client side of the HTTP
  transport (\<open>gossip/http_transport.py\<close>), and the rounds of a service
  (\<open>gossip/service.py\<close>).  What the network answers is an argument; sockets, time-outs of the
  event loop and logging are left out.
\<close>

section \<open>State\<close>

record ('st, 'c) node_env =
  n_ge :: "('st, 'c) gossip_env"
  float_text :: "rat \<Rightarrow> string"
  dict_pairs :: "pyval list \<Rightarrow> exn + (string, pyval) dict"
  n_secret :: "nat list"
  fresh_nonce :: "nat \<Rightarrow> string"
  self_address :: "string option"
  with_discovery :: bool

record ('st, 'c) node =
  n_gossip :: "('st, 'c) gossip"
  n_filter :: gossip_filter
  n_counter :: seq_counter
  n_file :: seq_file
  n_scheduler :: scheduler
  n_tracked :: "string list"
  n_nonces :: nat
  n_now :: int

definition n_cks :: "('st, 'c) node_env \<Rightarrow> cks_objects" where
  "n_cks ne = env_cks (g_env (n_ge ne))"

definition track_session :: "string \<Rightarrow> ('st, 'c) node \<Rightarrow> ('st, 'c) node" where
  "track_session sid n = (if sid \<in> set (n_tracked n) then n else n\<lparr>n_tracked := n_tracked n @ [sid]\<rparr>)"

definition untrack_session :: "string \<Rightarrow> ('st, 'c) node \<Rightarrow> ('st, 'c) node" where
  "untrack_session sid n = n\<lparr>n_tracked := remove1 sid (n_tracked n)\<rparr>"

definition on_gossip :: "(('st, 'c) gossip, 'a) sx \<Rightarrow> (('st, 'c) node, 'a) sx" where
  "on_gossip m n = (case m (n_gossip n) of (x, g) \<Rightarrow> (x, n\<lparr>n_gossip := g\<rparr>))"

definition draw_seq :: "('st, 'c) node \<Rightarrow> int \<times> ('st, 'c) node" where
  "draw_seq n = (case next_seq (n_counter n) (n_file n) of (v, c, f) \<Rightarrow> (v, n\<lparr>n_counter := c, n_file := f\<rparr>))"

text \<open>\<open>from_session\<close> with a fresh nonce and the current time.\<close>

definition make_envelope :: "('st, 'c) node_env \<Rightarrow> int \<Rightarrow> session \<Rightarrow> (('st, 'c) node, envelope) sx" where
  "make_envelope ne seq s n =
     (from_session (float_text ne) (n_cks ne) (n_secret ne) (own_replica (n_ge ne)) seq (fresh_nonce ne (n_nonces n))
        (n_now n) s, n\<lparr>n_nonces := n_nonces n + 1\<rparr>)"

definition as_message :: "envelope \<Rightarrow> message" where
  "as_message e =
     \<lparr>msg_sender = sender_replica_id e, msg_nonce = Some (env_nonce e), msg_seq = Some (env_seq_no e),
      msg_time = Some (timestamp_ms e), msg_ttl = None\<rparr>"

section \<open>One exchange\<close>

text \<open>Both sides in one process; the second call sees what the first has done.\<close>

definition gossip_exchange ::
  "string \<Rightarrow> ('st, 'c) gossip_env \<Rightarrow> ('st, 'c) gossip_env \<Rightarrow> (('st, 'c) gossip \<times> ('st, 'c) gossip, unit) sx" where
  "gossip_exchange sid ge_a ge_b ab =
     (case ab of (a, b) \<Rightarrow>
        (case get_session sid (g_rt a) of
           None \<Rightarrow>
             (case get_session sid (g_rt b) of
                None \<Rightarrow> (Inr (), (a, b))
              | Some rb \<Rightarrow>
                  (case apply_remote_session ge_a (the_session (g_rt b) rb) a of
                     (Inl e, a') \<Rightarrow> (Inl e, (a', b)) | (Inr _, a') \<Rightarrow> (Inr (), (a', b))))
         | Some ra \<Rightarrow>
             (case apply_remote_session ge_b (the_session (g_rt a) ra) b of
                (Inl e, b') \<Rightarrow> (Inl e, (a, b'))
              | (Inr _, b') \<Rightarrow>
                  (case get_session sid (g_rt b) of
                     None \<Rightarrow> (Inr (), (a, b'))
                   | Some rb \<Rightarrow>
                       (case apply_remote_session ge_a (the_session (g_rt b') rb) a of
                          (Inl e, a') \<Rightarrow> (Inl e, (a', b')) | (Inr _, a') \<Rightarrow> (Inr (), (a', b')))))))"

text \<open>\<open>reply\<close> is what the transport makes of the envelope sent.\<close>

definition exchange_over_transport ::
  "('st, 'c) node_env \<Rightarrow> (envelope \<Rightarrow> exn + envelope option) \<Rightarrow> string \<Rightarrow> int \<Rightarrow> (('st, 'c) node, bool) sx" where
  "exchange_over_transport ne reply sid seq n =
     (case get_session sid (g_rt (n_gossip n)) of
        None \<Rightarrow> (Inr False, n)
      | Some r \<Rightarrow>
          bindM (make_envelope ne seq (the_session (g_rt (n_gossip n)) r)) (\<lambda>local_envelope n.
            case reply local_envelope of
              Inl e \<Rightarrow> (Inl e, n)
            | Inr None \<Rightarrow> (Inr True, n)
            | Inr (Some remote) \<Rightarrow>
                (case verify (float_text ne) (n_secret ne) remote of
                   Inl e \<Rightarrow> (Inl e, n)
                 | Inr False \<Rightarrow> (Inr False, n)
                 | Inr True \<Rightarrow>
                     (case check (n_now n) (as_message remote) (n_filter n) of
                        (False, f) \<Rightarrow> (Inr False, n\<lparr>n_filter := f\<rparr>)
                      | (True, f) \<Rightarrow>
                          (case to_session (n_cks ne) remote of
                             Inl e \<Rightarrow> (Inl e, n\<lparr>n_filter := f\<rparr>)
                           | Inr s \<Rightarrow> on_gossip (apply_remote_session (n_ge ne) s) (n\<lparr>n_filter := f\<rparr>))))) n)"

section \<open>HTTP\<close>

text \<open>An HTTP body read as JSON: a value, a wrong content type, or text that is no JSON.\<close>

datatype json_body = JsonValue pyval | WrongContentType | NotJson

text \<open>\<open>data.get\<close> of anything but an object is an \<open>AttributeError\<close>.\<close>

definition envelope_of_json :: "('st, 'c) node_env \<Rightarrow> pyval \<Rightarrow> exn + envelope" where
  "envelope_of_json ne v = (case v of PDict d \<Rightarrow> from_dict (n_cks ne) (dict_pairs ne) d | _ \<Rightarrow> Inl AttributeError)"

text \<open>What the client sees of a request.\<close>

datatype http_reply = ConnectionFailed | TimedOut | Replied nat json_body

definition http_exchange :: "('st, 'c) node_env \<Rightarrow> http_reply \<Rightarrow> exn + envelope option" where
  "http_exchange ne r =
     (case r of
        ConnectionFailed \<Rightarrow> Inl GossipTransportError
      | TimedOut \<Rightarrow> Inl GossipTransportError
      | Replied http_status body \<Rightarrow>
          if http_status = 404 then Inr None
          else if http_status \<noteq> 200 then Inl GossipTransportError
          else case body of
                 WrongContentType \<Rightarrow> Inl GossipTransportError
               | NotJson \<Rightarrow> Inl ValueError
               | JsonValue v \<Rightarrow>
                   (case envelope_of_json ne v of
                      Inr e \<Rightarrow> Inr (Some e)
                    | Inl e \<Rightarrow> if e = KeyError \<or> e = TypeError \<or> is_value_error e then Inl GossipTransportError else Inl e))"

definition http_fetch_peers :: "(pyval \<Rightarrow> string) \<Rightarrow> http_reply \<Rightarrow> exn + string list" where
  "http_fetch_peers to_str r =
     (case r of
        ConnectionFailed \<Rightarrow> Inl PeerDiscoveryError
      | TimedOut \<Rightarrow> Inl PeerDiscoveryError
      | Replied http_status body \<Rightarrow>
          if http_status \<noteq> 200 then Inl PeerDiscoveryError
          else case body of
                 WrongContentType \<Rightarrow> Inl PeerDiscoveryError
               | NotJson \<Rightarrow> Inl ValueError
               | JsonValue (PDict d) \<Rightarrow>
                   (case dget d ''peers'' of Some (PList ps) \<Rightarrow> Inr (map to_str ps) | _ \<Rightarrow> Inl PeerDiscoveryError)
               | JsonValue _ \<Rightarrow> Inl PeerDiscoveryError)"

text \<open>The responses of the server; the text of an error body is left out, and an exception that
  leaves a handler becomes \<open>Crashed\<close>.\<close>

datatype http_response = Response nat "(string, pyval) dict option" | Crashed exn

definition handle_peers :: "('st, 'c) node_env \<Rightarrow> string list option \<Rightarrow> string list" where
  "handle_peers ne known =
     (let peer_list = rev (remdups (rev (opt_or known [])))
      in case self_address ne of
           Some a \<Rightarrow> if a \<in> set peer_list then peer_list else a # peer_list
         | None \<Rightarrow> peer_list)"

text \<open>The checks before anything is applied: the envelope, or the response of the request.\<close>

definition admit ::
  "('st, 'c) node_env \<Rightarrow> int \<Rightarrow> string \<Rightarrow> json_body \<Rightarrow> gossip_filter \<Rightarrow> (http_response + envelope) \<times> gossip_filter" where
  "admit ne now_ms url_session body f =
     (case body of
        WrongContentType \<Rightarrow> (Inl (Response 400 None), f)
      | NotJson \<Rightarrow> (Inl (Response 400 None), f)
      | JsonValue v \<Rightarrow>
          (case envelope_of_json ne v of
             Inl e \<Rightarrow> (Inl (if e = KeyError \<or> e = TypeError \<or> is_value_error e then Response 400 None else Crashed e), f)
           | Inr e \<Rightarrow>
               if env_session_id e \<noteq> url_session then (Inl (Response 400 None), f)
               else case verify (float_text ne) (n_secret ne) e of
                      Inl x \<Rightarrow> (Inl (Crashed x), f)
                    | Inr False \<Rightarrow> (Inl (Response 401 None), f)
                    | Inr True \<Rightarrow>
                        (case check now_ms (as_message e) f of
                           (False, f') \<Rightarrow> (Inl (Response 409 None), f')
                         | (True, f') \<Rightarrow> (Inr e, f'))))"

definition reply_with :: "('st, 'c) node_env \<Rightarrow> string \<Rightarrow> ('st, 'c) node \<Rightarrow> http_response \<times> ('st, 'c) node" where
  "reply_with ne sid n =
     (case get_session sid (g_rt (n_gossip n)) of
        None \<Rightarrow> (Response 404 None, n)
      | Some r \<Rightarrow>
          (case draw_seq n of (seq, n) \<Rightarrow>
             (case make_envelope ne seq (the_session (g_rt (n_gossip n)) r) n of
                (Inl e, n) \<Rightarrow> (Crashed e, n)
              | (Inr e, n) \<Rightarrow> (Response 200 (Some (to_dict e)), n))))"

definition apply_envelope :: "('st, 'c) node_env \<Rightarrow> envelope \<Rightarrow> (('st, 'c) gossip, bool) sx" where
  "apply_envelope ne e g =
     (case to_session (n_cks ne) e of Inl x \<Rightarrow> (Inl x, g) | Inr s \<Rightarrow> apply_remote_session (n_ge ne) s g)"

definition handle_gossip ::
  "('st, 'c) node_env \<Rightarrow> string \<Rightarrow> json_body \<Rightarrow> ('st, 'c) node \<Rightarrow> http_response \<times> ('st, 'c) node" where
  "handle_gossip ne url_session body n =
     (case admit ne (n_now n) url_session body (n_filter n) of
        (Inl resp, f) \<Rightarrow> (resp, n\<lparr>n_filter := f\<rparr>)
      | (Inr e, f) \<Rightarrow>
          (case on_gossip (apply_envelope ne e) (n\<lparr>n_filter := f\<rparr>) of
             (Inl x, n') \<Rightarrow> (Crashed x, n')
           | (Inr _, n') \<Rightarrow> reply_with ne url_session n'))"

section \<open>Rounds of the service\<close>

text \<open>The sessions in order with one peer; \<open>False\<close> when the peer failed.  A number is drawn for
  each session, sent or not.\<close>

fun round_loop ::
  "('st, 'c) node_env \<Rightarrow> (envelope \<Rightarrow> exn + envelope option) \<Rightarrow> string \<Rightarrow> string list \<Rightarrow> (('st, 'c) node, bool) sx" where
  "round_loop ne reply peer [] n = (Inr True, n)"
| "round_loop ne reply peer (sid # sids) n =
     (case draw_seq n of (seq, n) \<Rightarrow>
        (case exchange_over_transport ne reply sid seq n of
           (Inl GossipTransportError, n) \<Rightarrow> (Inr False, n\<lparr>n_scheduler := record_failure peer (n_now n) (n_scheduler n)\<rparr>)
         | (Inl e, n) \<Rightarrow> (Inl e, n)
         | (Inr _, n) \<Rightarrow>
             round_loop ne reply peer sids (n\<lparr>n_scheduler := record_success peer (n_now n) (n_scheduler n)\<rparr>)))"

definition discover_from ::
  "('st, 'c) node_env \<Rightarrow> (string \<Rightarrow> exn + string list) \<Rightarrow> string \<Rightarrow> (('st, 'c) node, string list) sx" where
  "discover_from ne fetch peer n =
     (case fetch peer of
        Inl PeerDiscoveryError \<Rightarrow> (Inr [], n)
      | Inl e \<Rightarrow> (Inl e, n)
      | Inr discovered \<Rightarrow>
          (case merge_discovered_peers discovered (self_address ne) (n_scheduler n) of
             (newly, sched) \<Rightarrow> (Inr newly, n\<lparr>n_scheduler := sched\<rparr>)))"

definition gossip_round ::
  "('st, 'c) node_env \<Rightarrow> rat \<Rightarrow> (string \<Rightarrow> envelope \<Rightarrow> exn + envelope option) \<Rightarrow> (string \<Rightarrow> exn + string list)
     \<Rightarrow> (('st, 'c) node, string option) sx" where
  "gossip_round ne u transport fetch n =
     (case choose_peer (n_now n) u (n_scheduler n) of
        None \<Rightarrow> (Inr None, n)
      | Some peer \<Rightarrow>
          bindM (round_loop ne (transport peer) peer (n_tracked n)) (\<lambda>fine.
            if fine \<and> with_discovery ne then bindM (discover_from ne fetch peer) (\<lambda>_. retM (Some peer))
            else retM (Some peer)) n)"

fun discover_all ::
  "('st, 'c) node_env \<Rightarrow> (string \<Rightarrow> exn + string list) \<Rightarrow> string list \<Rightarrow> string list \<Rightarrow> (('st, 'c) node, string list) sx" where
  "discover_all ne fetch [] newly n = (Inr newly, n)"
| "discover_all ne fetch (p # ps) newly n =
     bindM (discover_from ne fetch p) (\<lambda>more. discover_all ne fetch ps (newly @ more)) n"

definition discover_peers ::
  "('st, 'c) node_env \<Rightarrow> (string \<Rightarrow> exn + string list) \<Rightarrow> (('st, 'c) node, string list) sx" where
  "discover_peers ne fetch n =
     (if with_discovery ne then discover_all ne fetch (peers (n_scheduler n)) [] n else (Inr [], n))"

section \<open>What a server applies\<close>

text \<open>A run of requests, each with the clock at its arrival: the envelopes that were applied.\<close>

fun serve ::
  "('st, 'c) node_env \<Rightarrow> (int \<times> string \<times> json_body) list \<Rightarrow> ('st, 'c) node \<Rightarrow> envelope list \<times> ('st, 'c) node" where
  "serve ne [] n = ([], n)"
| "serve ne ((now_ms, sid, body) # rs) n =
     (let n = n\<lparr>n_now := now_ms\<rparr>;
          applied = (case fst (admit ne now_ms sid body (n_filter n)) of Inl _ \<Rightarrow> [] | Inr e \<Rightarrow> [e]);
          (es, n') = serve ne rs (snd (handle_gossip ne sid body n))
      in (applied @ es, n'))"

definition seq_key :: "envelope \<Rightarrow> string \<times> int" where
  "seq_key e = (py_strip (sender_replica_id e), env_seq_no e)"

lemma as_message_fields:
  "msg_sender (as_message e) = sender_replica_id e" "msg_seq (as_message e) = Some (env_seq_no e)"
  by (simp_all add: as_message_def)

lemma admit_window:
  assumes "window_ok f H"
  shows "case admit ne now_ms sid body f of
     (Inl _, f') \<Rightarrow> window_ok f' H
   | (Inr e, f') \<Rightarrow> verify (float_text ne) (n_secret ne) e = Inr True \<and> env_session_id e = sid \<and>
       env_seq_no e \<notin> H (py_strip (sender_replica_id e)) \<and>
       window_ok f' (H(py_strip (sender_replica_id e) := insert (env_seq_no e) (H (py_strip (sender_replica_id e)))))"
proof -
  have w: "window_ok (snd (check now_ms (as_message e) f))
      (if fst (check now_ms (as_message e) f)
       then H(py_strip (sender_replica_id e) := insert (env_seq_no e) (H (py_strip (sender_replica_id e)))) else H)"
    "fst (check now_ms (as_message e) f) \<Longrightarrow> env_seq_no e \<notin> H (py_strip (sender_replica_id e))" for e
    using check_window [OF assms, of now_ms "as_message e"] unfolding history_add_def as_message_fields
    by (simp_all add: fresh_seq_def)
  show ?thesis
  proof (cases body)
    case (JsonValue v)
    show ?thesis
    proof (cases "envelope_of_json ne v")
      case (Inr e)
      obtain b f' where c: "check now_ms (as_message e) f = (b, f')"
        by fastforce
      show ?thesis
        using w [of e] assms
        by (auto simp: admit_def JsonValue Inr c split: sum.split bool.split)
    qed (use assms in \<open>simp add: admit_def JsonValue\<close>)
  qed (use assms in \<open>simp_all add: admit_def\<close>)
qed

lemma reply_with_gossip: "n_gossip (snd (reply_with ne sid n)) = n_gossip n" "n_filter (snd (reply_with ne sid n)) = n_filter n"
  by (auto simp: reply_with_def draw_seq_def make_envelope_def split: option.split prod.split sum.split)

lemma handle_gossip_effect:
  "n_filter (snd (handle_gossip ne sid body n)) = snd (admit ne (n_now n) sid body (n_filter n))"
  "n_gossip (snd (handle_gossip ne sid body n)) =
     (case fst (admit ne (n_now n) sid body (n_filter n)) of
        Inl _ \<Rightarrow> n_gossip n | Inr e \<Rightarrow> snd (apply_envelope ne e (n_gossip n)))"
proof -
  obtain x f where a: "admit ne (n_now n) sid body (n_filter n) = (x, f)"
    by fastforce
  have "n_filter (snd (handle_gossip ne sid body n)) = f \<and>
    n_gossip (snd (handle_gossip ne sid body n)) =
      (case x of Inl _ \<Rightarrow> n_gossip n | Inr e \<Rightarrow> snd (apply_envelope ne e (n_gossip n)))"
  proof (cases x)
    case (Inr e)
    obtain y n' where y: "on_gossip (apply_envelope ne e) (n\<lparr>n_filter := f\<rparr>) = (y, n')"
      by fastforce
    then have "n_filter n' = f" "n_gossip n' = snd (apply_envelope ne e (n_gossip n))"
      by (auto simp: on_gossip_def split: prod.splits)
    then show ?thesis
      using reply_with_gossip [of ne sid n'] by (cases y) (simp_all add: handle_gossip_def a Inr y)
  qed (simp add: handle_gossip_def a)
  then show "n_filter (snd (handle_gossip ne sid body n)) = snd (admit ne (n_now n) sid body (n_filter n))"
    "n_gossip (snd (handle_gossip ne sid body n)) =
     (case fst (admit ne (n_now n) sid body (n_filter n)) of
        Inl _ \<Rightarrow> n_gossip n | Inr e \<Rightarrow> snd (apply_envelope ne e (n_gossip n)))"
    by (simp_all add: a)
qed

lemma serve_window:
  assumes "window_ok (n_filter n) H"
  shows "distinct (map seq_key (fst (serve ne rs n))) \<and>
    (\<forall>e \<in> set (fst (serve ne rs n)). verify (float_text ne) (n_secret ne) e = Inr True \<and>
       env_seq_no e \<notin> H (py_strip (sender_replica_id e))) \<and>
    n_gossip (snd (serve ne rs n)) = fold (\<lambda>e g. snd (apply_envelope ne e g)) (fst (serve ne rs n)) (n_gossip n)"
  using assms
proof (induction rs arbitrary: n H)
  case (Cons r rs)
  obtain now_ms sid body where r: "r = (now_ms, sid, body)"
    by (cases r)
  let ?n = "n\<lparr>n_now := now_ms\<rparr>"
  let ?n' = "snd (handle_gossip ne sid body ?n)"
  obtain x f where a: "admit ne now_ms sid body (n_filter n) = (x, f)"
    by fastforce
  have n': "n_filter ?n' = f"
    "n_gossip ?n' = (case x of Inl _ \<Rightarrow> n_gossip n | Inr e \<Rightarrow> snd (apply_envelope ne e (n_gossip n)))"
    using handle_gossip_effect [of ne sid body ?n] a by (simp_all split: sum.split)
  show ?case
  proof (cases x)
    case (Inl resp)
    have "window_ok (n_filter ?n') H"
      using admit_window [OF Cons.prems, where ne = ne and now_ms = now_ms and sid = sid and body = body] a Inl n'(1) by simp
    from Cons.IH [OF this] show ?thesis
      using n'(2) Inl by (simp add: r Let_def a case_prod_unfold)
  next
    case (Inr e)
    let ?s = "py_strip (sender_replica_id e)"
    have w: "verify (float_text ne) (n_secret ne) e = Inr True" "env_seq_no e \<notin> H ?s"
      "window_ok (n_filter ?n') (H(?s := insert (env_seq_no e) (H ?s)))"
      using admit_window [OF Cons.prems, where ne = ne and now_ms = now_ms and sid = sid and body = body] a Inr n'(1) by simp_all
    have IH: "distinct (map seq_key (fst (serve ne rs ?n')))"
      "\<forall>e' \<in> set (fst (serve ne rs ?n')). verify (float_text ne) (n_secret ne) e' = Inr True \<and>
         env_seq_no e' \<notin> (H(?s := insert (env_seq_no e) (H ?s))) (py_strip (sender_replica_id e'))"
      "n_gossip (snd (serve ne rs ?n')) =
         fold (\<lambda>e g. snd (apply_envelope ne e g)) (fst (serve ne rs ?n')) (n_gossip ?n')"
      using Cons.IH [OF w(3)] by blast+
    have "seq_key e \<notin> set (map seq_key (fst (serve ne rs ?n')))"
      using IH(2) by (auto simp: seq_key_def)
    moreover have ball_verify: "\<forall>e' \<in> set (fst (serve ne rs ?n')). verify (float_text ne) (n_secret ne) e' = Inr True \<and>
        env_seq_no e' \<notin> H (py_strip (sender_replica_id e'))"
    proof
      fix e'
      assume "e' \<in> set (fst (serve ne rs ?n'))"
      then have "verify (float_text ne) (n_secret ne) e' = Inr True"
        "env_seq_no e' \<notin> (H(?s := insert (env_seq_no e) (H ?s))) (py_strip (sender_replica_id e'))"
        using IH(2) by blast+
      then show "verify (float_text ne) (n_secret ne) e' = Inr True \<and> env_seq_no e' \<notin> H (py_strip (sender_replica_id e'))"
        by (cases "py_strip (sender_replica_id e') = ?s") simp_all
    qed
    moreover have eq: "serve ne (r # rs) n = (e # fst (serve ne rs ?n'), snd (serve ne rs ?n'))"
      by (simp add: r Let_def a Inr case_prod_unfold)
    moreover have "n_gossip ?n' = snd (apply_envelope ne e (n_gossip n))"
      using n'(2) Inr by simp
    ultimately show ?thesis
      using IH(1,3) w(1,2) ball_verify unfolding eq fst_conv snd_conv by simp
  qed
qed simp


definition sample_ne :: "(unit, unit) node_env" where
  "sample_ne = \<lparr>n_ge = sample_ge, float_text = plain_float, dict_pairs = (\<lambda>xs. Inl TypeError), n_secret = [1],
     fresh_nonce = (\<lambda>n. ''n''), self_address = None, with_discovery = False\<rparr>"

definition sample_node :: "(unit, unit) node" where
  "sample_node = \<lparr>n_gossip = replica_at 1 None, n_filter = new_filter 1000 10 10,
     n_counter = \<lparr>sc_replica = ''r'', sc_persist = False, sc_value = 0\<rparr>,
     n_file = \<lparr>sf_data = None, sf_writable = False\<rparr>, n_scheduler = sample_scheduler, n_tracked = [''s''],
     n_nonces = 0, n_now = 5\<rparr>"


end
