(* ===== verification/Outbox_Worker.thy ===== *)
theory Outbox_Worker
  imports Sqlite_Storage
begin

text \<open>
  The worker that keeps the embeddings of a session's objects in step with its versions
  (\<open>projection/outbox_worker.py\<close>), on the SQLite backend.  The embedding service is a
  parameter: a list of texts gives a list of vectors, kept as their stored text, or an
  exception.  A task is one call of \<open>_process_next_task\<close>; sleeping and logging are left out.
\<close>

section \<open>Executing a task\<close>

record worker_env =
  w_cks :: cks_objects
  w_core :: "bridge option"
  embed_batch :: "string list \<Rightarrow> exn + string list"
  w_max_retries :: nat

text \<open>A version id comes from a JSON payload; one that is no string names no version.\<close>

definition version_state :: "worker_env \<Rightarrow> sqlite_db \<Rightarrow> string \<Rightarrow> session \<Rightarrow> pyval \<Rightarrow> exn + kstruct" where
  "version_state we db sid s v =
     (case v of
        PStr vid \<Rightarrow> reconstruct_with_retry (\<lambda>i. load_session (w_cks we) i db) sid s vid (w_core we)
      | _ \<Rightarrow> Inl ValueError)"

text \<open>The version before the new one in the history, when none was given.\<close>

definition previous_version :: "session \<Rightarrow> pyval \<Rightarrow> pyval \<Rightarrow> pyval" where
  "previous_version s prev new =
     (if prev = PNone
      then case new of
             PStr vid \<Rightarrow>
               (case version_index (version_history s) vid of
                  Some (Suc i) \<Rightarrow> PStr (version_id (version_history s ! i))
                | _ \<Rightarrow> PNone)
           | _ \<Rightarrow> PNone
      else prev)"

fun added_objects :: "cks_objects \<Rightarrow> kstruct \<Rightarrow> operator list \<Rightarrow> kobj list" where
  "added_objects cks ks [] = []"
| "added_objects cks ks (AddObject k # ops) =
     (case structure_get cks ks (obj_id k) of
        None \<Rightarrow> added_objects cks ks ops | Some x \<Rightarrow> x # added_objects cks ks ops)"
| "added_objects cks ks (_ # ops) = added_objects cks ks ops"

fun removed_ids :: "operator list \<Rightarrow> string list" where
  "removed_ids [] = []"
| "removed_ids (RemoveObject i # ops) = i # removed_ids ops"
| "removed_ids (_ # ops) = removed_ids ops"

text \<open>What is to be embedded and what removed; relations are not searchable.\<close>

definition embedding_work :: "cks_objects \<Rightarrow> kstruct \<Rightarrow> operator list option \<Rightarrow> kobj list \<times> string list" where
  "embedding_work cks new_structure patch_ops =
     (case patch_ops of
        Some ops \<Rightarrow> (filter (\<lambda>k. ko_relation k = None) (added_objects cks new_structure ops), removed_ids ops)
      | None \<Rightarrow> (filter (\<lambda>k. ko_relation k = None) (ks_objects new_structure), []))"

definition format_for_embedding :: "cks_objects \<Rightarrow> kobj \<Rightarrow> string" where
  "format_for_embedding cks k =
     oi_name (ko_identity k) @ '' ('' @ oi_type (ko_identity k) @ ''): '' @
     (case dget_or (ko_structure k) ''description'' (PStr []) of PStr s \<Rightarrow> s | v \<Rightarrow> str_of cks v)"

text \<open>\<open>zip(..., strict=True)\<close>: the common part is saved before a difference in length shows.\<close>

fun save_embeddings :: "string \<Rightarrow> time \<Rightarrow> kobj list \<Rightarrow> string list \<Rightarrow> (sqlite_db, unit) sx" where
  "save_embeddings sid now (k # ks) (e # es) db =
     save_embeddings sid now ks es (save_object_embeddings (obj_id k) sid e now db)"
| "save_embeddings sid now [] [] db = (Inr (), db)"
| "save_embeddings sid now _ _ db = (Inl ValueError, db)"

definition update_embeddings ::
  "worker_env \<Rightarrow> string \<Rightarrow> time \<Rightarrow> kobj list \<times> string list \<Rightarrow> (sqlite_db, unit) sx" where
  "update_embeddings we sid now work db =
     (let db = fold (\<lambda>i. delete_object_embeddings i sid) (snd work) db
      in if fst work = [] then (Inr (), db)
         else case embed_batch we (map (format_for_embedding (w_cks we)) (fst work)) of
                Inl e \<Rightarrow> (Inl e, db)
              | Inr es \<Rightarrow> save_embeddings sid now (fst work) es db)"

definition execute_task :: "worker_env \<Rightarrow> string \<Rightarrow> pyval \<Rightarrow> pyval \<Rightarrow> time \<Rightarrow> (sqlite_db, unit) sx" where
  "execute_task we sid prev new now db =
     (case load_session (w_cks we) sid db of
        Inl e \<Rightarrow> (Inl e, db)
      | Inr None \<Rightarrow> (Inl ValueError, db)
      | Inr (Some s) \<Rightarrow>
          (case version_state we db sid s new of
             Inl e \<Rightarrow> (Inl e, db)
           | Inr new_structure \<Rightarrow>
               let prev = previous_version s prev new
               in case (if truthy prev then bind_err (version_state we db sid s prev) (\<lambda>ks. Inr (Some ks)) else Inr None) of
                    Inl e \<Rightarrow> (Inl e, db)
                  | Inr old_structure \<Rightarrow>
                      (case (case (old_structure, w_core we) of
                               (Some old, Some b) \<Rightarrow> bind_err (bridge_diff b old new_structure) (\<lambda>ops. Inr (Some ops))
                             | _ \<Rightarrow> Inr None) of
                         Inl e \<Rightarrow> (Inl e, db)
                       | Inr ops \<Rightarrow> update_embeddings we sid now (embedding_work (w_cks we) new_structure ops) db)))"

section \<open>Processing the queue\<close>

definition on_tasks :: "(outbox \<Rightarrow> outbox) \<Rightarrow> sqlite_db \<Rightarrow> sqlite_db" where
  "on_tasks f db = db\<lparr>task_table := f (task_table db)\<rparr>"

text \<open>The retry of a failed task, or its burial; \<open>micros\<close> is the fraction of the clock.\<close>

definition retry_or_bury :: "worker_env \<Rightarrow> nat \<Rightarrow> task \<Rightarrow> exn \<Rightarrow> time \<Rightarrow> nat \<Rightarrow> sqlite_db \<Rightarrow> sqlite_db" where
  "retry_or_bury we i t e now micros =
     on_tasks
       (let n = retry_count t + 1
        in if w_max_retries we \<le> n then dead_letter_outbox_task i e
           else fail_outbox_task i n e (iso_stamp (now + min (2 ^ n) 3600) micros))"

text \<open>A payload that is no JSON object has no \<open>get\<close>.\<close>

definition process_next_task :: "worker_env \<Rightarrow> time \<Rightarrow> nat \<Rightarrow> sqlite_db \<Rightarrow> sqlite_db" where
  "process_next_task we now micros db =
     (case dequeue_next_outbox_task (Some ''projection'') now (task_table db) of
        (None, ob) \<Rightarrow> db\<lparr>task_table := ob\<rparr>
      | (Some (i, t), ob) \<Rightarrow>
          let db = db\<lparr>task_table := ob\<rparr>
          in case (case payload t of
                     PDict d \<Rightarrow>
                       execute_task we (t_session_id t) (dget_or d ''previous_version_id'' PNone)
                         (dget_or d ''new_version_id'' PNone) now db
                   | _ \<Rightarrow> (Inl AttributeError, db)) of
               (Inr _, db) \<Rightarrow> on_tasks (complete_outbox_task i) db
             | (Inl e, db) \<Rightarrow> retry_or_bury we i t e now micros db)"

section \<open>The embeddings of a state\<close>

definition embeddable :: "kstruct \<Rightarrow> string \<Rightarrow> bool" where
  "embeddable ks oid \<longleftrightarrow> (\<exists>k \<in> set (ks_objects ks). obj_id k = oid \<and> ko_relation k = None)"

definition synced :: "string \<Rightarrow> kstruct \<Rightarrow> sqlite_db \<Rightarrow> bool" where
  "synced sid ks db \<longleftrightarrow> (\<forall>oid. dhas (embedding_rows db) (oid, sid) \<longleftrightarrow> embeddable ks oid)"

text \<open>What is used of a diff: an object that is neither in it nor removed by it is searchable
  in both states or in none, and one it removes is so only if it also adds it.\<close>

definition added_ids :: "operator list \<Rightarrow> string set" where
  "added_ids ops = {obj_id k | k. AddObject k \<in> set ops}"

definition describes :: "kstruct \<Rightarrow> kstruct \<Rightarrow> operator list \<Rightarrow> bool" where
  "describes old new ops \<longleftrightarrow>
     (\<forall>oid. embeddable new oid \<longleftrightarrow>
        oid \<in> added_ids ops \<and> embeddable new oid \<or> embeddable old oid \<and> oid \<notin> set (removed_ids ops))"

definition finds_by_id :: "cks_objects \<Rightarrow> kstruct \<Rightarrow> bool" where
  "finds_by_id cks ks \<longleftrightarrow> distinct (map obj_id (ks_objects ks)) \<and>
     (\<forall>oid. structure_get cks ks oid = find (\<lambda>k. obj_id k = oid) (ks_objects ks))"

lemma finds_Some:
  assumes "finds_by_id cks ks"
  shows "structure_get cks ks oid = Some k \<longleftrightarrow> k \<in> set (ks_objects ks) \<and> obj_id k = oid"
proof -
  have "find (\<lambda>k. obj_id k = oid) xs = Some k \<longleftrightarrow> k \<in> set xs \<and> obj_id k = oid" if "distinct (map obj_id xs)" for xs
    using that by (induction xs) (auto simp: rev_image_eqI)
  then show ?thesis
    using assms by (simp add: finds_by_id_def)
qed

lemma added_objects_set:
  assumes "finds_by_id cks ks"
  shows "set (added_objects cks ks ops) = {k \<in> set (ks_objects ks). obj_id k \<in> added_ids ops}"
proof (induction ops)
  case (Cons p ops)
  show ?case
  proof (cases p)
    case (AddObject k)
    have ids: "added_ids (p # ops) = insert (obj_id k) (added_ids ops)"
      by (auto simp: added_ids_def AddObject)
    show ?thesis
    proof (cases "structure_get cks ks (obj_id k)")
      case None
      then have "\<forall>x \<in> set (ks_objects ks). obj_id x \<noteq> obj_id k"
        using finds_Some [OF assms, of "obj_id k"] by auto
      then show ?thesis
        using Cons.IH ids None by (auto simp: AddObject)
    next
      case (Some a)
      have "x \<in> set (ks_objects ks) \<and> obj_id x = obj_id k \<longleftrightarrow> x = a" for x
        using finds_Some [OF assms, of "obj_id k" x] Some by auto
      then have "{x \<in> set (ks_objects ks). obj_id x \<in> insert (obj_id k) (added_ids ops)} =
          insert a {x \<in> set (ks_objects ks). obj_id x \<in> added_ids ops}"
        by blast
      then show ?thesis
        using Cons.IH ids Some by (simp add: AddObject)
    qed
  qed (use Cons.IH in \<open>auto simp: added_ids_def\<close>)
qed (simp add: added_ids_def)


lemma deleted_keys:
  "dhas (embedding_rows (fold (\<lambda>i. delete_object_embeddings i sid) is db)) (oid, sid') \<longleftrightarrow>
   dhas (embedding_rows db) (oid, sid') \<and> \<not> (sid' = sid \<and> oid \<in> set is)"
  by (induction "is" arbitrary: db) (auto simp: delete_object_embeddings_def dhas_def)

lemma saved_keys:
  "save_embeddings sid now ks es db = (Inr (), db') \<Longrightarrow>
   dhas (embedding_rows db') (oid, sid') \<longleftrightarrow>
   dhas (embedding_rows db) (oid, sid') \<or> sid' = sid \<and> oid \<in> obj_id ` set ks"
proof (induction sid now ks es db rule: save_embeddings.induct)
  case (1 sid now k ks e es db)
  then show ?case
    by (auto simp: save_object_embeddings_def dhas_def)
qed auto

lemma updated_keys:
  assumes "update_embeddings we sid now work db = (Inr (), db')"
  shows "dhas (embedding_rows db') (oid, sid') \<longleftrightarrow>
    dhas (embedding_rows db) (oid, sid') \<and> \<not> (sid' = sid \<and> oid \<in> set (snd work)) \<or>
    sid' = sid \<and> oid \<in> obj_id ` set (fst work)"
proof -
  let ?db = "fold (\<lambda>i. delete_object_embeddings i sid) (snd work) db"
  show ?thesis
  proof (cases "fst work = []")
    case True
    then show ?thesis
      using assms deleted_keys [of sid "snd work" db] by (auto simp: update_embeddings_def Let_def)
  next
    case False
    then obtain es where "save_embeddings sid now (fst work) es ?db = (Inr (), db')"
      using assms by (auto simp: update_embeddings_def Let_def split: sum.splits)
    from saved_keys [OF this] show ?thesis
      using deleted_keys [of sid "snd work" db] by simp
  qed
qed

lemma embeddable_image: "oid \<in> obj_id ` set (filter (\<lambda>k. ko_relation k = None) (ks_objects ks)) \<longleftrightarrow> embeddable ks oid"
  by (auto simp: embeddable_def)

text \<open>The states of a task: the new one, and the one it is compared with, if any.\<close>

definition task_states ::
  "worker_env \<Rightarrow> string \<Rightarrow> pyval \<Rightarrow> pyval \<Rightarrow> sqlite_db \<Rightarrow> session \<Rightarrow> kstruct option \<Rightarrow> kstruct \<Rightarrow> bool" where
  "task_states we sid prev new db s old ks \<longleftrightarrow>
     load_session (w_cks we) sid db = Inr (Some s) \<and> version_state we db sid s new = Inr ks \<and>
     (case old of
        None \<Rightarrow> \<not> truthy (previous_version s prev new)
      | Some k0 \<Rightarrow> truthy (previous_version s prev new) \<and> version_state we db sid s (previous_version s prev new) = Inr k0)"


text \<open>A worker that embeds every text alike.\<close>

definition sample_worker :: worker_env where
  "sample_worker =
     \<lparr>w_cks = text_cks, w_core = Some (Some sample_core),
      embed_batch = (\<lambda>ts. Inr (map (\<lambda>_. ''e'') ts)), w_max_retries = 5\<rparr>"

lemma sample_worker_simps [simp]:
  "w_cks sample_worker = text_cks" "w_core sample_worker = Some (Some sample_core)"
  "embed_batch sample_worker = (\<lambda>ts. Inr (map (\<lambda>_. ''e'') ts))" "w_max_retries sample_worker = 5"
  by (simp_all add: sample_worker_def)


end
