(* ===== verification/Memory_Storage.thy ===== *)
theory Memory_Storage
  imports Sqlite_Storage
begin

text \<open>
  The in-memory backend (\<open>storage/memory_storage.py\<close>).  It stores deep copies, so a stored
  session is a value; a copy keeps its running transaction and its diagnostics.
\<close>

record memory_db =
  mem_sessions :: "(string, session) dict"
  mem_versions :: "(string, version) dict"
  mem_replica_id :: "string option"

definition empty_memory :: memory_db where
  "empty_memory = \<lparr>mem_sessions = [], mem_versions = [], mem_replica_id = None\<rparr>"

definition mem_save_session :: "session \<Rightarrow> string option \<Rightarrow> (memory_db, unit) sx" where
  "mem_save_session s expected_version_id db =
     (let current_latest = (case dget (mem_sessions db) (session_id s) of None \<Rightarrow> None | Some c \<Rightarrow> latest_id c)
      in if expected_version_id \<noteq> None \<and> current_latest \<noteq> expected_version_id
         then (Inl ConcurrentModificationError, db)
         else (Inr (), db\<lparr>mem_sessions := dset (mem_sessions db) (session_id s) s\<rparr>))"

definition mem_load_session :: "string \<Rightarrow> memory_db \<Rightarrow> session option" where
  "mem_load_session sid db = dget (mem_sessions db) sid"

definition mem_has_session :: "string \<Rightarrow> memory_db \<Rightarrow> bool" where
  "mem_has_session sid db = dhas (mem_sessions db) sid"

definition mem_list_sessions :: "memory_db \<Rightarrow> session list" where
  "mem_list_sessions db = dvals (mem_sessions db)"

definition mem_save_version :: "version \<Rightarrow> (memory_db, unit) sx" where
  "mem_save_version v db = (Inr (), db\<lparr>mem_versions := dset (mem_versions db) (version_id v) v\<rparr>)"

definition mem_load_version :: "string \<Rightarrow> memory_db \<Rightarrow> version option" where
  "mem_load_version vid db = dget (mem_versions db) vid"

definition mem_has_version :: "string \<Rightarrow> memory_db \<Rightarrow> bool" where
  "mem_has_version vid db = dhas (mem_versions db) vid"

definition mem_list_versions :: "memory_db \<Rightarrow> version list" where
  "mem_list_versions db = dvals (mem_versions db)"

definition mem_clear :: "memory_db \<Rightarrow> memory_db" where
  "mem_clear db = empty_memory"

definition mem_get_or_create_replica_id :: "string \<Rightarrow> memory_db \<Rightarrow> string \<times> memory_db" where
  "mem_get_or_create_replica_id candidate db =
     (case mem_replica_id db of
        Some r \<Rightarrow> (r, db)
      | None \<Rightarrow> (candidate, db\<lparr>mem_replica_id := Some candidate\<rparr>))"

section \<open>Export and import\<close>

definition mem_export_storage :: "cks_objects \<Rightarrow> memory_db \<Rightarrow> exn + storage_dump" where
  "mem_export_storage cks db =
     bind_err (map_err (\<lambda>(vid, v). bind_err (version_row_of cks v) (\<lambda>r. Inr (vid, r))) (mem_versions db)) (\<lambda>versions.
     Inr \<lparr>dump_sessions = map (\<lambda>(sid, s). (sid, session_row_of cks s 0)) (mem_sessions db),
          dump_versions = versions, dump_embeddings = [], dump_tasks = []\<rparr>)"

definition mem_import_session :: "cks_objects \<Rightarrow> string \<times> session_row \<Rightarrow> memory_db \<Rightarrow> exn + memory_db" where
  "mem_import_session cks kr db =
     (case kr of (sid, r) \<Rightarrow>
        bind_err (parse_text cks (sr_structure r)) (\<lambda>ks.
        bind_err (make_session ks sid (sr_metadata r) (sr_snapshot_interval r) None None) (\<lambda>s.
        Inr (db\<lparr>mem_sessions := dset (mem_sessions db) sid
               (s\<lparr>closed := sr_closed r, parent_session_id := sr_parent_session_id r,
                  parent_version_id := sr_parent_version_id r\<rparr>)\<rparr>))))"

definition mem_import_version :: "cks_objects \<Rightarrow> string \<times> version_row \<Rightarrow> memory_db \<Rightarrow> exn + memory_db" where
  "mem_import_version cks kr db =
     bind_err (version_of_row cks kr) (\<lambda>v. Inr (db\<lparr>mem_versions := dset (mem_versions db) (fst kr) v\<rparr>))"

text \<open>In the mode \<open>merge\<close> an id that is present is skipped; in the mode \<open>clear\<close> the tables
  start empty.  What was imported before an error stays.\<close>

fun mem_import_loop ::
  "bool \<Rightarrow> (memory_db \<Rightarrow> string \<Rightarrow> bool) \<Rightarrow> (string \<times> 'r \<Rightarrow> memory_db \<Rightarrow> exn + memory_db) \<Rightarrow> (string \<times> 'r) list
     \<Rightarrow> (memory_db, unit) sx" where
  "mem_import_loop merge present add [] db = (Inr (), db)"
| "mem_import_loop merge present add (kr # rows) db =
     (if merge \<and> present db (fst kr) then mem_import_loop merge present add rows db
      else case add kr db of
             Inl e \<Rightarrow> (Inl e, db)
           | Inr db' \<Rightarrow> mem_import_loop merge present add rows db')"

definition mem_import_storage :: "cks_objects \<Rightarrow> storage_dump \<Rightarrow> bool \<Rightarrow> (memory_db, unit) sx" where
  "mem_import_storage cks dump mode_clear =
     bindM (modM (\<lambda>db. if mode_clear then db\<lparr>mem_sessions := [], mem_versions := []\<rparr> else db)) (\<lambda>_.
     bindM (mem_import_loop (\<not> mode_clear) (\<lambda>db sid. dhas (mem_sessions db) sid) (mem_import_session cks)
             (dump_sessions dump)) (\<lambda>_.
     mem_import_loop (\<not> mode_clear) (\<lambda>db vid. dhas (mem_versions db) vid) (mem_import_version cks)
       (dump_versions dump)))"

section \<open>Optimistic locking\<close>

definition mem_recorded :: "memory_db \<Rightarrow> string \<Rightarrow> string option option" where
  "mem_recorded db sid = map_option latest_id (dget (mem_sessions db) sid)"

interpretation memory_sessions: session_store "\<lambda>(_::time) s e. mem_save_session s e" mem_recorded
  by unfold_locales (auto simp: mem_save_session_def mem_recorded_def Let_def)

text \<open>C12: No update is lost to a race: whatever sequence of guarded saves of a session any
  writers attempt, both backends let the same ones succeed; each of them was made by a
  writer that had seen the save before it, and with fresh version ids no two of them by
  writers that had seen the same version.\<close>

theorem no_lost_update:
  assumes "recorded_latest db sid = Some l" and "mem_recorded mem sid = Some l"
    and "list_all (\<lambda>(_, s, _). session_id s = sid) as"
    and "distinct (l # map (latest_id \<circ> fst) (fst (attempts (\<lambda>now s e. save_session cks s e now) as db)))"
  shows "fst (attempts (\<lambda>_ s e. mem_save_session s e) as mem) = fst (attempts (\<lambda>now s e. save_session cks s e now) as db) \<and>
    chain l (fst (attempts (\<lambda>now s e. save_session cks s e now) as db)) \<and>
    distinct (map snd (fst (attempts (\<lambda>now s e. save_session cks s e now) as db)))"
  using sqlite_sessions.attempts_winners [OF assms(1,3)] memory_sessions.attempts_winners [OF assms(2,3)]
    sqlite_sessions.one_winner [OF assms(1,3)] assms(4) chain_winners [of l as] by simp

theorem no_lost_update_witness:
  "fst (attempts (\<lambda>_ s e. mem_save_session s e)
      [(2::time, committed (snapshot_at ''v1'' 2 one_object) one_object [] first_session, ''v0''),
       (3, committed (snapshot_at ''v2'' 3 one_object) one_object [] first_session, ''v0'')]
      \<lparr>mem_sessions = [(''s'', first_session)], mem_versions = [], mem_replica_id = None\<rparr>) =
   [(committed (snapshot_at ''v1'' 2 one_object) one_object [] first_session, ''v0'')]"
proof -
  let ?as = "[(2::time, committed (snapshot_at ''v1'' 2 one_object) one_object [] first_session, ''v0''),
       (3, committed (snapshot_at ''v2'' 3 one_object) one_object [] first_session, ''v0'')]"
  have db: "recorded_latest first_db ''s'' = Some (Some ''v0'')"
    using first_durable(1) by (simp add: durable_def holds_def latest_id_def)
  moreover have w: "fst (attempts (\<lambda>now s e. save_session text_cks s e now) ?as first_db) =
      [(committed (snapshot_at ''v1'' 2 one_object) one_object [] first_session, ''v0'')]"
    using sqlite_sessions.attempts_winners [OF db, of ?as text_cks] by simp
  ultimately show ?thesis
    using no_lost_update [of first_db "''s''" "Some ''v0''"
        "\<lparr>mem_sessions = [(''s'', first_session)], mem_versions = [], mem_replica_id = None\<rparr>" ?as text_cks]
    by (simp add: mem_recorded_def dict_simps latest_id_def del: attempts.simps)
qed

end
