(* ===== verification/Graph_Registry.thy ===== *)
theory Graph_Registry
  imports Merkle_Tree
begin

text \<open>
  The registry of named graphs on its two backends (\<open>register_graph\<close>, \<open>get_graph\<close>,
  \<open>unregister_graph\<close> and \<open>list_graphs\<close> of \<open>storage/sqlite_storage.py\<close> and
  \<open>storage/memory_storage.py\<close>), as functions on the table, with the time as an argument, and its
  part of a backup.
\<close>

record graph =
  g_session_id :: string
  g_description :: string
  g_tags :: string
  g_public :: bool
  g_source_graph_name :: "string option"
  g_visibility :: string
  g_team :: "string option"
  g_lifecycle_state :: "string option"
  g_created_at :: time
  g_updated_at :: time

text \<open>The arguments of \<open>register_graph\<close> after the name.\<close>

record registration =
  r_session_id :: string
  r_description :: string
  r_tags :: string
  r_public :: bool
  r_source_graph_name :: "string option"
  r_visibility :: "string option"
  r_team :: "string option"
  r_lifecycle_state :: "string option"

type_synonym registry = "(string, graph) dict"

text \<open>Python's \<open>or\<close> on an optional string.\<close>

definition str_or :: "string option \<Rightarrow> string \<Rightarrow> string" where
  "str_or x d = (case x of None \<Rightarrow> d | Some s \<Rightarrow> if s = [] then d else s)"

definition resolved_visibility :: "registration \<Rightarrow> string" where
  "resolved_visibility r = str_or (r_visibility r) (if r_public r then ''public'' else ''private'')"

definition default_state :: "string \<Rightarrow> string" where
  "default_state visibility = (if visibility = ''public'' then ''published'' else ''draft'')"

definition coalesce :: "'a option \<Rightarrow> 'a option \<Rightarrow> 'a option" where
  "coalesce x y = (case x of None \<Rightarrow> y | Some _ \<Rightarrow> x)"

definition new_row :: "registration \<Rightarrow> string option \<Rightarrow> string option \<Rightarrow> time \<Rightarrow> time \<Rightarrow> graph" where
  "new_row r source_name state created now =
     \<lparr>g_session_id = r_session_id r, g_description = r_description r, g_tags = r_tags r,
      g_public = (resolved_visibility r = ''public''), g_source_graph_name = source_name,
      g_visibility = resolved_visibility r, g_team = r_team r, g_lifecycle_state = state,
      g_created_at = created, g_updated_at = now\<rparr>"

section \<open>SQLite\<close>

text \<open>\<open>INSERT ... ON CONFLICT(name) DO UPDATE\<close>.\<close>

definition register_graph :: "string \<Rightarrow> registration \<Rightarrow> time \<Rightarrow> registry \<Rightarrow> registry" where
  "register_graph name r now d =
     dset d name
       (case dget d name of
          None \<Rightarrow> new_row r (r_source_graph_name r) (r_lifecycle_state r) now now
        | Some old \<Rightarrow>
            new_row r (coalesce (r_source_graph_name r) (g_source_graph_name old))
              (coalesce (r_lifecycle_state r) (g_lifecycle_state old)) (g_created_at old) now)"

definition graph_row_to_dict :: "graph \<Rightarrow> graph" where
  "graph_row_to_dict row =
     (let visibility = (if g_visibility row \<noteq> [] then g_visibility row
                        else if g_public row then ''public'' else ''private'')
      in row\<lparr>g_visibility := visibility,
             g_lifecycle_state := Some (str_or (g_lifecycle_state row) (default_state visibility))\<rparr>)"

definition get_graph :: "string \<Rightarrow> registry \<Rightarrow> graph option" where
  "get_graph name d = map_option graph_row_to_dict (dget d name)"

definition unregister_graph :: "string \<Rightarrow> registry \<Rightarrow> bool \<times> registry" where
  "unregister_graph name d = (dhas d name, dpop d name)"

definition list_graphs :: "string option \<Rightarrow> bool \<Rightarrow> string option \<Rightarrow> registry \<Rightarrow> (string \<times> graph) list" where
  "list_graphs tag public_only team d =
     map (\<lambda>(n, g). (n, graph_row_to_dict g))
       (sort_key (\<lambda>(_, g). - int (g_updated_at g))
         (filter (\<lambda>(_, g).
            (case tag of
               None \<Rightarrow> True
             | Some t \<Rightarrow> sql_like lower_char None (''%'' @ t @ ''%'') (g_tags g)) \<and>
            (if public_only then g_visibility g = ''public''
             else case team of
                    None \<Rightarrow> True
                  | Some t \<Rightarrow> t = [] \<or> g_visibility g = ''public'' \<or>
                              g_visibility g = ''team'' \<and> g_team g = Some t)) d))"

section \<open>In memory\<close>

definition mem_register_graph :: "string \<Rightarrow> registration \<Rightarrow> time \<Rightarrow> registry \<Rightarrow> registry" where
  "mem_register_graph name r now d =
     dset d name
       (case dget d name of
          None \<Rightarrow>
            new_row r (r_source_graph_name r)
              (coalesce (r_lifecycle_state r) (Some (default_state (resolved_visibility r)))) now now
        | Some old \<Rightarrow>
            new_row r (coalesce (r_source_graph_name r) (g_source_graph_name old))
              (coalesce (r_lifecycle_state r) (g_lifecycle_state old)) (g_created_at old) now)"

definition mem_get_graph :: "string \<Rightarrow> registry \<Rightarrow> graph option" where
  "mem_get_graph name d = dget d name"

definition mem_unregister_graph :: "string \<Rightarrow> registry \<Rightarrow> bool \<times> registry" where
  "mem_unregister_graph name d = (dhas d name, dpop d name)"

definition mem_list_graphs :: "string option \<Rightarrow> bool \<Rightarrow> string option \<Rightarrow> registry \<Rightarrow> (string \<times> graph) list" where
  "mem_list_graphs tag public_only team d =
     sort_key (\<lambda>(_, g). - int (g_updated_at g))
       (filter (\<lambda>(_, g).
          (case tag of None \<Rightarrow> True | Some t \<Rightarrow> is_substring t (g_tags g)) \<and>
          (if public_only then g_visibility g = ''public''
           else case team of
                  None \<Rightarrow> True
                | Some t \<Rightarrow> t = [] \<or> g_visibility g = ''public'' \<or>
                            g_visibility g = ''team'' \<and> g_team g = Some t)) d)"

section \<open>The two registries side by side\<close>

datatype registry_op = Register string registration | Unregister string

fun registry_run :: "(time \<times> registry_op) list \<Rightarrow> registry \<Rightarrow> registry" where
  "registry_run [] d = d"
| "registry_run ((now, Register n r) # ps) d = registry_run ps (register_graph n r now d)"
| "registry_run ((now, Unregister n) # ps) d = registry_run ps (snd (unregister_graph n d))"

fun mem_registry_run :: "(time \<times> registry_op) list \<Rightarrow> registry \<Rightarrow> registry" where
  "mem_registry_run [] d = d"
| "mem_registry_run ((now, Register n r) # ps) d = mem_registry_run ps (mem_register_graph n r now d)"
| "mem_registry_run ((now, Unregister n) # ps) d = mem_registry_run ps (snd (mem_unregister_graph n d))"

definition stateless :: "graph \<Rightarrow> graph" where
  "stateless g = g\<lparr>g_lifecycle_state := None\<rparr>"

definition same_row :: "graph \<Rightarrow> graph \<Rightarrow> bool" where
  "same_row g m \<longleftrightarrow> stateless g = stateless m \<and> g_visibility g \<noteq> []"

definition same_registry :: "registry \<Rightarrow> registry \<Rightarrow> bool" where
  "same_registry d m \<longleftrightarrow> (\<forall>n. rel_option same_row (dget d n) (dget m n))"

lemma resolved_nonempty [simp]: "resolved_visibility r \<noteq> []"
  by (auto simp: resolved_visibility_def str_or_def split: option.splits)

lemma same_row_fields:
  "same_row g m \<Longrightarrow> g_source_graph_name g = g_source_graph_name m \<and> g_created_at g = g_created_at m"
  by (cases g; cases m) (simp add: same_row_def stateless_def)

lemma same_new_row: "same_row (new_row r src st c now) (new_row r src st' c now)"
  by (simp add: same_row_def stateless_def new_row_def)

lemma same_registry_register:
  assumes "same_registry d m"
  shows "same_registry (register_graph n r now d) (mem_register_graph n r now m)"
proof -
  have "rel_option same_row (dget d n) (dget m n)"
    using assms by (simp add: same_registry_def)
  then show ?thesis
    using assms same_row_fields
    by (cases rule: option.rel_cases)
      (auto simp: same_registry_def register_graph_def mem_register_graph_def same_new_row)
qed

lemma same_registry_run: "same_registry d m \<Longrightarrow> same_registry (registry_run ps d) (mem_registry_run ps m)"
proof (induction ps d arbitrary: m rule: registry_run.induct)
  case (3 now n ps d)
  have "same_registry (snd (unregister_graph n d)) (snd (mem_unregister_graph n m))"
    using 3(2) by (simp add: same_registry_def unregister_graph_def mem_unregister_graph_def)
  then show ?case
    using 3(1) by simp
qed (auto simp: same_registry_register)

lemma stateless_dict: "g_visibility g \<noteq> [] \<Longrightarrow> stateless (graph_row_to_dict g) = stateless g"
  by (cases g) (simp add: stateless_def graph_row_to_dict_def Let_def)

section \<open>Properties\<close>

text \<open>The two registries agree: after any registrations and removals the same names are
  registered, and what a look-up returns is equal in every field but the lifecycle state.\<close>

theorem registries_agree:
  "map_option stateless (get_graph n (registry_run ps [])) = map_option stateless (mem_get_graph n (mem_registry_run ps []))"
proof -
  have "same_registry (registry_run ps []) (mem_registry_run ps [])"
    using same_registry_run [of "[]" "[]" ps] by (simp add: same_registry_def)
  then have "rel_option same_row (dget (registry_run ps []) n) (dget (mem_registry_run ps []) n)"
    by (simp add: same_registry_def)
  then show ?thesis
    by (cases rule: option.rel_cases)
      (simp_all add: get_graph_def mem_get_graph_def same_row_def stateless_dict)
qed

text \<open>The lifecycle state of a graph registered without one differs between the backends
  once it is registered again with another visibility: the in-memory registry keeps the
  state of the first registration, the SQLite registry derives it from the new visibility.\<close>

theorem lifecycle_state_diverges:
  assumes "r_lifecycle_state r = None" and "r_lifecycle_state r' = None"
    and "resolved_visibility r \<noteq> ''public''" and "resolved_visibility r' = ''public''"
  shows "map_option g_lifecycle_state (get_graph n (registry_run [(t, Register n r), (t', Register n r')] [])) =
      Some (Some ''published'') \<and>
    map_option g_lifecycle_state (mem_get_graph n (mem_registry_run [(t, Register n r), (t', Register n r')] [])) =
      Some (Some ''draft'')"
  using assms
  by (simp add: get_graph_def mem_get_graph_def register_graph_def mem_register_graph_def graph_row_to_dict_def
      new_row_def coalesce_def str_or_def default_state_def)

definition sample_registration :: "bool \<Rightarrow> registration" where
  "sample_registration public =
     \<lparr>r_session_id = ''s'', r_description = [], r_tags = [], r_public = public, r_source_graph_name = None,
      r_visibility = None, r_team = None, r_lifecycle_state = None\<rparr>"

theorem lifecycle_state_diverges_witness:
  "map_option g_lifecycle_state (get_graph ''g''
      (registry_run [(1, Register ''g'' (sample_registration False)), (2, Register ''g'' (sample_registration True))] [])) =
      Some (Some ''published'')"
  using lifecycle_state_diverges [of "sample_registration False" "sample_registration True" "''g''" 1 2]
  by (simp add: sample_registration_def resolved_visibility_def str_or_def)

text \<open>A listing shows no more than it may: a listing of public graphs contains public ones
  only, and a listing for a team public ones and those of the team only, on both
  backends.\<close>

theorem listing_respects_visibility:
  "list_all (\<lambda>(n, g). g_visibility g = ''public'') (list_graphs tag True team d) \<and>
   list_all (\<lambda>(n, g). g_visibility g = ''public'') (mem_list_graphs tag True team d) \<and>
   list_all (\<lambda>(n, g). g_visibility g = ''public'' \<or> g_visibility g = ''team'' \<and> g_team g = Some (c # t))
     (list_graphs tag public_only (Some (c # t)) d) \<and>
   list_all (\<lambda>(n, g). g_visibility g = ''public'' \<or> g_visibility g = ''team'' \<and> g_team g = Some (c # t))
     (mem_list_graphs tag public_only (Some (c # t)) d)"
  by (auto simp: list_all_iff list_graphs_def mem_list_graphs_def graph_row_to_dict_def Let_def split: if_splits)

section \<open>Export and import\<close>

text \<open>The graphs of a backup: what SQLite lists, by name; \<open>INSERT OR IGNORE\<close> keeps a row that exists.
  The mode \<open>clear\<close> empties the registry first.\<close>

definition export_graphs :: "registry \<Rightarrow> (string \<times> graph) list" where
  "export_graphs d = map (\<lambda>(n, g). (n, graph_row_to_dict g)) (sort_key (\<lambda>(_, g). - int (g_updated_at g)) d)"

definition imported_graph :: "graph \<Rightarrow> graph" where
  "imported_graph g =
     (let visibility = (if g_visibility g \<noteq> [] then g_visibility g else if g_public g then ''public'' else ''private'')
      in g\<lparr>g_visibility := visibility, g_lifecycle_state := Some (str_or (g_lifecycle_state g) (default_state visibility))\<rparr>)"

definition import_graphs :: "(string \<times> graph) list \<Rightarrow> bool \<Rightarrow> registry \<Rightarrow> registry" where
  "import_graphs gs mode_clear d =
     fold (\<lambda>(n, g) d. if dhas d n then d else d @ [(n, imported_graph g)]) gs (if mode_clear then [] else d)"

definition mem_export_graphs :: "registry \<Rightarrow> (string \<times> graph) list" where
  "mem_export_graphs d = d"

definition mem_import_graphs :: "(string \<times> graph) list \<Rightarrow> bool \<Rightarrow> registry \<Rightarrow> registry" where
  "mem_import_graphs gs mode_clear d =
     fold (\<lambda>(n, g) d. if \<not> mode_clear \<and> dhas d n then d else dset d n g) gs (if mode_clear then [] else d)"

lemma graph_row_to_dict_twice [simp]: "graph_row_to_dict (graph_row_to_dict g) = graph_row_to_dict g"
  by (cases g) (auto simp: graph_row_to_dict_def Let_def str_or_def default_state_def split: option.splits)

lemma imported_dict: "imported_graph g = graph_row_to_dict g"
  by (simp add: imported_graph_def graph_row_to_dict_def)

lemma map_of_sorted: "dict_ok d \<Longrightarrow> map_of (sort_key f d) = map_of d"
  by (rule map_of_eqI) (auto simp: dict_ok_def dkeys_def distinct_map inj_on_def)

lemma export_graphs_get:
  assumes "dict_ok d"
  shows "map_of (export_graphs d) n = get_graph n d"
  by (simp add: export_graphs_def map_of_map get_graph_def dget_def map_of_sorted [OF assms])

lemma export_graphs_ok: "dict_ok d \<Longrightarrow> dict_ok (export_graphs d)"
  by (simp add: export_graphs_def dict_ok_def dkeys_def case_prod_unfold comp_def distinct_map inj_on_def)

lemma import_graphs_get:
  "dget (fold (\<lambda>(n, g) d. if dhas d n then d else d @ [(n, imported_graph g)]) gs d) n =
     (case dget d n of Some g \<Rightarrow> Some g | None \<Rightarrow> map_option imported_graph (map_of gs n))"
proof (induction gs arbitrary: d)
  case (Cons x gs)
  then show ?case
    by (cases x) (auto simp: dhas_def dget_def map_add_def split: option.splits)
qed (simp split: option.splits)

lemma mem_import_get:
  "dict_ok gs \<Longrightarrow> dget (fold (\<lambda>(n, g) d. dset d n g) gs d) n = (case map_of gs n of Some g \<Rightarrow> Some g | None \<Rightarrow> dget d n)"
proof (induction gs arbitrary: d)
  case (Cons x gs)
  then show ?case
    by (cases x) (auto simp: dict_ok_Cons dget_def [of gs] split: option.splits)
qed simp

text \<open>A backup of the SQLite registry restores into either backend, and one of the in-memory registry
  into SQLite, up to what a look-up fills in.\<close>

lemma graphs_restore:
  assumes "dict_ok d"
  shows "get_graph n (import_graphs (export_graphs d) True d') = get_graph n d"
    and "mem_get_graph n (mem_import_graphs (export_graphs d) True d') = get_graph n d"
    and "get_graph n (import_graphs (mem_export_graphs d) True d') = map_option graph_row_to_dict (mem_get_graph n d)"
  using export_graphs_get [OF assms, of n] mem_import_get [OF export_graphs_ok [OF assms], of "[]" n]
    import_graphs_get [of _ "[]" n]
  by (auto simp: import_graphs_def mem_import_graphs_def get_graph_def mem_get_graph_def imported_dict mem_export_graphs_def
      dget_def option.map_comp comp_def split: option.splits)

end
