(* ===== verification/Background.thy ===== *)
theory Background
  imports Prelude
begin

text \<open>
  The life of a background loop: the flag \<open>_running\<close> and the task of a worker, its start, its
  stop and one turn of \<open>_run\<close>, as the outbox worker (\<open>projection/outbox_worker.py\<close>), the
  collector (\<open>gc/garbage_collector.py\<close>) and the sweepers of \<open>reasoning/\<close> have them, and what
  a sweeper keeps of its last run (\<open>reasoning/sweeper_status.py\<close>).
\<close>

section \<open>Starting and stopping\<close>

text \<open>The attribute \<open>_task\<close>: none, a task whose coroutine runs, one whose coroutine has returned,
  and one whose coroutine was left by an exception.\<close>

datatype loop_task = No_Task | Looping | Ended | Crashed exn

record loop_state =
  sw_running :: bool
  sw_task :: loop_task

definition idle_loop :: loop_state where
  "idle_loop = \<lparr>sw_running = False, sw_task = No_Task\<rparr>"

text \<open>\<open>start\<close>: a worker that runs, or whose storage lacks what it needs, is left as it is.\<close>

definition start_loop :: "bool \<Rightarrow> 'a loop_state_scheme \<Rightarrow> 'a loop_state_scheme" where
  "start_loop supported w =
     (if sw_running w then w
      else if \<not> supported then w
      else w\<lparr>sw_running := True, sw_task := Looping\<rparr>)"

text \<open>\<open>stop\<close> cancels the task and awaits it: a coroutine that was cancelled or has returned is
  forgotten, the exception of one that was left by an exception is raised again, and the task stays.\<close>

definition stop_loop :: "('a loop_state_scheme, unit) sx" where
  "stop_loop w =
     (let w = w\<lparr>sw_running := False\<rparr>
      in case sw_task w of
           No_Task \<Rightarrow> (Inr (), w)
         | Crashed e \<Rightarrow> (Inl e, w)
         | _ \<Rightarrow> (Inr (), w\<lparr>sw_task := No_Task\<rparr>))"

section \<open>The record of the last run\<close>

text \<open>\<open>SweeperStatusMixin\<close>; the duration of a run is left out.\<close>

record run_status = loop_state +
  last_run_at :: "time option"
  last_result_count :: "nat option"
  sweep_error :: "exn option"

definition new_status :: run_status where
  "new_status =
     \<lparr>sw_running = False, sw_task = No_Task, last_run_at = None, last_result_count = None, sweep_error = None\<rparr>"

definition record_sweep_success :: "time \<Rightarrow> nat \<Rightarrow> 'a run_status_scheme \<Rightarrow> 'a run_status_scheme" where
  "record_sweep_success started n w =
     w\<lparr>last_run_at := Some started, last_result_count := Some n, sweep_error := None\<rparr>"

definition record_sweep_error :: "time \<Rightarrow> exn \<Rightarrow> 'a run_status_scheme \<Rightarrow> 'a run_status_scheme" where
  "record_sweep_error started e w = w\<lparr>last_run_at := Some started, sweep_error := Some e\<rparr>"

text \<open>\<open>run_once\<close> over a sweep: the exception of the sweep is recorded and leaves it.\<close>

definition run_once ::
  "(time \<Rightarrow> 'a run_status_scheme \<Rightarrow> ((exn + pyval list) \<times> 'a run_status_scheme) option) \<Rightarrow> time \<Rightarrow> 'a run_status_scheme
     \<Rightarrow> ((exn + pyval list) \<times> 'a run_status_scheme) option" where
  "run_once sweep now w =
     map_option (\<lambda>r. case r of
         (Inl e, w') \<Rightarrow> (Inl e, record_sweep_error now e w')
       | (Inr ps, w') \<Rightarrow> (Inr ps, record_sweep_success now (length ps) w')) (sweep now w)"

text \<open>
  One turn of the loop of \<open>_run\<close>: a sweep, whose exception is recorded and dropped, and after the
  pause the question to the storage whether the sweeper is to run.  The question is outside the
  \<open>try\<close>, so its exception leaves the coroutine.
\<close>

definition run_turn ::
  "(time \<Rightarrow> 'a run_status_scheme \<Rightarrow> ((exn + pyval list) \<times> 'a run_status_scheme) option)
     \<Rightarrow> ('a run_status_scheme \<Rightarrow> exn + bool option) \<Rightarrow> time \<Rightarrow> 'a run_status_scheme \<Rightarrow> 'a run_status_scheme option" where
  "run_turn sweep desired_running now w =
     (if sw_task w \<noteq> Looping then Some w
      else if \<not> sw_running w then Some (w\<lparr>sw_task := Ended\<rparr>)
      else map_option (\<lambda>(_, w').
             case desired_running w' of
               Inl e \<Rightarrow> w'\<lparr>sw_task := Crashed e\<rparr>
             | Inr desired \<Rightarrow> if desired = Some False then w'\<lparr>sw_running := False, sw_task := Ended\<rparr> else w')
             (run_once sweep now w))"

text \<open>\<open>iso_text\<close> is \<open>isoformat\<close> and \<open>error_text\<close> the text of an exception.\<close>

definition sweeper_status ::
  "string \<Rightarrow> pyval \<Rightarrow> (time \<Rightarrow> string) \<Rightarrow> (exn \<Rightarrow> string) \<Rightarrow> 'a run_status_scheme \<Rightarrow> (string, pyval) dict" where
  "sweeper_status agent_id interval_seconds iso_text error_text w =
     [(''agent_id'', PStr agent_id), (''kind'', PStr ''sweeper''), (''running'', PBool (sw_running w)),
      (''interval_seconds'', interval_seconds),
      (''last_run_at'', case last_run_at w of None \<Rightarrow> PNone | Some t \<Rightarrow> PStr (iso_text t)),
      (''last_result_count'', case last_result_count w of None \<Rightarrow> PNone | Some n \<Rightarrow> PInt (int n)),
      (''last_error'', case sweep_error w of None \<Rightarrow> PNone | Some e \<Rightarrow> PStr (error_text e))]"

section \<open>Controlling a sweeper\<close>

text \<open>
  What happens to a sweeper: it is started and stopped, its loop makes a turn with some outcome of
  the sweep and some answer of the storage, and a sweep is asked for at once.  The lock of the
  mixin makes a start and a stop one step each.
\<close>

datatype control =
    Start bool
  | Stop
  | Turn time "exn + pyval list" "exn + bool option"
  | Once time "exn + pyval list"

fun control_step :: "control \<Rightarrow> run_status \<Rightarrow> run_status" where
  "control_step (Start supported) w = start_loop supported w"
| "control_step Stop w = snd (stop_loop w)"
| "control_step (Turn now r desired) w = the (run_turn (\<lambda>_ w. Some (r, w)) (\<lambda>_. desired) now w)"
| "control_step (Once now r) w = snd (the (run_once (\<lambda>_ w. Some (r, w)) now w))"

definition loop_ok :: "'a loop_state_scheme \<Rightarrow> bool" where
  "loop_ok w \<longleftrightarrow> (sw_task w = Looping \<longrightarrow> sw_running w) \<and> (sw_running w \<longrightarrow> sw_task w \<notin> {No_Task, Ended})"

fun answered :: "control \<Rightarrow> bool" where
  "answered (Turn _ _ (Inl _)) = False"
| "answered _ = True"

lemma start_loop_ok [simp]: "loop_ok w \<Longrightarrow> loop_ok (start_loop supported w)"
  by (auto simp: loop_ok_def start_loop_def)

lemma stop_loop_ok [simp]: "loop_ok w \<Longrightarrow> loop_ok (snd (stop_loop w))"
  by (simp add: loop_ok_def stop_loop_def Let_def split: loop_task.splits)

lemma stop_loop_stops: "\<not> sw_running (snd (stop_loop w))"
  by (simp add: stop_loop_def Let_def split: loop_task.splits)

lemma stop_loop_Inr: "fst (stop_loop w) = Inr () \<longleftrightarrow> (\<forall>e. sw_task w \<noteq> Crashed e)"
  by (simp add: stop_loop_def Let_def split: loop_task.splits)

lemma record_loop [simp]:
  "sw_running (record_sweep_success now n w) = sw_running w" "sw_task (record_sweep_success now n w) = sw_task w"
  "sw_running (record_sweep_error now e w) = sw_running w" "sw_task (record_sweep_error now e w) = sw_task w"
  by (simp_all add: record_sweep_success_def record_sweep_error_def)

lemma run_once_loop:
  "run_once sweep now w = Some (r, w') \<Longrightarrow>
   \<exists>w1. sweep now w = Some (r, w1) \<and> sw_running w' = sw_running w1 \<and> sw_task w' = sw_task w1"
  by (cases "sweep now w"; cases r) (auto simp: run_once_def split: sum.splits)

lemma once_loop: "loop_ok (snd (the (run_once (\<lambda>_ w. Some (r, w)) now w))) = loop_ok w"
  by (cases r) (simp_all add: run_once_def loop_ok_def)

lemma once_task: "sw_task (snd (the (run_once (\<lambda>_ w. Some (r, w)) now w))) = sw_task w"
  by (cases r) (simp_all add: run_once_def)

lemma turn_loop:
  "run_turn (\<lambda>_ w. Some (r, w)) (\<lambda>_. desired) now w = Some w' \<Longrightarrow> loop_ok w \<Longrightarrow>
   loop_ok w' \<and> (\<forall>d e. desired = Inr d \<longrightarrow> (\<forall>e. sw_task w \<noteq> Crashed e) \<longrightarrow> sw_task w' \<noteq> Crashed e)"
  by (cases r; cases desired) (auto simp: run_turn_def run_once_def loop_ok_def split: if_splits)

lemma turn_returns: "\<exists>w'. run_turn (\<lambda>_ w. Some (r, w)) (\<lambda>_. desired) now w = Some w'"
  by (simp add: run_turn_def run_once_def)

lemma control_step_ok: "loop_ok w \<Longrightarrow> loop_ok (control_step c w)"
proof (cases c)
  case (Turn now r desired)
  then show "loop_ok w \<Longrightarrow> ?thesis"
    using turn_loop turn_returns [of r desired now w] by force
qed (simp_all add: once_loop)

lemma answered_alive:
  assumes "loop_ok w" and "answered c" and "\<forall>e. sw_task w \<noteq> Crashed e"
  shows "sw_task (control_step c w) \<noteq> Crashed e"
proof (cases c)
  case (Turn now r desired)
  then obtain d where "desired = Inr d"
    using assms(2) by (cases desired) auto
  then show ?thesis
    using Turn turn_loop [OF _ assms(1)] turn_returns [of r desired now w] assms(3) by force
qed (use assms in \<open>auto simp: start_loop_def stop_loop_def Let_def once_task split: loop_task.splits\<close>)

lemma controls_ok: "loop_ok w \<Longrightarrow> loop_ok (fold control_step cs w)"
  by (induction cs arbitrary: w) (simp_all add: control_step_ok)

lemma controls_alive:
  "loop_ok w \<Longrightarrow> list_all answered cs \<Longrightarrow> \<forall>e. sw_task w \<noteq> Crashed e \<Longrightarrow>
   \<forall>e. sw_task (fold control_step cs w) \<noteq> Crashed e"
  by (induction cs arbitrary: w) (simp_all add: control_step_ok answered_alive)

end
