(* ===== verification/Sweep.thy ===== *)
theory Sweep
  imports Sqlite_Storage Background
begin

text \<open>
  What the background sweepers of \<open>reasoning/\<close> share: the storage they are given, the draining
  of the sessions modified since a watermark, the loop over what was drained, and the memory
  that lets each finding be escalated once.  The four sweepers over sessions repeat this code word for word; their own
  steps are in \<open>Session_Sweepers\<close>.
\<close>

section \<open>The storage of a sweeper\<close>

text \<open>
  A sweeper works on a synchronous storage and on an asynchronous one alike.  The methods of
  an asynchronous storage are coroutine functions: a call alone does nothing, only awaiting
  its result does.
\<close>

record 'st sweep_store =
  modified_since :: "time \<Rightarrow> nat \<Rightarrow> 'st \<Rightarrow> exn + session list"
  put_task :: "string \<Rightarrow> string \<Rightarrow> pyval \<Rightarrow> time \<Rightarrow> ('st, unit) sx"
  has_outbox :: bool
  coroutines :: bool

definition sqlite_enqueue_task :: "string \<Rightarrow> string \<Rightarrow> pyval \<Rightarrow> time \<Rightarrow> (sqlite_db, unit) sx" where
  "sqlite_enqueue_task ty sid p now db = (Inr (), db\<lparr>task_table := enqueue_task ty sid p now (task_table db)\<rparr>)"

definition sqlite_direct :: "cks_objects \<Rightarrow> sqlite_db sweep_store" where
  "sqlite_direct cks =
     \<lparr>modified_since = list_sessions_modified_since cks, put_task = sqlite_enqueue_task, has_outbox = True,
      coroutines = False\<rparr>"

text \<open>
  The default of the asynchronous interface (\<open>storage/async_storage.py\<close>), and the adapter a
  \<open>Runtime\<close> puts around every synchronous storage (\<open>storage/adapter.py\<close>): it forwards the
  outbox, but has no \<open>list_sessions_modified_since\<close> of its own.
\<close>

definition async_list_sessions_modified_since :: "time \<Rightarrow> nat \<Rightarrow> 'st \<Rightarrow> exn + session list" where
  "async_list_sessions_modified_since wm limit st = Inr []"

definition adapter_enqueue_task :: "'st sweep_store \<Rightarrow> string \<Rightarrow> string \<Rightarrow> pyval \<Rightarrow> time \<Rightarrow> ('st, unit) sx" where
  "adapter_enqueue_task wrapped = put_task wrapped"

definition sync_adapter :: "'st sweep_store \<Rightarrow> 'st sweep_store" where
  "sync_adapter wrapped =
     \<lparr>modified_since = async_list_sessions_modified_since, put_task = adapter_enqueue_task wrapped,
      has_outbox = has_outbox wrapped, coroutines = True\<rparr>"

text \<open>A call whose result is awaited when it is a coroutine, and one whose result is dropped.\<close>

definition put_awaited :: "'st sweep_store \<Rightarrow> string \<Rightarrow> string \<Rightarrow> pyval \<Rightarrow> time \<Rightarrow> ('st, unit) sx" where
  "put_awaited ss ty sid p now = (if has_outbox ss then put_task ss ty sid p now else retM ())"

definition put_dropped :: "'st sweep_store \<Rightarrow> string \<Rightarrow> string \<Rightarrow> pyval \<Rightarrow> time \<Rightarrow> ('st, unit) sx" where
  "put_dropped ss ty sid p now = (if has_outbox ss \<and> \<not> coroutines ss then put_task ss ty sid p now else retM ())"

section \<open>The state of a sweeper over sessions\<close>

text \<open>The watermark and what is known of each session; the storage is part of the state a sweep
  works on.\<close>

record ('k, 'st) sweeping = run_status +
  watermark :: time
  known :: "(string, 'k set) dict"
  sw_store :: 'st

definition on_store :: "('st, 'a) sx \<Rightarrow> (('k, 'st) sweeping, 'a) sx" where
  "on_store m w = (case m (sw_store w) of (x, st) \<Rightarrow> (x, w\<lparr>sw_store := st\<rparr>))"

definition known_of :: "('k, 'st) sweeping \<Rightarrow> string \<Rightarrow> 'k set" where
  "known_of w sid = dget_or (known w) sid {}"

definition remember :: "string \<Rightarrow> 'k set \<Rightarrow> ('k, 'st) sweeping \<Rightarrow> ('k, 'st) sweeping" where
  "remember sid current w = w\<lparr>known := (if current = {} then dpop (known w) sid else dset (known w) sid current)\<rparr>"

definition new_sweeping :: "'st \<Rightarrow> ('k, 'st) sweeping" where
  "new_sweeping st =
     \<lparr>sw_running = False, sw_task = No_Task, last_run_at = None, last_result_count = None, sweep_error = None,
      watermark = 0, known = [], sw_store = st\<rparr>"

section \<open>One sweep\<close>

definition MAX_SWEEP_LIMIT :: nat where
  "MAX_SWEEP_LIMIT = 100000"

text \<open>
  The queries with a growing limit; the storage does not change between them.  The result
  says whether the last page was not full.  With a limit of 0 the loop does not end.
\<close>

partial_function (option) drain :: "(nat \<Rightarrow> exn + session list) \<Rightarrow> nat \<Rightarrow> (exn + session list \<times> bool) option" where
  "drain page limit =
     (case page limit of
        Inl e \<Rightarrow> Some (Inl e)
      | Inr batch \<Rightarrow>
          if length batch < limit then Some (Inr (batch, True))
          else if MAX_SWEEP_LIMIT \<le> limit then Some (Inr (batch, False))
          else drain page (limit * 4))"

text \<open>The sessions in order; the first exception ends the sweep.\<close>

fun sweep_all ::
  "(session \<Rightarrow> (('k, 'st) sweeping, pyval list) sx) \<Rightarrow> session list \<Rightarrow> pyval list \<Rightarrow> (('k, 'st) sweeping, pyval list) sx" where
  "sweep_all visit [] escalated = retM escalated"
| "sweep_all visit (s # ss) escalated = bindM (visit s) (\<lambda>ps. sweep_all visit ss (escalated @ ps))"

text \<open>The watermark moves to the start of the sweep before any session is looked at.\<close>

definition sweep_once ::
  "'st sweep_store \<Rightarrow> nat \<Rightarrow> (time \<Rightarrow> session \<Rightarrow> (('k, 'st) sweeping, pyval list) sx) \<Rightarrow> time \<Rightarrow> ('k, 'st) sweeping
     \<Rightarrow> ((exn + pyval list) \<times> ('k, 'st) sweeping) option" where
  "sweep_once ss batch_size visit now w =
     map_option (\<lambda>r.
       case r of
         Inl e \<Rightarrow> (Inl e, w)
       | Inr (found, drained) \<Rightarrow>
           sweep_all (visit now) found [] (if drained then w\<lparr>watermark := now\<rparr> else w))
       (drain (\<lambda>limit. modified_since ss (watermark w) limit (sw_store w)) batch_size)"

section \<open>Draining\<close>

definition page_of :: "'a list \<Rightarrow> nat \<Rightarrow> exn + 'a list" where
  "page_of xs limit = Inr (take limit xs)"

lemma drain_pages:
  assumes "0 < limit"
  shows "\<exists>n drained. drain (page_of xs) limit = Some (Inr (take n xs, drained)) \<and>
    (drained \<longrightarrow> take n xs = xs) \<and> (\<not> drained \<longrightarrow> MAX_SWEEP_LIMIT \<le> length (take n xs))"
  using assms
proof (induction "MAX_SWEEP_LIMIT - limit" arbitrary: limit rule: less_induct)
  case less
  note step = drain.simps [of "page_of xs" limit]
  consider "length xs < limit" | "limit \<le> length xs" "MAX_SWEEP_LIMIT \<le> limit" | "limit \<le> length xs" "limit < MAX_SWEEP_LIMIT"
    by linarith
  then show ?case
  proof cases
    case 1
    then have "drain (page_of xs) limit = Some (Inr (take limit xs, True))"
      using step by (simp add: page_of_def)
    then show ?thesis
      using 1 by (intro exI [of _ limit] exI [of _ True]) simp
  next
    case 2
    then have "drain (page_of xs) limit = Some (Inr (take limit xs, False))"
      using step by (simp add: page_of_def)
    then show ?thesis
      using 2 by (intro exI [of _ limit] exI [of _ False]) simp
  next
    case 3
    then have "MAX_SWEEP_LIMIT - limit * 4 < MAX_SWEEP_LIMIT - limit"
      using less.prems by linarith
    moreover have "drain (page_of xs) limit = drain (page_of xs) (limit * 4)"
      using 3 step by (simp add: page_of_def)
    ultimately show ?thesis
      using less.hyps [of "limit * 4"] less.prems by simp
  qed
qed

lemma drain_page:
  assumes "drain page limit = Some (Inr (batch, drained))"
  shows "\<exists>l. page l = Inr batch \<and> (drained \<longrightarrow> length batch < l)"
proof -
  let ?P = "\<lambda>p (l :: nat) r. \<forall>batch drained. r = Inr (batch, drained) \<longrightarrow> (\<exists>l. p l = Inr batch \<and> (drained \<longrightarrow> length batch < l))"
  have "?P p l r" if "drain p l = Some r" for p l r
    using _ that
  proof (rule drain.raw_induct [where P = ?P])
    fix dr :: "(nat \<Rightarrow> exn + session list) \<Rightarrow> nat \<Rightarrow> (exn + session list \<times> bool) option" and p l r
    assume ih: "\<And>p l r. dr p l = Some r \<Longrightarrow> ?P p l r"
      and eq: "(case p l of Inl e \<Rightarrow> Some (Inl e)
        | Inr batch \<Rightarrow> if length batch < l then Some (Inr (batch, True))
            else if MAX_SWEEP_LIMIT \<le> l then Some (Inr (batch, False)) else dr p (l * 4)) = Some r"
    show "?P p l r"
    proof (cases "p l")
      case (Inr xs)
      show ?thesis
      proof (cases "length xs < l \<or> MAX_SWEEP_LIMIT \<le> l")
        case True
        then have "r = Inr (xs, length xs < l)"
          using eq Inr by (auto split: if_splits)
        then show ?thesis
          using Inr by auto
      next
        case False
        then have "dr p (l * 4) = Some r"
          using eq Inr by simp
        then show ?thesis
          by (rule ih)
      qed
    qed (use eq in auto)
  qed
  then show ?thesis
    using assms by blast
qed

text \<open>A limit of 0 stays 0 and no page is shorter.\<close>

lemma drain_zero:
  assumes "\<forall>l. \<exists>xs. page l = Inr xs"
  shows "drain page 0 = None"
proof -
  have "l = 0 \<longrightarrow> (\<forall>l. \<exists>xs. p l = Inr xs) \<longrightarrow> False" if "drain p l = Some r" for p l r
    using _ that
  proof (rule drain.raw_induct [where P = "\<lambda>p l r. l = 0 \<longrightarrow> (\<forall>l. \<exists>xs. p l = Inr xs) \<longrightarrow> False"], intro impI)
    fix dr :: "(nat \<Rightarrow> exn + session list) \<Rightarrow> nat \<Rightarrow> (exn + session list \<times> bool) option" and p l r
    assume ih: "\<And>p l r. dr p l = Some r \<Longrightarrow> l = 0 \<longrightarrow> (\<forall>l. \<exists>xs. p l = Inr xs) \<longrightarrow> False"
      and eq: "(case p l of Inl e \<Rightarrow> Some (Inl e)
        | Inr batch \<Rightarrow> if length batch < l then Some (Inr (batch, True))
            else if MAX_SWEEP_LIMIT \<le> l then Some (Inr (batch, False)) else dr p (l * 4)) = Some r"
      and "l = 0" and pages: "\<forall>l. \<exists>xs. p l = Inr xs"
    obtain xs where "p 0 = Inr xs"
      using pages by blast
    then have "dr p 0 = Some r"
      using eq \<open>l = 0\<close> by (simp add: MAX_SWEEP_LIMIT_def)
    then show False
      using ih pages by blast
  qed
  then have "drain page 0 \<noteq> Some r" for r
    using assms by blast
  then show ?thesis
    by (meson not_Some_eq)
qed

section \<open>Escalating each finding once\<close>

fun run_visits :: "('v \<Rightarrow> ('w, 'r) sx) \<Rightarrow> 'v list \<Rightarrow> ('w, 'r list) sx" where
  "run_visits visit [] = retM []"
| "run_visits visit (v # vs) = bindM (visit v) (\<lambda>r. bindM (run_visits visit vs) (\<lambda>rs. retM (r # rs)))"

text \<open>The keys found at the last of some visits that was about a subject.\<close>

definition last_found :: "('v \<Rightarrow> string) \<Rightarrow> ('v \<Rightarrow> 'k set) \<Rightarrow> 'v list \<Rightarrow> string \<Rightarrow> 'k set" where
  "last_found subject keys vs sid =
     (case filter (\<lambda>v. subject v = sid) vs of [] \<Rightarrow> {} | x # xs \<Rightarrow> keys (last (x # xs)))"

lemma last_found_Nil [simp]: "last_found subject keys [] sid = {}"
  by (simp add: last_found_def)

lemma last_found_snoc [simp]:
  "last_found subject keys (vs @ [v]) sid = (if subject v = sid then keys v else last_found subject keys vs sid)"
  by (cases "filter (\<lambda>v. subject v = sid) vs") (simp_all add: last_found_def)

text \<open>
  The contract of a sweeper's step: a visit reports what it finds and did not remember, and
  remembers what it found.
\<close>

locale edge_triggered =
  fixes visit :: "'v \<Rightarrow> ('w, pyval list) sx"
    and subject :: "'v \<Rightarrow> string"
    and found :: "'v \<Rightarrow> 'x list"
    and key :: "'x \<Rightarrow> 'k"
    and payload :: "'v \<Rightarrow> 'x \<Rightarrow> pyval"
    and remembered :: "'w \<Rightarrow> string \<Rightarrow> 'k set"
  assumes visit_reports: "visit v w = (Inr ps, w') \<Longrightarrow>
      ps = map (payload v) (filter (\<lambda>x. key x \<notin> remembered w (subject v)) (found v))"
    and visit_remembers: "visit v w = (Inr ps, w') \<Longrightarrow>
      remembered w' sid = (if sid = subject v then key ` set (found v) else remembered w sid)"
begin

lemma visits_remember:
  assumes "run_visits visit vs w = (Inr rs, w')" and "\<And>sid. remembered w sid = last_found subject (\<lambda>v. key ` set (found v)) past sid"
    and "i < length vs"
  shows "rs ! i = map (payload (vs ! i)) (filter (\<lambda>x. key x \<notin> 
    last_found subject (\<lambda>v. key ` set (found v)) (past @ take i vs) (subject (vs ! i))) (found (vs ! i)))"
  using assms
proof (induction vs arbitrary: w rs past i)
  case (Cons v vs)
  obtain r w1 where r: "visit v w = (Inr r, w1)"
    using Cons.prems(1) by (auto simp: bindM_def split: prod.splits sum.splits)
  obtain rs' where rs: "run_visits visit vs w1 = (Inr rs', w')" "rs = r # rs'"
    using Cons.prems(1) r by (auto simp: bindM_def retM_def split: prod.splits sum.splits)
  show ?case
  proof (cases i)
    case 0
    then show ?thesis
      using visit_reports [OF r] rs(2) Cons.prems(2) by simp
  next
    case (Suc j)
    have "remembered w1 sid = last_found subject (\<lambda>v. key ` set (found v)) (past @ [v]) sid" for sid
      using visit_remembers [OF r] Cons.prems(2) by simp
    then show ?thesis
      using Cons.IH [OF rs(1), of "past @ [v]" j] Cons.prems(3) rs(2) Suc by simp
  qed
qed simp

lemma reported_at_rising_edges:
  assumes "run_visits visit vs w = (Inr rs, w')" and "\<And>sid. remembered w sid = {}" and "i < length vs"
  shows "rs ! i = map (payload (vs ! i)) (filter (\<lambda>x. key x \<notin>
    last_found subject (\<lambda>v. key ` set (found v)) (take i vs) (subject (vs ! i))) (found (vs ! i)))"
  using visits_remember [OF assms(1), of "[]" i] assms(2,3) by simp

end

end
