(* ===== verification/Session_Sweepers.thy ===== *)
theory Session_Sweepers
  imports Sweep
begin

text \<open>
  The four sweepers over recently modified sessions: contradictions
  (\<open>reasoning/contradiction_sweeper.py\<close>), stale inferences
  (\<open>reasoning/inference_staleness_sweeper.py\<close>), expired facts
  (\<open>reasoning/temporal_staleness_sweeper.py\<close>) and old verifications
  (\<open>reasoning/provenance_staleness_sweeper.py\<close>).  \<open>cks.validate\<close> with extra constraints is a
  parameter that may depend on the time, as the check of validity intervals does; so are the
  codes of the constraints and \<open>datetime.fromisoformat\<close>.  One time stands for all readings of
  the clock in a sweep.
\<close>

section \<open>What the sweepers find\<close>

record ext_diag =
  xd_code :: string
  xd_severity :: string
  xd_message :: string
  xd_location :: "string option"

record sweep_env =
  run_validate :: "time \<Rightarrow> string list \<Rightarrow> kstruct \<Rightarrow> exn + ext_diag list"
  constraint_code :: "string \<Rightarrow> string"
  from_iso :: "string \<Rightarrow> int option"
  ttl_seconds :: nat

definition diag_key :: "ext_diag \<Rightarrow> string \<times> string option" where
  "diag_key d = (xd_code d, xd_location d)"

definition diag_payload :: "ext_diag \<Rightarrow> pyval" where
  "diag_payload d =
     PDict [(''code'', PStr (xd_code d)), (''severity'', PStr (xd_severity d)), (''message'', PStr (xd_message d)),
            (''location'', opt_str (xd_location d))]"

definition CONTRADICTION_CONSTRAINTS :: "string list" where
  "CONTRADICTION_CONSTRAINTS = [''mutual_exclusion'', ''functional_relation'']"

definition INFERENCE_CONSTRAINTS :: "string list" where
  "INFERENCE_CONSTRAINTS = [''inference_confidence_conflict'', ''stale_premise'']"

definition TEMPORAL_VALIDITY_CODE :: string where
  "TEMPORAL_VALIDITY_CODE = ''CKS-EXT-TEMPORAL-VALIDITY''"

text \<open>The diagnostics of a session with one of the codes.\<close>

definition relevant_diagnostics :: "sweep_env \<Rightarrow> string list \<Rightarrow> time \<Rightarrow> session \<Rightarrow> exn + ext_diag list" where
  "relevant_diagnostics se names now s =
     bind_err (run_validate se now names (knowledge_structure s)) (\<lambda>ds.
       Inr (filter (\<lambda>d. xd_code d \<in> constraint_code se ` set names) ds))"

definition contradictions :: "sweep_env \<Rightarrow> time \<Rightarrow> session \<Rightarrow> exn + ext_diag list" where
  "contradictions se now s =
     bind_err (relevant_diagnostics se CONTRADICTION_CONSTRAINTS now s) (\<lambda>ds.
       Inr (filter (\<lambda>d. xd_severity d = ''error'') ds))"

definition expired_diagnostics :: "sweep_env \<Rightarrow> time \<Rightarrow> session \<Rightarrow> exn + ext_diag list" where
  "expired_diagnostics se now s =
     bind_err (run_validate se now [''temporal_validity''] (knowledge_structure s)) (\<lambda>ds.
       Inr (filter (\<lambda>d. xd_code d = TEMPORAL_VALIDITY_CODE \<and> xd_severity d = ''warning'') ds))"

text \<open>The dictionary of the objects by id; of two with one id the later counts.\<close>

definition objects_by_id :: "kstruct \<Rightarrow> (string, kobj) dict" where
  "objects_by_id ks = fold (\<lambda>k d. dset d (obj_id k) k) (ks_objects ks) []"

definition expired_payload :: "session \<Rightarrow> string \<Rightarrow> ext_diag \<Rightarrow> pyval" where
  "expired_payload s location d =
     (let found = dget (objects_by_id (knowledge_structure s)) location
      in PDict [(''object_id'', PStr location),
                (''object_type'', case found of None \<Rightarrow> PNone | Some k \<Rightarrow> PStr (oi_type (ko_identity k))),
                (''valid_until'', case found of None \<Rightarrow> PNone | Some k \<Rightarrow> dget_or (ko_structure k) ''valid_until'' PNone),
                (''message'', PStr (xd_message d)), (''reason'', PStr ''valid_until_expired'')])"

definition parse_checked_at :: "sweep_env \<Rightarrow> pyval \<Rightarrow> int option" where
  "parse_checked_at se v =
     (case v of
        PStr s \<Rightarrow>
          if s = [] then None
          else from_iso se ((if last s = CHR ''Z'' then butlast s else s) @ ''+00:00'')
      | _ \<Rightarrow> None)"

definition checked_at :: "kobj \<Rightarrow> pyval" where
  "checked_at k = dget_or (ko_structure k) ''checked_at'' PNone"

definition stale_records :: "sweep_env \<Rightarrow> time \<Rightarrow> session \<Rightarrow> kobj list" where
  "stale_records se now s =
     filter (\<lambda>k. oi_type (ko_identity k) = ''VerificationRecord'' \<and>
               (case parse_checked_at se (checked_at k) of
                  None \<Rightarrow> False | Some t \<Rightarrow> t < int now - int (ttl_seconds se)))
       (ks_objects (knowledge_structure s))"

definition subject_by_record :: "kstruct \<Rightarrow> (string, string) dict" where
  "subject_by_record ks =
     fold (\<lambda>k d. case ko_relation k of
             Some ([subject_id, record_id], ty) \<Rightarrow> if ty = ''verified_by'' then dset d record_id subject_id else d
           | _ \<Rightarrow> d) (ks_objects ks) []"

definition stale_payload :: "session \<Rightarrow> kobj \<Rightarrow> pyval" where
  "stale_payload s k =
     (let ks = knowledge_structure s;
          subject_id = dget (subject_by_record ks) (obj_id k);
          subject_obj = (case subject_id of
                           None \<Rightarrow> None | Some i \<Rightarrow> if i = [] then None else dget (objects_by_id ks) i)
      in PDict [(''record_id'', PStr (obj_id k)), (''subject_id'', opt_str subject_id),
                (''source_url'', case subject_obj of None \<Rightarrow> PNone | Some x \<Rightarrow> dget_or (ko_structure x) ''url'' PNone),
                (''checked_at'', checked_at k), (''reason'', PStr ''ttl_expired'')])"

section \<open>The steps\<close>

fun put_each :: "(pyval \<Rightarrow> ('st, unit) sx) \<Rightarrow> pyval list \<Rightarrow> ('st, unit) sx" where
  "put_each put [] = retM ()"
| "put_each put (p # ps) = bindM (put p) (\<lambda>_. put_each put ps)"

text \<open>The findings not yet known become tasks one after the other; then the findings replace
  what was known of the session.\<close>

definition escalate ::
  "(pyval \<Rightarrow> ('st, unit) sx) \<Rightarrow> string \<Rightarrow> ('x \<Rightarrow> 'k) \<Rightarrow> ('x \<Rightarrow> pyval) \<Rightarrow> 'x list \<Rightarrow> (('k, 'st) sweeping, pyval list) sx" where
  "escalate put sid key entry xs w =
     (let new_payloads = map entry (filter (\<lambda>x. key x \<notin> known_of w sid) xs)
      in bindM (on_store (put_each put new_payloads)) (\<lambda>_ w. (Inr new_payloads, remember sid (key ` set xs) w)) w)"

definition contradiction_visit ::
  "'st sweep_store \<Rightarrow> sweep_env \<Rightarrow> time \<Rightarrow> session \<Rightarrow> ((string \<times> string option, 'st) sweeping, pyval list) sx" where
  "contradiction_visit ss se now s w =
     (case contradictions se now s of
        Inl e \<Rightarrow> (Inl e, w)
      | Inr ds \<Rightarrow>
          escalate (\<lambda>p. put_awaited ss ''contradiction_detected'' (session_id s) p now) (session_id s) diag_key diag_payload ds w)"

text \<open>The step of the inference sweeper publishes one event for all that is new and keeps an
  empty entry; \<open>announce\<close> is the event bus.  What it reports here is what the event carries.\<close>

definition inference_visit ::
  "(string \<Rightarrow> string \<Rightarrow> pyval list \<Rightarrow> ('st, unit) sx) \<Rightarrow> sweep_env \<Rightarrow> time \<Rightarrow> session
     \<Rightarrow> ((string \<times> string option, 'st) sweeping, pyval list) sx" where
  "inference_visit announce se now s w =
     (case relevant_diagnostics se INFERENCE_CONSTRAINTS now s of
        Inl e \<Rightarrow> (Inl e, w)
      | Inr ds \<Rightarrow>
          let sid = session_id s;
              new_diagnostics = map diag_payload (filter (\<lambda>d. diag_key d \<notin> known_of w sid) ds)
          in bindM (if new_diagnostics = [] then retM ()
                    else on_store (announce sid (opt_or (latest_id s) []) new_diagnostics))
               (\<lambda>_ w. (Inr new_diagnostics, w\<lparr>known := dset (known w) sid (diag_key ` set ds)\<rparr>)) w)"

definition located :: "ext_diag list \<Rightarrow> (string \<times> ext_diag) list" where
  "located ds = concat (map (\<lambda>d. case xd_location d of None \<Rightarrow> [] | Some l \<Rightarrow> [(l, d)]) ds)"

definition temporal_visit ::
  "'st sweep_store \<Rightarrow> sweep_env \<Rightarrow> time \<Rightarrow> session \<Rightarrow> ((string, 'st) sweeping, pyval list) sx" where
  "temporal_visit ss se now s w =
     (case expired_diagnostics se now s of
        Inl e \<Rightarrow> (Inl e, w)
      | Inr ds \<Rightarrow>
          escalate (\<lambda>p. put_dropped ss ''temporal_conflict'' (session_id s) p now) (session_id s) fst
            (\<lambda>(l, d). expired_payload s l d) (located ds) w)"

definition provenance_visit ::
  "'st sweep_store \<Rightarrow> sweep_env \<Rightarrow> time \<Rightarrow> session \<Rightarrow> ((string, 'st) sweeping, pyval list) sx" where
  "provenance_visit ss se now s =
     escalate (\<lambda>p. put_dropped ss ''provenance_conflict'' (session_id s) p now) (session_id s) obj_id (stale_payload s)
       (stale_records se now s)"

section \<open>The sweepers\<close>

definition contradiction_sweep_once ::
  "'st sweep_store \<Rightarrow> sweep_env \<Rightarrow> nat \<Rightarrow> time \<Rightarrow> (string \<times> string option, 'st) sweeping
     \<Rightarrow> ((exn + pyval list) \<times> (string \<times> string option, 'st) sweeping) option" where
  "contradiction_sweep_once ss se batch_size = sweep_once ss batch_size (contradiction_visit ss se)"

definition inference_sweep ::
  "'st sweep_store \<Rightarrow> (string \<Rightarrow> string \<Rightarrow> pyval list \<Rightarrow> ('st, unit) sx) \<Rightarrow> sweep_env \<Rightarrow> nat \<Rightarrow> time \<Rightarrow> (string \<times> string option, 'st) sweeping
     \<Rightarrow> ((exn + pyval list) \<times> (string \<times> string option, 'st) sweeping) option" where
  "inference_sweep ss announce se batch_size = sweep_once ss batch_size (inference_visit announce se)"

definition temporal_sweep_once ::
  "'st sweep_store \<Rightarrow> sweep_env \<Rightarrow> nat \<Rightarrow> time \<Rightarrow> (string, 'st) sweeping
     \<Rightarrow> ((exn + pyval list) \<times> (string, 'st) sweeping) option" where
  "temporal_sweep_once ss se batch_size = sweep_once ss batch_size (temporal_visit ss se)"

definition provenance_sweep_once ::
  "'st sweep_store \<Rightarrow> sweep_env \<Rightarrow> nat \<Rightarrow> time \<Rightarrow> (string, 'st) sweeping
     \<Rightarrow> ((exn + pyval list) \<times> (string, 'st) sweeping) option" where
  "provenance_sweep_once ss se batch_size = sweep_once ss batch_size (provenance_visit ss se)"

section \<open>Each finding is escalated once\<close>

lemma known_remember: "known_of (remember sid c w) sid' = (if sid' = sid then c else known_of w sid')"
  by (simp add: known_of_def remember_def dget_or_def dict_simps)

lemma on_store_known: "on_store m w = (x, w') \<Longrightarrow> known w' = known w \<and> watermark w' = watermark w"
  by (auto simp: on_store_def split: prod.splits)

lemma on_store_known_of: "on_store m w = (x, w') \<Longrightarrow> known_of w' sid = known_of w sid"
  using on_store_known [of m w x w'] by (simp add: known_of_def)

lemma escalate_ok:
  assumes "escalate put sid key entry xs w = (Inr ps, w')"
  shows "ps = map entry (filter (\<lambda>x. key x \<notin> known_of w sid) xs)"
    and "known_of w' sid' = (if sid' = sid then key ` set xs else known_of w sid')"
proof -
  let ?ps = "map entry (filter (\<lambda>x. key x \<notin> known_of w sid) xs)"
  obtain w1 where w1: "on_store (put_each put ?ps) w = (Inr (), w1)" "ps = ?ps" "w' = remember sid (key ` set xs) w1"
    using assms by (auto simp: escalate_def Let_def bindM_def split: prod.splits sum.splits)
  then show "ps = ?ps" "known_of w' sid' = (if sid' = sid then key ` set xs else known_of w sid')"
    using on_store_known_of [OF w1(1)] by (simp_all add: known_remember)
qed

interpretation contradiction_sweeper: edge_triggered
  "\<lambda>(now, s). contradiction_visit ss se now s" "\<lambda>(now, s). session_id s"
  "\<lambda>(now, s). case_sum (\<lambda>_. []) id (contradictions se now s)" diag_key "\<lambda>_. diag_payload" known_of
  by unfold_locales (auto simp: contradiction_visit_def escalate_ok split: sum.splits)

interpretation inference_sweeper: edge_triggered
  "\<lambda>(now, s). inference_visit announce se now s" "\<lambda>(now, s). session_id s"
  "\<lambda>(now, s). case_sum (\<lambda>_. []) id (relevant_diagnostics se INFERENCE_CONSTRAINTS now s)" diag_key "\<lambda>_. diag_payload"
  known_of
  by unfold_locales
    (auto simp: inference_visit_def Let_def bindM_def retM_def known_of_def dget_or_def dict_simps dest!: on_store_known
      split: sum.splits prod.splits if_splits)

interpretation temporal_sweeper: edge_triggered
  "\<lambda>(now, s). temporal_visit ss se now s" "\<lambda>(now, s). session_id s"
  "\<lambda>(now, s). case_sum (\<lambda>_. []) located (expired_diagnostics se now s)" fst "\<lambda>(now, s) (l, d). expired_payload s l d"
  known_of
  by unfold_locales (auto simp: temporal_visit_def escalate_ok rev_image_eqI split: sum.splits)

interpretation provenance_sweeper: edge_triggered
  "\<lambda>(now, s). provenance_visit ss se now s" "\<lambda>(now, s). session_id s" "\<lambda>(now, s). stale_records se now s" obj_id
  "\<lambda>(now, s). stale_payload s" known_of
  by unfold_locales (auto simp: provenance_visit_def escalate_ok)

section \<open>What a visit leaves alone\<close>

definition tasks_of :: "string \<Rightarrow> sqlite_db \<Rightarrow> task list" where
  "tasks_of sid db = filter (\<lambda>t. t_session_id t = sid) (dvals (tasks (task_table db)))"

definition ids_ok :: "sqlite_db \<Rightarrow> bool" where
  "ids_ok db \<longleftrightarrow> (\<forall>i \<in> set (dkeys (tasks (task_table db))). i < next_task_id (task_table db))"

text \<open>Sessions and the other sessions' tasks and findings.\<close>

definition untouched :: "string \<Rightarrow> ('k, sqlite_db) sweeping \<Rightarrow> ('k, sqlite_db) sweeping \<Rightarrow> bool" where
  "untouched sid w w' \<longleftrightarrow>
     known_of w' sid = known_of w sid \<and> tasks_of sid (sw_store w') = tasks_of sid (sw_store w)"

definition local_visit :: "(session \<Rightarrow> (('k, sqlite_db) sweeping, pyval list) sx) \<Rightarrow> bool" where
  "local_visit visit \<longleftrightarrow>
     (\<forall>s w r w'. visit s w = (r, w') \<longrightarrow> ids_ok (sw_store w) \<longrightarrow>
        ids_ok (sw_store w') \<and> session_rows (sw_store w') = session_rows (sw_store w) \<and>
        version_rows (sw_store w') = version_rows (sw_store w) \<and> watermark w' = watermark w \<and>
        (\<forall>sid. sid \<noteq> session_id s \<longrightarrow> untouched sid w w'))"

lemma enqueue_task_entries:
  assumes "ids_ok db" and "sqlite_enqueue_task ty sid p now db = (r, db')"
  shows "ids_ok db' \<and> session_rows db' = session_rows db \<and> version_rows db' = version_rows db \<and> r = Inr () \<and>
    (\<exists>t. task_type t = ty \<and> t_session_id t = sid \<and> payload t = p \<and>
       dvals (tasks (task_table db')) = dvals (tasks (task_table db)) @ [t])"
proof -
  have "next_task_id (task_table db) \<notin> set (dkeys (tasks (task_table db)))"
    using assms(1) by (auto simp: ids_ok_def)
  then show ?thesis
    using assms by (auto simp: sqlite_enqueue_task_def enqueue_task_def dset_new dvals_def dkeys_def ids_ok_def less_Suc_eq)
      force
qed

lemma put_each_local:
  assumes "\<And>p db r db'. put p db = (r, db') \<Longrightarrow> ids_ok db \<Longrightarrow> ids_ok db' \<and> session_rows db' = session_rows db \<and>
      version_rows db' = version_rows db \<and> (\<forall>sid'. sid' \<noteq> sid \<longrightarrow> tasks_of sid' db' = tasks_of sid' db)"
    and "put_each put ps db = (r, db')" and "ids_ok db"
  shows "ids_ok db' \<and> session_rows db' = session_rows db \<and> version_rows db' = version_rows db \<and>
    (\<forall>sid'. sid' \<noteq> sid \<longrightarrow> tasks_of sid' db' = tasks_of sid' db)"
  using assms(2,3)
proof (induction ps arbitrary: db)
  case (Cons p ps)
  show ?case
  proof (cases "put p db")
    case (Pair r1 db1)
    note one = assms(1) [OF Pair Cons.prems(2)]
    show ?thesis
    proof (cases r1)
      case (Inl e)
      then show ?thesis
        using one Cons.prems(1) Pair by (simp add: bindM_def)
    next
      case (Inr u)
      then have "put_each put ps db1 = (r, db')"
        using Cons.prems(1) Pair by (simp add: bindM_def)
      from Cons.IH [OF this] show ?thesis
        using one by simp
    qed
  qed
qed (simp add: retM_def)

lemma escalate_local:
  assumes "\<And>p db r db'. put p db = (r, db') \<Longrightarrow> ids_ok db \<Longrightarrow> ids_ok db' \<and> session_rows db' = session_rows db \<and>
      version_rows db' = version_rows db \<and> (\<forall>sid'. sid' \<noteq> sid \<longrightarrow> tasks_of sid' db' = tasks_of sid' db)"
    and "escalate put sid key entry xs w = (r, w')" and "ids_ok (sw_store w)"
  shows "ids_ok (sw_store w') \<and> session_rows (sw_store w') = session_rows (sw_store w) \<and>
    version_rows (sw_store w') = version_rows (sw_store w) \<and> watermark w' = watermark w \<and>
    (\<forall>sid'. sid' \<noteq> sid \<longrightarrow> untouched sid' w w')"
proof -
  let ?ps = "map entry (filter (\<lambda>x. key x \<notin> known_of w sid) xs)"
  obtain r1 db1 where run: "put_each put ?ps (sw_store w) = (r1, db1)"
    by fastforce
  have "w' = (case r1 of Inl _ \<Rightarrow> w\<lparr>sw_store := db1\<rparr> | Inr _ \<Rightarrow> remember sid (key ` set xs) (w\<lparr>sw_store := db1\<rparr>))"
    using assms(2) run by (auto simp: escalate_def Let_def bindM_def on_store_def split: sum.splits)
  then have "sw_store w' = db1" "watermark w' = watermark w" "\<forall>sid'. sid' \<noteq> sid \<longrightarrow> known_of w' sid' = known_of w sid'"
    using known_remember [of sid "key ` set xs" "w\<lparr>sw_store := db1\<rparr>"]
    by (auto simp: remember_def known_of_def split: sum.splits)
  then show ?thesis
    using put_each_local [OF assms(1) run assms(3)] by (simp add: untouched_def)
qed

lemma sqlite_puts_local:
  assumes "put_awaited (sqlite_direct cks) ty sid p now db = (r, db') \<or> put_dropped (sqlite_direct cks) ty sid p now db = (r, db')"
    and "ids_ok db"
  shows "ids_ok db' \<and> session_rows db' = session_rows db \<and> version_rows db' = version_rows db \<and>
    (\<forall>sid'. sid' \<noteq> sid \<longrightarrow> tasks_of sid' db' = tasks_of sid' db)"
  using assms enqueue_task_entries [OF assms(2), of ty sid p now r db']
  by (auto simp: put_awaited_def put_dropped_def sqlite_direct_def tasks_of_def)

lemma sweepers_local:
  "local_visit (contradiction_visit (sqlite_direct cks) se now)"
  "local_visit (temporal_visit (sqlite_direct cks) se now)"
  "local_visit (provenance_visit (sqlite_direct cks) se now)"
proof -
  have esc: "ids_ok (sw_store w') \<and> session_rows (sw_store w') = session_rows (sw_store w) \<and>
      version_rows (sw_store w') = version_rows (sw_store w) \<and> watermark w' = watermark w \<and>
      (\<forall>sid'. sid' \<noteq> sid \<longrightarrow> untouched sid' w w')"
    if "escalate put sid key entry xs w = (r, w')" "ids_ok (sw_store w)"
      "put = (\<lambda>p. put_awaited (sqlite_direct cks) ty sid p now) \<or> put = (\<lambda>p. put_dropped (sqlite_direct cks) ty sid p now)"
    for put sid xs w r w' ty and key :: "'b \<Rightarrow> 'a" and entry
    by (rule escalate_local [OF _ that(1,2)]) (use that(3) sqlite_puts_local in blast)
  show "local_visit (contradiction_visit (sqlite_direct cks) se now)"
    by (auto simp: local_visit_def contradiction_visit_def untouched_def split: sum.splits dest!: esc)
  show "local_visit (temporal_visit (sqlite_direct cks) se now)"
    by (auto simp: local_visit_def temporal_visit_def untouched_def split: sum.splits dest!: esc)
  show "local_visit (provenance_visit (sqlite_direct cks) se now)"
    by (auto simp: local_visit_def provenance_visit_def untouched_def dest!: esc)
qed

section \<open>Runs of sweeps\<close>

fun run_sweeps ::
  "(time \<Rightarrow> ('k, 'st) sweeping \<Rightarrow> ((exn + pyval list) \<times> ('k, 'st) sweeping) option) \<Rightarrow> time list
     \<Rightarrow> ('k, 'st) sweeping \<Rightarrow> ('k, 'st) sweeping option" where
  "run_sweeps sweep [] w = Some w"
| "run_sweeps sweep (t # ts) w = (case sweep t w of None \<Rightarrow> None | Some (_, w') \<Rightarrow> run_sweeps sweep ts w')"

text \<open>No row of the session was written at or after the watermark.\<close>

definition settled :: "string \<Rightarrow> time \<Rightarrow> sqlite_db \<Rightarrow> bool" where
  "settled sid wm db \<longleftrightarrow> (\<forall>(k, r) \<in> set (session_rows db). k = sid \<longrightarrow> modified_at r < wm)"

lemma sweep_all_local:
  assumes "local_visit visit" and "sweep_all visit ss acc w = (r, w')" and "ids_ok (sw_store w)"
  shows "ids_ok (sw_store w') \<and> session_rows (sw_store w') = session_rows (sw_store w) \<and>
    version_rows (sw_store w') = version_rows (sw_store w) \<and> watermark w' = watermark w \<and>
    (\<forall>sid. sid \<notin> session_id ` set ss \<longrightarrow> untouched sid w w')"
  using assms(2,3)
proof (induction ss arbitrary: acc w)
  case (Cons s ss)
  obtain r1 w1 where v: "visit s w = (r1, w1)"
    by fastforce
  note one = assms(1) [unfolded local_visit_def, rule_format, OF v Cons.prems(2)]
  show ?case
  proof (cases r1)
    case (Inl e)
    then show ?thesis
      using one Cons.prems(1) v by (auto simp: bindM_def)
  next
    case (Inr ps)
    then have "sweep_all visit ss (acc @ ps) w1 = (r, w')"
      using Cons.prems(1) v by (simp add: bindM_def)
    from Cons.IH [OF this] show ?thesis
      using one by (auto simp: untouched_def)
  qed
qed (simp add: retM_def untouched_def)

lemma load_all_ids:
  assumes "load_all cks ids db = Inr ss"
  shows "session_id ` set ss \<subseteq> set ids"
proof -
  have one: "session_id s = i" if "load_session cks i db = Inr (Some s)" for i s
    using that by (auto simp: load_session_def bind_err_def make_session_def fold_add_version split: option.splits sum.splits if_splits)
  have "map_err (\<lambda>sid. load_session cks sid db) ids = Inr found \<Longrightarrow> s \<in> \<Union> (set ` case_option [] (\<lambda>s. [s]) ` set found) \<Longrightarrow>
      session_id s \<in> set ids" for found s
  proof (induction ids arbitrary: found)
    case (Cons i ids)
    then show ?case
      using one by (auto split: sum.splits option.splits)
  qed simp
  then show ?thesis
    using assms by (auto simp: load_all_def bind_err_def split: sum.splits)
qed

lemma since_ids:
  assumes "list_sessions_modified_since cks wm l db = Inr ss" and "settled sid wm db"
  shows "sid \<notin> session_id ` set ss"
proof -
  have "session_id ` set ss \<subseteq> fst ` set (filter (\<lambda>(_, r). wm \<le> modified_at r) (session_rows db))"
    using load_all_ids [OF assms(1) [unfolded list_sessions_modified_since_def]] by (force dest: in_set_takeD)
  moreover have "sid \<notin> fst ` set (filter (\<lambda>(_, r). wm \<le> modified_at r) (session_rows db))"
    using assms(2) by (fastforce simp: settled_def)
  ultimately show ?thesis
    by blast
qed

lemma sweep_once_local:
  assumes "\<And>t. local_visit (visit t)" and "sweep_once (sqlite_direct cks) n visit now w = Some (r, w')"
    and "ids_ok (sw_store w)"
  shows "ids_ok (sw_store w') \<and> session_rows (sw_store w') = session_rows (sw_store w) \<and>
    watermark w' \<in> {watermark w, now} \<and> (settled sid (watermark w) (sw_store w) \<longrightarrow> untouched sid w w')"
proof -
  obtain x where x: "drain (\<lambda>limit. list_sessions_modified_since cks (watermark w) limit (sw_store w)) n = Some x"
      "(r, w') = (case x of Inl e \<Rightarrow> (Inl e, w) | Inr (found, drained) \<Rightarrow>
         sweep_all (visit now) found [] (if drained then w\<lparr>watermark := now\<rparr> else w))"
    using assms(2) by (auto simp: sweep_once_def sqlite_direct_def)
  show ?thesis
  proof (cases x)
    case (Inl e)
    then show ?thesis
      using x(2) assms(3) by (simp add: untouched_def)
  next
    case (Inr y)
    then obtain batch drained where y: "x = Inr (batch, drained)"
      by (cases y) simp
    let ?w = "if drained then w\<lparr>watermark := now\<rparr> else w"
    have run: "sweep_all (visit now) batch [] ?w = (r, w')"
      using x(2) y by simp
    obtain l where "list_sessions_modified_since cks (watermark w) l (sw_store w) = Inr batch"
      using drain_page [OF x(1) [unfolded y]] by blast
    note ids = since_ids [OF this]
    show ?thesis
      using sweep_all_local [OF assms(1) run] ids [of sid] assms(3)
      by (auto simp: untouched_def known_of_def split: if_splits)
  qed
qed

lemma settled_sweeps:
  assumes "\<And>t. local_visit (visit t)" and "run_sweeps (sweep_once (sqlite_direct cks) n visit) ts w = Some w'"
    and "ids_ok (sw_store w)" and "settled sid (watermark w) (sw_store w)"
    and "\<forall>t \<in> set ts. settled sid t (sw_store w)"
  shows "untouched sid w w' \<and> settled sid (watermark w') (sw_store w')"
  using assms(2-5)
proof (induction ts arbitrary: w)
  case (Cons t ts)
  obtain r w1 where s: "sweep_once (sqlite_direct cks) n visit t w = Some (r, w1)"
      "run_sweeps (sweep_once (sqlite_direct cks) n visit) ts w1 = Some w'"
    using Cons.prems(1) by (auto split: option.splits)
  note one = sweep_once_local [OF assms(1) s(1) Cons.prems(2), of sid]
  have "settled sid (watermark w1) (sw_store w1)" "\<forall>t \<in> set ts. settled sid t (sw_store w1)"
    using one Cons.prems(3,4) by (auto simp: settled_def)
  then show ?case
    using Cons.IH [OF s(2)] one Cons.prems(3) by (auto simp: untouched_def)
qed (simp add: untouched_def)

lemma settled_later: "settled sid t db \<Longrightarrow> t \<le> u \<Longrightarrow> settled sid u db"
  by (fastforce simp: settled_def)

lemma drain_returns: "0 < limit \<Longrightarrow> \<exists>r. drain page limit = Some r"
proof (induction "MAX_SWEEP_LIMIT - limit" arbitrary: limit rule: less_induct)
  case less
  note step = drain.simps [of page limit]
  show ?case
  proof (cases "page limit")
    case (Inr batch)
    show ?thesis
    proof (cases "length batch < limit \<or> MAX_SWEEP_LIMIT \<le> limit")
      case False
      then have "MAX_SWEEP_LIMIT - limit * 4 < MAX_SWEEP_LIMIT - limit"
        using less.prems by linarith
      moreover have "drain page limit = drain page (limit * 4)"
        using False less.prems step Inr by simp
      ultimately show ?thesis
        using less.hyps [of "limit * 4"] less.prems by simp
    qed (use step Inr in auto)
  qed (use step in simp)
qed

lemma run_sweeps_return: "0 < n \<Longrightarrow> \<exists>w'. run_sweeps (sweep_once ss n visit) ts w = Some w'"
proof (induction ts arbitrary: w)
  case (Cons t ts)
  obtain x where "drain (\<lambda>l. modified_since ss (watermark w) l (sw_store w)) n = Some x"
    using drain_returns [OF Cons.prems] by blast
  then obtain r w1 where "sweep_once ss n visit t w = Some (r, w1)"
    by (cases "sweep_once ss n visit t w") (auto simp: sweep_once_def)
  then show ?case
    using Cons by simp
qed simp

section \<open>The tasks of a run\<close>

definition task_entries :: "sqlite_db \<Rightarrow> (string \<times> string \<times> pyval) list" where
  "task_entries db = map (\<lambda>t. (task_type t, t_session_id t, payload t)) (dvals (tasks (task_table db)))"

definition contradictions_found :: "sweep_env \<Rightarrow> time \<times> session \<Rightarrow> ext_diag list" where
  "contradictions_found se = (\<lambda>(now, s). case_sum (\<lambda>_. []) id (contradictions se now s))"

text \<open>Those of the \<open>i\<close>-th visit that the last visit of the same session before did not find.\<close>

definition newly_found :: "sweep_env \<Rightarrow> (time \<times> session) list \<Rightarrow> nat \<Rightarrow> ext_diag list" where
  "newly_found se vs i =
     filter (\<lambda>d. diag_key d \<notin> last_found (\<lambda>(now, s). session_id s) (\<lambda>v. diag_key ` set (contradictions_found se v))
               (take i vs) (session_id (snd (vs ! i)))) (contradictions_found se (vs ! i))"

lemma put_each_entries:
  assumes "ids_ok db"
  shows "\<exists>db'. put_each (\<lambda>p. put_awaited (sqlite_direct cks) ty sid p now) ps db = (Inr (), db') \<and> ids_ok db' \<and>
    task_entries db' = task_entries db @ map (\<lambda>p. (ty, sid, p)) ps"
  using assms
proof (induction ps arbitrary: db)
  case (Cons p ps)
  obtain r db1 where run: "sqlite_enqueue_task ty sid p now db = (r, db1)"
    by fastforce
  note one = enqueue_task_entries [OF Cons.prems run]
  then have "task_entries db1 = task_entries db @ [(ty, sid, p)]" "ids_ok db1" "r = Inr ()"
    by (auto simp: task_entries_def)
  then show ?case
    using Cons.IH [of db1] run by (auto simp: bindM_def put_awaited_def sqlite_direct_def)
qed (simp add: retM_def)

lemma contradiction_visit_entries:
  assumes "contradiction_visit (sqlite_direct cks) se now s w = (Inr ps, w')" and "ids_ok (sw_store w)"
  shows "ids_ok (sw_store w') \<and>
    task_entries (sw_store w') = task_entries (sw_store w) @ map (\<lambda>p. (''contradiction_detected'', session_id s, p)) ps"
proof -
  obtain ds where ds: "contradictions se now s = Inr ds"
    using assms(1) by (auto simp: contradiction_visit_def split: sum.splits)
  let ?ps = "map diag_payload (filter (\<lambda>x. diag_key x \<notin> known_of w (session_id s)) ds)"
  obtain db' where "put_each (\<lambda>p. put_awaited (sqlite_direct cks) ''contradiction_detected'' (session_id s) p now) ?ps (sw_store w) =
      (Inr (), db')" "ids_ok db'"
      "task_entries db' = task_entries (sw_store w) @ map (\<lambda>p. (''contradiction_detected'', session_id s, p)) ?ps"
    using put_each_entries [OF assms(2)] by blast
  moreover from this(1) have "ps = ?ps \<and> sw_store w' = db'"
    using assms(1) ds unfolding contradiction_visit_def escalate_def Let_def bindM_def on_store_def remember_def by auto
  ultimately show ?thesis
    by simp
qed

lemma contradiction_run_entries:
  assumes "run_visits (\<lambda>(now, s). contradiction_visit (sqlite_direct cks) se now s) vs w = (Inr rs, w')"
    and "ids_ok (sw_store w)"
  shows "length rs = length vs \<and> task_entries (sw_store w') = task_entries (sw_store w) @
    concat (map (\<lambda>i. map (\<lambda>p. (''contradiction_detected'', session_id (snd (vs ! i)), p)) (rs ! i)) [0..<length vs])"
  using assms
proof (induction vs arbitrary: w rs)
  case (Cons v vs)
  obtain now s where v: "v = (now, s)"
    by (cases v)
  obtain r w1 rs' where r: "contradiction_visit (sqlite_direct cks) se now s w = (Inr r, w1)"
      "run_visits (\<lambda>(now, s). contradiction_visit (sqlite_direct cks) se now s) vs w1 = (Inr rs', w')" "rs = r # rs'"
    using Cons.prems(1) v by (auto simp: bindM_def retM_def split: prod.splits sum.splits)
  note one = contradiction_visit_entries [OF r(1) Cons.prems(2)]
  have "[0..<length (v # vs)] = 0 # map Suc [0..<length vs]"
    by (simp add: upt_conv_Cons map_Suc_upt del: upt_Suc)
  then show ?case
    using Cons.IH [OF r(2)] one r(3) v by (simp add: comp_def)
qed (simp add: retM_def)

section \<open>Samples\<close>

text \<open>A fact that expires at time 5; a validation that fails on the structure of one object and
  finds a contradiction in every other.\<close>

definition expiring :: sweep_env where
  "expiring =
     \<lparr>run_validate = (\<lambda>now names ks. Inr (if 5 \<le> now then [\<lparr>xd_code = TEMPORAL_VALIDITY_CODE, xd_severity = ''warning'',
        xd_message = ''expired'', xd_location = Some ''x''\<rparr>] else [])),
      constraint_code = id, from_iso = (\<lambda>_. None), ttl_seconds = 0\<rparr>"

definition a_contradiction :: ext_diag where
  "a_contradiction = \<lparr>xd_code = ''mutual_exclusion'', xd_severity = ''error'', xd_message = ''m'', xd_location = Some ''r''\<rparr>"

definition failing :: sweep_env where
  "failing =
     \<lparr>run_validate = (\<lambda>now names ks. if ks = one_object then Inl OtherException else Inr [a_contradiction]),
      constraint_code = id, from_iso = (\<lambda>_. None), ttl_seconds = 0\<rparr>"

definition bad_session :: session where
  "bad_session = sample_session\<lparr>session_id := ''a'', knowledge_structure := one_object\<rparr>"

definition two_db :: sqlite_db where
  "two_db = first_db\<lparr>session_rows := (''a'', session_row_of text_cks bad_session 1) # session_rows first_db\<rparr>"

lemma first_db_tasks: "task_table first_db = empty_outbox"
proof -
  obtain row where "version_row_of text_cks (snapshot_at ''v0'' 1 \<lparr>ks_objects = []\<rparr>) = Inr row"
    using first_db_simps(2) by blast
  then show ?thesis
    by (simp add: first_db_def persist_def bindM_def save_version_def save_session_def empty_db_def dhas_def)
qed

lemma first_db_ids: "ids_ok first_db" "ids_ok two_db" "tasks_of sid first_db = []" "tasks_of sid two_db = []"
  by (simp_all add: ids_ok_def tasks_of_def two_db_def first_db_tasks empty_outbox_def dkeys_def dvals_def)

lemma first_db_since: "0 < l \<Longrightarrow> list_sessions_modified_since text_cks 0 l first_db = Inr [persistent first_session]"
proof -
  have "load_session text_cks ''s'' first_db = Inr (Some (persistent first_session))"
    using load_held [of text_cks first_db first_session 1] first_durable(1) first_db_simps(1)
    by (simp add: durable_def dict_simps)
  then show "0 < l \<Longrightarrow> ?thesis"
    by (cases l) (simp_all add: list_sessions_modified_since_def first_db_simps(1) load_all_def bind_err_def)
qed

lemma two_db_since: "list_sessions_modified_since text_cks 0 100 two_db = Inr [bad_session, persistent first_session]"
proof -
  have first: "load_session text_cks ''s'' first_db = Inr (Some (persistent first_session))"
    using load_held [of text_cks first_db first_session 1] first_durable(1) first_db_simps(1)
    by (simp add: durable_def dict_simps)
  obtain row where row: "version_rows first_db = [(''v0'', row)]" "vr_session_id row = ''s''"
    using first_db_simps(2) by blast
  have "load_session text_cks ''s'' two_db = load_session text_cks ''s'' first_db"
    by (simp add: load_session_def two_db_def rows_of_session_def dict_simps cong: option.case_cong)
  moreover have "load_session text_cks ''a'' two_db = Inr (Some bad_session)"
    by (simp add: load_session_def two_db_def rows_of_session_def dict_simps row session_row_of_def parse_text_def
        text_cks_def bad_session_def make_session_def sample_session_def bind_err_def)
  ultimately show ?thesis
    using first by (simp add: list_sessions_modified_since_def two_db_def first_db_simps(1) load_all_def bind_err_def
        session_row_of_def)
qed

section \<open>Properties\<close>

text \<open>C36: A sweep returns exactly when its batch size is positive: the limit of the query grows
  until a page is not full or the cap is reached, but from 0 it does not grow and the loop
  runs for ever.\<close>

theorem sweep_returns:
  assumes "\<forall>l. \<exists>xs. modified_since ss (watermark w) l (sw_store w) = Inr xs"
  shows "(\<exists>r. sweep_once ss batch_size visit now w = Some r) \<longleftrightarrow> 0 < batch_size"
proof (cases "batch_size = 0")
  case True
  then show ?thesis
    using drain_zero [of "\<lambda>l. modified_since ss (watermark w) l (sw_store w)"] assms by (simp add: sweep_once_def)
next
  case False
  then show ?thesis
    using drain_returns [of batch_size "\<lambda>l. modified_since ss (watermark w) l (sw_store w)"]
    by (auto simp: sweep_once_def)
qed

theorem sweep_returns_witness:
  "contradiction_sweep_once (sync_adapter (sqlite_direct text_cks)) failing 0 5 (new_sweeping first_db) = None"
proof -
  have "\<forall>l. \<exists>xs. modified_since (sync_adapter (sqlite_direct text_cks)) (watermark (new_sweeping first_db)) l
      (sw_store (new_sweeping first_db)) = Inr xs"
    by (simp add: sync_adapter_def async_list_sessions_modified_since_def)
  from sweep_returns [OF this, of 0 "contradiction_visit (sync_adapter (sqlite_direct text_cks)) failing" 5]
  show ?thesis
    unfolding contradiction_sweep_once_def by (metis less_irrefl not_Some_eq)
qed

text \<open>C35: Every contradiction is escalated once: over any sequence of visits of sessions by the
  contradiction sweeper the task table of the SQLite storage grows by exactly one task for
  each contradiction a visit finds that the last visit of the same session did not find, in
  order; one that stays is not reported again, one that comes back is.\<close>

theorem contradictions_escalated_once:
  assumes "run_visits (\<lambda>(now, s). contradiction_visit (sqlite_direct cks) se now s) vs (new_sweeping db) = (Inr rs, w')"
    and "ids_ok db"
  shows "task_entries (sw_store w') = task_entries db @
    concat (map (\<lambda>i. map (\<lambda>d. (''contradiction_detected'', session_id (snd (vs ! i)), diag_payload d)) (newly_found se vs i))
      [0..<length vs])"
proof -
  have fresh: "known_of (new_sweeping db) sid = {}" for sid
    by (simp add: known_of_def new_sweeping_def dget_or_def)
  have "rs ! i = map diag_payload (newly_found se vs i)" if "i < length vs" for i
    using contradiction_sweeper.reported_at_rising_edges [OF assms(1) fresh that]
    by (simp add: newly_found_def contradictions_found_def case_prod_unfold)
  then have "concat (map (\<lambda>i. map (\<lambda>p. (''contradiction_detected'', session_id (snd (vs ! i)), p)) (rs ! i)) [0..<length vs]) =
      concat (map (\<lambda>i. map (\<lambda>d. (''contradiction_detected'', session_id (snd (vs ! i)), diag_payload d)) (newly_found se vs i))
        [0..<length vs])"
    by (intro arg_cong [where f = concat] map_cong) (simp_all add: comp_def)
  moreover have "sw_store (new_sweeping db :: (string \<times> string option, sqlite_db) sweeping) = db"
    by (simp add: new_sweeping_def)
  ultimately show ?thesis
    using contradiction_run_entries [OF assms(1)] assms(2) by simp
qed

theorem contradictions_escalated_once_witness:
  "\<exists>rs w'. run_visits (\<lambda>(now, s). contradiction_visit (sqlite_direct text_cks) failing now s)
       [(5, persistent first_session), (6, persistent first_session)] (new_sweeping first_db) = (Inr rs, w') \<and>
     task_entries (sw_store w') = [(''contradiction_detected'', ''s'', diag_payload a_contradiction)]"
proof -
  let ?visit = "\<lambda>(now, s). contradiction_visit (sqlite_direct text_cks) failing now s"
  let ?vs = "[(5::time, persistent first_session), (6, persistent first_session)]"
  have c: "contradictions failing t (persistent first_session) = Inr [a_contradiction]" for t
    by (simp add: contradictions_def relevant_diagnostics_def failing_def bind_err_def persistent_def one_object_def
        a_contradiction_def CONTRADICTION_CONSTRAINTS_def)
  have v: "\<exists>ps w'. ?visit (t, persistent first_session) w = (Inr ps, w')" for t and w :: "(string \<times> string option, sqlite_db) sweeping"
  proof -
    have "\<exists>db'. put_each (\<lambda>p. put_awaited (sqlite_direct cks) ty sid p now) ps db = (Inr (), db')" for cks ty sid now ps db
      by (induction ps arbitrary: db) (simp_all add: retM_def bindM_def put_awaited_def sqlite_direct_def sqlite_enqueue_task_def)
    then obtain db' where "put_each (\<lambda>p. put_awaited (sqlite_direct text_cks) ''contradiction_detected'' (session_id (persistent first_session)) p t)
        (map diag_payload (filter (\<lambda>x. diag_key x \<notin> known_of w (session_id (persistent first_session))) [a_contradiction])) (sw_store w) = (Inr (), db')"
      by blast
    then show ?thesis
      by (simp add: contradiction_visit_def c escalate_def Let_def bindM_def on_store_def)
  qed
  obtain ps1 w1 where one: "?visit (5, persistent first_session) (new_sweeping first_db) = (Inr ps1, w1)"
    using v by blast
  obtain ps2 w2 where two: "?visit (6, persistent first_session) w1 = (Inr ps2, w2)"
    using v by blast
  have run: "run_visits ?visit ?vs (new_sweeping first_db) = (Inr [ps1, ps2], w2)"
    using one two by (simp add: bindM_def retM_def)
  have "session_id (persistent first_session) = ''s''"
    by (simp add: persistent_def)
  then have "newly_found failing ?vs 0 = [a_contradiction]" "newly_found failing ?vs 1 = []"
    by (simp_all add: newly_found_def contradictions_found_def c last_found_def)
  then have "task_entries (sw_store w2) = [(''contradiction_detected'', ''s'', diag_payload a_contradiction)]"
    using contradictions_escalated_once [OF run first_db_ids(1)]
    by (simp add: persistent_def task_entries_def first_db_tasks empty_outbox_def dvals_def)
  then show ?thesis
    using run by blast
qed

text \<open>In a runtime on a synchronous storage the session sweepers do nothing: the adapter
  around it inherits a list of modified sessions that is always empty, so every sweep finds
  no session, writes no task and moves its watermark past all that was modified.\<close>

theorem adapter_sweeps_nothing:
  assumes "0 < batch_size"
  shows "sweep_once (sync_adapter ss) batch_size visit now w = Some (Inr [], w\<lparr>watermark := now\<rparr>)"
  using assms drain.simps [of "\<lambda>limit. async_list_sessions_modified_since (watermark w) limit (sw_store w)" batch_size]
  by (simp add: sweep_once_def sync_adapter_def async_list_sessions_modified_since_def retM_def)

theorem adapter_sweeps_nothing_witness:
  "contradiction_sweep_once (sync_adapter (sqlite_direct text_cks)) failing 100 5 (new_sweeping two_db) =
     Some (Inr [], (new_sweeping two_db)\<lparr>watermark := 5\<rparr>)"
  using adapter_sweeps_nothing [of 100 "sqlite_direct text_cks"
      "contradiction_visit (sync_adapter (sqlite_direct text_cks)) failing" 5 "new_sweeping two_db"]
  by (simp add: contradiction_sweep_once_def)

text \<open>Facts that expire in a session that is not modified are never reported: once the
  watermark has passed the last modification of a session, no later sweep of the temporal
  sweeper writes a task for it, whatever the validation finds at that time.\<close>

theorem unmodified_never_rechecked:
  assumes "run_sweeps (temporal_sweep_once (sqlite_direct cks) se batch_size) ts w = Some w'"
    and "ids_ok (sw_store w)" and "settled sid (watermark w) (sw_store w)" and "\<forall>t \<in> set ts. watermark w \<le> t"
  shows "tasks_of sid (sw_store w') = tasks_of sid (sw_store w)"
proof -
  have "\<forall>t \<in> set ts. settled sid t (sw_store w)"
    using assms(3,4) settled_later by blast
  from settled_sweeps [OF sweepers_local(2) assms(1) [unfolded temporal_sweep_once_def] assms(2,3) this]
  show ?thesis
    by (simp add: untouched_def)
qed

theorem unmodified_never_rechecked_witness:
  "\<exists>w'. run_sweeps (temporal_sweep_once (sqlite_direct text_cks) expiring 100) [2, 5, 9] (new_sweeping first_db) = Some w' \<and>
     expired_diagnostics expiring 5 (persistent first_session) \<noteq> Inr [] \<and> tasks_of ''s'' (sw_store w') = []"
proof -
  let ?sweep = "temporal_sweep_once (sqlite_direct text_cks) expiring 100" and ?w = "new_sweeping first_db :: (string, sqlite_db) sweeping"
  have "drain (\<lambda>l. list_sessions_modified_since text_cks 0 l first_db) 100 = Some (Inr ([persistent first_session], True))"
    using drain.simps [of "\<lambda>l. list_sessions_modified_since text_cks 0 l first_db" 100] by (simp add: first_db_since)
  then obtain w1 where w1: "?sweep 2 ?w = Some (Inr [], w1)" "watermark w1 = 2" "sw_store w1 = first_db"
    by (simp add: temporal_sweep_once_def sweep_once_def sqlite_direct_def new_sweeping_def temporal_visit_def
        expired_diagnostics_def expiring_def bind_err_def located_def escalate_def bindM_def on_store_def retM_def remember_def)
  obtain w' where run: "run_sweeps ?sweep [5, 9] w1 = Some w'"
    unfolding temporal_sweep_once_def using run_sweeps_return [of 100] by fastforce
  have "settled ''s'' (watermark w1) (sw_store w1)"
    by (simp add: w1 settled_def first_db_simps(1) session_row_of_def)
  then have "tasks_of ''s'' (sw_store w') = []"
    using unmodified_never_rechecked [OF run] w1 by (simp add: first_db_ids)
  moreover have "run_sweeps ?sweep [2, 5, 9] ?w = Some w'"
    using w1(1) run by simp
  moreover have "expired_diagnostics expiring 5 (persistent first_session) \<noteq> Inr []"
    by (simp add: expired_diagnostics_def expiring_def bind_err_def)
  ultimately show ?thesis
    by blast
qed

text \<open>A sweep that fails forgets the rest: the watermark has moved before the sessions are
  looked at, so when the visit of one session raises, no later sweep looks at the sessions
  behind it unless they are modified again.\<close>

theorem failed_sweep_forgets:
  assumes "drain (\<lambda>l. list_sessions_modified_since cks (watermark w) l (sw_store w)) batch_size =
      Some (Inr (xs @ s # ys, True))"
    and "sweep_all (contradiction_visit (sqlite_direct cks) se now) xs [] (w\<lparr>watermark := now\<rparr>) = (Inr ps, w2)"
    and "contradiction_visit (sqlite_direct cks) se now s w2 = (Inl e, w3)"
    and "ids_ok (sw_store w)" and "sid \<notin> session_id ` set (xs @ [s])" and "settled sid now (sw_store w)"
    and "run_sweeps (contradiction_sweep_once (sqlite_direct cks) se batch_size) ts w3 = Some w'"
    and "\<forall>t \<in> set ts. now \<le> t"
  shows "contradiction_sweep_once (sqlite_direct cks) se batch_size now w = Some (Inl e, w3) \<and>
    watermark w3 = now \<and> tasks_of sid (sw_store w') = tasks_of sid (sw_store w)"
proof -
  let ?visit = "contradiction_visit (sqlite_direct cks) se now"
  have "sweep_all ?visit (xs @ s # ys) acc v = (Inl e, w3)"
    if "sweep_all ?visit xs acc v = (Inr ps, w2)" for acc v
    using that
  proof (induction xs arbitrary: acc v)
    case Nil
    then show ?case
      using assms(3) by (simp add: retM_def bindM_def)
  next
    case (Cons x xs)
    then show ?case
      by (auto simp: bindM_def split: prod.splits sum.splits)
  qed
  then have run: "contradiction_sweep_once (sqlite_direct cks) se batch_size now w = Some (Inl e, w3)"
    using assms(1,2) by (simp add: contradiction_sweep_once_def sweep_once_def sqlite_direct_def)
  have first: "ids_ok (sw_store w2)" "session_rows (sw_store w2) = session_rows (sw_store w)" "watermark w2 = now"
    "untouched sid (w\<lparr>watermark := now\<rparr>) w2"
    using sweep_all_local [OF sweepers_local(1) assms(2)] assms(4,5) by auto
  have second: "ids_ok (sw_store w3)" "session_rows (sw_store w3) = session_rows (sw_store w)" "watermark w3 = now"
    "untouched sid w2 w3"
    using sweepers_local(1) [unfolded local_visit_def, rule_format, OF assms(3)] first assms(5) by auto
  have rows: "settled sid t (sw_store w3)" if "now \<le> t" for t
    using assms(6) settled_later [of sid now "sw_store w" t] that second(2) by (simp add: settled_def)
  have "untouched sid w3 w'"
    using settled_sweeps [OF sweepers_local(1) assms(7) [unfolded contradiction_sweep_once_def] second(1), of sid]
      rows assms(8) second(3) by simp
  then show ?thesis
    using run first(4) second(3,4) by (simp add: untouched_def)
qed

theorem failed_sweep_forgets_witness:
  "\<exists>w3 w'. contradiction_sweep_once (sqlite_direct text_cks) failing 100 5 (new_sweeping two_db) = Some (Inl OtherException, w3) \<and>
     run_sweeps (contradiction_sweep_once (sqlite_direct text_cks) failing 100) [9] w3 = Some w' \<and>
     contradictions failing 9 (persistent first_session) = Inr [a_contradiction] \<and> tasks_of ''s'' (sw_store w') = []"
proof -
  let ?w = "new_sweeping two_db :: (string \<times> string option, sqlite_db) sweeping"
  let ?w3 = "?w\<lparr>watermark := 5\<rparr>"
  have store: "watermark ?w = 0" "sw_store ?w = two_db"
    by (simp_all add: new_sweeping_def)
  have d: "drain (\<lambda>l. list_sessions_modified_since text_cks (watermark ?w) l (sw_store ?w)) 100 =
      Some (Inr ([] @ bad_session # [persistent first_session], True))"
    unfolding store
    using drain.simps [of "\<lambda>l. list_sessions_modified_since text_cks 0 l two_db" 100] by (simp add: two_db_since)
  have v: "contradiction_visit (sqlite_direct text_cks) failing 5 bad_session ?w3 = (Inl OtherException, ?w3)"
    by (simp add: contradiction_visit_def contradictions_def relevant_diagnostics_def failing_def bad_session_def bind_err_def)
  obtain w' where run: "run_sweeps (contradiction_sweep_once (sqlite_direct text_cks) failing 100) [9] ?w3 = Some w'"
    unfolding contradiction_sweep_once_def using run_sweeps_return [of 100] by fastforce
  have "settled ''s'' 5 two_db"
    by (simp add: settled_def two_db_def first_db_simps(1) session_row_of_def)
  then have "settled ''s'' 5 (sw_store ?w)"
    by (simp add: store)
  then have "contradiction_sweep_once (sqlite_direct text_cks) failing 100 5 ?w = Some (Inl OtherException, ?w3) \<and>
      tasks_of ''s'' (sw_store w') = []"
    using failed_sweep_forgets [OF d _ v _ _ _ run, of "[]" "''s''"]
    by (simp add: retM_def store first_db_ids bad_session_def)
  moreover have "contradictions failing 9 (persistent first_session) = Inr [a_contradiction]"
    by (simp add: contradictions_def relevant_diagnostics_def failing_def bind_err_def persistent_def one_object_def
        a_contradiction_def CONTRADICTION_CONSTRAINTS_def)
  ultimately show ?thesis
    using run by blast
qed

lemma put_each_dropped: "coroutines ss \<Longrightarrow> put_each (\<lambda>p. put_dropped ss ty sid p now) ps st = (Inr (), st)"
  by (induction ps) (simp_all add: put_dropped_def bindM_def retM_def)

text \<open>On an asynchronous storage the temporal sweeper loses what it finds: the call that
  writes the task is not awaited, so a visit leaves the storage as it was, but reports the
  findings and remembers them, and does not report them again.\<close>

theorem coroutine_tasks_lost:
  assumes "coroutines ss" and "expired_diagnostics se now s = Inr ds"
  shows "\<exists>w'. temporal_visit ss se now s w =
      (Inr (map (\<lambda>(l, d). expired_payload s l d) (filter (\<lambda>x. fst x \<notin> known_of w (session_id s)) (located ds))), w') \<and>
    sw_store w' = sw_store w \<and> known_of w' (session_id s) = fst ` set (located ds)"
  using assms(1)
  by (simp add: temporal_visit_def assms(2) escalate_def Let_def bindM_def on_store_def put_each_dropped known_remember)
    (simp add: remember_def)

theorem coroutine_tasks_lost_witness:
  "\<exists>w'. temporal_visit (sync_adapter (sqlite_direct text_cks)) expiring 5 (persistent first_session) (new_sweeping first_db) =
      (Inr [expired_payload (persistent first_session) ''x''
         \<lparr>xd_code = TEMPORAL_VALIDITY_CODE, xd_severity = ''warning'', xd_message = ''expired'', xd_location = Some ''x''\<rparr>], w') \<and>
    sw_store w' = first_db \<and> known_of w' ''s'' = {''x''}"
proof -
  let ?d = "\<lparr>xd_code = TEMPORAL_VALIDITY_CODE, xd_severity = ''warning'', xd_message = ''expired'', xd_location = Some ''x''\<rparr>"
  have "expired_diagnostics expiring 5 (persistent first_session) = Inr [?d]"
    by (simp add: expired_diagnostics_def expiring_def bind_err_def)
  from coroutine_tasks_lost [OF _ this, of "sync_adapter (sqlite_direct text_cks)" "new_sweeping first_db"]
  show ?thesis
    by (simp add: sync_adapter_def located_def new_sweeping_def known_of_def persistent_def)
qed

end
