(* ===== verification/Garbage_Collector.thy ===== *)
theory Garbage_Collector
  imports Session_Sweepers
begin

text \<open>
  The eviction of old closed sessions (\<open>gc/garbage_collector.py\<close>), on the SQLite backend and
  through the adapter a runtime puts around it.
\<close>

section \<open>Sweeps\<close>

record 'st gc_store =
  modified_before :: "time \<Rightarrow> nat \<Rightarrow> 'st \<Rightarrow> exn + session list"
  gc_archive :: "session \<Rightarrow> time \<Rightarrow> ('st, unit) sx"

definition sqlite_gc :: "cks_objects \<Rightarrow> sqlite_db gc_store" where
  "sqlite_gc cks =
     \<lparr>modified_before = list_sessions_modified_before cks,
      gc_archive = (\<lambda>s now db. (Inr (), archive_session (session_id s) now db))\<rparr>"

text \<open>The defaults of the asynchronous interface, which the adapter does not override.\<close>

definition async_list_sessions_modified_before :: "time \<Rightarrow> nat \<Rightarrow> 'st \<Rightarrow> exn + session list" where
  "async_list_sessions_modified_before cutoff limit st = Inr []"

definition async_archive_session :: "session \<Rightarrow> time \<Rightarrow> ('st, unit) sx" where
  "async_archive_session s now = retM ()"

definition adapted_gc :: "'st gc_store \<Rightarrow> 'st gc_store" where
  "adapted_gc wrapped =
     \<lparr>modified_before = async_list_sessions_modified_before, gc_archive = async_archive_session\<rparr>"

fun gc_loop :: "'st gc_store \<Rightarrow> time \<Rightarrow> session list \<Rightarrow> nat \<Rightarrow> ('st, nat) sx" where
  "gc_loop gs now [] archived = retM archived"
| "gc_loop gs now (s # ss) archived =
     (if \<not> closed s then gc_loop gs now ss archived
      else bindM (gc_archive gs s now) (\<lambda>_. gc_loop gs now ss (archived + 1)))"

definition gc_sweep :: "'st gc_store \<Rightarrow> time \<Rightarrow> nat \<Rightarrow> time \<Rightarrow> ('st, nat) sx" where
  "gc_sweep gs retention batch_size now st =
     (case modified_before gs (now - retention) batch_size st of
        Inl e \<Rightarrow> (Inl e, st)
      | Inr found \<Rightarrow> gc_loop gs now found 0 st)"

text \<open>The loop of the worker: a sweep that raises is logged and the next one is tried.\<close>

definition gc_run :: "'st gc_store \<Rightarrow> time \<Rightarrow> nat \<Rightarrow> time list \<Rightarrow> 'st \<Rightarrow> 'st" where
  "gc_run gs retention batch_size ts st = fold (\<lambda>now st. snd (gc_sweep gs retention batch_size now st)) ts st"

section \<open>What one sweep evicts\<close>

text \<open>The rows the query returns.\<close>

definition oldest :: "time \<Rightarrow> nat \<Rightarrow> sqlite_db \<Rightarrow> (string \<times> session_row) list" where
  "oldest cutoff batch_size db =
     take batch_size (sort_key (\<lambda>(_, r). modified_at r) (filter (\<lambda>(_, r). modified_at r < cutoff) (session_rows db)))"

definition evicted :: "time \<Rightarrow> nat \<Rightarrow> sqlite_db \<Rightarrow> string set" where
  "evicted cutoff batch_size db = {k. \<exists>r. (k, r) \<in> set (oldest cutoff batch_size db) \<and> sr_closed r}"

lemma load_session_row:
  assumes "load_session cks sid db = Inr (Some s)"
  shows "\<exists>r. dget (session_rows db) sid = Some r \<and> session_id s = sid \<and> closed s = sr_closed r"
  using assms
  by (auto simp: load_session_def bind_err_def make_session_def fold_add_version split: option.splits sum.splits if_splits)

lemma load_session_some:
  assumes "load_session cks sid db = Inr x" and "dget (session_rows db) sid = Some r"
  shows "x \<noteq> None"
  using assms
  by (auto simp: load_session_def bind_err_def split: option.splits sum.splits)

lemma loaded_rows:
  assumes "load_all cks (map fst rows) db = Inr ss" and "\<forall>(k, r) \<in> set rows. dget (session_rows db) k = Some r"
  shows "map (\<lambda>s. (session_id s, closed s)) ss = map (\<lambda>(k, r). (k, sr_closed r)) rows"
proof -
  have "map_err (\<lambda>sid. load_session cks sid db) (map fst rows) = Inr found \<Longrightarrow>
      map (\<lambda>s. (session_id s, closed s)) (concat (map (case_option [] (\<lambda>s. [s])) found)) = map (\<lambda>(k, r). (k, sr_closed r)) rows"
    for found
    using assms(2)
  proof (induction rows arbitrary: found)
    case (Cons x rows)
    obtain k r where x: "x = (k, r)"
      by (cases x)
    obtain y found' where y: "load_session cks k db = Inr y" "map_err (\<lambda>sid. load_session cks sid db) (map fst rows) = Inr found'"
        "found = y # found'"
      using Cons.prems(1) x by (auto split: sum.splits)
    have row: "dget (session_rows db) k = Some r"
      using Cons.prems(2) x by simp
    obtain s where s: "y = Some s"
      using load_session_some [OF y(1) row] by blast
    then show ?case
      using load_session_row [of cks k db s] y row Cons.IH [OF y(2)] Cons.prems(2) x by auto
  qed simp
  then show ?thesis
    using assms(1) by (auto simp: load_all_def bind_err_def split: sum.splits)
qed

lemma archive_session_rows:
  "session_rows (archive_session sid now db) = filter (\<lambda>(k, _). k \<noteq> sid) (session_rows db)"
  "dget (archive_rows (archive_session sid now db)) k =
     (if k = sid \<and> dget (session_rows db) sid \<noteq> None then Some (the (dget (session_rows db) sid), now)
      else dget (archive_rows db) k)"
  by (auto simp: archive_session_def dpop_def delete_conv' dict_simps AList.delete_eq split: option.splits
      intro!: filter_cong)

lemma gc_loop_rows:
  "\<exists>db'. gc_loop (sqlite_gc cks) now ss n db = (Inr (n + length (filter closed ss)), db') \<and>
     (\<forall>k. dget (session_rows db') k = (if k \<in> session_id ` set (filter closed ss) then None else dget (session_rows db) k)) \<and>
     (\<forall>k. dget (archive_rows db') k =
        (if k \<in> session_id ` set (filter closed ss) \<and> dget (session_rows db) k \<noteq> None
         then Some (the (dget (session_rows db) k), now) else dget (archive_rows db) k)) \<and>
     set (session_rows db') \<subseteq> set (session_rows db) \<and> (dict_ok (session_rows db) \<longrightarrow> dict_ok (session_rows db')) \<and>
     embedding_rows db' = filter (\<lambda>((_, k), _). k \<notin> session_id ` set (filter closed ss)) (embedding_rows db)"
proof (induction ss arbitrary: n db)
  case Nil
  then show ?case
    by (simp add: retM_def)
next
  case (Cons s ss)
  show ?case
  proof (cases "closed s")
    case False
    then show ?thesis
      using Cons.IH [of n db] by simp
  next
    case True
    let ?db1 = "archive_session (session_id s) now db"
    have sub: "set (session_rows ?db1) \<subseteq> set (session_rows db)" "dict_ok (session_rows db) \<Longrightarrow> dict_ok (session_rows ?db1)"
      by (auto simp: archive_session_def dest: set_dpop_subset [THEN subsetD])
    have row: "dget (session_rows ?db1) k = (if k = session_id s then None else dget (session_rows db) k)" for k
      by (simp add: archive_session_def)
    have emb: "embedding_rows ?db1 = filter (\<lambda>((_, k), _). k \<noteq> session_id s) (embedding_rows db)"
      by (simp add: archive_session_def)
    obtain db' where db': "gc_loop (sqlite_gc cks) now ss (n + 1) ?db1 = (Inr (n + 1 + length (filter closed ss)), db')"
      "\<forall>k. dget (session_rows db') k = (if k \<in> session_id ` set (filter closed ss) then None else dget (session_rows ?db1) k)"
      "\<forall>k. dget (archive_rows db') k =
        (if k \<in> session_id ` set (filter closed ss) \<and> dget (session_rows ?db1) k \<noteq> None
         then Some (the (dget (session_rows ?db1) k), now) else dget (archive_rows ?db1) k)"
      "set (session_rows db') \<subseteq> set (session_rows ?db1)" "dict_ok (session_rows ?db1) \<longrightarrow> dict_ok (session_rows db')"
      "embedding_rows db' = filter (\<lambda>((_, k), _). k \<notin> session_id ` set (filter closed ss)) (embedding_rows ?db1)"
      using Cons.IH [of "n + 1" ?db1] by blast
    have "gc_loop (sqlite_gc cks) now (s # ss) n db = (Inr (n + length (filter closed (s # ss))), db')"
      using True db'(1) by (simp add: bindM_def sqlite_gc_def)
    moreover have "embedding_rows db' = filter (\<lambda>((_, k), _). k \<notin> session_id ` set (filter closed (s # ss))) (embedding_rows db)"
      using True unfolding db'(6) emb by (auto simp: intro!: filter_cong)
    ultimately show ?thesis
      using True db'(2-5) sub by (intro exI [of _ db']) (auto simp: row archive_session_rows(2))
  qed
qed

lemma oldest_rows:
  assumes "dict_ok (session_rows db)"
  shows "\<forall>(k, r) \<in> set (oldest cutoff n db). dget (session_rows db) k = Some r \<and> modified_at r < cutoff"
    and "distinct (map fst (oldest cutoff n db))"
proof -
  show "\<forall>(k, r) \<in> set (oldest cutoff n db). dget (session_rows db) k = Some r \<and> modified_at r < cutoff"
    using assms by (auto simp: oldest_def dget_Some_iff dest!: in_set_takeD)
  have "distinct (map fst (filter P (session_rows db)))" for P
    using assms by (simp add: dict_ok_def dkeys_def distinct_map_filter)
  then have "distinct (map fst (sort_key f (filter P (session_rows db))))" for P and f :: "string \<times> session_row \<Rightarrow> nat"
    by (metis (no_types, lifting) distinct_map distinct_sort set_sort)
  then show "distinct (map fst (oldest cutoff n db))"
    by (simp add: oldest_def distinct_take take_map [symmetric])
qed

text \<open>A sweep that returns has evicted the closed ones of the rows the query returns.\<close>

lemma gc_sweep_rows:
  assumes "dict_ok (session_rows db)" and "gc_sweep (sqlite_gc cks) retention n now db = (Inr c, db')"
  shows "dget (session_rows db') sid = (if sid \<in> evicted (now - retention) n db then None else dget (session_rows db) sid)"
    and "dget (archive_rows db') sid =
      (if sid \<in> evicted (now - retention) n db then Some (the (dget (session_rows db) sid), now) else dget (archive_rows db) sid)"
    and "c = card (evicted (now - retention) n db)" and "dict_ok (session_rows db')"
    and "set (session_rows db') \<subseteq> set (session_rows db)"
    and "embedding_rows db' = filter (\<lambda>((_, k), _). k \<notin> evicted (now - retention) n db) (embedding_rows db)"
proof -
  let ?rows = "oldest (now - retention) n db"
  note rows = oldest_rows [OF assms(1), of "now - retention" n]
  obtain ss where ss: "load_all cks (map fst ?rows) db = Inr ss" "gc_loop (sqlite_gc cks) now ss 0 db = (Inr c, db')"
    using assms(2) by (auto simp: gc_sweep_def sqlite_gc_def list_sessions_modified_before_def oldest_def split: sum.splits)
  have l: "map (\<lambda>s. (session_id s, closed s)) ss = map (\<lambda>(k, r). (k, sr_closed r)) ?rows"
    by (rule loaded_rows [OF ss(1)]) (use rows(1) in auto)
  have "session_id ` set (filter closed ss) = {k. (k, True) \<in> set (map (\<lambda>s. (session_id s, closed s)) ss)}"
    by force
  also have "\<dots> = evicted (now - retention) n db"
    unfolding l evicted_def by force
  finally have ids: "session_id ` set (filter closed ss) = evicted (now - retention) n db" .
  have "map fst (filter snd (map (\<lambda>s. (session_id s, closed s)) ss)) = map session_id (filter closed ss)"
    by (simp add: filter_map comp_def)
  moreover have "distinct (map fst (map (\<lambda>(k, r). (k, sr_closed r)) ?rows))"
    using rows(2) by (simp add: comp_def case_prod_unfold)
  ultimately have "distinct (map session_id (filter closed ss))"
    unfolding l [symmetric] by (metis distinct_map_filter)
  then have "card (evicted (now - retention) n db) = length (filter closed ss)"
    unfolding ids [symmetric] by (metis distinct_card length_map set_map)
  moreover have some: "dget (session_rows db) k \<noteq> None" if "k \<in> evicted (now - retention) n db" for k
    using that rows(1) by (auto simp: evicted_def)
  ultimately show "dget (session_rows db') sid = (if sid \<in> evicted (now - retention) n db then None else dget (session_rows db) sid)"
    "dget (archive_rows db') sid =
      (if sid \<in> evicted (now - retention) n db then Some (the (dget (session_rows db) sid), now) else dget (archive_rows db) sid)"
    "c = card (evicted (now - retention) n db)" "dict_ok (session_rows db')" "set (session_rows db') \<subseteq> set (session_rows db)"
    "embedding_rows db' = filter (\<lambda>((_, k), _). k \<notin> evicted (now - retention) n db) (embedding_rows db)"
    using gc_loop_rows [of cks now ss 0 db] ss(2) assms(1) unfolding ids by auto
qed

section \<open>Starvation\<close>

text \<open>The open sessions older than a given time.\<close>

definition older_open :: "time \<Rightarrow> sqlite_db \<Rightarrow> nat" where
  "older_open t db = length (filter (\<lambda>(_, r). \<not> sr_closed r \<and> modified_at r < t) (session_rows db))"

lemma sorted_smaller:
  assumes "sorted (map f ys)" and "i < length ys"
  shows "length (filter (\<lambda>y. f y < f (ys ! i)) ys) \<le> i"
proof -
  have "filter (\<lambda>y. f y < f (ys ! i)) (drop i ys) = []"
    using assms sorted_nth_mono [of "map f ys" i] by (auto simp: filter_empty_conv in_set_conv_nth not_less)
  then have "filter (\<lambda>y. f y < f (ys ! i)) ys = filter (\<lambda>y. f y < f (ys ! i)) (take i ys)"
    by (metis append_Nil2 append_take_drop_id filter_append)
  then show ?thesis
    using length_filter_le [of "\<lambda>y. f y < f (ys ! i)" "take i ys"] assms(2) by simp
qed

lemma beyond_the_page:
  assumes "x \<in> set (take n (sort_key f xs))"
  shows "length (filter (\<lambda>y. f y < f x) xs) < n"
proof -
  obtain i where i: "i < n" "i < length (sort_key f xs)" "x = sort_key f xs ! i"
    using assms by (auto simp: in_set_conv_nth)
  have "length (filter (\<lambda>y. f y < f x) (sort_key f xs)) \<le> i"
    using sorted_smaller [OF sorted_sort_key i(2)] i(3) by simp
  then show ?thesis
    using i(1) by (simp add: filter_sort)
qed

lemma length_filter_mono: "(\<And>x. x \<in> set xs \<Longrightarrow> P x \<Longrightarrow> Q x) \<Longrightarrow> length (filter P xs) \<le> length (filter Q xs)"
  by (induction xs) (auto simp: le_Suc_eq)

lemma not_evicted:
  assumes "dict_ok (session_rows db)" and "dget (session_rows db) sid = Some r" and "n \<le> older_open (modified_at r) db"
  shows "sid \<notin> evicted cutoff n db"
proof
  assume "sid \<in> evicted cutoff n db"
  then have r: "(sid, r) \<in> set (oldest cutoff n db)"
    using oldest_rows(1) [OF assms(1), of cutoff n] assms(2) by (auto simp: evicted_def)
  then have "modified_at r < cutoff"
    using oldest_rows(1) [OF assms(1), of cutoff n] by auto
  then have "older_open (modified_at r) db \<le>
      length (filter (\<lambda>(_, x). modified_at x < modified_at r) (filter (\<lambda>(_, x). modified_at x < cutoff) (session_rows db)))"
    unfolding older_open_def filter_filter by (intro length_filter_mono) auto
  moreover have "length (filter (\<lambda>(_, x). modified_at x < modified_at r) (filter (\<lambda>(_, x). modified_at x < cutoff) (session_rows db))) < n"
    using beyond_the_page [OF r [unfolded oldest_def]] by (simp add: case_prod_unfold)
  ultimately show False
    using assms(3) by simp
qed

lemma distinct_mapI: "distinct (map f xs) \<Longrightarrow> distinct xs"
  by (simp add: distinct_map)

lemma same_length: "distinct xs \<Longrightarrow> distinct ys \<Longrightarrow> set xs = set ys \<Longrightarrow> length xs = length ys"
  by (metis distinct_card)

lemma open_rows_kept:
  assumes "dict_ok (session_rows db)" and "gc_sweep (sqlite_gc cks) retention n now db = (Inr c, db')"
  shows "older_open t db' = older_open t db"
proof -
  let ?P = "\<lambda>(_ :: string, r). \<not> sr_closed r \<and> modified_at r < t"
  note g = gc_sweep_rows [OF assms]
  have "set (filter ?P (session_rows db')) = set (filter ?P (session_rows db))"
  proof
    show "set (filter ?P (session_rows db')) \<subseteq> set (filter ?P (session_rows db))"
      using g(5) by auto
    show "set (filter ?P (session_rows db)) \<subseteq> set (filter ?P (session_rows db'))"
    proof
      fix x
      assume x: "x \<in> set (filter ?P (session_rows db))"
      obtain k r where kr: "x = (k, r)"
        by (cases x)
      then have k: "x = (k, r)" "dget (session_rows db) k = Some r" "\<not> sr_closed r"
        using x assms(1) by (simp_all add: dget_Some_iff)
      have "k \<notin> evicted (now - retention) n db"
        using oldest_rows(1) [OF assms(1), of "now - retention" n] k by (auto simp: evicted_def)
      then have "dget (session_rows db') k = Some r"
        using g(1) [of k] k(2) by simp
      then show "x \<in> set (filter ?P (session_rows db'))"
        using x k(1) g(4) by (auto simp: dget_Some_iff)
    qed
  qed
  moreover have "distinct (filter ?P (session_rows db))" "distinct (filter ?P (session_rows db'))"
    using assms(1) g(4) unfolding dict_ok_def dkeys_def by (auto intro!: distinct_filter dest: distinct_mapI)
  ultimately show ?thesis
    unfolding older_open_def by (intro same_length)
qed

section \<open>Properties\<close>

text \<open>C37: A sweep of the garbage collector on SQLite that returns evicts closed sessions only,
  each untouched for longer than the retention, keeps its row in the archive, removes its
  embeddings, and leaves every other session's row, archive entry and embeddings as they
  were; its count is the number of sessions evicted.\<close>

theorem gc_evicts_old_closed:
  assumes "dict_ok (session_rows db)" and "gc_sweep (sqlite_gc cks) retention batch_size now db = (Inr c, db')"
  shows "\<exists>gone. card gone = c \<and>
    (\<forall>sid. dget (session_rows db') sid = (if sid \<in> gone then None else dget (session_rows db) sid)) \<and>
    (\<forall>sid. sid \<in> gone \<longrightarrow> (\<exists>r. dget (session_rows db) sid = Some r \<and> sr_closed r \<and> modified_at r < now - retention \<and>
       dget (archive_rows db') sid = Some (r, now))) \<and>
    (\<forall>sid. sid \<notin> gone \<longrightarrow> dget (archive_rows db') sid = dget (archive_rows db) sid) \<and>
    embedding_rows db' = filter (\<lambda>((_, sid), _). sid \<notin> gone) (embedding_rows db)"
proof -
  note g = gc_sweep_rows [OF assms]
  let ?gone = "evicted (now - retention) batch_size db"
  have "\<exists>r. dget (session_rows db) sid = Some r \<and> sr_closed r \<and> modified_at r < now - retention \<and>
      dget (archive_rows db') sid = Some (r, now)" if "sid \<in> ?gone" for sid
    using that oldest_rows(1) [OF assms(1), of "now - retention" batch_size] g(2) [of sid] by (auto simp: evicted_def)
  then show ?thesis
    using g(1-3,6) by (intro exI [of _ ?gone]) auto
qed

text \<open>Two sessions of age 1: \<open>s\<close> open and \<open>a\<close> closed; with a batch of one only the first is seen.\<close>

definition closed_session :: session where
  "closed_session = bad_session\<lparr>closed := True\<rparr>"

definition open_first :: sqlite_db where
  "open_first = first_db\<lparr>session_rows := session_rows first_db @ [(''a'', session_row_of text_cks closed_session 2)]\<rparr>"

lemma open_first_rows:
  "dict_ok (session_rows open_first)" "dget (session_rows open_first) ''a'' = Some (session_row_of text_cks closed_session 2)"
  "older_open 2 open_first = 1" "dget (session_rows open_first) ''s'' = Some (session_row_of text_cks first_session 1)"
  by (simp_all add: open_first_def first_db_simps(1) dict_ok_def dkeys_def dict_simps older_open_def session_row_of_def
      first_session_def sample_session_def)

theorem gc_evicts_old_closed_witness:
  "\<exists>db'. gc_sweep (sqlite_gc text_cks) 10 100 50 open_first = (Inr 1, db') \<and>
     dget (session_rows db') ''a'' = None \<and> dget (session_rows db') ''s'' \<noteq> None \<and>
     dget (archive_rows db') ''a'' = Some (session_row_of text_cks closed_session 2, 50)"
proof -
  let ?db = open_first
  have "load_session text_cks ''s'' ?db = load_session text_cks ''s'' first_db"
    by (simp add: load_session_def open_first_def rows_of_session_def first_db_simps(1) dict_simps cong: option.case_cong)
  also have "\<dots> = Inr (Some (persistent first_session))"
    using load_held [of text_cks first_db first_session 1] first_durable(1) first_db_simps(1)
    by (simp add: durable_def dict_simps)
  finally have s: "load_session text_cks ''s'' ?db = Inr (Some (persistent first_session))" .
  obtain row where "version_rows first_db = [(''v0'', row)]" "vr_session_id row = ''s''"
    using first_db_simps(2) by blast
  then have a: "load_session text_cks ''a'' ?db = Inr (Some closed_session)"
    by (simp add: load_session_def open_first_def first_db_simps(1) rows_of_session_def dict_simps session_row_of_def
        parse_text_def text_cks_def closed_session_def bad_session_def make_session_def sample_session_def bind_err_def)
  have "map fst (take 100 (sort_key (\<lambda>(_, r). modified_at r) (filter (\<lambda>(_, r). modified_at r < 40) (session_rows ?db)))) = [''s'', ''a'']"
    by (simp add: open_first_def first_db_simps(1) session_row_of_def)
  then have "list_sessions_modified_before text_cks 40 100 ?db = Inr [persistent first_session, closed_session]"
    by (simp add: list_sessions_modified_before_def load_all_def bind_err_def s a)
  then have "gc_sweep (sqlite_gc text_cks) 10 100 50 ?db = gc_loop (sqlite_gc text_cks) 50 [persistent first_session, closed_session] 0 ?db"
    by (simp add: gc_sweep_def sqlite_gc_def)
  moreover have "filter closed [persistent first_session, closed_session] = [closed_session]"
    by (simp add: persistent_def closed_session_def first_session_def sample_session_def)
  ultimately obtain db' where run: "gc_sweep (sqlite_gc text_cks) 10 100 50 ?db = (Inr 1, db')"
    using gc_loop_rows [of text_cks 50 "[persistent first_session, closed_session]" 0 ?db] by auto
  obtain gone where g: "card gone = 1"
    "\<forall>sid. dget (session_rows db') sid = (if sid \<in> gone then None else dget (session_rows ?db) sid)"
    "\<forall>sid. sid \<in> gone \<longrightarrow> (\<exists>r. dget (session_rows ?db) sid = Some r \<and> sr_closed r \<and> modified_at r < 50 - 10 \<and>
       dget (archive_rows db') sid = Some (r, 50))"
    using gc_evicts_old_closed [OF open_first_rows(1) run] by blast
  have "gone \<subseteq> {''a''}"
    using g(3) open_first_rows(4)
    by (auto simp: open_first_def first_db_simps(1) dict_simps session_row_of_def first_session_def sample_session_def
        split: if_splits)
  then have "gone = {''a''}"
    using g(1) subset_singletonD by fastforce
  then show ?thesis
    using run g(2,3) open_first_rows(2,4) by auto
qed

text \<open>Old open sessions stop the garbage collector: the query returns the oldest sessions,
  open ones included, so while a batch of open sessions is older than a closed one, no number
  of sweeps, at whatever times, evicts it.\<close>

theorem gc_starves:
  assumes "dict_ok (session_rows db)" and "dget (session_rows db) sid = Some r"
    and "batch_size \<le> older_open (modified_at r) db"
  shows "dget (session_rows (gc_run (sqlite_gc cks) retention batch_size ts db)) sid = Some r"
  using assms
proof (induction ts arbitrary: db)
  case (Cons t ts)
  obtain res db1 where s: "gc_sweep (sqlite_gc cks) retention batch_size t db = (res, db1)"
    by fastforce
  have "dict_ok (session_rows db1) \<and> dget (session_rows db1) sid = Some r \<and> older_open (modified_at r) db1 = older_open (modified_at r) db"
  proof (cases res)
    case (Inl e)
    then have "db1 = db"
      using s gc_loop_rows [of cks t] by (auto simp: gc_sweep_def split: sum.splits) (metis Inl_Inr_False prod.inject)
    then show ?thesis
      using Cons.prems by simp
  next
    case (Inr c)
    note g = gc_sweep_rows [OF Cons.prems(1) s [unfolded Inr]]
    show ?thesis
      using g(1) [of sid] g(4) open_rows_kept [OF Cons.prems(1) s [unfolded Inr]] not_evicted [OF Cons.prems] Cons.prems(2) by simp
  qed
  then show ?case
    using Cons.IH [of db1] Cons.prems(3) s by (simp add: gc_run_def)
qed (simp add: gc_run_def)

theorem gc_starves_witness:
  "dget (session_rows (gc_run (sqlite_gc text_cks) 10 1 [50, 60, 70000] open_first)) ''a'' =
     Some (session_row_of text_cks closed_session 2) \<and> sr_closed (session_row_of text_cks closed_session 2)"
  using gc_starves [OF open_first_rows(1,2), of 1 text_cks 10 "[50, 60, 70000]"] open_first_rows(3)
  by (simp add: session_row_of_def closed_session_def)

end
