(* ===== verification/Ip_Address.thy ===== *)
theory Ip_Address
  imports Py_Text Json_Text "HOL-Library.Word"
begin

unbundle bit_operations_syntax

text \<open>
  What the safe fetch (\<open>net/safe_fetch.py\<close>) uses of Python's module \<open>ipaddress\<close>: the two
  parsers behind \<open>ip_address\<close>, membership in a network, the lists of special networks, and
  on top of them \<open>_is_public_ip\<close>.  Addresses are words of 32 and 128 bits.
\<close>

datatype ip = V4 "32 word" | V6 "128 word"

section \<open>Parsing\<close>

definition parse_octet :: "string \<Rightarrow> nat option" where
  "parse_octet s =
     (if s = [] \<or> \<not> list_all is_digit s \<or> 3 < length s \<or> s \<noteq> ''0'' \<and> hd s = CHR ''0'' then None
      else case digits_value False 0 s of None \<Rightarrow> None | Some n \<Rightarrow> if 255 < n then None else Some n)"

fun all_some :: "'a option list \<Rightarrow> 'a list option" where
  "all_some [] = Some []"
| "all_some (None # xs) = None"
| "all_some (Some x # xs) = map_option (\<lambda>ys. x # ys) (all_some xs)"

definition from_digits :: "nat \<Rightarrow> nat list \<Rightarrow> nat" where
  "from_digits base ds = foldl (\<lambda>a d. a * base + d) 0 ds"

definition parse_ipv4 :: "string \<Rightarrow> nat option" where
  "parse_ipv4 s =
     (let octets = split_on (CHR ''.'') s
      in if length octets \<noteq> 4 then None else map_option (from_digits 256) (all_some (map parse_octet octets)))"

definition hex_value :: "char \<Rightarrow> nat option" where
  "hex_value c =
     (if is_digit c then Some (of_char c - 48)
      else if is_alpha c \<and> of_char (lower_char c) \<le> (102 :: nat) then Some (of_char (lower_char c) - 87)
      else None)"

definition parse_hextet :: "string \<Rightarrow> nat option" where
  "parse_hextet s =
     (case all_some (map hex_value s) of
        None \<Rightarrow> None
      | Some ds \<Rightarrow> if 4 < length s \<or> s = [] then None else Some (from_digits 16 ds))"

text \<open>An IPv4 suffix counts as two groups; groups are texts, or numbers when they come from the suffix.\<close>

definition groups :: "string \<Rightarrow> (string + nat) list option" where
  "groups s =
     (let parts = split_on (CHR '':'') s
      in if length parts < 3 then None
         else if CHR ''.'' \<in> set (last parts)
              then map_option (\<lambda>v. map Inl (butlast parts) @ [Inr (v div 65536), Inr (v mod 65536)])
                     (parse_ipv4 (last parts))
              else Some (map Inl parts))"

definition group_value :: "string + nat \<Rightarrow> nat option" where
  "group_value g = (case g of Inl s \<Rightarrow> parse_hextet s | Inr n \<Rightarrow> Some n)"

text \<open>The groups before and after the one empty group that stands for zeros; an empty group at
  either end is allowed only next to it.\<close>

definition parse_ipv6 :: "string \<Rightarrow> nat option" where
  "parse_ipv6 s =
     (case groups s of
        None \<Rightarrow> None
      | Some parts \<Rightarrow>
          if 9 < length parts then None
          else
            case filter (\<lambda>i. parts ! i = Inl []) [1..<length parts - 1] of
              [] \<Rightarrow>
                if length parts \<noteq> 8 then None
                else map_option (from_digits 65536) (all_some (map group_value parts))
            | [skip] \<Rightarrow>
                let hi = take skip parts; lo = drop (skip + 1) parts;
                    hi' = (if hd parts = Inl [] then [] else hi);
                    lo' = (if last parts = Inl [] then [] else lo)
                in if hd parts = Inl [] \<and> length hi \<noteq> 1 \<or> last parts = Inl [] \<and> length lo \<noteq> 1 then None
                   else if 8 \<le> length hi' + length lo' then None
                   else
                     map_option (from_digits 65536)
                       (all_some (map group_value hi' @ replicate (8 - (length hi' + length lo')) (Some 0) @
                                  map group_value lo'))
            | _ \<Rightarrow> None)"

text \<open>A zone after a percent sign is dropped, but must not be empty or contain another one.\<close>

definition ip_address :: "string \<Rightarrow> ip option" where
  "ip_address s =
     (if CHR ''/'' \<in> set s then None
      else
        case parse_ipv4 s of
          Some n \<Rightarrow> Some (V4 (word_of_nat n))
        | None \<Rightarrow>
            if CHR ''%'' \<in> set s \<and> (after (CHR ''%'') s = [] \<or> CHR ''%'' \<in> set (after (CHR ''%'') s)) then None
            else map_option (\<lambda>n. V6 (word_of_nat n)) (parse_ipv6 (before (CHR ''%'') s)))"

section \<open>Networks\<close>

definition ip4 :: "nat \<Rightarrow> nat \<Rightarrow> nat \<Rightarrow> nat \<Rightarrow> 32 word" where
  "ip4 a b c d = word_of_nat (from_digits 256 [a, b, c, d])"

text \<open>The leading groups of an IPv6 address, with zeros after them.\<close>

definition ip6 :: "nat list \<Rightarrow> 128 word" where
  "ip6 gs = word_of_nat (from_digits 65536 (take 8 (gs @ replicate 8 0)))"

definition in_net :: "'a::len word \<Rightarrow> 'a word \<times> nat \<Rightarrow> bool" where
  "in_net x net = (drop_bit (LENGTH('a) - snd net) x = drop_bit (LENGTH('a) - snd net) (fst net))"

definition in_nets :: "'a::len word \<Rightarrow> ('a word \<times> nat) list \<Rightarrow> bool" where
  "in_nets x nets = list_ex (in_net x) nets"

definition PRIVATE4 :: "(32 word \<times> nat) list" where
  "PRIVATE4 =
     [(ip4 0 0 0 0, 8), (ip4 10 0 0 0, 8), (ip4 127 0 0 0, 8), (ip4 169 254 0 0, 16), (ip4 172 16 0 0, 12),
      (ip4 192 0 0 0, 24), (ip4 192 0 0 170, 31), (ip4 192 0 2 0, 24), (ip4 192 168 0 0, 16), (ip4 198 18 0 0, 15),
      (ip4 198 51 100 0, 24), (ip4 203 0 113 0, 24), (ip4 240 0 0 0, 4), (ip4 255 255 255 255, 32)]"

definition PRIVATE4_EXCEPTIONS :: "(32 word \<times> nat) list" where
  "PRIVATE4_EXCEPTIONS = [(ip4 192 0 0 9, 32), (ip4 192 0 0 10, 32)]"

definition PRIVATE6 :: "(128 word \<times> nat) list" where
  "PRIVATE6 =
     [(ip6 [0, 0, 0, 0, 0, 0, 0, 1], 128), (ip6 [], 128), (ip6 [0, 0, 0, 0, 0, 0xFFFF], 96), (ip6 [0x64, 0xFF9B, 1], 48),
      (ip6 [0x100], 64), (ip6 [0x2001], 23), (ip6 [0x2001, 0xDB8], 32), (ip6 [0x2002], 16), (ip6 [0xFC00], 7),
      (ip6 [0xFE80], 10)]"

definition PRIVATE6_EXCEPTIONS :: "(128 word \<times> nat) list" where
  "PRIVATE6_EXCEPTIONS =
     [(ip6 [0x2001, 1, 0, 0, 0, 0, 0, 1], 128), (ip6 [0x2001, 1, 0, 0, 0, 0, 0, 2], 128), (ip6 [0x2001, 3], 32),
      (ip6 [0x2001, 4, 0x112], 48), (ip6 [0x2001, 0x20], 28), (ip6 [0x2001, 0x30], 28)]"

definition RESERVED6 :: "(128 word \<times> nat) list" where
  "RESERVED6 =
     [(ip6 [], 8), (ip6 [0x100], 8), (ip6 [0x200], 7), (ip6 [0x400], 6), (ip6 [0x800], 5), (ip6 [0x1000], 4),
      (ip6 [0x4000], 3), (ip6 [0x6000], 3), (ip6 [0x8000], 3), (ip6 [0xA000], 3), (ip6 [0xC000], 3),
      (ip6 [0xE000], 4), (ip6 [0xF000], 5), (ip6 [0xF800], 6), (ip6 [0xFE00], 9)]"

definition ipv4_mapped :: "128 word \<Rightarrow> 32 word option" where
  "ipv4_mapped x = (if drop_bit 32 x = 0xFFFF then Some (ucast x) else None)"

definition is_private4 :: "32 word \<Rightarrow> bool" where
  "is_private4 x = (in_nets x PRIVATE4 \<and> \<not> in_nets x PRIVATE4_EXCEPTIONS)"

text \<open>Loopback, link-local, multicast, reserved, or unspecified.\<close>

definition is_special4 :: "32 word \<Rightarrow> bool" where
  "is_special4 x =
     (in_net x (ip4 127 0 0 0, 8) \<or> in_net x (ip4 169 254 0 0, 16) \<or> in_net x (ip4 224 0 0 0, 4) \<or>
      in_net x (ip4 240 0 0 0, 4) \<or> x = 0)"

definition is_private6 :: "128 word \<Rightarrow> bool" where
  "is_private6 x =
     (case ipv4_mapped x of
        Some y \<Rightarrow> is_private4 y
      | None \<Rightarrow> in_nets x PRIVATE6 \<and> \<not> in_nets x PRIVATE6_EXCEPTIONS)"

text \<open>Releases of Python differ: since 3.13 (and late releases of 3.12) these properties of a
  mapped address are the ones of the IPv4 address; \<open>mapped\<close> says whether they are.\<close>

definition is_special6 :: "bool \<Rightarrow> 128 word \<Rightarrow> bool" where
  "is_special6 mapped x =
     (case if mapped then ipv4_mapped x else None of
        Some y \<Rightarrow> is_special4 y
      | None \<Rightarrow>
          x = 1 \<or> in_net x (ip6 [0xFE80], 10) \<or> in_net x (ip6 [0xFF00], 8) \<or> in_nets x RESERVED6 \<or> x = 0)"

section \<open>Public addresses\<close>

definition EXTRA_BLOCKED_NETWORKS :: "(32 word \<times> nat) list" where
  "EXTRA_BLOCKED_NETWORKS = [(ip4 100 64 0 0, 10), (ip4 192 0 0 0, 24)]"

text \<open>An IPv6 address is in no IPv4 network.\<close>

definition is_public :: "bool \<Rightarrow> ip \<Rightarrow> bool" where
  "is_public mapped a =
     (case a of
        V4 x \<Rightarrow> \<not> in_nets x EXTRA_BLOCKED_NETWORKS \<and> \<not> (is_private4 x \<or> is_special4 x)
      | V6 x \<Rightarrow> \<not> (is_private6 x \<or> is_special6 mapped x))"

definition is_public_ip :: "bool \<Rightarrow> string \<Rightarrow> bool" where
  "is_public_ip mapped s = (case ip_address s of None \<Rightarrow> False | Some a \<Rightarrow> is_public mapped a)"

section \<open>Networks are intervals\<close>

lemma in_net_div:
  fixes x :: "'a::len word"
  shows "in_net x (b, n) \<longleftrightarrow> unat x div 2 ^ (LENGTH('a) - n) = unat b div 2 ^ (LENGTH('a) - n)"
  unfolding in_net_def word_unat_eq_iff unat_drop_bit_eq by (simp add: drop_bit_eq_div)

lemma div_interval: "0 < k \<Longrightarrow> (x :: nat) div k = q \<longleftrightarrow> q * k \<le> x \<and> x < (q + 1) * k"
  by (auto simp: div_nat_eqI mult.commute dest: times_div_less_eq_dividend [THEN order_trans] intro: dividend_less_times_div)

lemma in_net4:
  assumes "n \<le> 32"
  shows "in_net (x :: 32 word) (b, n) \<longleftrightarrow>
    unat b div 2 ^ (32 - n) * 2 ^ (32 - n) \<le> unat x \<and> unat x < (unat b div 2 ^ (32 - n) + 1) * 2 ^ (32 - n)"
  using div_interval [of "2 ^ (32 - n)" "unat x" "unat b div 2 ^ (32 - n)"] by (simp add: in_net_div)

lemma unat_ip4: "from_digits 256 [a, b, c, d] < 2 ^ 32 \<Longrightarrow> unat (ip4 a b c d) = from_digits 256 [a, b, c, d]"
  by (simp add: ip4_def unat_of_nat take_bit_nat_eq_self_iff take_bit_nat_def)

lemma unat_less: "unat (x :: 32 word) \<le> 4294967295"
proof -
  have "unat x < 2 ^ 32"
    using unsigned_less [of x] by simp
  then show ?thesis
    by simp
qed

text \<open>The block of a network of a known address.\<close>

lemma in_net4_range:
  assumes "b = from_digits 256 [p, q, r, s]" and "b < 2 ^ 32" and "n \<le> 32"
    and "lo = b div 2 ^ (32 - n) * 2 ^ (32 - n)" and "hi = lo + 2 ^ (32 - n) - 1"
  shows "in_net x (ip4 p q r s, n) \<longleftrightarrow> lo \<le> unat x \<and> unat x \<le> hi"
proof -
  have "in_net x (ip4 p q r s, n) \<longleftrightarrow> lo \<le> unat x \<and> unat x < lo + 2 ^ (32 - n)"
    using in_net4 [OF assms(3), of x "ip4 p q r s"] unat_ip4 [of p q r s] assms(1,2,4) by (simp add: add.commute)
  then show ?thesis
    using assms(5) by (auto simp: less_Suc_eq_le [symmetric])
qed

lemmas range4 = in_net4_range [OF refl _ _ refl refl]

lemma net4_ranges:
  "in_net x (ip4 0 0 0 0, 8) \<longleftrightarrow> unat x \<le> 16777215"
  "in_net x (ip4 10 0 0 0, 8) \<longleftrightarrow> 167772160 \<le> unat x \<and> unat x \<le> 184549375"
  "in_net x (ip4 100 64 0 0, 10) \<longleftrightarrow> 1681915904 \<le> unat x \<and> unat x \<le> 1686110207"
  "in_net x (ip4 127 0 0 0, 8) \<longleftrightarrow> 2130706432 \<le> unat x \<and> unat x \<le> 2147483647"
  "in_net x (ip4 169 254 0 0, 16) \<longleftrightarrow> 2851995648 \<le> unat x \<and> unat x \<le> 2852061183"
  "in_net x (ip4 172 16 0 0, 12) \<longleftrightarrow> 2886729728 \<le> unat x \<and> unat x \<le> 2887778303"
  "in_net x (ip4 192 0 0 0, 24) \<longleftrightarrow> 3221225472 \<le> unat x \<and> unat x \<le> 3221225727"
  "in_net x (ip4 192 0 0 170, 31) \<longleftrightarrow> 3221225642 \<le> unat x \<and> unat x \<le> 3221225643"
  "in_net x (ip4 192 0 0 9, 32) \<longleftrightarrow> unat x = 3221225481"
  "in_net x (ip4 192 0 0 10, 32) \<longleftrightarrow> unat x = 3221225482"
  "in_net x (ip4 192 0 2 0, 24) \<longleftrightarrow> 3221225984 \<le> unat x \<and> unat x \<le> 3221226239"
  "in_net x (ip4 192 168 0 0, 16) \<longleftrightarrow> 3232235520 \<le> unat x \<and> unat x \<le> 3232301055"
  "in_net x (ip4 198 18 0 0, 15) \<longleftrightarrow> 3323068416 \<le> unat x \<and> unat x \<le> 3323199487"
  "in_net x (ip4 198 51 100 0, 24) \<longleftrightarrow> 3325256704 \<le> unat x \<and> unat x \<le> 3325256959"
  "in_net x (ip4 203 0 113 0, 24) \<longleftrightarrow> 3405803776 \<le> unat x \<and> unat x \<le> 3405804031"
  "in_net x (ip4 224 0 0 0, 4) \<longleftrightarrow> 3758096384 \<le> unat x \<and> unat x \<le> 4026531839"
  "in_net x (ip4 240 0 0 0, 4) \<longleftrightarrow> 4026531840 \<le> unat x"
  "in_net x (ip4 255 255 255 255, 32) \<longleftrightarrow> unat x = 4294967295"
  using unat_less [of x] by (auto simp: range4 from_digits_def)

definition BLOCKED4 :: "((nat \<times> nat \<times> nat \<times> nat) \<times> nat \<times> nat \<times> nat \<times> nat) list" where
  "BLOCKED4 =
     [((0, 0, 0, 0), 0, 255, 255, 255), ((10, 0, 0, 0), 10, 255, 255, 255), ((100, 64, 0, 0), 100, 127, 255, 255),
      ((127, 0, 0, 0), 127, 255, 255, 255), ((169, 254, 0, 0), 169, 254, 255, 255), ((172, 16, 0, 0), 172, 31, 255, 255),
      ((192, 0, 0, 0), 192, 0, 0, 255), ((192, 0, 2, 0), 192, 0, 2, 255), ((192, 168, 0, 0), 192, 168, 255, 255),
      ((198, 18, 0, 0), 198, 19, 255, 255), ((198, 51, 100, 0), 198, 51, 100, 255), ((203, 0, 113, 0), 203, 0, 113, 255),
      ((224, 0, 0, 0), 255, 255, 255, 255)]"

definition quad :: "nat \<times> nat \<times> nat \<times> nat \<Rightarrow> nat" where
  "quad = (\<lambda>(a, b, c, d). from_digits 256 [a, b, c, d])"

lemma private4_ranges:
  "is_private4 x \<or> in_nets x EXTRA_BLOCKED_NETWORKS \<or> is_special4 x \<longleftrightarrow>
     in_nets x PRIVATE4 \<or> in_net x (ip4 100 64 0 0, 10) \<or> in_net x (ip4 224 0 0 0, 4)"
proof -
  have "in_nets x PRIVATE4_EXCEPTIONS \<Longrightarrow> in_net x (ip4 192 0 0 0, 24)"
    by (auto simp: in_nets_def PRIVATE4_EXCEPTIONS_def net4_ranges)
  moreover have "x = 0 \<Longrightarrow> in_net x (ip4 0 0 0 0, 8)"
    by (simp add: net4_ranges)
  ultimately show ?thesis
    unfolding is_private4_def is_special4_def in_nets_def EXTRA_BLOCKED_NETWORKS_def PRIVATE4_def by auto
qed

lemma is_public4:
  "is_public mapped (V4 x) \<longleftrightarrow> \<not> (in_nets x PRIVATE4 \<or> in_net x (ip4 100 64 0 0, 10) \<or> in_net x (ip4 224 0 0 0, 4))"
  using private4_ranges [of x] by (auto simp: is_public_def)

text \<open>C21: On IPv4 the test for public addresses is exact: it refuses the blocks 0/8, 10/8,
  100.64/10, 127/8, 169.254/16, 172.16/12, 192.0.0/24, 192.0.2/24, 192.168/16, 198.18/15,
  198.51.100/24, 203.0.113/24 and everything from 224.0.0.0 on, written as the intervals of
  their addresses, and nothing else.\<close>

theorem public_ipv4_exact:
  "is_public mapped (V4 x) \<longleftrightarrow> list_all (\<lambda>(lo, hi). unat x \<notin> {quad lo..quad hi}) BLOCKED4"
proof -
  note is_public4 [of mapped x]
  also have "in_nets x PRIVATE4 \<longleftrightarrow> in_nets x (filter (\<lambda>(b, n). n < 31) PRIVATE4)"
    using net4_ranges(7,8,17,18) [of x] by (auto simp: in_nets_def PRIVATE4_def)
  finally have "is_public mapped (V4 x) \<longleftrightarrow>
      \<not> (in_nets x (filter (\<lambda>(b, n). 4 < n \<and> n < 31) PRIVATE4) \<or> in_net x (ip4 100 64 0 0, 10) \<or> 3758096384 \<le> unat x)"
    using net4_ranges(16,17) [of x] by (auto simp: in_nets_def PRIVATE4_def)
  then show ?thesis
    using unat_less [of x] by (simp add: in_nets_def PRIVATE4_def BLOCKED4_def net4_ranges quad_def from_digits_def) blast
qed

text \<open>The IPv6 form of an IPv4 address.\<close>

definition mapped_form :: "32 word \<Rightarrow> 128 word" where
  "mapped_form x = push_bit 32 0xFFFF OR ucast x"

lemma ipv4_mapped_form: "ipv4_mapped (mapped_form x) = Some x"
proof -
  have "drop_bit 32 (mapped_form x) = 0xFFFF"
    by (rule bit_word_eqI) (auto simp: mapped_form_def bit_simps dest: bit_imp_le_length)
  moreover have "ucast (push_bit 32 c OR ucast x) = x" for c :: "128 word"
    by (rule bit_word_eqI) (auto simp: bit_simps dest: bit_imp_le_length)
  then have "ucast (mapped_form x) = x"
    unfolding mapped_form_def .
  ultimately show ?thesis
    by (simp add: ipv4_mapped_def)
qed

text \<open>The extra blocks are not applied to IPv4 addresses written as IPv6 addresses: on a
  Python that reads the properties of the mapped address, the IPv6 form of an address is
  public exactly if the IPv4 form is, or it lies in 100.64/10, or is one of the two
  exceptions in 192.0.0/24.\<close>

theorem mapped_form_evades_blocks:
  "is_public True (V6 (mapped_form x)) \<longleftrightarrow>
     is_public True (V4 x) \<or> unat x \<in> {quad (100, 64, 0, 0)..quad (100, 127, 255, 255)} \<or>
     unat x \<in> {quad (192, 0, 0, 9), quad (192, 0, 0, 10)}"
proof -
  have exc: "in_nets x PRIVATE4_EXCEPTIONS \<longleftrightarrow> unat x \<in> {quad (192, 0, 0, 9), quad (192, 0, 0, 10)}"
    by (auto simp: in_nets_def PRIVATE4_EXCEPTIONS_def net4_ranges quad_def from_digits_def)
  have nat: "in_net x (ip4 100 64 0 0, 10) \<longleftrightarrow> unat x \<in> {quad (100, 64, 0, 0)..quad (100, 127, 255, 255)}"
    by (auto simp: net4_ranges quad_def from_digits_def)
  have not_special: "\<not> is_special4 x" if "in_net x (ip4 100 64 0 0, 10) \<or> in_nets x PRIVATE4_EXCEPTIONS"
    using that unfolding exc nat by (auto simp: is_special4_def net4_ranges quad_def from_digits_def)
  have not_private: "\<not> is_private4 x" if "in_net x (ip4 100 64 0 0, 10)"
    using that by (auto simp: is_private4_def in_nets_def PRIVATE4_def net4_ranges)
  have block: "in_net x (ip4 192 0 0 0, 24) \<Longrightarrow> is_private4 x \<or> in_nets x PRIVATE4_EXCEPTIONS"
    by (auto simp: is_private4_def in_nets_def PRIVATE4_def)
  have "is_public True (V6 (mapped_form x)) \<longleftrightarrow> \<not> (is_private4 x \<or> is_special4 x)"
    by (simp add: is_public_def is_private6_def is_special6_def ipv4_mapped_form)
  moreover have "is_public True (V4 x) \<longleftrightarrow>
      \<not> (in_net x (ip4 100 64 0 0, 10) \<or> in_net x (ip4 192 0 0 0, 24) \<or> is_private4 x \<or> is_special4 x)"
    by (auto simp: is_public_def in_nets_def EXTRA_BLOCKED_NETWORKS_def)
  ultimately show ?thesis
    unfolding exc [symmetric] nat [symmetric] using not_special not_private block is_private4_def [of x] by blast
qed

end
