(* ===== verification/Url.thy ===== *)
theory Url
  imports Ip_Address
begin

text \<open>
  What the safe fetch and the update sweeper use of Python's \<open>urllib.parse\<close>: \<open>urlsplit\<close> and the
  property \<open>hostname\<close>.  The check of non-ASCII host names after Unicode normalisation is a
  parameter, a predicate on the network location.
\<close>

record url_parts =
  up_scheme :: string
  up_netloc :: string
  up_path :: string
  up_query :: string
  up_fragment :: string

definition is_scheme_char :: "char \<Rightarrow> bool" where
  "is_scheme_char c = (is_alpha c \<or> is_digit c \<or> c \<in> set ''+-.'')"

definition split_scheme :: "string \<Rightarrow> string \<times> string" where
  "split_scheme url =
     (let s = before (CHR '':'') url
      in if CHR '':'' \<in> set url \<and> s \<noteq> [] \<and> is_alpha (hd s) \<and> list_all is_scheme_char s
         then (lower s, after (CHR '':'') url)
         else ([], url))"

definition ends_netloc :: "char \<Rightarrow> bool" where
  "ends_netloc c = (c \<in> set ''/?#'')"

definition split_netloc :: "string \<Rightarrow> string \<times> string" where
  "split_netloc url =
     (if is_prefix ''//'' url
      then (takeWhile (\<lambda>c. \<not> ends_netloc c) (drop 2 url), dropWhile (\<lambda>c. \<not> ends_netloc c) (drop 2 url))
      else ([], url))"

text \<open>Brackets must enclose an IPv6 address, or \<open>v\<close>, hexadecimal digits, a dot and some text.\<close>

definition bracketed_host_ok :: "string \<Rightarrow> bool" where
  "bracketed_host_ok h =
     (if h \<noteq> [] \<and> hd h = CHR ''v''
      then CHR ''.'' \<in> set h \<and> before (CHR ''.'') (tl h) \<noteq> [] \<and>
           list_all (\<lambda>c. hex_value c \<noteq> None) (before (CHR ''.'') (tl h)) \<and> after (CHR ''.'') h \<noteq> []
      else case ip_address h of Some (V6 _) \<Rightarrow> True | _ \<Rightarrow> False)"

definition brackets_ok :: "string \<Rightarrow> bool" where
  "brackets_ok netloc =
     (if CHR ''['' \<in> set netloc \<and> CHR '']'' \<in> set netloc
      then bracketed_host_ok (before (CHR '']'') (after (CHR ''['') netloc))
      else CHR ''['' \<notin> set netloc \<and> CHR '']'' \<notin> set netloc)"

definition urlsplit :: "(string \<Rightarrow> bool) \<Rightarrow> string \<Rightarrow> exn + url_parts" where
  "urlsplit normal_ok raw =
     (let url = filter (\<lambda>c. of_char c \<notin> {9, 10, 13 :: nat}) (dropWhile (\<lambda>c. of_char c \<le> (32 :: nat)) raw);
          (scheme, url) = split_scheme url;
          (netloc, url) = split_netloc url
      in if \<not> brackets_ok netloc \<or> \<not> normal_ok netloc then Inl ValueError
         else
           let fragment = after (CHR ''#'') url; url = before (CHR ''#'') url;
               query = after (CHR ''?'') url; path = before (CHR ''?'') url
           in Inr \<lparr>up_scheme = scheme, up_netloc = netloc, up_path = path, up_query = query, up_fragment = fragment\<rparr>)"

text \<open>The zone of an IPv6 address keeps its case.\<close>

definition hostname :: "url_parts \<Rightarrow> string option" where
  "hostname p =
     (let hostinfo = after_last (CHR ''@'') (up_netloc p);
          host = (if CHR ''['' \<in> set hostinfo then before (CHR '']'') (after (CHR ''['') hostinfo)
                  else before (CHR '':'') hostinfo)
      in if host = [] then None
         else Some (lower (before (CHR ''%'') host) @ dropWhile (\<lambda>c. c \<noteq> CHR ''%'') host))"

end
