(* ===== verification/Safe_Fetch.thy ===== *)
theory Safe_Fetch
  imports Url
begin

text \<open>
  The fetch that refuses private addresses (\<open>net/safe_fetch.py\<close>).  Its first part is the
  function \<open>safe_get\<close> of one thread; its second part is \<open>pin_dns\<close>, which replaces
  \<open>socket.getaddrinfo\<close> for the whole process while each thread has overrides of its own, as
  steps of threads that may interleave.  The resolver and the package \<open>requests\<close> are
  parameters that may answer every call differently.
\<close>

section \<open>The environment\<close>

record response =
  status_code :: int
  is_redirect :: bool
  location :: "string option"
  response_text :: string

datatype lookup_result =
    Resolved "(bool \<times> string) list"
  | GaiError
  | UnicodeError

text \<open>
  \<open>lookup n host\<close> is what the \<open>n\<close>-th call of the original \<open>getaddrinfo\<close> returns, each address
  with the flag whether its family is \<open>AF_INET\<close>.  \<open>dial_name url\<close> is the name \<open>requests\<close> asks
  to resolve for a URL; \<open>attempt n url as\<close> is what it does with the addresses \<open>as\<close>: the ones it
  connects to, and the response, \<open>None\<close> for a \<open>RequestException\<close>, or another exception.
\<close>

record fetch_env =
  normal_ok :: "string \<Rightarrow> bool"
  mapped_properties :: bool
  lookup :: "nat \<Rightarrow> string \<Rightarrow> lookup_result"
  dial_name :: "string \<Rightarrow> string"
  attempt :: "nat \<Rightarrow> string \<Rightarrow> string list \<Rightarrow> string list \<times> (exn + response option)"
  urljoin :: "string \<Rightarrow> string \<Rightarrow> exn + string"

record net =
  queries :: nat
  requests :: nat
  dialed :: "string list"

definition orig_getaddrinfo :: "fetch_env \<Rightarrow> string \<Rightarrow> net \<Rightarrow> lookup_result \<times> net" where
  "orig_getaddrinfo fe host n = (lookup fe (queries n) host, n\<lparr>queries := Suc (queries n)\<rparr>)"

definition patched_getaddrinfo :: "fetch_env \<Rightarrow> (string, string) dict \<Rightarrow> string \<Rightarrow> net \<Rightarrow> lookup_result \<times> net" where
  "patched_getaddrinfo fe overrides host = orig_getaddrinfo fe (dget_or overrides host host)"

text \<open>A failed lookup is a \<open>RequestException\<close>.\<close>

definition session_get :: "fetch_env \<Rightarrow> (string, string) dict \<Rightarrow> string \<Rightarrow> (net, response option) sx" where
  "session_get fe overrides url n =
     (case patched_getaddrinfo fe overrides (dial_name fe url) n of
        (Resolved as, n') \<Rightarrow>
          (case attempt fe (requests n') url (map snd as) of
             (ds, r) \<Rightarrow> (r, n'\<lparr>requests := Suc (requests n'), dialed := dialed n' @ ds\<rparr>))
      | (_, n') \<Rightarrow> (Inr None, n'))"

section \<open>Validation of a URL\<close>

definition ALLOWED_SCHEMES :: "string set" where
  "ALLOWED_SCHEMES = {''http'', ''https''}"

fun collect_ips :: "(bool \<times> string) list \<Rightarrow> string set \<Rightarrow> string list \<Rightarrow> string list \<Rightarrow> string list" where
  "collect_ips [] seen ipv4 ipv6 = ipv4 @ ipv6"
| "collect_ips ((inet, ip) # xs) seen ipv4 ipv6 =
     (if ip \<in> seen then collect_ips xs seen ipv4 ipv6
      else if inet then collect_ips xs (insert ip seen) (ipv4 @ [ip]) ipv6
      else collect_ips xs (insert ip seen) ipv4 (ipv6 @ [ip]))"

definition resolve_and_validate_host :: "fetch_env \<Rightarrow> string \<Rightarrow> (net, string \<times> string list) sx" where
  "resolve_and_validate_host fe url n =
     (case urlsplit (normal_ok fe) url of
        Inl e \<Rightarrow> (Inl e, n)
      | Inr parsed \<Rightarrow>
          if up_scheme parsed \<notin> ALLOWED_SCHEMES then (Inl UnsafeURLError, n)
          else
            case hostname parsed of
              None \<Rightarrow> (Inl UnsafeURLError, n)
            | Some h \<Rightarrow>
                (case orig_getaddrinfo fe h n of
                   (GaiError, n') \<Rightarrow> (Inl UnsafeURLError, n')
                 | (UnicodeError, n') \<Rightarrow> (Inl ValueError, n')
                 | (Resolved addrinfo, n') \<Rightarrow>
                     let ips = collect_ips addrinfo {} [] []
                     in if ips = [] \<or> \<not> list_all (is_public_ip (mapped_properties fe)) ips then (Inl UnsafeURLError, n')
                        else (Inr (h, ips), n')))"

section \<open>The fetch\<close>

definition MAX_REDIRECTS :: nat where
  "MAX_REDIRECTS = 3"

fun try_ips :: "fetch_env \<Rightarrow> string \<Rightarrow> string \<Rightarrow> string list \<Rightarrow> (net, response option) sx" where
  "try_ips fe url h [] = retM None"
| "try_ips fe url h (ip # ips) =
     bindM (session_get fe [(h, ip)] url) (\<lambda>r. case r of Some resp \<Rightarrow> retM (Some resp) | None \<Rightarrow> try_ips fe url h ips)"

fun follow :: "fetch_env \<Rightarrow> nat \<Rightarrow> string \<Rightarrow> string \<Rightarrow> string list \<Rightarrow> (net, response option) sx" where
  "follow fe 0 url h ips = retM None"
| "follow fe (Suc rounds) url h ips =
     bindM (try_ips fe url h ips) (\<lambda>r.
       case r of
         None \<Rightarrow> retM None
       | Some resp \<Rightarrow>
           (case if is_redirect resp then opt_or (location resp) [] else [] of
              [] \<Rightarrow> retM (Some resp)
            | c # cs \<Rightarrow>
                (case urljoin fe url (c # cs) of
                   Inl e \<Rightarrow> raiseM e
                 | Inr new_url \<Rightarrow>
                     (\<lambda>n. case resolve_and_validate_host fe new_url n of
                            (Inl UnsafeURLError, n') \<Rightarrow> (Inr None, n')
                          | (Inl e, n') \<Rightarrow> (Inl e, n')
                          | (Inr (h', ips'), n') \<Rightarrow> follow fe rounds new_url h' ips' n'))))"

definition safe_get :: "fetch_env \<Rightarrow> string \<Rightarrow> (net, response option) sx" where
  "safe_get fe url = bindM (resolve_and_validate_host fe url) (\<lambda>(h, ips). follow fe (MAX_REDIRECTS + 1) url h ips)"

section \<open>Pinning by several threads\<close>

text \<open>
  A pin is the host, its address, and the address that was pinned before.  A thread is between
  statements of \<open>pin_dns\<close> when it has set an override and not yet counted itself, or has
  uncounted itself and not yet restored the override; the sections under the lock are single
  steps.
\<close>

type_synonym pin = "string \<times> string \<times> string option"

datatype phase = Ready | Entering pin | Exiting pin

record pins =
  dns_overrides :: "nat \<Rightarrow> (string, string) dict"
  frames :: "nat \<Rightarrow> pin list"
  phase_of :: "nat \<Rightarrow> phase"
  active_patches :: nat
  patched :: bool

definition no_pins :: pins where
  "no_pins = \<lparr>dns_overrides = (\<lambda>_. []), frames = (\<lambda>_. []), phase_of = (\<lambda>_. Ready), active_patches = 0, patched = False\<rparr>"

definition set_override :: "nat \<Rightarrow> string \<Rightarrow> string \<Rightarrow> pins \<Rightarrow> pins" where
  "set_override t h ip s =
     s\<lparr>phase_of := (phase_of s)(t := Entering (h, ip, dget (dns_overrides s t) h)),
       dns_overrides := (dns_overrides s)(t := dset (dns_overrides s t) h ip)\<rparr>"

definition count_in :: "nat \<Rightarrow> pin \<Rightarrow> pins \<Rightarrow> pins" where
  "count_in t p s =
     s\<lparr>active_patches := active_patches s + 1, patched := (if active_patches s + 1 = 1 then True else patched s),
       frames := (frames s)(t := p # frames s t), phase_of := (phase_of s)(t := Ready)\<rparr>"

definition count_out :: "nat \<Rightarrow> pins \<Rightarrow> pins" where
  "count_out t s =
     s\<lparr>active_patches := active_patches s - 1, patched := (if active_patches s - 1 = 0 then False else patched s),
       frames := (frames s)(t := tl (frames s t)), phase_of := (phase_of s)(t := Exiting (hd (frames s t)))\<rparr>"

definition restore_override :: "nat \<Rightarrow> pin \<Rightarrow> pins \<Rightarrow> pins" where
  "restore_override t p s =
     (case p of (h, _, old_ip) \<Rightarrow>
        s\<lparr>dns_overrides := (dns_overrides s)(t :=
            (case old_ip of None \<Rightarrow> dpop (dns_overrides s t) h | Some ip \<Rightarrow> dset (dns_overrides s t) h ip)),
          phase_of := (phase_of s)(t := Ready)\<rparr>)"

inductive pin_step :: "nat set \<Rightarrow> pins \<Rightarrow> pins \<Rightarrow> bool" for T where
  enter: "t \<in> T \<Longrightarrow> phase_of s t = Ready \<Longrightarrow> pin_step T s (set_override t h ip s)"
| counted: "t \<in> T \<Longrightarrow> phase_of s t = Entering p \<Longrightarrow> pin_step T s (count_in t p s)"
| leave: "t \<in> T \<Longrightarrow> phase_of s t = Ready \<Longrightarrow> frames s t \<noteq> [] \<Longrightarrow> pin_step T s (count_out t s)"
| restored: "t \<in> T \<Longrightarrow> phase_of s t = Exiting p \<Longrightarrow> pin_step T s (restore_override t p s)"

text \<open>The name a thread's call of \<open>socket.getaddrinfo\<close> really looks up.\<close>

definition looked_up :: "pins \<Rightarrow> nat \<Rightarrow> string \<Rightarrow> string" where
  "looked_up s t host = (if patched s then dget_or (dns_overrides s t) host host else host)"

section \<open>Only public addresses are dialled\<close>

text \<open>What is relied on of the third-party code: it resolves the name that \<open>urlsplit\<close> calls the
  host name, connects to addresses it was given, and a numeric address resolves to itself.\<close>

definition client_ok :: "fetch_env \<Rightarrow> bool" where
  "client_ok fe \<longleftrightarrow>
     (\<forall>n url as. set (fst (attempt fe n url as)) \<subseteq> set as) \<and>
     (\<forall>n ip xs. ip_address ip \<noteq> None \<longrightarrow> lookup fe n ip = Resolved xs \<longrightarrow> (\<forall>x \<in> set xs. ip_address (snd x) = ip_address ip))"

definition names_agree :: "fetch_env \<Rightarrow> bool" where
  "names_agree fe \<longleftrightarrow>
     (\<forall>url p h. urlsplit (normal_ok fe) url = Inr p \<longrightarrow> hostname p = Some h \<longrightarrow> dial_name fe url = h)"

definition public_dials :: "fetch_env \<Rightarrow> net \<Rightarrow> net \<Rightarrow> bool" where
  "public_dials fe n n' \<longleftrightarrow>
     (\<exists>ds. dialed n' = dialed n @ ds \<and> list_all (is_public_ip (mapped_properties fe)) ds)"

lemma public_dials_refl [simp]: "public_dials fe n n"
  by (simp add: public_dials_def)

lemma public_dials_trans: "public_dials fe n n1 \<Longrightarrow> public_dials fe n1 n2 \<Longrightarrow> public_dials fe n n2"
  by (auto simp: public_dials_def)

lemma public_ip_parses: "is_public_ip m ip \<Longrightarrow> ip_address ip \<noteq> None"
  by (auto simp: is_public_ip_def split: option.splits)

lemma session_get_public:
  assumes "client_ok fe" and "dial_name fe url = h" and "is_public_ip (mapped_properties fe) ip"
    and "session_get fe [(h, ip)] url n = (r, n')"
  shows "public_dials fe n n'"
proof (cases "lookup fe (queries n) ip")
  case (Resolved xs)
  obtain ds r' where a: "attempt fe (requests n) url (map snd xs) = (ds, r')"
    by fastforce
  have n': "n' = n\<lparr>queries := Suc (queries n), requests := Suc (requests n), dialed := dialed n @ ds\<rparr>"
    using assms(2,4) Resolved a
    by (simp add: session_get_def patched_getaddrinfo_def orig_getaddrinfo_def dget_or_def dict_simps)
  have "\<forall>x \<in> set xs. ip_address (snd x) = ip_address ip"
    using assms(1) public_ip_parses [OF assms(3)] Resolved unfolding client_ok_def by blast
  then have "\<forall>x \<in> set xs. is_public_ip (mapped_properties fe) (snd x)"
    using assms(3) by (simp add: is_public_ip_def)
  moreover have "set ds \<subseteq> snd ` set xs"
    using assms(1) a unfolding client_ok_def by (metis fst_conv set_map)
  ultimately show ?thesis
    unfolding public_dials_def n' by (auto simp: list_all_iff)
qed (use assms(2,4) in \<open>auto simp: session_get_def patched_getaddrinfo_def orig_getaddrinfo_def dget_or_def dict_simps
  public_dials_def\<close>)

lemma try_ips_public:
  assumes "client_ok fe" and "dial_name fe url = h" and "list_all (is_public_ip (mapped_properties fe)) ips"
    and "try_ips fe url h ips n = (r, n')"
  shows "public_dials fe n n'"
  using assms(3,4)
proof (induction ips arbitrary: n)
  case (Cons ip ips)
  obtain r1 n1 where g: "session_get fe [(h, ip)] url n = (r1, n1)"
    by fastforce
  note one = session_get_public [OF assms(1,2) _ g]
  show ?case
  proof (cases "r1 = Inr None")
    case True
    then have "try_ips fe url h ips n1 = (r, n')"
      using Cons.prems(2) g by (simp add: bindM_def)
    then show ?thesis
      using Cons.IH [of n1] Cons.prems(1) public_dials_trans [OF one, of n'] by simp
  next
    case False
    then have "n' = n1"
      using Cons.prems(2) g by (auto simp: bindM_def retM_def split: sum.splits option.splits)
    then show ?thesis
      using one Cons.prems(1) by simp
  qed
qed (simp add: retM_def)

lemma validated_host:
  assumes "resolve_and_validate_host fe url n = (r, n')"
  shows "dialed n' = dialed n" and "requests n' = requests n"
    and "r = Inr (h, ips) \<Longrightarrow> list_all (is_public_ip (mapped_properties fe)) ips \<and>
      (\<exists>p. urlsplit (normal_ok fe) url = Inr p \<and> hostname p = Some h)"
  using assms
  by (auto simp: resolve_and_validate_host_def orig_getaddrinfo_def Let_def
      split: sum.splits if_splits option.splits lookup_result.splits)

lemma follow_public:
  assumes "client_ok fe" and "names_agree fe"
    and "dial_name fe url = h" and "list_all (is_public_ip (mapped_properties fe)) ips" and "follow fe rounds url h ips n = (r, n')"
  shows "public_dials fe n n'"
  using assms(3-5)
proof (induction rounds arbitrary: url h ips n)
  case (Suc rounds)
  obtain r1 n1 where t: "try_ips fe url h ips n = (r1, n1)"
    by fastforce
  have one: "public_dials fe n n1"
    using try_ips_public [OF assms(1) Suc.prems(1,2) t] .
  consider (stop) "n' = n1"
    | (again) resp c cs new_url where "r1 = Inr (Some resp)" "urljoin fe url (c # cs) = Inr new_url"
        "(case resolve_and_validate_host fe new_url n1 of (Inl UnsafeURLError, n2) \<Rightarrow> (Inr None, n2)
          | (Inl e, n2) \<Rightarrow> (Inl e, n2) | (Inr (h', ips'), n2) \<Rightarrow> follow fe rounds new_url h' ips' n2) = (r, n')"
    using Suc.prems(3) t
    by (auto simp: bindM_def retM_def raiseM_def split: sum.splits option.splits list.splits)
  then show ?case
  proof cases
    case again
    obtain r2 n2 where v: "resolve_and_validate_host fe new_url n1 = (r2, n2)"
      by fastforce
    note val = validated_host [OF v]
    have two: "public_dials fe n n2"
      using one val(1) by (simp add: public_dials_def)
    show ?thesis
    proof (cases r2)
      case (Inl e)
      then have "n' = n2"
        using again(3) v by (cases e) auto
      then show ?thesis
        using two by simp
    next
      case (Inr hi)
      obtain h' ips' where hi: "hi = (h', ips')"
        by (cases hi)
      have "dial_name fe new_url = h'"
        using val(3) [of h' ips'] Inr hi assms(2) unfolding names_agree_def by blast
      moreover have "list_all (is_public_ip (mapped_properties fe)) ips'"
        using val(3) [of h' ips'] Inr hi by simp
      moreover have "follow fe rounds new_url h' ips' n2 = (r, n')"
        using again(3) v Inr hi by simp
      ultimately show ?thesis
        using Suc.IH two public_dials_trans by blast
    qed
  qed (use one in simp)
qed (simp add: retM_def)

section \<open>Pins of interleaved threads\<close>

fun pinned :: "pin list \<Rightarrow> string \<Rightarrow> string option" where
  "pinned [] = Map.empty"
| "pinned ((h, ip, old) # ps) = (pinned ps)(h \<mapsto> ip)"

fun nested :: "pin list \<Rightarrow> bool" where
  "nested [] = True"
| "nested ((h, ip, old) # ps) = (old = pinned ps h \<and> nested ps)"

definition all_pins :: "pins \<Rightarrow> nat \<Rightarrow> pin list" where
  "all_pins s t = (case phase_of s t of Ready \<Rightarrow> frames s t | Entering p \<Rightarrow> p # frames s t | Exiting p \<Rightarrow> p # frames s t)"

definition pins_ok :: "nat set \<Rightarrow> pins \<Rightarrow> bool" where
  "pins_ok T s \<longleftrightarrow>
     (patched s \<longleftrightarrow> 0 < active_patches s) \<and> active_patches s = (\<Sum>t\<in>T. length (frames s t)) \<and>
     (\<forall>t. dget (dns_overrides s t) = pinned (all_pins s t) \<and> nested (all_pins s t))"

lemma sum_fun_upd:
  assumes "finite T" and "t \<in> T"
  shows "(\<Sum>u\<in>T. length ((f(t := xs)) u)) + length (f t) = (\<Sum>u\<in>T. length (f u)) + length xs"
proof -
  have "(\<Sum>u\<in>T. length ((f(t := xs)) u)) = length xs + (\<Sum>u\<in>T - {t}. length (f u))"
    using assms by (simp add: sum.remove)
  then show ?thesis
    using assms by (simp add: sum.remove)
qed

lemma pin_step_ok:
  assumes "finite T" and "pin_step T s s'" and "pins_ok T s"
  shows "pins_ok T s'"
  using assms(2)
proof cases
  case (enter t h ip)
  then show ?thesis
    using assms(3)
    by (auto simp: pins_ok_def set_override_def all_pins_def dget_dset_fun split: phase.splits)
next
  case (counted t p)
  have "(\<Sum>u\<in>T. length (((frames s)(t := p # frames s t)) u)) = active_patches s + 1"
    using sum_fun_upd [OF assms(1) counted(2), of "frames s" "p # frames s t"] assms(3) by (simp add: pins_ok_def)
  moreover have "all_pins s' u = all_pins s u" for u
    using counted by (cases "phase_of s u") (auto simp: all_pins_def count_in_def)
  ultimately show ?thesis
    using assms(3) counted(1) by (auto simp: pins_ok_def count_in_def)
next
  case (leave t)
  obtain p ps where f: "frames s t = p # ps"
    using leave(4) by (cases "frames s t") auto
  have "(\<Sum>u\<in>T. length (((frames s)(t := ps)) u)) + 1 = active_patches s"
    using sum_fun_upd [OF assms(1) leave(2), of "frames s" ps] assms(3) f by (simp add: pins_ok_def)
  moreover have "all_pins s' u = all_pins s u" for u
    using leave f by (cases "phase_of s u") (auto simp: all_pins_def count_out_def)
  ultimately show ?thesis
    using assms(3) leave(1) f by (auto simp: pins_ok_def count_out_def)
next
  case (restored t p)
  obtain h ip old where p: "p = (h, ip, old)"
    by (cases p)
  have "dget (dns_overrides s t) = (pinned (frames s t))(h \<mapsto> ip)" "old = pinned (frames s t) h" "nested (frames s t)"
    using assms(3) restored(3) p by (auto simp: pins_ok_def all_pins_def dest: spec [of _ t])
  moreover from this have "dget (dns_overrides s' t) = pinned (frames s t)"
    using restored(1) p by (auto simp: restore_override_def fun_eq_iff split: option.splits)
  moreover have "all_pins s' u = (if u = t then frames s t else all_pins s u)" for u
    using restored p by (cases "phase_of s u") (auto simp: all_pins_def restore_override_def)
  moreover have "dns_overrides s' u = dns_overrides s u" if "u \<noteq> t" for u
    using restored(1) p that by (simp add: restore_override_def)
  moreover have "patched s' = patched s" "active_patches s' = active_patches s" "frames s' = frames s"
    using restored(1) p by (simp_all add: restore_override_def)
  ultimately show ?thesis
    using assms(3) unfolding pins_ok_def by metis
qed

lemma pins_reachable_ok:
  assumes "finite T" and "(pin_step T)\<^sup>*\<^sup>* no_pins s"
  shows "pins_ok T s"
  using assms(2)
proof induction
  case base
  show ?case
    by (simp add: pins_ok_def no_pins_def all_pins_def fun_eq_iff)
qed (use pin_step_ok assms(1) in blast)

section \<open>Properties\<close>


text \<open>A fetch whose first connection is answered without a redirect.\<close>

lemma safe_get_answered:
  assumes "resolve_and_validate_host fe url n = (Inr (h, ip # ips), n1)"
    and "session_get fe [(h, ip)] url n1 = (Inr (Some resp), n2)" and "\<not> is_redirect resp"
  shows "safe_get fe url n = (Inr (Some resp), n2)"
  using assms by (simp add: safe_get_def bindM_def retM_def)

text \<open>A resolver that gives a public address first and the loopback address on every later
  call for a name, and a client that connects to the first address.\<close>

definition rebinding :: fetch_env where
  "rebinding =
     \<lparr>normal_ok = (\<lambda>_. True), mapped_properties = True,
      lookup = (\<lambda>n host. if ip_address host \<noteq> None then Resolved [(True, host)]
                         else if n = 0 then Resolved [(True, ''93.184.216.34'')] else Resolved [(True, ''127.0.0.1'')]),
      dial_name = (\<lambda>url. case urlsplit (\<lambda>_. True) url of Inl _ \<Rightarrow> [] | Inr p \<Rightarrow> opt_or (hostname p) []),
      attempt = (\<lambda>n url as. (take 1 as, Inr (Some \<lparr>status_code = 200, is_redirect = False, location = None, response_text = []\<rparr>))),
      urljoin = (\<lambda>url loc. Inr loc)\<rparr>"

definition no_net :: net where
  "no_net = \<lparr>queries = 0, requests = 0, dialed = []\<rparr>"

lemma sample_addresses:
  "ip_address ''93.184.216.34'' = Some (V4 (ip4 93 184 216 34))" "ip_address ''127.0.0.1'' = Some (V4 (ip4 127 0 0 1))"
  "ip_address ''example.com'' = None" "is_public mapped (V4 (ip4 93 184 216 34))"
  by (simp_all add: ip_address_def parse_ipv4_def ip4_def parse_octet_def is_digit_def Let_def parse_ipv6_def groups_def before_def)
    (simp add: is_public4 in_nets_def PRIVATE4_def net4_ranges unat_ip4 from_digits_def flip: ip4_def)


text \<open>When the client reads another host in a URL than \<open>urlsplit\<close> does, the check and the
  pin are about the wrong name: the fetch connects to whatever the other name resolves to.\<close>

theorem other_name_unpinned:
  assumes "urlsplit (normal_ok fe) url = Inr p" and "up_scheme p \<in> ALLOWED_SCHEMES" and "hostname p = Some h"
    and "lookup fe (queries n) h = Resolved xs" and "collect_ips xs {} [] [] = ip # ips"
    and "list_all (is_public_ip (mapped_properties fe)) (ip # ips)"
    and "dial_name fe url \<noteq> h" and "lookup fe (Suc (queries n)) (dial_name fe url) = Resolved ys"
    and "attempt fe (requests n) url (map snd ys) = (ds, Inr (Some resp))" and "\<not> is_redirect resp"
  shows "fst (safe_get fe url n) = Inr (Some resp) \<and> dialed (snd (safe_get fe url n)) = dialed n @ ds"
proof -
  have "resolve_and_validate_host fe url n = (Inr (h, ip # ips), n\<lparr>queries := Suc (queries n)\<rparr>)"
    using assms(1-6) by (simp add: resolve_and_validate_host_def orig_getaddrinfo_def)
  moreover have "session_get fe [(h, ip)] url (n\<lparr>queries := Suc (queries n)\<rparr>) =
      (Inr (Some resp), n\<lparr>queries := Suc (Suc (queries n)), requests := Suc (requests n), dialed := dialed n @ ds\<rparr>)"
    using assms(7-9) by (simp add: session_get_def patched_getaddrinfo_def orig_getaddrinfo_def dget_or_def dict_simps)
  ultimately show ?thesis
    using safe_get_answered assms(10) by simp
qed

text \<open>A client that, like the grammar it follows, ends the authority at a backslash.\<close>

definition backslash_client :: fetch_env where
  "backslash_client = rebinding
     \<lparr>dial_name := (\<lambda>url. takeWhile (\<lambda>c. c \<notin> set ''/?#'' \<and> c \<noteq> CHR 0x5C) (drop 7 url))\<rparr>"

theorem other_name_unpinned_witness:
  "dialed (snd (safe_get backslash_client (''http://127.0.0.1'' @ [CHR 0x5C] @ ''@example.com/'') no_net)) = [''127.0.0.1'']"
proof -
  let ?url = "''http://127.0.0.1'' @ [CHR 0x5C] @ ''@example.com/''"
  let ?p = "\<lparr>up_scheme = ''http'', up_netloc = ''127.0.0.1'' @ [CHR 0x5C] @ ''@example.com'', up_path = ''/'',
    up_query = [], up_fragment = []\<rparr>"
  have p: "urlsplit (\<lambda>_. True) ?url = Inr ?p" "hostname ?p = Some ''example.com''"
    by code_simp+
  then show ?thesis
    using other_name_unpinned [of backslash_client ?url ?p "''example.com''" no_net "[(True, ''93.184.216.34'')]"
        "''93.184.216.34''" "[]" "[(True, ''127.0.0.1'')]" "[''127.0.0.1'']"] sample_addresses
    by (simp add: backslash_client_def rebinding_def no_net_def ALLOWED_SCHEMES_def is_public_ip_def)
qed

text \<open>C20: Whatever threads pin and release names at the same time, in every reachable state a
  thread that is between a pin and its release looks up the pinned address for the pinned
  name and every other name as it is, a thread without pins is not affected, and once all
  threads have released their pins the original function is back and no override is left.\<close>

theorem pins_hold:
  assumes "finite T" and "(pin_step T)\<^sup>*\<^sup>* no_pins s" and "t \<in> T" and "phase_of s t = Ready"
  shows "(\<forall>h ip old ps. frames s t = (h, ip, old) # ps \<longrightarrow> looked_up s t h = ip) \<and>
    (\<forall>h. h \<notin> fst ` set (frames s t) \<longrightarrow> looked_up s t h = h) \<and>
    ((\<forall>u \<in> T. frames s u = []) \<longrightarrow> \<not> patched s \<and> dget (dns_overrides s t) = Map.empty)"
proof -
  note ok = pins_reachable_ok [OF assms(1,2), unfolded pins_ok_def]
  have o: "dget (dns_overrides s t) = pinned (frames s t)"
    using ok assms(4) by (auto simp: all_pins_def dest: spec [of _ t])
  have active: "0 < active_patches s" if "frames s t \<noteq> []"
    using ok assms(1,3) that member_le_sum [of t T "\<lambda>t. length (frames s t)"] by (cases "frames s t") auto
  have free: "h \<notin> fst ` set ps \<Longrightarrow> pinned ps h = None" for h ps
    by (induction ps rule: pinned.induct) auto
  have "looked_up s t h = ip" if "frames s t = (h, ip, old) # ps" for h ip old ps
    using o ok active that by (simp add: looked_up_def dget_or_def)
  moreover have "looked_up s t h = h" if "h \<notin> fst ` set (frames s t)" for h
    using o free [OF that] by (simp add: looked_up_def dget_or_def)
  moreover have "\<not> patched s \<and> dget (dns_overrides s t) = Map.empty" if "\<forall>u \<in> T. frames s u = []"
    using o ok assms(3) that by simp
  ultimately show ?thesis
    by blast
qed

text \<open>Two threads pin the same name to different addresses; the first has left.\<close>

theorem pins_hold_witness:
  "\<exists>s. (pin_step {1, 2})\<^sup>*\<^sup>* no_pins s \<and> looked_up s 2 ''a'' = ''2.2.2.2'' \<and> looked_up s 1 ''a'' = ''a''"
proof -
  define s1 where "s1 = set_override 1 ''a'' ''1.1.1.1'' no_pins"
  define s2 where "s2 = set_override 2 ''a'' ''2.2.2.2'' s1"
  define s3 where "s3 = count_in 1 (''a'', ''1.1.1.1'', None) s2"
  define s4 where "s4 = count_in 2 (''a'', ''2.2.2.2'', None) s3"
  define s5 where "s5 = count_out 1 s4"
  define s6 where "s6 = restore_override 1 (''a'', ''1.1.1.1'', None) s5"
  note simps = no_pins_def set_override_def count_in_def count_out_def restore_override_def
  have "pin_step {1, 2} no_pins s1"
    unfolding s1_def by (rule enter) (simp_all add: no_pins_def)
  moreover have "pin_step {1, 2} s1 s2"
    unfolding s2_def by (rule enter) (simp_all add: s1_def simps)
  moreover have "pin_step {1, 2} s2 s3"
    unfolding s3_def by (rule counted) (simp_all add: s2_def s1_def simps)
  moreover have "pin_step {1, 2} s3 s4"
    unfolding s4_def by (rule counted) (simp_all add: s3_def s2_def s1_def simps)
  moreover have "pin_step {1, 2} s4 s5"
    unfolding s5_def by (rule leave) (simp_all add: s4_def s3_def s2_def s1_def simps)
  moreover have "pin_step {1, 2} s5 s6"
    unfolding s6_def by (rule restored) (simp_all add: s5_def s4_def s3_def s2_def s1_def simps)
  ultimately have reach: "(pin_step {1, 2})\<^sup>*\<^sup>* no_pins s6"
    by (meson converse_rtranclp_into_rtranclp rtranclp.rtrancl_refl)
  have "phase_of s6 1 = Ready" "phase_of s6 2 = Ready" "frames s6 1 = []" "frames s6 2 = [(''a'', ''2.2.2.2'', None)]"
    by (simp_all add: s6_def s5_def s4_def s3_def s2_def s1_def simps)
  then show ?thesis
    using reach pins_hold [of "{1, 2}" s6 1] pins_hold [of "{1, 2}" s6 2] by (intro exI [of _ s6]) auto
qed

end
