(* ===== verification/Graph_Sweepers.thy ===== *)
theory Graph_Sweepers
  imports Session_Sweepers Graph_Registry Safe_Fetch
begin

text \<open>
  The three sweepers over the registered graphs: old graphs
  (\<open>reasoning/graph_freshness_sweeper.py\<close>), outdated component versions
  (\<open>reasoning/graph_auto_update_sweeper.py\<close>) and low health scores
  (\<open>reasoning/graph_health_sweeper.py\<close>).  What the storage and the network answer to the reads
  of one sweep is an argument, since other processes may write in between; tasks go to the
  storage of the state.  Error texts are only logged and left out.
\<close>

section \<open>What a sweep reads\<close>

record graph_view =
  gv_graphs :: "exn + (string \<times> graph) list"
  gv_load :: "string \<Rightarrow> exn + session option"
  gv_dead :: "exn + task list"

text \<open>The parameters beyond those of the session sweepers: the fetch, \<open>json.loads\<close>, the check of
  network locations in \<open>urlsplit\<close>, and how the backend hands out the time of a graph.\<close>

record graph_env = sweep_env +
  fetch_url :: "string \<Rightarrow> exn + response option"
  json_loads :: "string \<Rightarrow> pyval option"
  netloc_normal :: "string \<Rightarrow> bool"
  stamp_value :: "time \<Rightarrow> pyval"
  apply_updates :: bool
  min_score :: rat

definition sqlite_view :: "cks_objects \<Rightarrow> registry \<Rightarrow> sqlite_db \<Rightarrow> graph_view" where
  "sqlite_view cks reg db =
     \<lparr>gv_graphs = Inr (list_graphs None False None reg), gv_load = (\<lambda>sid. load_session cks sid db),
      gv_dead = Inr (map snd (list_dead_letter_tasks None None (task_table db)))\<rparr>"

section \<open>The sweep over graphs\<close>

record 'st graph_sweeping = run_status +
  known_names :: "string set"
  gs_store :: 'st

definition new_graph_sweeping :: "'st \<Rightarrow> 'st graph_sweeping" where
  "new_graph_sweeping st =
     \<lparr>sw_running = False, sw_task = No_Task, last_run_at = None, last_result_count = None, sweep_error = None,
      known_names = {}, gs_store = st\<rparr>"

text \<open>The graphs in order: a finding is remembered, and reported if it was not known.\<close>

fun sweep_graphs ::
  "(string \<Rightarrow> graph \<Rightarrow> exn + 'f option) \<Rightarrow> (string \<Rightarrow> graph \<Rightarrow> 'f \<Rightarrow> pyval) \<Rightarrow> (string \<Rightarrow> pyval \<Rightarrow> ('st, unit) sx)
     \<Rightarrow> string set \<Rightarrow> (string \<times> graph) list \<Rightarrow> string set \<Rightarrow> pyval list \<Rightarrow> ('st, string set \<times> pyval list) sx" where
  "sweep_graphs check entry put known_before [] current new_payloads = retM (current, new_payloads)"
| "sweep_graphs check entry put known_before ((name, g) # gs) current new_payloads =
     (case check name g of
        Inl e \<Rightarrow> raiseM e
      | Inr None \<Rightarrow> sweep_graphs check entry put known_before gs current new_payloads
      | Inr (Some f) \<Rightarrow>
          if name \<in> known_before then sweep_graphs check entry put known_before gs (insert name current) new_payloads
          else bindM (put (g_session_id g) (entry name g f))
                 (\<lambda>_. sweep_graphs check entry put known_before gs (insert name current) (new_payloads @ [entry name g f])))"

definition graph_sweep ::
  "'st sweep_store \<Rightarrow> string \<Rightarrow> (string \<Rightarrow> graph \<Rightarrow> exn + 'f option) \<Rightarrow> (string \<Rightarrow> graph \<Rightarrow> 'f \<Rightarrow> pyval)
     \<Rightarrow> graph_view \<Rightarrow> time \<Rightarrow> ('st graph_sweeping, pyval list) sx" where
  "graph_sweep ss ty check entry view now w =
     (case gv_graphs view of
        Inl e \<Rightarrow> (Inl e, w)
      | Inr graphs \<Rightarrow>
          (case sweep_graphs check entry (\<lambda>sid p. put_awaited ss ty sid p now) (known_names w) graphs {} [] (gs_store w) of
             (Inl e, st) \<Rightarrow> (Inl e, w\<lparr>gs_store := st\<rparr>)
           | (Inr (current, new_payloads), st) \<Rightarrow> (Inr new_payloads, w\<lparr>gs_store := st, known_names := current\<rparr>)))"

section \<open>Old graphs\<close>

definition parse_timestamp :: "graph_env \<Rightarrow> pyval \<Rightarrow> int option" where
  "parse_timestamp ge v =
     (case v of PStr s \<Rightarrow> if s = [] then None else from_iso ge (remove_suffix ''Z'' s @ ''+00:00'') | _ \<Rightarrow> None)"

definition stale_graph :: "graph_env \<Rightarrow> time \<Rightarrow> string \<Rightarrow> graph \<Rightarrow> exn + unit option" where
  "stale_graph ge now name g =
     Inr (if name = [] then None
          else case parse_timestamp ge (stamp_value ge (g_updated_at g)) of
                 None \<Rightarrow> None
               | Some t \<Rightarrow> if int now - int (ttl_seconds ge) \<le> t then None else Some ())"

definition stale_graph_payload :: "graph_env \<Rightarrow> string \<Rightarrow> graph \<Rightarrow> unit \<Rightarrow> pyval" where
  "stale_graph_payload ge name g _ =
     PDict [(''name'', PStr name), (''session_id'', PStr (g_session_id g)), (''updated_at'', stamp_value ge (g_updated_at g)),
            (''ttl_seconds'', PInt (int (ttl_seconds ge))), (''reason'', PStr ''ttl_expired'')]"

definition freshness_sweep ::
  "'st sweep_store \<Rightarrow> graph_env \<Rightarrow> graph_view \<Rightarrow> time \<Rightarrow> ('st graph_sweeping, pyval list) sx" where
  "freshness_sweep ss ge view now = graph_sweep ss ''graph_outdated'' (stale_graph ge now) (stale_graph_payload ge) view now"

section \<open>Versions\<close>

definition lstrip_v :: "string \<Rightarrow> string" where
  "lstrip_v = lstrip {CHR ''v''}"

fun ints_of :: "string list \<Rightarrow> int list option" where
  "ints_of [] = Some []"
| "ints_of (c # cs) = (case int_of_text c of Inl _ \<Rightarrow> None | Inr i \<Rightarrow> map_option (\<lambda>is. i # is) (ints_of cs))"

definition version_tuple :: "pyval \<Rightarrow> int list option" where
  "version_tuple v = (case v of PStr s \<Rightarrow> ints_of (split_on (CHR ''.'') (lstrip_v s)) | _ \<Rightarrow> None)"

text \<open>Python's order of tuples.\<close>

fun tuple_less :: "int list \<Rightarrow> int list \<Rightarrow> bool" where
  "tuple_less xs [] = False"
| "tuple_less [] (y # ys) = True"
| "tuple_less (x # xs) (y # ys) = (x < y \<or> x = y \<and> tuple_less xs ys)"

definition strip_version :: "pyval \<Rightarrow> pyval" where
  "strip_version v = (case v of PStr s \<Rightarrow> PStr (lstrip_v s) | _ \<Rightarrow> v)"

definition is_outdated :: "pyval \<Rightarrow> string \<Rightarrow> bool" where
  "is_outdated graph_version actual_version =
     (if graph_version = PStr actual_version then False
      else case (version_tuple (strip_version graph_version), version_tuple (PStr (lstrip_v actual_version))) of
             (Some graph_tuple, Some actual_tuple) \<Rightarrow> tuple_less graph_tuple actual_tuple
           | _ \<Rightarrow> True)"

section \<open>Repositories\<close>

definition USES_PARAMS :: "string list" where
  "USES_PARAMS =
     [[], ''ftp'', ''hdl'', ''prospero'', ''http'', ''imap'', ''https'', ''shttp'', ''rtsp'', ''rtsps'', ''rtspu'', ''sip'',
      ''sips'', ''mms'', ''sftp'', ''tel'']"

text \<open>\<open>urlparse\<close> cuts the parameters off the last segment of the path.\<close>

definition urlparse_path :: "url_parts \<Rightarrow> string" where
  "urlparse_path p =
     (if up_scheme p \<in> set USES_PARAMS
      then let segment = after_last (CHR ''/'') (up_path p)
           in take (length (up_path p) - length segment) (up_path p) @ before (CHR '';'') segment
      else up_path p)"

definition path_parts :: "string \<Rightarrow> string list" where
  "path_parts s = filter (\<lambda>p. p \<noteq> []) (split_on (CHR ''/'') s)"

definition repo_from_url :: "graph_env \<Rightarrow> pyval \<Rightarrow> exn + string option" where
  "repo_from_url ge v =
     (case v of
        PStr repo_url \<Rightarrow>
          bind_err (urlsplit (netloc_normal ge) repo_url) (\<lambda>parsed.
            if up_netloc parsed \<noteq> [] \<and> \<not> is_substring ''github.com'' (up_netloc parsed) then Inr None
            else
              case (if up_netloc parsed \<noteq> [] then path_parts (urlparse_path parsed) else path_parts repo_url) of
                ownr # rep # _ \<Rightarrow> Inr (Some (ownr @ ''/'' @ remove_suffix ''.git'' rep))
              | _ \<Rightarrow> Inr None)
      | _ \<Rightarrow> Inl AttributeError)"

definition pkg_name :: "string \<Rightarrow> string" where
  "pkg_name component_name = map (\<lambda>c. if c = CHR ''-'' then CHR ''_'' else c) component_name"

definition raw_url :: "string \<Rightarrow> string \<Rightarrow> string" where
  "raw_url repo path = ''https://raw.githubusercontent.com/'' @ repo @ ''/main/'' @ path"

definition KNOWN_COMPONENTS :: "(string, string \<times> string) dict" where
  "KNOWN_COMPONENTS =
     [(''cks-core'', ''punctumactus/cks-core'', ''src/cks/_version.py''),
      (''cks-runtime'', ''punctumactus/cks-runtime'', ''src/cks_runtime/_version.py''),
      (''cks-mcp'', ''punctumactus/cks-mcp'', ''src/cks_mcp/_version.py'')]"

text \<open>The candidate paths as a function of the text put for the package.\<close>

definition candidate_paths :: "string \<Rightarrow> string list" where
  "candidate_paths pkg = [''_version.py'', pkg @ ''/_version.py'', ''src/'' @ pkg @ ''/_version.py'']"

definition package_json_paths :: "string \<Rightarrow> string list" where
  "package_json_paths pkg = [''package.json'', pkg @ ''/package.json'']"

text \<open>The repository, the paths to try, and whether the source is a \<open>package.json\<close>.\<close>

definition resolve_component ::
  "graph_env \<Rightarrow> string \<Rightarrow> (string, pyval) dict \<Rightarrow> exn + (string option \<times> string list \<times> bool)" where
  "resolve_component ge component_name structure =
     (let is_npm = (dget structure ''version_source'' = Some (PStr ''package.json''));
          found = dget KNOWN_COMPONENTS component_name;
          repo_url = dget_or structure ''repo_url'' PNone;
          fallback = (case found of
                        Some (repo, _) \<Rightarrow> (Some repo, package_json_paths ''{pkg}'', True)
                      | None \<Rightarrow> (None, [], False))
      in case (found, is_npm) of
           (Some (repo, path), False) \<Rightarrow> Inr (Some repo, [path], False)
         | _ \<Rightarrow>
             if \<not> truthy repo_url then Inr fallback
             else bind_err (repo_from_url ge repo_url) (\<lambda>r. Inr
               (case r of
                  Some repo \<Rightarrow>
                    (Some repo,
                     if is_npm then package_json_paths (pkg_name component_name) else candidate_paths (pkg_name component_name),
                     is_npm)
                | None \<Rightarrow> fallback)))"

section \<open>Fetching a version\<close>

text \<open>The regular expression for \<open>__version__\<close>, an equals sign and a quoted text without quotes.\<close>

definition is_quote :: "char \<Rightarrow> bool" where
  "is_quote c = (of_char c \<in> {34, 39 :: nat})"

definition version_here :: "string \<Rightarrow> string option" where
  "version_here s =
     (if \<not> is_prefix ''__version__'' s then None
      else
        case dropWhile is_space (drop 11 s) of
          CHR ''='' # r \<Rightarrow>
            (case dropWhile is_space r of
               c # t \<Rightarrow>
                 let v = takeWhile (\<lambda>x. \<not> is_quote x) t
                 in if is_quote c \<and> v \<noteq> [] \<and> length v < length t then Some v else None
             | [] \<Rightarrow> None)
        | _ \<Rightarrow> None)"

fun find_version :: "string \<Rightarrow> string option" where
  "find_version [] = None"
| "find_version (c # s) = (case version_here (c # s) of Some v \<Rightarrow> Some v | None \<Rightarrow> find_version s)"

definition package_version :: "graph_env \<Rightarrow> string \<Rightarrow> string option" where
  "package_version ge t =
     (case json_loads ge t of
        Some (PDict d) \<Rightarrow> (case dget d ''version'' of Some (PStr v) \<Rightarrow> if v = [] then None else Some v | _ \<Rightarrow> None)
      | _ \<Rightarrow> None)"

text \<open>The first path that yields a version; an unsafe URL ends the search.\<close>

fun first_version :: "(string \<Rightarrow> exn + response option) \<Rightarrow> (string \<Rightarrow> string option) \<Rightarrow> string \<Rightarrow> string list \<Rightarrow> string option" where
  "first_version fetch extract repo [] = None"
| "first_version fetch extract repo (path # paths) =
     (case fetch (raw_url repo path) of
        Inl UnsafeURLError \<Rightarrow> None
      | Inr (Some resp) \<Rightarrow>
          (case if status_code resp = 200 then extract (response_text resp) else None of
             Some v \<Rightarrow> Some v
           | None \<Rightarrow> first_version fetch extract repo paths)
      | _ \<Rightarrow> first_version fetch extract repo paths)"

definition fetch_version :: "graph_env \<Rightarrow> string \<Rightarrow> string list \<Rightarrow> string option" where
  "fetch_version ge = first_version (fetch_url ge) find_version"

definition fetch_package_json_version :: "graph_env \<Rightarrow> string \<Rightarrow> string list \<Rightarrow> string option" where
  "fetch_package_json_version ge = first_version (fetch_url ge) (package_version ge)"

section \<open>Outdated components\<close>

definition versioned_components :: "session \<Rightarrow> kobj list" where
  "versioned_components s =
     filter (\<lambda>k. oi_type (ko_identity k) = ''Component'' \<and> dhas (ko_structure k) ''version'') (ks_objects (knowledge_structure s))"

definition component_name :: "kobj \<Rightarrow> string" where
  "component_name k = (if oi_name (ko_identity k) \<noteq> [] then oi_name (ko_identity k) else obj_id k)"

definition component_version :: "kobj \<Rightarrow> pyval" where
  "component_version k = dget_or (ko_structure k) ''version'' PNone"

fun outdated_components :: "graph_env \<Rightarrow> kobj list \<Rightarrow> exn + pyval list" where
  "outdated_components ge [] = Inr []"
| "outdated_components ge (k # ks) =
     bind_err (resolve_component ge (component_name k) (ko_structure k)) (\<lambda>(repo, paths, npm).
       bind_err (outdated_components ge ks) (\<lambda>rest.
         case repo of
           None \<Rightarrow> Inr rest
         | Some r \<Rightarrow>
             (case (if npm then fetch_package_json_version ge r paths else fetch_version ge r paths) of
                None \<Rightarrow> Inr rest
              | Some actual \<Rightarrow>
                  Inr (if is_outdated (component_version k) actual
                       then PDict [(''component'', PStr (component_name k)), (''graph_version'', component_version k),
                                   (''actual_version'', PStr actual)] # rest
                       else rest))))"

definition check_graph :: "graph_env \<Rightarrow> graph_view \<Rightarrow> string \<Rightarrow> graph \<Rightarrow> exn + pyval list option" where
  "check_graph ge view name g =
     (if name = [] \<or> g_session_id g = [] then Inr None
      else bind_err (gv_load view (g_session_id g)) (\<lambda>s.
             case s of
               None \<Rightarrow> Inr None
             | Some s \<Rightarrow>
                 bind_err (outdated_components ge (versioned_components s)) (\<lambda>xs. Inr (if xs = [] then None else Some xs))))"

definition outdated_payload :: "graph_env \<Rightarrow> string \<Rightarrow> graph \<Rightarrow> pyval list \<Rightarrow> pyval" where
  "outdated_payload ge name g xs =
     PDict [(''name'', PStr name), (''session_id'', PStr (g_session_id g)), (''reason'', PStr ''version_outdated''),
            (''outdated_components'', PList xs), (''auto_apply_requested'', PBool (apply_updates ge))]"

definition auto_update_sweep ::
  "'st sweep_store \<Rightarrow> graph_env \<Rightarrow> graph_view \<Rightarrow> time \<Rightarrow> ('st graph_sweeping, pyval list) sx" where
  "auto_update_sweep ss ge view now = graph_sweep ss ''graph_outdated'' (check_graph ge view) (outdated_payload ge) view now"

section \<open>Health\<close>

definition VERIFICATION_COVERAGE_TTL_SECONDS :: nat where
  "VERIFICATION_COVERAGE_TTL_SECONDS = 30 * 24 * 3600"

definition parse_any_timestamp :: "graph_env \<Rightarrow> pyval \<Rightarrow> int option" where
  "parse_any_timestamp ge v =
     (case v of
        PStr s \<Rightarrow>
          if s = [] then None
          else (case from_iso ge s of Some t \<Rightarrow> Some t | None \<Rightarrow> from_iso ge (remove_suffix ''Z'' s @ ''+00:00''))
      | _ \<Rightarrow> None)"

text \<open>How many components could be checked, and how many of them are up to date.\<close>

fun count_versions :: "graph_env \<Rightarrow> kobj list \<Rightarrow> nat \<Rightarrow> nat \<Rightarrow> exn + nat \<times> nat" where
  "count_versions ge [] checked up_to_date = Inr (checked, up_to_date)"
| "count_versions ge (k # ks) checked up_to_date =
     (case resolve_component ge (component_name k) (ko_structure k) of
        Inl e \<Rightarrow> Inl e
      | Inr (None, _, _) \<Rightarrow> count_versions ge ks checked up_to_date
      | Inr (Some r, paths, _) \<Rightarrow>
          (case fetch_version ge r paths of
             None \<Rightarrow> count_versions ge ks checked up_to_date
           | Some actual \<Rightarrow>
               count_versions ge ks (checked + 1)
                 (if is_outdated (component_version k) actual then up_to_date else up_to_date + 1)))"

definition version_freshness_score :: "graph_env \<Rightarrow> session \<Rightarrow> exn + rat" where
  "version_freshness_score ge s =
     bind_err (count_versions ge (versioned_components s) 0 0) (\<lambda>(checked, up_to_date).
       Inr (if checked = 0 then 1 else rat_of_nat up_to_date / rat_of_nat checked))"

definition ttl_freshness_score :: "graph_env \<Rightarrow> time \<Rightarrow> graph \<Rightarrow> rat" where
  "ttl_freshness_score ge now g =
     (case parse_any_timestamp ge (stamp_value ge (g_updated_at g)) of
        None \<Rightarrow> 0
      | Some t \<Rightarrow> if int now - int (ttl_seconds ge) \<le> t then 1 else 0)"

definition contradictions_score :: "graph_env \<Rightarrow> time \<Rightarrow> session \<Rightarrow> exn + rat" where
  "contradictions_score ge now s =
     bind_err (contradictions (sweep_env.truncate ge) now s) (\<lambda>ds. Inr (if ds = [] then 1 else 0))"

definition verification_coverage_score :: "graph_env \<Rightarrow> time \<Rightarrow> session \<Rightarrow> rat" where
  "verification_coverage_score ge now s =
     (let recs = filter (\<lambda>k. oi_type (ko_identity k) = ''VerificationRecord'') (ks_objects (knowledge_structure s));
          fresh = filter (\<lambda>k. case parse_any_timestamp ge (checked_at k) of
                                None \<Rightarrow> False
                              | Some t \<Rightarrow> int now - int VERIFICATION_COVERAGE_TTL_SECONDS \<le> t) recs
      in if recs = [] then 1 else rat_of_nat (length fresh) / rat_of_nat (length recs))"

definition dead_letter_score :: "graph_view \<Rightarrow> string \<Rightarrow> exn + rat" where
  "dead_letter_score view sid =
     bind_err (gv_dead view) (\<lambda>ts. Inr (if \<exists>t \<in> set ts. t_session_id t = sid then 1 / 2 else 1))"

record metrics =
  version_freshness :: rat
  ttl_freshness :: rat
  contradiction_metric :: rat
  verification_coverage :: rat
  dead_letter :: rat

definition health_score :: "metrics \<Rightarrow> rat" where
  "health_score m =
     3 / 10 * version_freshness m + 1 / 10 * ttl_freshness m + 3 / 10 * contradiction_metric m +
     2 / 10 * verification_coverage m + 1 / 10 * dead_letter m"

text \<open>\<open>_score_graph\<close>: the metrics, and no score when the session is not available.\<close>

definition score_graph :: "graph_env \<Rightarrow> graph_view \<Rightarrow> time \<Rightarrow> graph \<Rightarrow> exn + metrics option" where
  "score_graph ge view now g =
     bind_err (gv_load view (g_session_id g)) (\<lambda>s.
       case s of
         None \<Rightarrow> Inr None
       | Some s \<Rightarrow>
           bind_err (version_freshness_score ge s) (\<lambda>v.
           bind_err (contradictions_score ge now s) (\<lambda>c.
           bind_err (dead_letter_score view (g_session_id g)) (\<lambda>d.
             Inr (Some \<lparr>version_freshness = v, ttl_freshness = ttl_freshness_score ge now g, contradiction_metric = c,
                        verification_coverage = verification_coverage_score ge now s, dead_letter = d\<rparr>)))))"

definition unhealthy_graph :: "graph_env \<Rightarrow> graph_view \<Rightarrow> time \<Rightarrow> string \<Rightarrow> graph \<Rightarrow> exn + metrics option" where
  "unhealthy_graph ge view now name g =
     (if name = [] \<or> g_session_id g = [] then Inr None
      else bind_err (score_graph ge view now g) (\<lambda>m.
             Inr (case m of None \<Rightarrow> None | Some m \<Rightarrow> if min_score ge \<le> health_score m then None else Some m)))"

definition health_payload :: "graph_env \<Rightarrow> string \<Rightarrow> graph \<Rightarrow> metrics \<Rightarrow> pyval" where
  "health_payload ge name g m =
     PDict [(''name'', PStr name), (''session_id'', PStr (g_session_id g)), (''health_score'', PFloat (health_score m)),
            (''metrics'', PDict
               [(''version_freshness'', PFloat (version_freshness m)), (''ttl_freshness'', PFloat (ttl_freshness m)),
                (''contradictions'', PFloat (contradiction_metric m)),
                (''verification_coverage'', PFloat (verification_coverage m)), (''dead_letter'', PFloat (dead_letter m))]),
            (''min_score'', PFloat (min_score ge))]"

definition health_sweep :: "'st sweep_store \<Rightarrow> graph_env \<Rightarrow> graph_view \<Rightarrow> time \<Rightarrow> ('st graph_sweeping, pyval list) sx" where
  "health_sweep ss ge view now = graph_sweep ss ''health_check'' (unhealthy_graph ge view now) (health_payload ge) view now"

section \<open>Each graph is escalated once\<close>

text \<open>The graphs with a finding, in order.\<close>

definition findings :: "(string \<Rightarrow> graph \<Rightarrow> exn + 'f option) \<Rightarrow> (string \<times> graph) list \<Rightarrow> (string \<times> graph \<times> 'f) list" where
  "findings check gs = concat (map (\<lambda>(n, g). case check n g of Inr (Some f) \<Rightarrow> [(n, g, f)] | _ \<Rightarrow> []) gs)"

lemma findings_simps [simp]:
  "findings check [] = []"
  "findings check ((n, g) # gs) = (case check n g of Inr (Some f) \<Rightarrow> [(n, g, f)] | _ \<Rightarrow> []) @ findings check gs"
  by (simp_all add: findings_def)

lemma sweep_graphs_ok:
  assumes "sweep_graphs check entry put old gs current ps st = (Inr (current', ps'), st')"
  shows "current' = current \<union> fst ` set (findings check gs)"
    and "ps' = ps @ map (\<lambda>(n, g, f). entry n g f) (filter (\<lambda>x. fst x \<notin> old) (findings check gs))"
  using assms
  by (induction check entry put old gs current ps arbitrary: st rule: sweep_graphs.induct)
    (auto simp: retM_def raiseM_def bindM_def split: sum.splits option.splits if_splits prod.splits)

lemma graph_sweep_ok:
  assumes "graph_sweep ss ty check entry view now w = (Inr ps, w')" and "gv_graphs view = Inr gs"
  shows "ps = map (\<lambda>(n, g, f). entry n g f) (filter (\<lambda>x. fst x \<notin> known_names w) (findings check gs))"
    and "known_names w' = fst ` set (findings check gs)"
proof -
  obtain st where run: "sweep_graphs check entry (\<lambda>sid p. put_awaited ss ty sid p now) (known_names w) gs {} [] (gs_store w) =
      (Inr (known_names w', ps), st)"
    using assms by (auto simp: graph_sweep_def split: prod.splits sum.splits)
  show "ps = map (\<lambda>(n, g, f). entry n g f) (filter (\<lambda>x. fst x \<notin> known_names w) (findings check gs))"
    "known_names w' = fst ` set (findings check gs)"
    using sweep_graphs_ok [OF run] by simp_all
qed

text \<open>The one subject of a graph sweep is the whole registry.\<close>

definition registry_findings ::
  "(time \<times> graph_view \<Rightarrow> string \<Rightarrow> graph \<Rightarrow> exn + 'f option) \<Rightarrow> time \<times> graph_view \<Rightarrow> (string \<times> graph \<times> 'f) list" where
  "registry_findings check v = (case gv_graphs (snd v) of Inl _ \<Rightarrow> [] | Inr gs \<Rightarrow> findings (check v) gs)"

definition names_known :: "'st graph_sweeping \<Rightarrow> string \<Rightarrow> string set" where
  "names_known w sid = (if sid = [] then known_names w else {})"

lemma graph_sweep_edges:
  assumes "graph_sweep ss ty (check v) entry (snd v) now w = (Inr ps, w')"
  shows "ps = map (\<lambda>(n, g, f). entry n g f) (filter (\<lambda>x. fst x \<notin> names_known w []) (registry_findings check v))"
    and "names_known w' sid = (if sid = [] then fst ` set (registry_findings check v) else names_known w sid)"
  using graph_sweep_ok [OF assms] assms
  by (auto simp: names_known_def registry_findings_def graph_sweep_def split: sum.splits)

text \<open>The three visits and what they find, as functions of the time and of what is read.\<close>

definition freshness_findings :: "graph_env \<Rightarrow> time \<times> graph_view \<Rightarrow> (string \<times> graph \<times> unit) list" where
  "freshness_findings ge = registry_findings (\<lambda>v. stale_graph ge (fst v))"

definition update_findings :: "graph_env \<Rightarrow> time \<times> graph_view \<Rightarrow> (string \<times> graph \<times> pyval list) list" where
  "update_findings ge = registry_findings (\<lambda>v. check_graph ge (snd v))"

definition health_findings :: "graph_env \<Rightarrow> time \<times> graph_view \<Rightarrow> (string \<times> graph \<times> metrics) list" where
  "health_findings ge = registry_findings (\<lambda>v. unhealthy_graph ge (snd v) (fst v))"

interpretation freshness_sweeper: edge_triggered
  "\<lambda>v. freshness_sweep ss ge (snd v) (fst v)" "\<lambda>_. []" "freshness_findings ge" fst
  "\<lambda>_ (n, g, f). stale_graph_payload ge n g f" names_known
  by unfold_locales
    (simp_all add: freshness_sweep_def freshness_findings_def graph_sweep_edges [where check = "\<lambda>v. stale_graph ge (fst v)"])

interpretation update_sweeper: edge_triggered
  "\<lambda>v. auto_update_sweep ss ge (snd v) (fst v)" "\<lambda>_. []" "update_findings ge" fst
  "\<lambda>_ (n, g, f). outdated_payload ge n g f" names_known
  by unfold_locales
    (simp_all add: auto_update_sweep_def update_findings_def graph_sweep_edges [where check = "\<lambda>v. check_graph ge (snd v)"])

interpretation health_sweeper: edge_triggered
  "\<lambda>v. health_sweep ss ge (snd v) (fst v)" "\<lambda>_. []" "health_findings ge" fst
  "\<lambda>_ (n, g, m). health_payload ge n g m" names_known
  by unfold_locales
    (simp_all add: health_sweep_def health_findings_def
      graph_sweep_edges [where check = "\<lambda>v. unhealthy_graph ge (snd v) (fst v)"])

section \<open>The tasks of a sweep\<close>

text \<open>The graphs before the first one whose check raises.\<close>

definition reached :: "(string \<Rightarrow> graph \<Rightarrow> exn + 'f option) \<Rightarrow> (string \<times> graph) list \<Rightarrow> (string \<times> graph) list" where
  "reached check gs = takeWhile (\<lambda>(n, g). case check n g of Inl _ \<Rightarrow> False | Inr _ \<Rightarrow> True) gs"

definition new_entries ::
  "string \<Rightarrow> (string \<Rightarrow> graph \<Rightarrow> 'f \<Rightarrow> pyval) \<Rightarrow> string set \<Rightarrow> (string \<times> graph \<times> 'f) list \<Rightarrow> (string \<times> string \<times> pyval) list" where
  "new_entries ty entry old xs = map (\<lambda>(n, g, f). (ty, g_session_id g, entry n g f)) (filter (\<lambda>x. fst x \<notin> old) xs)"

lemma put_awaited_sqlite:
  assumes "ids_ok db"
  shows "\<exists>db'. put_awaited (sqlite_direct cks) ty sid p now db = (Inr (), db') \<and> ids_ok db' \<and>
    task_entries db' = task_entries db @ [(ty, sid, p)]"
proof -
  obtain r db' where run: "sqlite_enqueue_task ty sid p now db = (r, db')"
    by fastforce
  note one = enqueue_task_entries [OF assms run]
  then have "task_entries db' = task_entries db @ [(ty, sid, p)]"
    by (auto simp: task_entries_def)
  then show ?thesis
    using one run by (intro exI [of _ db']) (simp add: put_awaited_def sqlite_direct_def)
qed

lemma sweep_graphs_entries:
  assumes "sweep_graphs check entry (\<lambda>sid p. put_awaited (sqlite_direct cks) ty sid p now) old gs current ps db = (r, db')"
    and "ids_ok db"
  shows "ids_ok db' \<and> task_entries db' = task_entries db @ new_entries ty entry old (findings check (reached check gs)) \<and>
    ((\<exists>e. r = Inl e) \<longleftrightarrow> reached check gs \<noteq> gs)"
  using assms
proof (induction gs arbitrary: current ps db)
  case Nil
  then show ?case
    by (auto simp: retM_def reached_def new_entries_def)
next
  case (Cons x gs)
  obtain n g where x: "x = (n, g)"
    by (cases x)
  show ?case
  proof (cases "check n g")
    case (Inl e)
    then show ?thesis
      using Cons.prems x by (auto simp: raiseM_def reached_def new_entries_def)
  next
    case (Inr y)
    have reached: "reached check (x # gs) = x # reached check gs"
      using Inr x by (simp add: reached_def)
    obtain db1 where put: "\<And>f. y = Some f \<Longrightarrow> put_awaited (sqlite_direct cks) ty (g_session_id g) (entry n g f) now db = (Inr (), db1) \<and>
        ids_ok db1 \<and> task_entries db1 = task_entries db @ [(ty, g_session_id g, entry n g f)]"
      using put_awaited_sqlite [OF Cons.prems(2)] by (metis option.sel)
    show ?thesis
    proof (cases y)
      case None
      then show ?thesis
        using Cons.IH [of current ps db] Cons.prems Inr x reached by simp
    next
      case (Some f)
      then show ?thesis
        using Cons.IH [of "insert n current" ps db] Cons.IH [of "insert n current" "ps @ [entry n g f]" db1] Cons.prems Inr x reached
          put [OF Some]
        by (cases "n \<in> old") (simp_all add: bindM_def new_entries_def)
    qed
  qed
qed

lemma graph_sweep_entries:
  assumes "graph_sweep (sqlite_direct cks) ty check entry view now w = (r, w')" and "gv_graphs view = Inr gs"
    and "ids_ok (gs_store w)"
  shows "ids_ok (gs_store w')"
    and "task_entries (gs_store w') = task_entries (gs_store w) @ new_entries ty entry (known_names w) (findings check (reached check gs))"
    and "(\<exists>e. r = Inl e) \<longleftrightarrow> reached check gs \<noteq> gs"
    and "reached check gs \<noteq> gs \<Longrightarrow> known_names w' = known_names w"
proof -
  obtain r1 db1 where run: "sweep_graphs check entry (\<lambda>sid p. put_awaited (sqlite_direct cks) ty sid p now) (known_names w) gs {} []
      (gs_store w) = (r1, db1)"
    by fastforce
  have w': "gs_store w' = db1 \<and> ((\<exists>e. r = Inl e) \<longleftrightarrow> (\<exists>e. r1 = Inl e)) \<and> ((\<exists>e. r1 = Inl e) \<longrightarrow> known_names w' = known_names w)"
    using assms(1,2) run by (auto simp: graph_sweep_def split: sum.splits prod.splits)
  note e = sweep_graphs_entries [OF run assms(3)]
  show "ids_ok (gs_store w')"
    "task_entries (gs_store w') = task_entries (gs_store w) @ new_entries ty entry (known_names w) (findings check (reached check gs))"
    "(\<exists>e. r = Inl e) \<longleftrightarrow> reached check gs \<noteq> gs" "reached check gs \<noteq> gs \<Longrightarrow> known_names w' = known_names w"
    using w' e by simp_all
qed

lemma health_visit_entries:
  assumes "health_sweep (sqlite_direct cks) ge view now w = (Inr ps, w')" and "ids_ok (gs_store w)"
  shows "ids_ok (gs_store w') \<and> task_entries (gs_store w') = task_entries (gs_store w) @
    new_entries ''health_check'' (health_payload ge) (known_names w) (health_findings ge (now, view))"
proof -
  obtain gs where gs: "gv_graphs view = Inr gs"
    using assms(1) by (auto simp: health_sweep_def graph_sweep_def split: sum.splits)
  note e = graph_sweep_entries [OF assms(1) [unfolded health_sweep_def] gs assms(2)]
  have "reached (unhealthy_graph ge view now) gs = gs"
    using e(3) by auto
  then show ?thesis
    using e(1,2) gs by (simp add: health_findings_def registry_findings_def)
qed

text \<open>The findings of the last of some sweeps.\<close>

definition names_at :: "graph_env \<Rightarrow> (time \<times> graph_view) list \<Rightarrow> string set" where
  "names_at ge vs = (if vs = [] then {} else fst ` set (health_findings ge (last vs)))"

lemma names_at_known:
  assumes "run_visits (\<lambda>v. health_sweep (sqlite_direct cks) ge (snd v) (fst v)) vs w = (Inr rs, w')" and "ids_ok (gs_store w)"
    and "known_names w = names_at ge past"
  shows "task_entries (gs_store w') = task_entries (gs_store w) @
    concat (map (\<lambda>i. new_entries ''health_check'' (health_payload ge) (names_at ge (past @ take i vs)) (health_findings ge (vs ! i)))
      [0..<length vs])"
  using assms
proof (induction vs arbitrary: w past rs)
  case Nil
  then show ?case
    by (simp add: retM_def)
next
  case (Cons v vs)
  obtain r w1 where one: "health_sweep (sqlite_direct cks) ge (snd v) (fst v) w = (Inr r, w1)"
    using Cons.prems(1) by (auto simp: bindM_def split: prod.splits sum.splits)
  obtain rs' where rest: "run_visits (\<lambda>v. health_sweep (sqlite_direct cks) ge (snd v) (fst v)) vs w1 = (Inr rs', w')"
    using Cons.prems(1) one by (auto simp: bindM_def retM_def split: prod.splits sum.splits)
  note entries = health_visit_entries [OF one Cons.prems(2)]
  have "names_known w1 [] = fst ` set (health_findings ge v)"
    using health_sweeper.visit_remembers [OF one] by simp
  then have "known_names w1 = names_at ge (past @ [v])"
    by (simp add: names_known_def names_at_def)
  from Cons.IH [OF rest _ this] show ?case
    using entries Cons.prems(3) by (simp add: upt_conv_Cons map_Suc_upt [symmetric] comp_def del: upt_Suc)
qed

section \<open>Properties\<close>


text \<open>A registry with one graph, whose session always has a contradiction.\<close>

definition sample_graph :: "string \<Rightarrow> graph" where
  "sample_graph sid =
     \<lparr>g_session_id = sid, g_description = [], g_tags = [], g_public = False, g_source_graph_name = None,
      g_visibility = ''private'', g_team = None, g_lifecycle_state = None, g_created_at = 1, g_updated_at = 1\<rparr>"

definition sample_graph_env :: graph_env where
  "sample_graph_env =
     \<lparr>run_validate = (\<lambda>_ _ _. Inr [\<lparr>xd_code = ''mutual_exclusion'', xd_severity = ''error'', xd_message = [], xd_location = None\<rparr>]),
      constraint_code = id, from_iso = (\<lambda>_. None), ttl_seconds = 10,
      fetch_url = (\<lambda>_. Inr (Some \<lparr>status_code = 200, is_redirect = False, location = None,
        response_text = ''__version__ = '' @ [char_of (34 :: nat)] @ ''2.0'' @ [char_of (34 :: nat)]\<rparr>)),
      json_loads = (\<lambda>_. None), netloc_normal = (\<lambda>_. True), stamp_value = (\<lambda>_. PNone), apply_updates = False,
      min_score = 7 / 10\<rparr>"

definition one_graph_view :: graph_view where
  "one_graph_view =
     \<lparr>gv_graphs = Inr [(''g'', sample_graph ''s'')], gv_load = (\<lambda>_. Inr (Some sample_session)), gv_dead = Inr []\<rparr>"

lemma sample_health:
  "unhealthy_graph sample_graph_env one_graph_view now ''g'' (sample_graph ''s'') =
     Inr (Some \<lparr>version_freshness = 1, ttl_freshness = 0, contradiction_metric = 0, verification_coverage = 1, dead_letter = 1\<rparr>)"
  by (simp add: unhealthy_graph_def score_graph_def one_graph_view_def sample_graph_def version_freshness_score_def
      versioned_components_def contradictions_score_def contradictions_def relevant_diagnostics_def dead_letter_score_def
      verification_coverage_score_def sample_session_def ttl_freshness_score_def sample_graph_env_def parse_any_timestamp_def
      bind_err_def sweep_env.truncate_def CONTRADICTION_CONSTRAINTS_def health_score_def)


lemma count_versions_le:
  "count_versions ge ks checked up = Inr (c, u) \<Longrightarrow> up \<le> checked \<Longrightarrow> u \<le> c"
  by (induction ge ks checked up rule: count_versions.induct) (auto split: sum.splits option.splits prod.splits if_splits)



text \<open>On versions that are numbers separated by dots, up to a leading \<open>v\<close>, being outdated is
  the strict lexicographic order of the numbers; a version that is not of this form is
  outdated whenever its text differs from the published one.\<close>

theorem outdated_order:
  "is_outdated (PStr a) b \<longleftrightarrow>
     (case (ints_of (split_on (CHR ''.'') (lstrip_v a)), ints_of (split_on (CHR ''.'') (lstrip_v b))) of
        (Some x, Some y) \<Rightarrow> (x, y) \<in> lexord {(i, j). i < j}
      | _ \<Rightarrow> a \<noteq> b)"
proof -
  have strip: "lstrip_v (lstrip_v s) = lstrip_v s" for s
    by (simp add: lstrip_v_def lstrip_def dropWhile_idem)
  have less: "tuple_less x y \<longleftrightarrow> (x, y) \<in> lexord {(i, j). i < j}" for x y
    by (induction x y rule: tuple_less.induct) auto
  have "(x, x) \<notin> lexord {(i :: int, j). i < j}" for x
    by (rule lexord_irreflexive) simp
  then show ?thesis
    by (auto simp: is_outdated_def strip_version_def version_tuple_def strip less split: option.splits)
qed

text \<open>When the check of one graph raises, a sweep forgets what it has escalated: the names
  are remembered at the end only, so each further sweep enqueues the tasks of the graphs
  before it again, although they are unchanged.\<close>

theorem failed_graph_sweep_repeats:
  assumes "gv_graphs view = Inr (gs @ (n, g) # hs)" and "\<forall>(m, h) \<in> set gs. \<exists>x. check_graph ge view m h = Inr x"
    and "check_graph ge view n g = Inl e" and "ids_ok (gs_store w)"
  shows "task_entries (gs_store (((\<lambda>w. snd (auto_update_sweep (sqlite_direct cks) ge view now w)) ^^ k) w)) =
    task_entries (gs_store w) @
    concat (replicate k (new_entries ''graph_outdated'' (outdated_payload ge) (known_names w) (findings (check_graph ge view) gs)))"
  using assms(4)
proof (induction k arbitrary: w)
  case (Suc k)
  let ?sweep = "auto_update_sweep (sqlite_direct cks) ge view now"
  obtain r w1 where run: "?sweep w = (r, w1)"
    by fastforce
  have reached: "reached (check_graph ge view) (gs @ (n, g) # hs) = gs"
    using assms(2,3) by (induction gs) (auto simp: reached_def)
  note one = graph_sweep_entries [OF run [unfolded auto_update_sweep_def] assms(1) Suc.prems, unfolded reached]
  then show ?case
    using Suc.IH [of w1] run by (simp add: funpow_swap1 [of _ k w] funpow_Suc_right del: funpow.simps)
qed simp

text \<open>A graph with an outdated component, and one with a malformed repository address.\<close>

definition component :: "string \<Rightarrow> (string, pyval) dict \<Rightarrow> session" where
  "component name attrs = sample_session\<lparr>knowledge_structure := \<lparr>ks_objects =
     [\<lparr>ko_identity = \<lparr>oi_id = name, oi_type = ''Component'', oi_name = name\<rparr>, ko_structure = attrs, ko_hash = [],
       ko_relation = None\<rparr>]\<rparr>\<rparr>"

definition bad_address_view :: graph_view where
  "bad_address_view =
     \<lparr>gv_graphs = Inr [(''g'', sample_graph ''s''), (''h'', sample_graph ''t'')],
      gv_load = (\<lambda>sid. Inr (Some (if sid = ''s'' then component ''cks-core'' [(''version'', PStr ''1.0'')]
        else component ''x'' [(''version'', PStr ''1.0''), (''repo_url'', PStr ''http://['')]))),
      gv_dead = Inr []\<rparr>"

lemma bad_address_checks:
  "check_graph sample_graph_env bad_address_view ''g'' (sample_graph ''s'') =
     Inr (Some [PDict [(''component'', PStr ''cks-core''), (''graph_version'', PStr ''1.0''), (''actual_version'', PStr ''2.0'')]])"
  "check_graph sample_graph_env bad_address_view ''h'' (sample_graph ''t'') = Inl ValueError"
  by code_simp+

theorem failed_graph_sweep_repeats_witness:
  "map (\<lambda>(ty, sid, _). (ty, sid)) (task_entries (gs_store (((\<lambda>w. snd (auto_update_sweep (sqlite_direct text_cks) sample_graph_env
      bad_address_view 5 w)) ^^ 3) (new_graph_sweeping first_db)))) =
   map (\<lambda>(ty, sid, _). (ty, sid)) (task_entries first_db) @ replicate 3 (''graph_outdated'', ''s'')"
  using failed_graph_sweep_repeats [where view = bad_address_view and gs = "[(''g'', sample_graph ''s'')]" and n = "''h''" and
      g = "sample_graph ''t''" and hs = "[]" and ge = sample_graph_env and e = ValueError and w = "new_graph_sweeping first_db" and
      cks = text_cks and now = 5 and k = 3] bad_address_checks first_db_ids(1)
  by (simp add: bad_address_view_def new_graph_sweeping_def new_entries_def sample_graph_def numeral_3_eq_3)

text \<open>On a backend that hands out the time of a graph as an object instead of a text, as the
  PostgreSQL backend does, no graph ever counts as old: the freshness sweeper reports nothing,
  and the freshness metric of every graph is 0 however new the graph is.\<close>

theorem time_objects_never_old:
  assumes "\<forall>t s. stamp_value ge t \<noteq> PStr s" and "gv_graphs view = Inr gs"
  shows "freshness_sweep ss ge view now w = (Inr [], w\<lparr>known_names := {}\<rparr>) \<and> ttl_freshness_score ge now g = 0"
proof -
  have none: "parse_timestamp ge (stamp_value ge t) = None" "parse_any_timestamp ge (stamp_value ge t) = None" for t
    using assms(1) by (cases "stamp_value ge t"; simp add: parse_timestamp_def parse_any_timestamp_def)+
  have "sweep_graphs (stale_graph ge now) entry put old gs current ps st = (Inr (current, ps), st)" for entry put old current ps and st :: 'a
    by (induction gs) (auto simp: retM_def stale_graph_def none)
  then show ?thesis
    using assms(2) by (simp add: freshness_sweep_def graph_sweep_def ttl_freshness_score_def none)
qed

theorem time_objects_never_old_witness:
  "freshness_sweep (sqlite_direct text_cks) sample_graph_env one_graph_view 99999 (new_graph_sweeping first_db) =
     (Inr [], new_graph_sweeping first_db) \<and> ttl_freshness_score sample_graph_env 1 (sample_graph ''s'') = 0"
  using time_objects_never_old [of sample_graph_env one_graph_view "[(''g'', sample_graph ''s'')]" "sqlite_direct text_cks" 99999
      "new_graph_sweeping first_db"]
    time_objects_never_old [of sample_graph_env one_graph_view "[(''g'', sample_graph ''s'')]" "sqlite_direct text_cks" 1
      "new_graph_sweeping first_db" "sample_graph ''s''"]
  by (simp add: sample_graph_env_def one_graph_view_def new_graph_sweeping_def)

end
