(* ===== verification/Core_Adapter.thy ===== *)
theory Core_Adapter
  imports Operations Knowledge
begin

text \<open>
  The plug-in that connects the runtime to the package \<open>cks\<close> (\<open>adapters/cks_core.py\<close>): the
  translation of diagnostics and merge conflicts, the difference of two structures field by
  field, and the object made of a base object and logged field operations.  What is used of
  \<open>cks\<close> is a record of functions.
\<close>

section \<open>The package\<close>

record cks_diagnostic =
  cd_identity :: string
  cd_severity :: diagnostic_severity
  cd_message :: string
  cd_location :: "string option"
  cd_metadata :: "(string, pyval) dict"

datatype merge_outcome = Merged kstruct | MergeConflicts "merge_conflict list" | MergeRaises exn

text \<open>\<open>update_object oid st ks\<close> is \<open>UpdateObject(oid, st, mode="replace").apply(ks)\<close>.\<close>

record cks_core = cks_objects +
  core_validate :: "kstruct \<Rightarrow> pyval option \<Rightarrow> exn + (bool \<times> cks_diagnostic list)"
  core_compose :: "kstruct \<Rightarrow> operator list \<Rightarrow> exn + kstruct"
  core_inspect :: "kstruct \<Rightarrow> exn + pyval"
  core_explain_inference :: "kstruct \<Rightarrow> string \<Rightarrow> exn + pyval"
  core_diff :: "kstruct \<Rightarrow> kstruct \<Rightarrow> exn + operator list"
  update_object :: "string \<Rightarrow> (string, pyval) dict \<Rightarrow> kstruct \<Rightarrow> exn + kstruct"
  core_merge :: "kstruct \<Rightarrow> kstruct \<Rightarrow> kstruct \<Rightarrow> (string, kobj) dict option \<Rightarrow> merge_outcome"
  core_query_subgraph :: "kstruct \<Rightarrow> subgraph_query \<Rightarrow> exn + kstruct"
  root_hash :: "kstruct \<Rightarrow> string"

section \<open>Equality of values\<close>

text \<open>
  Python's \<open>==\<close>: numbers by value, whatever their type, and dictionaries whatever the order of
  their keys.  Two values are equal if their normal forms are.
\<close>

fun pynorm :: "pyval \<Rightarrow> pyval" where
  "pynorm (PBool b) = PFloat (if b then 1 else 0)"
| "pynorm (PInt i) = PFloat (rat_of_int i)"
| "pynorm (PList xs) = PList (map pynorm xs)"
| "pynorm (PDict d) = PDict (sort_key fst (map (\<lambda>(k, v). (k, pynorm v)) d))"
| "pynorm PNone = PNone"
| "pynorm (PFloat r) = PFloat r"
| "pynorm (PStr s) = PStr s"

text \<open>The value of a key, up to equality; \<open>None\<close> is the marker for an absent key.\<close>

definition field_of :: "(string, pyval) dict \<Rightarrow> string \<Rightarrow> pyval option" where
  "field_of d k = map_option pynorm (dget d k)"

definition structures_equal :: "(string, pyval) dict \<Rightarrow> (string, pyval) dict \<Rightarrow> bool" where
  "structures_equal s t = list_all (\<lambda>k. field_of s k = field_of t k) (dkeys s @ dkeys t)"

section \<open>Translation\<close>

definition translate_diagnostic :: "cks_diagnostic \<Rightarrow> diagnostic" where
  "translate_diagnostic d =
     \<lparr>message = cd_message d, source = SourceCore, severity = cd_severity d, code = Some (cd_identity d),
      diagnostic_metadata =
        (case cd_location d of
           None \<Rightarrow> cd_metadata d
         | Some l \<Rightarrow> if dhas (cd_metadata d) ''location'' then cd_metadata d else dset (cd_metadata d) ''location'' (PStr l))\<rparr>"

definition adapter_validate :: "cks_core \<Rightarrow> kstruct \<Rightarrow> pyval option \<Rightarrow> exn + validation_result option" where
  "adapter_validate cc ks extra_constraints =
     (case core_validate cc ks extra_constraints of
        Inl e \<Rightarrow> Inl e
      | Inr (ok, ds) \<Rightarrow> Inr (Some \<lparr>valid = ok, diagnostics = map (\<lambda>d. Diag (translate_diagnostic d)) ds\<rparr>))"

definition adapter_explain :: "cks_core \<Rightarrow> kstruct \<Rightarrow> exn + pyval" where
  "adapter_explain cc ks =
     (case core_inspect cc ks of
        Inl e \<Rightarrow> Inl e
      | Inr summary \<Rightarrow>
          Inr (PDict [(''object_count'', PInt (int (length (ks_objects ks)))),
                      (''relation_count'', PInt (int (length (filter (\<lambda>k. ko_relation k \<noteq> None) (ks_objects ks))))),
                      (''summary'', summary)]))"

definition adapter_merge ::
  "cks_core \<Rightarrow> kstruct \<Rightarrow> kstruct \<Rightarrow> kstruct \<Rightarrow> (string, kobj) dict option \<Rightarrow> exn + kstruct" where
  "adapter_merge cc base branch_a branch_b resolutions =
     (case core_merge cc base branch_a branch_b resolutions of
        Merged ks \<Rightarrow> Inr ks
      | MergeConflicts cs \<Rightarrow> Inl (RuntimeMergeConflictError cs)
      | MergeRaises e \<Rightarrow> Inl e)"

section \<open>The difference field by field\<close>

definition plain_operation :: "string \<Rightarrow> string \<Rightarrow> field_operation" where
  "plain_operation oid op_type =
     \<lparr>fo_object_id = oid, fo_op_type = op_type, fo_field_key = None, fo_field_value = PNone, fo_version_id = None\<rparr>"

definition is_relation :: "kobj option \<Rightarrow> bool" where
  "is_relation k = (case k of None \<Rightarrow> False | Some k \<Rightarrow> ko_relation k \<noteq> None)"

definition object_structure :: "kobj option \<Rightarrow> (string, pyval) dict" where
  "object_structure k = (case k of None \<Rightarrow> [] | Some k \<Rightarrow> ko_structure k)"

definition field_change :: "string \<Rightarrow> (string, pyval) dict \<Rightarrow> (string, pyval) dict \<Rightarrow> string \<Rightarrow> field_operation list" where
  "field_change oid s t key =
     (case dget t key of
        None \<Rightarrow> [(plain_operation oid ''delete_field'')\<lparr>fo_field_key := Some key\<rparr>]
      | Some v \<Rightarrow>
          if field_of s key \<noteq> field_of t key
          then [(plain_operation oid ''set_field'')\<lparr>fo_field_key := Some key, fo_field_value := v\<rparr>] else [])"

definition object_changes :: "string \<Rightarrow> kobj option \<Rightarrow> kobj option \<Rightarrow> field_operation list" where
  "object_changes oid source_obj target_obj =
     (let s = object_structure source_obj; t = object_structure target_obj
      in if structures_equal s t then []
         else if is_relation source_obj \<or> is_relation target_obj
              then [plain_operation oid ''remove_relation'', plain_operation oid ''add_relation'']
              else concat (map (field_change oid s t) (sort (remdups (dkeys s @ dkeys t)))))"

definition field_diff :: "cks_core \<Rightarrow> kstruct \<Rightarrow> kstruct \<Rightarrow> field_operation list" where
  "field_diff cc src target =
     (let source_ids = map obj_id (ks_objects src);
          target_ids = map obj_id (ks_objects target);
          removed = sort (remdups (filter (\<lambda>i. i \<notin> set target_ids) source_ids));
          added = sort (remdups (filter (\<lambda>i. i \<notin> set source_ids) target_ids));
          common = sort (remdups (filter (\<lambda>i. i \<in> set target_ids) source_ids))
      in map (\<lambda>i. plain_operation i (if is_relation (structure_get cc src i) then ''remove_relation'' else ''remove_object'')) removed @
         map (\<lambda>i. plain_operation i (if is_relation (structure_get cc target i) then ''add_relation'' else ''add_object'')) added @
         concat (map (\<lambda>i. object_changes i (structure_get cc src i) (structure_get cc target i)) common))"

section \<open>Merging fields\<close>

text \<open>Both kinds of field operation name a key; one without a key is left out of account.\<close>

fun apply_fields :: "string \<Rightarrow> field_operation list \<Rightarrow> (string, pyval) dict \<Rightarrow> exn + (string, pyval) dict" where
  "apply_fields oid [] st = Inr st"
| "apply_fields oid (p # ps) st =
     (if fo_object_id p \<noteq> oid then Inl ValueError
      else if fo_op_type p = ''delete_field''
           then apply_fields oid ps (case fo_field_key p of None \<Rightarrow> st | Some k \<Rightarrow> dpop st k)
      else if fo_op_type p = ''set_field''
           then apply_fields oid ps (case fo_field_key p of None \<Rightarrow> st | Some k \<Rightarrow> dset st k (fo_field_value p))
      else Inl ValueError)"

definition synthesize_merge :: "cks_core \<Rightarrow> kobj option \<Rightarrow> field_operation list \<Rightarrow> exn + kobj" where
  "synthesize_merge cc base_object ops =
     (case base_object of
        None \<Rightarrow> Inl ValueError
      | Some base \<Rightarrow>
          (case apply_fields (obj_id base) ops (ko_structure base) of
             Inl e \<Rightarrow> Inl e
           | Inr new_structure \<Rightarrow>
               (case update_object cc (obj_id base) new_structure (make_structure cc [base]) of
                  Inl e \<Rightarrow> Inl e
                | Inr updated \<Rightarrow>
                    (case structure_get cc updated (obj_id base) of None \<Rightarrow> Inl KeyError | Some k \<Rightarrow> Inr k))))"

section \<open>The plug-in\<close>

definition cks_adapter :: "cks_core \<Rightarrow> core_impl" where
  "cks_adapter cc =
     \<lparr>c_validate = adapter_validate cc, c_evolve = core_compose cc, c_serialize = (\<lambda>ks. Inr (serialize_structure cc ks)),
      c_explain = adapter_explain cc, c_diff = core_diff cc, c_explain_inference = Some (core_explain_inference cc),
      c_field_diff = Some (\<lambda>src target. Inr (field_diff cc src target)),
      c_synthesize_merge = Some (\<lambda>base ops. synthesize_merge cc (Some base) ops),
      c_merge = Some (adapter_merge cc), c_query_subgraph = Some (core_query_subgraph cc),
      c_hash = Some (\<lambda>ks. Inr (root_hash cc ks))\<rparr>"

section \<open>What a difference does to a structure\<close>

definition field_keys :: "field_operation list \<Rightarrow> string set" where
  "field_keys ps = {k. Some k \<in> set (map fo_field_key ps)}"

lemma field_keys_simps [simp]:
  "field_keys [] = {}" "field_keys (ps @ qs) = field_keys ps \<union> field_keys qs"
  by (auto simp: field_keys_def)

text \<open>The values of the keys that some operations name are those of a structure, the others stay.\<close>

definition writes_of :: "string \<Rightarrow> field_operation list \<Rightarrow> (string \<Rightarrow> pyval option) \<Rightarrow> bool" where
  "writes_of oid ps val \<longleftrightarrow>
     (\<forall>st. \<exists>st'. apply_fields oid ps st = Inr st' \<and>
        (\<forall>k. field_of st' k = (if k \<in> field_keys ps then val k else field_of st k)))"

lemma field_of_dset [simp]: "field_of (dset st k v) k' = (if k' = k then Some (pynorm v) else field_of st k')"
  by (simp add: field_of_def)

lemma field_of_dpop [simp]: "field_of (dpop st k) k' = (if k' = k then None else field_of st k')"
  by (simp add: field_of_def)

lemma apply_fields_append:
  "apply_fields oid (ps @ qs) st = (case apply_fields oid ps st of Inl e \<Rightarrow> Inl e | Inr st' \<Rightarrow> apply_fields oid qs st')"
  by (induction oid ps st rule: apply_fields.induct) auto

lemma writes_of_Nil [simp]: "writes_of oid [] val"
  by (simp add: writes_of_def)

lemma writes_of_append:
  assumes "writes_of oid ps val" and "writes_of oid qs val'"
  shows "writes_of oid (ps @ qs) (\<lambda>k. if k \<in> field_keys qs then val' k else val k)"
  unfolding writes_of_def
proof
  fix st
  obtain st1 where 1: "apply_fields oid ps st = Inr st1" "\<And>k. field_of st1 k = (if k \<in> field_keys ps then val k else field_of st k)"
    using assms(1) unfolding writes_of_def by metis
  obtain st2 where 2: "apply_fields oid qs st1 = Inr st2" "\<And>k. field_of st2 k = (if k \<in> field_keys qs then val' k else field_of st1 k)"
    using assms(2) unfolding writes_of_def by metis
  show "\<exists>st'. apply_fields oid (ps @ qs) st = Inr st' \<and>
      (\<forall>k. field_of st' k = (if k \<in> field_keys (ps @ qs) then if k \<in> field_keys qs then val' k else val k else field_of st k))"
    using 1 2 by (intro exI [of _ st2]) (auto simp: apply_fields_append)
qed

lemma writes_of_cong:
  "writes_of oid ps val \<Longrightarrow> (\<And>k. k \<in> field_keys ps \<Longrightarrow> val k = val' k) \<Longrightarrow> writes_of oid ps val'"
  unfolding writes_of_def by (simp cong: if_cong)

lemma field_change_writes:
  assumes "k \<in> set (dkeys s @ dkeys t)"
  shows "writes_of oid (field_change oid s t k) (field_of t)"
    and "field_keys (field_change oid s t k) = (if field_of s k = field_of t k then {} else {k})"
proof -
  have "dget t k = None \<Longrightarrow> dget s k \<noteq> None"
    using assms by (auto simp: dhas_iff [symmetric] dhas_def)
  then show "writes_of oid (field_change oid s t k) (field_of t)"
    "field_keys (field_change oid s t k) = (if field_of s k = field_of t k then {} else {k})"
    by (auto simp: writes_of_def field_change_def plain_operation_def field_keys_def field_of_def split: option.splits)
qed

lemma concat_field_changes:
  assumes "set ks \<subseteq> set (dkeys s @ dkeys t)"
  shows "writes_of oid (concat (map (field_change oid s t) ks)) (field_of t)"
    and "field_keys (concat (map (field_change oid s t) ks)) = {k \<in> set ks. field_of s k \<noteq> field_of t k}"
proof -
  show "writes_of oid (concat (map (field_change oid s t) ks)) (field_of t)"
    using assms
  proof (induction ks)
    case (Cons k ks)
    then have "writes_of oid (field_change oid s t k @ concat (map (field_change oid s t) ks))
        (\<lambda>k'. if k' \<in> field_keys (concat (map (field_change oid s t) ks)) then field_of t k' else field_of t k')"
      using field_change_writes(1) by (intro writes_of_append) auto
    then show ?case
      by simp
  qed simp
  show "field_keys (concat (map (field_change oid s t) ks)) = {k \<in> set ks. field_of s k \<noteq> field_of t k}"
    using assms by (induction ks) (auto simp: field_change_writes(2))
qed

text \<open>The changes of an object that is no relation: the keys named are those whose values differ.\<close>

lemma object_changes_writes:
  assumes "\<not> is_relation a" and "\<not> is_relation b"
  shows "writes_of oid (object_changes oid a b) (field_of (object_structure b))"
    and "field_keys (object_changes oid a b) = {k. field_of (object_structure a) k \<noteq> field_of (object_structure b) k}"
proof -
  let ?s = "object_structure a" and ?t = "object_structure b"
  let ?ks = "sort (remdups (dkeys ?s @ dkeys ?t))"
  have outside: "field_of ?s k = field_of ?t k" if "k \<notin> set (dkeys ?s @ dkeys ?t)" for k
    using that by (simp add: field_of_def flip: dhas_iff) (simp add: dhas_def)
  show "writes_of oid (object_changes oid a b) (field_of (object_structure b))"
    using assms concat_field_changes(1) [of ?ks ?s ?t] by (simp add: object_changes_def Let_def)
  show "field_keys (object_changes oid a b) = {k. field_of (object_structure a) k \<noteq> field_of (object_structure b) k}"
    using assms concat_field_changes(2) [of ?ks ?s ?t] outside
    by (auto simp: object_changes_def Let_def structures_equal_def list_all_iff)
qed

lemma object_changes_edits:
  assumes "\<not> is_relation a" and "\<not> is_relation b" and "p \<in> set (object_changes oid a b)"
  shows "fo_object_id p = oid \<and> is_field_edit p"
  using assms by (auto simp: object_changes_def Let_def field_change_def plain_operation_def is_field_edit_def
      split: if_splits option.splits)

lemma object_changes_id: "p \<in> set (object_changes oid a b) \<Longrightarrow> fo_object_id p = oid"
  by (auto simp: object_changes_def Let_def field_change_def plain_operation_def split: if_splits option.splits)

section \<open>The log of a branch\<close>

text \<open>The operations on an object that the commits of a branch log, over the states it goes through.\<close>

fun field_log :: "cks_core \<Rightarrow> string \<Rightarrow> kstruct \<Rightarrow> kstruct list \<Rightarrow> field_operation list" where
  "field_log cc oid ks [] = []"
| "field_log cc oid ks (ks' # rest) = filter (\<lambda>p. fo_object_id p = oid) (field_diff cc ks ks') @ field_log cc oid ks' rest"

text \<open>The object is in a structure, and is no relation.\<close>

definition plain_in :: "cks_core \<Rightarrow> string \<Rightarrow> kstruct \<Rightarrow> bool" where
  "plain_in cc oid ks \<longleftrightarrow> oid \<in> set (map obj_id (ks_objects ks)) \<and> \<not> is_relation (structure_get cc ks oid)"

definition fields_in :: "cks_core \<Rightarrow> string \<Rightarrow> kstruct \<Rightarrow> string \<Rightarrow> pyval option" where
  "fields_in cc oid ks = field_of (object_structure (structure_get cc ks oid))"

lemma filter_concat_one:
  assumes "distinct xs" and "x \<in> set xs" and "\<And>y p. p \<in> set (f y) \<Longrightarrow> key p = y"
  shows "filter (\<lambda>p. key p = x) (concat (map f xs)) = f x"
proof -
  have other: "filter (\<lambda>p. key p = x) (f y) = (if y = x then f x else [])" for y
    using assms(3) [of _ y] by (auto simp: filter_empty_conv filter_id_conv)
  show ?thesis
    using assms(1,2)
  proof (induction xs)
    case (Cons y ys)
    have "filter (\<lambda>p. key p = x) (concat (map f ys)) = []" if "x \<notin> set ys"
      using assms(3) that by (auto simp: filter_empty_conv)
    then show ?case
      using Cons other [of y] by auto
  qed simp
qed

lemma field_diff_of_object:
  assumes "plain_in cc oid ks" and "plain_in cc oid ks'"
  shows "filter (\<lambda>p. fo_object_id p = oid) (field_diff cc ks ks') = object_changes oid (structure_get cc ks oid) (structure_get cc ks' oid)"
proof -
  let ?ids = "map obj_id (ks_objects ks)" and ?ids' = "map obj_id (ks_objects ks')"
  have ids: "oid \<in> set ?ids" "oid \<in> set ?ids'"
    using assms by (auto simp: plain_in_def)
  have "filter (\<lambda>p. fo_object_id p = oid) (concat (map (\<lambda>i. object_changes i (structure_get cc ks i) (structure_get cc ks' i))
      (sort (remdups (filter (\<lambda>i. i \<in> set ?ids') ?ids))))) = object_changes oid (structure_get cc ks oid) (structure_get cc ks' oid)"
    using ids object_changes_id by (intro filter_concat_one) auto
  moreover have "filter (\<lambda>p. fo_object_id p = oid) (map (\<lambda>i. plain_operation i (f i)) xs) = []" if "oid \<notin> set xs" for f xs
    using that by (auto simp: filter_empty_conv plain_operation_def)
  ultimately show ?thesis
    using ids unfolding field_diff_def Let_def filter_append by simp
qed

lemma field_log_writes:
  assumes "list_all (plain_in cc oid) (ks # path)"
  shows "writes_of oid (field_log cc oid ks path) (fields_in cc oid (last (ks # path))) \<and>
    (\<forall>k. k \<notin> field_keys (field_log cc oid ks path) \<longrightarrow> fields_in cc oid (last (ks # path)) k = fields_in cc oid ks k) \<and>
    list_all is_field_edit (field_log cc oid ks path)"
  using assms
proof (induction path arbitrary: ks)
  case (Cons ks' path)
  let ?a = "structure_get cc ks oid" and ?b = "structure_get cc ks' oid"
  let ?last = "last (ks' # path)"
  have rest: "list_all (plain_in cc oid) (ks' # path)"
    using Cons.prems by simp
  have rel: "\<not> is_relation ?a" "\<not> is_relation ?b"
    using Cons.prems by (simp_all add: plain_in_def)
  have log: "field_log cc oid ks (ks' # path) = object_changes oid ?a ?b @ field_log cc oid ks' path"
    using field_diff_of_object [of cc oid ks ks'] Cons.prems by simp
  note ch = object_changes_writes [OF rel, of oid] and ih = Cons.IH [OF rest]
  have "writes_of oid (object_changes oid ?a ?b @ field_log cc oid ks' path)
      (\<lambda>k. if k \<in> field_keys (field_log cc oid ks' path) then fields_in cc oid ?last k else fields_in cc oid ks' k)"
    using writes_of_append [OF ch(1) conjunct1 [OF ih]] by (simp add: fields_in_def cong: if_cong)
  then have "writes_of oid (field_log cc oid ks (ks' # path)) (fields_in cc oid ?last)"
    unfolding log by (rule writes_of_cong) (use ih in auto)
  moreover have "fields_in cc oid ?last k = fields_in cc oid ks k" if "k \<notin> field_keys (field_log cc oid ks (ks' # path))" for k
    using that ih ch(2) unfolding log by (auto simp: fields_in_def)
  moreover have "list_all is_field_edit (field_log cc oid ks (ks' # path))"
    using ih object_changes_edits [OF rel] unfolding log by (auto simp: list_all_iff)
  ultimately show ?case
    by simp
qed simp

section \<open>Properties\<close>

text \<open>What is relied on of \<open>cks\<close>: replacing the structure of an object that is no relation gives
  the object that structure and keeps its identity.\<close>

definition update_replaces :: "cks_core \<Rightarrow> bool" where
  "update_replaces cc \<longleftrightarrow>
     (\<forall>k st. ko_relation k = None \<longrightarrow>
        (\<exists>ks k'. update_object cc (obj_id k) st (make_structure cc [k]) = Inr ks \<and> structure_get cc ks (obj_id k) = Some k' \<and>
           ko_structure k' = st \<and> ko_identity k' = ko_identity k))"

text \<open>C23: Merging from the operation log is a three-way merge of fields: when two branches start
  from one state and an object stays a plain object in every state of both, the object made of
  the base and the operations the commits of both branches logged for it has, for every key
  that the first branch changed, its value in the first branch, for every key that the second
  changed, its value in the second, and the base's value elsewhere, provided that the logs
  share no key; the identity is the base's.\<close>

theorem logged_fields_merge:
  assumes "update_replaces cc" and "list_all (plain_in cc oid) (base # as)" and "list_all (plain_in cc oid) (base # bs)"
    and "structure_get cc base oid = Some k" and "obj_id k = oid"
    and "\<not> share_a_key (field_log cc oid base as) (field_log cc oid base bs)"
  shows "\<exists>m. synthesize_merge cc (Some k) (field_log cc oid base as @ field_log cc oid base bs) = Inr m \<and> ko_identity m = ko_identity k \<and>
    (\<forall>key. field_of (ko_structure m) key =
       (if fields_in cc oid (last (base # as)) key \<noteq> fields_in cc oid base key then fields_in cc oid (last (base # as)) key
        else fields_in cc oid (last (base # bs)) key))"
proof -
  let ?a = "field_log cc oid base as" and ?b = "field_log cc oid base bs"
  note a = field_log_writes [OF assms(2)] and b = field_log_writes [OF assms(3)]
  have disjoint: "field_keys ?a \<inter> field_keys ?b = {}"
    using assms(6) by (auto simp: share_a_key_def list_ex_iff field_keys_def) (metis image_eqI)
  have base: "fields_in cc oid base = field_of (ko_structure k)"
    using assms(4) by (simp add: fields_in_def object_structure_def)
  have rel: "ko_relation k = None"
    using assms(2,4) by (cases "ko_relation k") (simp_all add: plain_in_def is_relation_def)
  obtain st where st: "apply_fields (obj_id k) (?a @ ?b) (ko_structure k) = Inr st"
    "\<And>key. field_of st key = (if key \<in> field_keys (?a @ ?b)
       then if key \<in> field_keys ?b then fields_in cc oid (last (base # bs)) key else fields_in cc oid (last (base # as)) key
       else field_of (ko_structure k) key)"
    using writes_of_append [OF conjunct1 [OF a] conjunct1 [OF b]] assms(5) unfolding writes_of_def by metis
  obtain ks m where m: "update_object cc (obj_id k) st (make_structure cc [k]) = Inr ks" "structure_get cc ks (obj_id k) = Some m"
    "ko_structure m = st" "ko_identity m = ko_identity k"
    using assms(1) rel unfolding update_replaces_def by blast
  have "field_of st key =
      (if fields_in cc oid (last (base # as)) key \<noteq> fields_in cc oid base key then fields_in cc oid (last (base # as)) key
       else fields_in cc oid (last (base # bs)) key)" for key
    using st(2) [of key] disjoint a b base by (cases "key \<in> field_keys ?a"; cases "key \<in> field_keys ?b") auto
  then show ?thesis
    using st(1) m by (intro exI [of _ m]) (simp add: synthesize_merge_def)
qed

text \<open>The difference does not see identities: whatever happens to the type or name of an
  object whose structure stays equal, no operation is logged for it, so a field-wise merge,
  which keeps the identity of the base, loses the change of the branch that made it.\<close>

theorem identity_changes_not_logged:
  assumes "structures_equal (object_structure (structure_get cc ks oid)) (object_structure (structure_get cc ks' oid))"
    and "oid \<in> set (map obj_id (ks_objects ks))" and "oid \<in> set (map obj_id (ks_objects ks'))"
  shows "\<forall>p \<in> set (field_diff cc ks ks'). fo_object_id p \<noteq> oid"
proof -
  have "object_changes oid (structure_get cc ks oid) (structure_get cc ks' oid) = []"
    using assms(1) by (simp add: object_changes_def Let_def)
  then have none: "fo_object_id p \<noteq> oid" if "p \<in> set (object_changes i (structure_get cc ks i) (structure_get cc ks' i))" for i p
    using that object_changes_id [OF that] by (cases "i = oid") auto
  have "oid \<notin> fo_object_id ` (\<Union>i\<in>S. set (object_changes i (structure_get cc ks i) (structure_get cc ks' i)))" for S
    using none by fastforce
  moreover have "oid \<notin> fo_object_id ` (\<lambda>i. plain_operation i (f i)) ` S" if "oid \<notin> S" for f S
    using that by (auto simp: plain_operation_def)
  ultimately have "oid \<notin> fo_object_id ` set (field_diff cc ks ks')"
    using assms(2,3) unfolding field_diff_def Let_def set_append image_Un by simp
  then show ?thesis
    by blast
qed

text \<open>The same structures with the two theorems at work: one object, two branches.\<close>

definition sample_core_objects :: cks_core where
  "sample_core_objects =
     \<lparr>make_identity = (\<lambda>_. None), make_object = (\<lambda>_ _. None), make_relation = (\<lambda>_ _ _ _. None), serialize_structure = (\<lambda>_. []),
      parse_structure = (\<lambda>_. None), structure_get = (\<lambda>ks oid. find (\<lambda>k. obj_id k = oid) (ks_objects ks)),
      make_structure = (\<lambda>ks. \<lparr>ks_objects = ks\<rparr>), str_of = (\<lambda>_. []),
      core_validate = (\<lambda>_ _. Inl OtherException), core_compose = (\<lambda>_ _. Inl OtherException), core_inspect = (\<lambda>_. Inl OtherException),
      core_explain_inference = (\<lambda>_ _. Inl OtherException), core_diff = (\<lambda>_ _. Inl OtherException),
      update_object = (\<lambda>oid st ks. Inr (ks\<lparr>ks_objects := map (\<lambda>k. if obj_id k = oid then k\<lparr>ko_structure := st\<rparr> else k) (ks_objects ks)\<rparr>)),
      core_merge = (\<lambda>_ _ _ _. MergeRaises OtherException), core_query_subgraph = (\<lambda>_ _. Inl OtherException), root_hash = (\<lambda>_. [])\<rparr>"

definition item :: "string \<Rightarrow> (string, pyval) dict \<Rightarrow> kobj" where
  "item name attrs =
     \<lparr>ko_identity = \<lparr>oi_id = ''x'', oi_type = ''T'', oi_name = name\<rparr>, ko_structure = attrs, ko_hash = [], ko_relation = None\<rparr>"

definition item_state :: "string \<Rightarrow> (string, pyval) dict \<Rightarrow> kstruct" where
  "item_state name attrs = \<lparr>ks_objects = [item name attrs]\<rparr>"

lemma sample_core_replaces: "update_replaces sample_core_objects"
  by (simp add: update_replaces_def sample_core_objects_def)

theorem logged_fields_merge_witness:
  "\<exists>m. synthesize_merge sample_core_objects (Some (item ''n'' [(''a'', PInt 1), (''b'', PInt 1)]))
       (field_log sample_core_objects ''x'' (item_state ''n'' [(''a'', PInt 1), (''b'', PInt 1)]) [item_state ''n'' [(''a'', PInt 2), (''b'', PInt 1)]] @
        field_log sample_core_objects ''x'' (item_state ''n'' [(''a'', PInt 1), (''b'', PInt 1)]) [item_state ''n'' [(''a'', PInt 1)]]) = Inr m \<and>
     field_of (ko_structure m) ''a'' = Some (PFloat 2) \<and> field_of (ko_structure m) ''b'' = None"
proof -
  let ?cc = sample_core_objects
  let ?base = "item_state ''n'' [(''a'', PInt 1), (''b'', PInt 1)]"
  let ?a = "item_state ''n'' [(''a'', PInt 2), (''b'', PInt 1)]" and ?b = "item_state ''n'' [(''a'', PInt 1)]"
  have get: "structure_get ?cc (item_state n attrs) ''x'' = Some (item n attrs)" for n attrs
    by (simp add: sample_core_objects_def item_state_def item_def)
  have plain: "plain_in ?cc ''x'' (item_state n attrs)" for n attrs
    by (simp add: plain_in_def get) (simp add: item_state_def item_def is_relation_def)
  have fields: "fields_in ?cc ''x'' (item_state n attrs) = field_of attrs" for n attrs
    by (simp add: fields_in_def get object_structure_def item_def)
  have "\<not> share_a_key (field_log ?cc ''x'' ?base [?a]) (field_log ?cc ''x'' ?base [?b])"
    by code_simp
  then obtain m where "synthesize_merge ?cc (Some (item ''n'' [(''a'', PInt 1), (''b'', PInt 1)]))
      (field_log ?cc ''x'' ?base [?a] @ field_log ?cc ''x'' ?base [?b]) = Inr m"
    "\<forall>key. field_of (ko_structure m) key =
       (if fields_in ?cc ''x'' ?a key \<noteq> fields_in ?cc ''x'' ?base key then fields_in ?cc ''x'' ?a key else fields_in ?cc ''x'' ?b key)"
    using logged_fields_merge [of ?cc "''x''" ?base "[?a]" "[?b]" "item ''n'' [(''a'', PInt 1), (''b'', PInt 1)]"]
      sample_core_replaces plain get by (auto simp: item_def)
  then show ?thesis
    by (intro exI [of _ m]) (simp add: fields field_of_def dict_simps)
qed

theorem identity_changes_not_logged_witness:
  "field_diff sample_core_objects (item_state ''old'' [(''a'', PInt 1)]) (item_state ''new'' [(''a'', PInt 1)]) = [] \<and>
     ''x'' \<notin> fo_object_id ` set (field_diff sample_core_objects (item_state ''old'' [(''a'', PInt 1)]) (item_state ''new'' [(''a'', PInt 1)]))"
proof -
  let ?old = "item_state ''old'' [(''a'', PInt 1)]" and ?new = "item_state ''new'' [(''a'', PInt 1)]"
  have "\<forall>p \<in> set (field_diff sample_core_objects ?old ?new). fo_object_id p \<noteq> ''x''"
    by (rule identity_changes_not_logged)
      (simp_all add: sample_core_objects_def item_state_def item_def object_structure_def structures_equal_def field_of_def dict_simps dkeys_def)
  moreover have "field_diff sample_core_objects ?old ?new = []"
    by code_simp
  ultimately show ?thesis
    by auto
qed

end
