(* ===== verification/Postgres_Schema.thy ===== *)
theory Postgres_Schema
  imports Prelude
begin

text \<open>
  The schema of the PostgreSQL backend (\<open>storage/postgres_storage.py\<close>) and the script that
  creates it when a storage is opened.  Schema statements are transactional in PostgreSQL, so a
  rollback takes back the tables made since the last commit.
\<close>

section \<open>Schema statements\<close>

text \<open>Tables with their columns, and the names of indexes.\<close>

record catalog =
  table_columns :: "(string, string list) dict"
  index_names :: "string list"

definition empty_catalog :: catalog where
  "empty_catalog = \<lparr>table_columns = [], index_names = []\<rparr>"

text \<open>\<open>CREATE TABLE IF NOT EXISTS\<close>, \<open>CREATE INDEX IF NOT EXISTS\<close>, \<open>ALTER TABLE ... ADD COLUMN\<close>,
  and an \<open>UPDATE\<close> of a table that uses some of its columns.\<close>

datatype ddl =
    CreateTable string "string list"
  | CreateIndex string string "string list"
  | AddColumn string string
  | Backfill string "string list"

definition has_table :: "catalog \<Rightarrow> string \<Rightarrow> bool" where
  "has_table c t = dhas (table_columns c) t"

definition has_columns :: "catalog \<Rightarrow> string \<Rightarrow> string list \<Rightarrow> bool" where
  "has_columns c t cols = (case dget (table_columns c) t of None \<Rightarrow> False | Some cs \<Rightarrow> list_all (\<lambda>x. x \<in> set cs) cols)"

fun run_ddl :: "ddl \<Rightarrow> catalog \<Rightarrow> exn + catalog" where
  "run_ddl (CreateTable t cols) c = Inr (if has_table c t then c else c\<lparr>table_columns := dset (table_columns c) t cols\<rparr>)"
| "run_ddl (CreateIndex i t cols) c =
     (if \<not> has_table c t then Inl DatabaseError
      else if i \<in> set (index_names c) then Inr c
      else if has_columns c t cols then Inr (c\<lparr>index_names := index_names c @ [i]\<rparr>) else Inl DatabaseError)"
| "run_ddl (AddColumn t x) c =
     (case dget (table_columns c) t of
        None \<Rightarrow> Inl DatabaseError
      | Some cs \<Rightarrow> if x \<in> set cs then Inl DuplicateColumn else Inr (c\<lparr>table_columns := dset (table_columns c) t (cs @ [x])\<rparr>))"
| "run_ddl (Backfill t cols) c = (if has_columns c t cols then Inr c else Inl DatabaseError)"

section \<open>A connection\<close>

text \<open>What other connections see, and what this one sees before it commits.\<close>

record pg_conn =
  stored_catalog :: catalog
  working_catalog :: catalog

definition fresh_conn :: "catalog \<Rightarrow> pg_conn" where
  "fresh_conn c = \<lparr>stored_catalog = c, working_catalog = c\<rparr>"

definition execute_ddl :: "ddl \<Rightarrow> (pg_conn, unit) sx" where
  "execute_ddl d c =
     (case run_ddl d (working_catalog c) of
        Inl e \<Rightarrow> (Inl e, c)
      | Inr w \<Rightarrow> (Inr (), c\<lparr>working_catalog := w\<rparr>))"

definition commit_ddl :: "(pg_conn, unit) sx" where
  "commit_ddl = modM (\<lambda>c. c\<lparr>stored_catalog := working_catalog c\<rparr>)"

definition rollback_ddl :: "(pg_conn, unit) sx" where
  "rollback_ddl = modM (\<lambda>c. c\<lparr>working_catalog := stored_catalog c\<rparr>)"

text \<open>The block \<open>async with pool.connection()\<close> commits on its end and rolls back on an exception.\<close>

definition with_connection :: "(pg_conn, unit) sx \<Rightarrow> catalog \<Rightarrow> (exn + unit) \<times> catalog" where
  "with_connection body c =
     (case body (fresh_conn c) of
        (Inl e, k) \<Rightarrow> (Inl e, stored_catalog k)
      | (Inr _, k) \<Rightarrow> (Inr (), working_catalog k))"

fun execute_all :: "ddl list \<Rightarrow> (pg_conn, unit) sx" where
  "execute_all [] = retM ()"
| "execute_all (d # ds) = bindM (execute_ddl d) (\<lambda>_. execute_all ds)"

definition on_duplicate_column :: "(pg_conn, unit) sx \<Rightarrow> (pg_conn, unit) sx" where
  "on_duplicate_column m = catchM m (\<lambda>e. if e = DuplicateColumn then rollback_ddl else raiseM e)"

text \<open>A migration that commits itself.\<close>

definition migrate :: "ddl list \<Rightarrow> (pg_conn, unit) sx" where
  "migrate ds = on_duplicate_column (bindM (execute_all ds) (\<lambda>_. commit_ddl))"

section \<open>The statements of the backend\<close>

definition DDL_SESSIONS :: ddl where
  "DDL_SESSIONS = CreateTable ''sessions'' [''session_id'', ''data'', ''latest_version_id'', ''modified_at'']"

definition DDL_VERSIONS :: ddl where
  "DDL_VERSIONS = CreateTable ''versions'' [''version_id'', ''session_id'', ''data'']"

definition DDL_VERSIONS_IDX :: ddl where
  "DDL_VERSIONS_IDX = CreateIndex ''idx_versions_session'' ''versions'' [''session_id'']"

definition DDL_OUTBOX :: ddl where
  "DDL_OUTBOX = CreateTable ''cks_outbox_tasks''
     [''task_id'', ''task_type'', ''session_id'', ''payload'', ''status'', ''retry_count'', ''next_retry_at'',
      ''last_error'', ''claimed_at'', ''created_at'']"

definition DDL_OUTBOX_IDX :: ddl where
  "DDL_OUTBOX_IDX = CreateIndex ''idx_outbox_claimable'' ''cks_outbox_tasks'' [''status'', ''next_retry_at'', ''claimed_at'']"

definition DDL_OPLOG :: ddl where
  "DDL_OPLOG = CreateTable ''cks_operation_log''
     [''op_id'', ''session_id'', ''version_id'', ''object_id'', ''op_type'', ''field_key'', ''field_value'', ''created_at'']"

definition DDL_OPLOG_IDX :: ddl where
  "DDL_OPLOG_IDX = CreateIndex ''idx_oplog_session_object'' ''cks_operation_log'' [''session_id'', ''object_id'']"

definition DDL_IDENTITY :: ddl where
  "DDL_IDENTITY = CreateTable ''cks_runtime_identity'' [''id'', ''replica_id'']"

definition DDL_EMBED_META :: ddl where
  "DDL_EMBED_META = CreateTable ''cks_embedding_meta'' [''key'', ''value'']"

definition DDL_EMBEDDINGS_SHELL :: ddl where
  "DDL_EMBEDDINGS_SHELL = CreateTable ''cks_object_embeddings'' [''object_id'', ''session_id'', ''updated_at'']"

definition CREATE_SESSIONS_MODIFIED_AT_INDEX :: ddl where
  "CREATE_SESSIONS_MODIFIED_AT_INDEX = CreateIndex ''idx_sessions_modified_at'' ''sessions'' [''modified_at'']"

definition CREATE_ARCHIVE_SESSIONS_TABLE :: ddl where
  "CREATE_ARCHIVE_SESSIONS_TABLE = CreateTable ''archive_sessions''
     [''session_id'', ''data'', ''latest_version_id'', ''modified_at'', ''archived_at'']"

definition MIGRATE_SESSIONS_MODIFIED_AT :: ddl where
  "MIGRATE_SESSIONS_MODIFIED_AT = AddColumn ''sessions'' ''modified_at''"

definition DDL_GRAPH_REGISTRY :: ddl where
  "DDL_GRAPH_REGISTRY = CreateTable ''graph_registry''
     [''name'', ''session_id'', ''description'', ''tags'', ''created_at'', ''updated_at'']"

definition MIGRATE_GRAPH_REGISTRY_PUBLIC :: ddl where
  "MIGRATE_GRAPH_REGISTRY_PUBLIC = AddColumn ''graph_registry'' ''public''"

definition MIGRATE_GRAPH_REGISTRY_SOURCE_GRAPH_NAME :: ddl where
  "MIGRATE_GRAPH_REGISTRY_SOURCE_GRAPH_NAME = AddColumn ''graph_registry'' ''source_graph_name''"

definition MIGRATE_GRAPH_REGISTRY_VISIBILITY :: ddl where
  "MIGRATE_GRAPH_REGISTRY_VISIBILITY = AddColumn ''graph_registry'' ''visibility''"

definition MIGRATE_GRAPH_REGISTRY_VISIBILITY_BACKFILL :: ddl where
  "MIGRATE_GRAPH_REGISTRY_VISIBILITY_BACKFILL = Backfill ''graph_registry'' [''visibility'', ''public'']"

definition MIGRATE_GRAPH_REGISTRY_TEAM :: ddl where
  "MIGRATE_GRAPH_REGISTRY_TEAM = AddColumn ''graph_registry'' ''team''"

definition MIGRATE_GRAPH_REGISTRY_LIFECYCLE_STATE :: ddl where
  "MIGRATE_GRAPH_REGISTRY_LIFECYCLE_STATE = AddColumn ''graph_registry'' ''lifecycle_state''"

definition MIGRATE_GRAPH_REGISTRY_LIFECYCLE_STATE_BACKFILL :: ddl where
  "MIGRATE_GRAPH_REGISTRY_LIFECYCLE_STATE_BACKFILL = Backfill ''graph_registry'' [''lifecycle_state'', ''visibility'']"

definition DDL_AGENT_LIVENESS :: ddl where
  "DDL_AGENT_LIVENESS = CreateTable ''cks_agent_liveness''
     [''instance_id'', ''process_kind'', ''hostname'', ''pid'', ''liveness_interval_s'', ''started_at'',
      ''last_heartbeat_at'', ''current_task_id'', ''current_task_type'']"

definition DDL_AGENT_LIVENESS_INDEX :: ddl where
  "DDL_AGENT_LIVENESS_INDEX =
     CreateIndex ''idx_agent_liveness_kind'' ''cks_agent_liveness'' [''process_kind'', ''last_heartbeat_at'']"

definition MIGRATE_AGENT_LIVENESS_DESIRED_STATE :: ddl where
  "MIGRATE_AGENT_LIVENESS_DESIRED_STATE = AddColumn ''cks_agent_liveness'' ''desired_state''"

definition DDL_SWEEPER_CONTROL :: ddl where
  "DDL_SWEEPER_CONTROL = CreateTable ''cks_sweeper_control'' [''agent_id'', ''desired_running'', ''updated_at'']"

lemmas ddl_defs =
  DDL_SESSIONS_def DDL_VERSIONS_def DDL_VERSIONS_IDX_def DDL_OUTBOX_def DDL_OUTBOX_IDX_def DDL_OPLOG_def DDL_OPLOG_IDX_def
  DDL_IDENTITY_def DDL_EMBED_META_def DDL_EMBEDDINGS_SHELL_def CREATE_SESSIONS_MODIFIED_AT_INDEX_def
  CREATE_ARCHIVE_SESSIONS_TABLE_def MIGRATE_SESSIONS_MODIFIED_AT_def

lemmas registry_ddl_defs =
  DDL_GRAPH_REGISTRY_def MIGRATE_GRAPH_REGISTRY_PUBLIC_def MIGRATE_GRAPH_REGISTRY_SOURCE_GRAPH_NAME_def
  MIGRATE_GRAPH_REGISTRY_VISIBILITY_def MIGRATE_GRAPH_REGISTRY_VISIBILITY_BACKFILL_def MIGRATE_GRAPH_REGISTRY_TEAM_def
  MIGRATE_GRAPH_REGISTRY_LIFECYCLE_STATE_def MIGRATE_GRAPH_REGISTRY_LIFECYCLE_STATE_BACKFILL_def

lemmas agent_ddl_defs =
  DDL_AGENT_LIVENESS_def DDL_AGENT_LIVENESS_INDEX_def MIGRATE_AGENT_LIVENESS_DESIRED_STATE_def DDL_SWEEPER_CONTROL_def

section \<open>Opening a storage\<close>

text \<open>The parts of \<open>_create_tables\<close>, in order; only the third has a migration without a commit.\<close>

definition core_tables :: "(pg_conn, unit) sx" where
  "core_tables =
     bindM (execute_all [DDL_SESSIONS, DDL_VERSIONS, DDL_VERSIONS_IDX, DDL_OUTBOX, DDL_OUTBOX_IDX, DDL_OPLOG, DDL_OPLOG_IDX,
       DDL_IDENTITY, DDL_EMBED_META, DDL_EMBEDDINGS_SHELL]) (\<lambda>_. commit_ddl)"

definition archive_tables :: "(pg_conn, unit) sx" where
  "archive_tables =
     bindM (execute_all [CREATE_ARCHIVE_SESSIONS_TABLE, CREATE_SESSIONS_MODIFIED_AT_INDEX]) (\<lambda>_.
     on_duplicate_column (execute_ddl MIGRATE_SESSIONS_MODIFIED_AT))"

definition graph_tables :: "(pg_conn, unit) sx" where
  "graph_tables =
     bindM (execute_ddl DDL_GRAPH_REGISTRY) (\<lambda>_.
     bindM commit_ddl (\<lambda>_.
     bindM (migrate [MIGRATE_GRAPH_REGISTRY_PUBLIC]) (\<lambda>_.
     bindM (migrate [MIGRATE_GRAPH_REGISTRY_SOURCE_GRAPH_NAME]) (\<lambda>_.
     bindM (migrate [MIGRATE_GRAPH_REGISTRY_VISIBILITY, MIGRATE_GRAPH_REGISTRY_VISIBILITY_BACKFILL]) (\<lambda>_.
     bindM (migrate [MIGRATE_GRAPH_REGISTRY_TEAM]) (\<lambda>_.
     migrate [MIGRATE_GRAPH_REGISTRY_LIFECYCLE_STATE, MIGRATE_GRAPH_REGISTRY_LIFECYCLE_STATE_BACKFILL]))))))"

definition agent_tables :: "(pg_conn, unit) sx" where
  "agent_tables =
     bindM (execute_all [DDL_AGENT_LIVENESS, DDL_AGENT_LIVENESS_INDEX]) (\<lambda>_.
     bindM commit_ddl (\<lambda>_.
     bindM (migrate [MIGRATE_AGENT_LIVENESS_DESIRED_STATE]) (\<lambda>_.
     bindM (execute_ddl DDL_SWEEPER_CONTROL) (\<lambda>_. commit_ddl))))"

definition create_tables :: "catalog \<Rightarrow> (exn + unit) \<times> catalog" where
  "create_tables = with_connection
     (bindM core_tables (\<lambda>_. bindM archive_tables (\<lambda>_. bindM graph_tables (\<lambda>_. agent_tables))))"

text \<open>Any number of processes that open a storage on one database.\<close>

fun opened :: "nat \<Rightarrow> catalog \<Rightarrow> catalog" where
  "opened 0 c = c"
| "opened (Suc n) c = opened n (snd (create_tables c))"

section \<open>The archive table\<close>

text \<open>No archive table and no index over the times of the sessions, stored or about to be.\<close>

definition without_archive :: "catalog \<Rightarrow> bool" where
  "without_archive c \<longleftrightarrow> \<not> has_table c ''archive_sessions'' \<and> ''idx_sessions_modified_at'' \<notin> set (index_names c)"

definition unarchived :: "pg_conn \<Rightarrow> bool" where
  "unarchived k \<longleftrightarrow> without_archive (stored_catalog k) \<and> without_archive (working_catalog k)"

definition keeps :: "(pg_conn \<Rightarrow> bool) \<Rightarrow> (pg_conn, unit) sx \<Rightarrow> bool" where
  "keeps P m \<longleftrightarrow> (\<forall>k. P k \<longrightarrow> P (snd (m k)))"

lemma keepsD: "keeps P m \<Longrightarrow> P k \<Longrightarrow> P (snd (m k))"
  by (simp add: keeps_def)

lemma keeps_bindM: "keeps P m \<Longrightarrow> (\<And>x. keeps P (f x)) \<Longrightarrow> keeps P (bindM m f)"
  unfolding keeps_def bindM_def by (fastforce split: prod.splits sum.splits)

lemma keeps_execute_all: "list_all (\<lambda>d. keeps P (execute_ddl d)) ds \<Longrightarrow> keeps P (execute_all ds)"
proof (induction ds)
  case Nil
  then show ?case
    by (simp add: keeps_def retM_def)
next
  case (Cons d ds)
  then show ?case
    by (simp add: keeps_bindM)
qed

lemma keeps_commit: "keeps unarchived commit_ddl"
  by (simp add: keeps_def commit_ddl_def modM_def unarchived_def)

lemma keeps_on_duplicate: "keeps unarchived m \<Longrightarrow> keeps unarchived (on_duplicate_column m)"
  unfolding keeps_def on_duplicate_column_def catchM_def rollback_ddl_def
  by (fastforce simp: modM_def raiseM_def unarchived_def split: prod.splits sum.splits)

fun unrelated :: "ddl \<Rightarrow> bool" where
  "unrelated (CreateTable t _) = (t \<noteq> ''archive_sessions'')"
| "unrelated (CreateIndex i _ _) = (i \<noteq> ''idx_sessions_modified_at'')"
| "unrelated (AddColumn t _) = (t \<noteq> ''archive_sessions'')"
| "unrelated (Backfill _ _) = True"

lemma keeps_execute: "unrelated d \<Longrightarrow> keeps unarchived (execute_ddl d)"
  by (cases d) (auto simp: keeps_def execute_ddl_def unarchived_def without_archive_def has_table_def dhas_iff split: option.splits)

lemma keeps_migrate: "list_all (\<lambda>d. keeps unarchived (execute_ddl d)) ds \<Longrightarrow> keeps unarchived (migrate ds)"
  unfolding migrate_def by (intro keeps_on_duplicate keeps_bindM keeps_execute_all keeps_commit)

lemma keeps_core: "keeps unarchived core_tables"
  unfolding core_tables_def
  by (intro keeps_bindM keeps_commit keeps_execute_all) (simp add: keeps_execute ddl_defs)

lemma keeps_graphs: "keeps unarchived graph_tables"
  unfolding graph_tables_def
  by (intro keeps_bindM keeps_commit keeps_migrate keeps_execute) (simp_all add: keeps_execute registry_ddl_defs)

lemma keeps_agents: "keeps unarchived agent_tables"
  unfolding agent_tables_def
  by (intro keeps_bindM keeps_commit keeps_execute_all keeps_migrate keeps_execute) (simp_all add: keeps_execute agent_ddl_defs)

text \<open>The migration that follows the archive table finds its column already there, and its
  rollback takes the table back; without the column the index before it fails.\<close>

lemma archive_tables_stored: "stored_catalog (snd (archive_tables k)) = stored_catalog k"
  by (auto simp: archive_tables_def bindM_def on_duplicate_column_def catchM_def rollback_ddl_def raiseM_def modM_def
      execute_ddl_def retM_def split: sum.splits prod.splits)

lemma archive_tables_rolls_back:
  assumes "''idx_sessions_modified_at'' \<notin> set (index_names (working_catalog k))" and "archive_tables k = (Inr (), k')"
  shows "working_catalog k' = stored_catalog k"
proof -
  let ?w = "working_catalog k"
  obtain c where c: "run_ddl CREATE_ARCHIVE_SESSIONS_TABLE ?w = Inr c" "index_names c = index_names ?w"
    by (simp add: CREATE_ARCHIVE_SESSIONS_TABLE_def)
  consider e where "run_ddl CREATE_SESSIONS_MODIFIED_AT_INDEX c = Inl e"
    | c' where "run_ddl CREATE_SESSIONS_MODIFIED_AT_INDEX c = Inr c'" "table_columns c' = table_columns c"
      "has_columns c ''sessions'' [''modified_at'']"
    using assms(1) c(2) that by (cases "has_columns c ''sessions'' [''modified_at'']")
      (fastforce simp: CREATE_SESSIONS_MODIFIED_AT_INDEX_def has_columns_def has_table_def dhas_def split: option.splits)+
  then show ?thesis
  proof cases
    case 1
    then show ?thesis
      using assms(2) c(1) by (simp add: archive_tables_def bindM_def execute_ddl_def)
  next
    case 2
    then have "run_ddl MIGRATE_SESSIONS_MODIFIED_AT c' = Inl DuplicateColumn"
      by (auto simp: MIGRATE_SESSIONS_MODIFIED_AT_def has_columns_def split: option.splits)
    then show ?thesis
      using assms(2) c(1) 2(1)
      by (auto simp: archive_tables_def bindM_def execute_ddl_def retM_def on_duplicate_column_def catchM_def rollback_ddl_def modM_def)
  qed
qed

lemma keeps_archive_tables: "unarchived k \<Longrightarrow> archive_tables k = (Inr (), k') \<Longrightarrow> unarchived k'"
  using archive_tables_rolls_back [of k k'] archive_tables_stored [of k] by (auto simp: unarchived_def without_archive_def)

lemma create_tables_without_archive:
  assumes "without_archive c"
  shows "without_archive (snd (create_tables c))"
proof -
  obtain r k where 1: "core_tables (fresh_conn c) = (r, k)" "unarchived k"
    using keepsD [OF keeps_core, of "fresh_conn c"] assms
    by (cases "core_tables (fresh_conn c)") (simp add: unarchived_def fresh_conn_def)
  obtain r' k' where 2: "archive_tables k = (r', k')"
    by fastforce
  have rest: "keeps unarchived (bindM graph_tables (\<lambda>_. agent_tables))"
    by (intro keeps_bindM keeps_graphs keeps_agents)
  have stored: "without_archive (stored_catalog k')"
    using archive_tables_stored [of k] 1(2) 2 by (simp add: unarchived_def)
  show ?thesis
  proof (cases r)
    case (Inl e)
    then show ?thesis
      using 1 by (simp add: create_tables_def with_connection_def bindM_def unarchived_def)
  next
    case r: (Inr u)
    show ?thesis
    proof (cases r')
      case (Inl e)
      then show ?thesis
        using 1 2 r stored by (simp add: create_tables_def with_connection_def bindM_def)
    next
      case (Inr u')
      then have "unarchived (snd (bindM graph_tables (\<lambda>_. agent_tables) k'))"
        using keeps_archive_tables [OF 1(2)] 2 rest unfolding keeps_def by simp
      then show ?thesis
        using 1(1) 2 r Inr unfolding create_tables_def with_connection_def
        by (auto simp: bindM_Inr unarchived_def split: prod.splits sum.splits)
    qed
  qed
qed

lemma archive_table_never_created: "without_archive c \<Longrightarrow> without_archive (opened n c)"
  by (induction n arbitrary: c) (simp_all add: create_tables_without_archive)

text \<open>A database whose sessions table has no times yet cannot be opened at all.\<close>

definition timeless :: "pg_conn \<Rightarrow> bool" where
  "timeless k \<longleftrightarrow>
     (case dget (table_columns (working_catalog k)) ''sessions'' of None \<Rightarrow> False | Some cols \<Rightarrow> ''modified_at'' \<notin> set cols) \<and>
     ''idx_sessions_modified_at'' \<notin> set (index_names (working_catalog k))"

lemma keeps_timeless:
  "keeps timeless (execute_ddl (CreateTable t cols))"
  "i \<noteq> ''idx_sessions_modified_at'' \<Longrightarrow> keeps timeless (execute_ddl (CreateIndex i t cols))"
  by (auto simp: keeps_def execute_ddl_def timeless_def has_table_def dhas_def split: option.splits)

lemma keeps_timeless_commit: "keeps timeless commit_ddl"
  by (simp add: keeps_def commit_ddl_def modM_def timeless_def)

lemma archive_tables_timeless: "timeless k \<Longrightarrow> fst (archive_tables k) = Inl DatabaseError"
  by (auto simp: archive_tables_def bindM_def execute_ddl_def timeless_def CREATE_ARCHIVE_SESSIONS_TABLE_def
      CREATE_SESSIONS_MODIFIED_AT_INDEX_def has_table_def dhas_def has_columns_def split: option.splits)

lemma old_database_not_opened:
  assumes "timeless (fresh_conn c)"
  shows "fst (create_tables c) \<noteq> Inr ()"
proof -
  have "keeps timeless core_tables"
    unfolding core_tables_def
    by (intro keeps_bindM keeps_timeless_commit keeps_execute_all) (simp add: keeps_timeless ddl_defs)
  then have core: "timeless (snd (core_tables (fresh_conn c)))"
    using assms by (rule keepsD)
  obtain r k where 1: "core_tables (fresh_conn c) = (r, k)"
    by fastforce
  obtain k' where 2: "archive_tables k = (Inl DatabaseError, k')"
    using archive_tables_timeless core 1 by (metis prod.collapse snd_conv)
  then show ?thesis
    using 1 by (cases r) (simp_all add: create_tables_def with_connection_def bindM_def)
qed

end
