(* ===== verification/Postgres_Outbox.thy ===== *)
theory Postgres_Outbox
  imports Outbox
begin

text \<open>
  The task table of the PostgreSQL backend (\<open>storage/postgres_storage.py\<close>) and the retry around
  its transactions.  Times are instants in PostgreSQL, where SQLite compares texts.  A claim
  locks the row it takes until it commits (\<open>FOR UPDATE SKIP LOCKED\<close>), so claims of several
  workers overlap; the last part is about that.
\<close>

section \<open>Retries\<close>

text \<open>
  A connection that fails raises \<open>psycopg.OperationalError\<close>: before the transaction took effect,
  or after it did, when only the answer is lost.  The list says what happens to the attempts;
  the last exception is \<open>DatabaseError\<close>.
\<close>

datatype fault = LostBefore | LostAfter

fun retry_from :: "nat \<Rightarrow> fault list \<Rightarrow> ('s, 'a) sx \<Rightarrow> ('s, 'a) sx" where
  "retry_from attempt [] fn s = fn s"
| "retry_from attempt (LostBefore # fs) fn s =
     (if 4 \<le> attempt then (Inl DatabaseError, s) else retry_from (attempt + 1) fs fn s)"
| "retry_from attempt (LostAfter # fs) fn s =
     (case fn s of
        (Inl e, s') \<Rightarrow> (Inl e, s')
      | (Inr _, s') \<Rightarrow> if 4 \<le> attempt then (Inl DatabaseError, s') else retry_from (attempt + 1) fs fn s')"

definition pg_retry_on_transient :: "fault list \<Rightarrow> ('s, 'a) sx \<Rightarrow> ('s, 'a) sx" where
  "pg_retry_on_transient faults fn = retry_from 0 faults fn"

lemma retry_none [simp]: "pg_retry_on_transient [] fn = fn"
  by (simp add: pg_retry_on_transient_def fun_eq_iff)

lemma retry_lost_before:
  "a \<le> 4 \<Longrightarrow> retry_from a (replicate n LostBefore) fn s = (if 5 \<le> a + n then (Inl DatabaseError, s) else fn s)"
  by (induction n arbitrary: a) auto

section \<open>The task table\<close>

fun micros_of :: "stamp \<Rightarrow> nat" where
  "micros_of (SqlStamp d s) = (d * 86400 + s) * 1000000"
| "micros_of (IsoStamp d s u) = (d * 86400 + s) * 1000000 + u"

definition pg_enqueue_task :: "string \<Rightarrow> string \<Rightarrow> pyval \<Rightarrow> nat \<Rightarrow> outbox \<Rightarrow> outbox" where
  "pg_enqueue_task ty sid p now ob =
     ob\<lparr>tasks := dset (tasks ob) (next_task_id ob)
          \<lparr>task_type = ty, t_session_id = sid, payload = p, status = Pending, retry_count = 0,
           next_retry_at = sql_stamp now, last_error = None, claimed_at = None, t_created_at = now\<rparr>,
        next_task_id := next_task_id ob + 1\<rparr>"

definition pg_enqueue_outbox_task :: "string \<Rightarrow> string option \<Rightarrow> string \<Rightarrow> nat \<Rightarrow> outbox \<Rightarrow> outbox" where
  "pg_enqueue_outbox_task sid previous_version_id new_version_id now ob =
     pg_enqueue_task ''projection'' sid
       (PDict [(''previous_version_id'', opt_str previous_version_id), (''new_version_id'', PStr new_version_id)])
       now ob"

definition pg_claimable :: "nat \<Rightarrow> task \<Rightarrow> bool" where
  "pg_claimable now t \<longleftrightarrow>
     status t = Pending \<and> micros_of (next_retry_at t) \<le> now * 1000000 \<or>
     status t = InProgress \<and> (case claimed_at t of None \<Rightarrow> False | Some c \<Rightarrow> c + 300 \<le> now)"

text \<open>The row the inner \<open>SELECT\<close> locks, if the rows \<open>locked\<close> are held by other claims.\<close>

definition pg_candidates :: "nat set \<Rightarrow> string option \<Rightarrow> nat \<Rightarrow> outbox \<Rightarrow> (nat \<times> task) list" where
  "pg_candidates locked ty now ob =
     sort_key (\<lambda>(_, t). t_created_at t)
       (filter (\<lambda>(i, t). (case ty of None \<Rightarrow> True | Some x \<Rightarrow> task_type t = x) \<and> pg_claimable now t \<and> i \<notin> locked)
          (tasks ob))"

definition claim_row :: "nat \<Rightarrow> task \<Rightarrow> task" where
  "claim_row now t = t\<lparr>status := InProgress, claimed_at := Some now\<rparr>"

definition pg_dequeue_next_outbox_task :: "string option \<Rightarrow> nat \<Rightarrow> outbox \<Rightarrow> (nat \<times> task) option \<times> outbox" where
  "pg_dequeue_next_outbox_task ty now ob =
     (case pg_candidates {} ty now ob of
        [] \<Rightarrow> (None, ob)
      | (i, t) # _ \<Rightarrow> (Some (i, claim_row now t), ob\<lparr>tasks := dset (tasks ob) i (claim_row now t)\<rparr>))"

definition pg_complete_outbox_task :: "nat \<Rightarrow> outbox \<Rightarrow> outbox" where
  "pg_complete_outbox_task i ob = ob\<lparr>tasks := dpop (tasks ob) i\<rparr>"

definition pg_fail_outbox_task :: "nat \<Rightarrow> nat \<Rightarrow> exn \<Rightarrow> stamp \<Rightarrow> outbox \<Rightarrow> outbox" where
  "pg_fail_outbox_task i n e next_retry ob =
     snd (update_task i (\<lambda>_. True)
       (\<lambda>t. t\<lparr>status := Pending, retry_count := n, next_retry_at := next_retry, last_error := Some e,
              claimed_at := None\<rparr>) ob)"

definition pg_dead_letter_outbox_task :: "nat \<Rightarrow> exn \<Rightarrow> outbox \<Rightarrow> outbox" where
  "pg_dead_letter_outbox_task i e ob =
     snd (update_task i (\<lambda>_. True) (\<lambda>t. t\<lparr>status := Dead, last_error := Some e, claimed_at := None\<rparr>) ob)"

definition pg_retry_dead_letter_task :: "nat \<Rightarrow> nat \<Rightarrow> outbox \<Rightarrow> bool \<times> outbox" where
  "pg_retry_dead_letter_task i now ob =
     (case update_task i (\<lambda>t. status t = Dead)
        (\<lambda>t. t\<lparr>status := Pending, retry_count := 0, next_retry_at := sql_stamp now, last_error := None,
               claimed_at := None\<rparr>) ob of
        (n, ob') \<Rightarrow> (0 < n, ob'))"

definition pg_touch_outbox_task :: "nat \<Rightarrow> nat \<Rightarrow> outbox \<Rightarrow> bool \<times> outbox" where
  "pg_touch_outbox_task i now ob =
     (case update_task i (\<lambda>t. status t = InProgress) (\<lambda>t. t\<lparr>claimed_at := Some now\<rparr>) ob of
        (n, ob') \<Rightarrow> (0 < n, ob'))"

definition pg_list_tasks_by_type ::
  "nat set \<Rightarrow> string \<Rightarrow> string option \<Rightarrow> bool \<Rightarrow> outbox \<Rightarrow> (nat \<times> task) list \<times> outbox" where
  "pg_list_tasks_by_type locked ty sid drain ob =
     (let rows = sort_key (\<lambda>(_, t). t_created_at t)
            (filter (\<lambda>(i, t). task_type t = ty \<and> status t = Pending \<and>
                               (case sid of None \<Rightarrow> True | Some s \<Rightarrow> t_session_id t = s) \<and> i \<notin> locked) (tasks ob))
      in (rows,
          if drain \<and> rows \<noteq> [] then ob\<lparr>tasks := filter (\<lambda>(i, _). i \<notin> set (map fst rows)) (tasks ob)\<rparr> else ob))"

definition pg_list_dead_letter_tasks :: "string option \<Rightarrow> string option \<Rightarrow> outbox \<Rightarrow> (nat \<times> task) list" where
  "pg_list_dead_letter_tasks ty sid ob =
     sort_key (\<lambda>(_, t). t_created_at t)
       (filter (\<lambda>(_, t). status t = Dead \<and> (case ty of None \<Rightarrow> True | Some x \<Rightarrow> task_type t = x) \<and>
                         (case sid of None \<Rightarrow> True | Some s \<Rightarrow> t_session_id t = s)) (tasks ob))"

section \<open>The same table as on SQLite\<close>

text \<open>One call at a time, the backends differ in the test of the time of a retry only.\<close>

lemma pg_outbox_ops:
  "pg_enqueue_task = enqueue_task" "pg_enqueue_outbox_task = enqueue_outbox_task"
  "pg_complete_outbox_task = complete_outbox_task" "pg_fail_outbox_task = fail_outbox_task"
  "pg_dead_letter_outbox_task = dead_letter_outbox_task" "pg_retry_dead_letter_task = retry_dead_letter_task"
  "pg_touch_outbox_task = touch_outbox_task" "pg_list_dead_letter_tasks = list_dead_letter_tasks"
  by (simp_all add: fun_eq_iff pg_enqueue_task_def enqueue_task_def pg_enqueue_outbox_task_def enqueue_outbox_task_def
      pg_complete_outbox_task_def complete_outbox_task_def pg_fail_outbox_task_def fail_outbox_task_def
      pg_dead_letter_outbox_task_def dead_letter_outbox_task_def pg_retry_dead_letter_task_def retry_dead_letter_task_def
      pg_touch_outbox_task_def touch_outbox_task_def pg_list_dead_letter_tasks_def list_dead_letter_tasks_def)

lemma pg_list_unlocked: "pg_list_tasks_by_type {} ty sid drain ob = list_tasks_by_type ty sid drain ob"
proof -
  define rows where "rows = sort_key (\<lambda>(_, t). t_created_at t)
      (filter (\<lambda>(_, t). task_type t = ty \<and> status t = Pending \<and> (case sid of None \<Rightarrow> True | Some s \<Rightarrow> t_session_id t = s)) (tasks ob))"
  let ?rest = "ob\<lparr>tasks := filter (\<lambda>(i, _). i \<notin> set (map fst rows)) (tasks ob)\<rparr>"
  have "pg_list_tasks_by_type {} ty sid drain ob = (rows, if drain \<and> rows \<noteq> [] then ?rest else ob)"
    by (simp add: pg_list_tasks_by_type_def rows_def Let_def)
  moreover have "list_tasks_by_type ty sid drain ob = (rows, if drain then ?rest else ob)"
    by (simp add: list_tasks_by_type_def rows_def Let_def)
  moreover have "rows = [] \<Longrightarrow> filter (\<lambda>(i, _). i \<notin> set (map fst rows)) (tasks ob) = tasks ob"
    by (simp add: filter_id_conv case_prod_beta)
  ultimately show ?thesis
    by simp
qed

text \<open>The stamps the database writes; a retry time comes from Python.\<close>

fun plain_stamp :: "stamp \<Rightarrow> bool" where
  "plain_stamp (SqlStamp d s) = (s < 86400)"
| "plain_stamp (IsoStamp d s u) = False"

lemma day_order:
  assumes "s < 86400"
  shows "d * 86400 + s \<le> now \<longleftrightarrow> d < now div 86400 \<or> d = now div 86400 \<and> s \<le> now mod (86400 :: nat)"
proof -
  define q r where "q = now div 86400" and "r = now mod 86400"
  then have "now = q * 86400 + r" "r < 86400"
    by simp_all
  moreover have "d < q \<or> d = q \<or> q < d"
    by auto
  ultimately show ?thesis
    using assms unfolding q_def [symmetric] r_def [symmetric] by auto
qed

lemma pg_claimable_plain: "plain_stamp (next_retry_at t) \<Longrightarrow> pg_claimable now t = claimable now t"
proof (cases "next_retry_at t")
  case (SqlStamp d s)
  have "micros_of (SqlStamp d s) \<le> now * 1000000 \<longleftrightarrow> d * 86400 + s \<le> now"
    unfolding micros_of.simps mult_le_cancel2 by simp
  then show "plain_stamp (next_retry_at t) \<Longrightarrow> pg_claimable now t = claimable now t"
    by (simp add: SqlStamp pg_claimable_def claimable_def sql_stamp_def day_order del: micros_of.simps)
qed simp

lemma pg_claimable_retry:
  "pg_claimable now (t\<lparr>status := Pending, next_retry_at := iso_stamp retry micros\<rparr>) \<longleftrightarrow>
     retry * 1000000 + micros \<le> now * 1000000"
proof -
  have "retry div 86400 * 86400 + retry mod 86400 = retry"
    by simp
  then show ?thesis
    by (simp add: pg_claimable_def iso_stamp_def)
qed

lemma pg_dequeue_plain:
  assumes "list_all (\<lambda>(_, t). plain_stamp (next_retry_at t)) (tasks ob)"
  shows "pg_dequeue_next_outbox_task ty now ob = dequeue_next_outbox_task ty now ob"
proof -
  have "pg_candidates {} ty now ob = candidates ty now ob"
    using assms by (auto simp: pg_candidates_def candidates_def list_all_iff pg_claimable_plain intro!: arg_cong [where f = "sort_key _"]
        filter_cong)
  then show ?thesis
    by (simp add: pg_dequeue_next_outbox_task_def dequeue_next_outbox_task_def claim_row_def Let_def split: list.split)
qed

section \<open>Overlapping claims\<close>

text \<open>
  The committed table and, for each connection with an open claim, the row it has locked and
  the time of its transaction.  Until a claim commits, others see the row unchanged; a statement
  that would change a locked row waits, and happens after the commit.
\<close>

record lock_state =
  box :: outbox
  claims :: "(nat, nat \<times> nat) dict"

definition locked_rows :: "lock_state \<Rightarrow> nat set" where
  "locked_rows st = fst ` set (dvals (claims st))"

text \<open>\<open>BeginClaim c ty now\<close> is the statement, \<open>CommitClaim c\<close> its commit, after which the row is
  returned, and \<open>AbortClaim c\<close> the loss of the connection before it.\<close>

datatype lock_event =
    BeginClaim nat "string option" nat
  | CommitClaim nat
  | AbortClaim nat
  | Other nat outbox_op

definition begin_claim :: "nat \<Rightarrow> string option \<Rightarrow> nat \<Rightarrow> lock_state \<Rightarrow> lock_state" where
  "begin_claim c ty now st =
     (if dhas (claims st) c then st
      else case pg_candidates (locked_rows st) ty now (box st) of
             [] \<Rightarrow> st
           | (i, _) # _ \<Rightarrow> st\<lparr>claims := dset (claims st) c (i, now)\<rparr>)"

definition commit_claim :: "nat \<Rightarrow> lock_state \<Rightarrow> (nat \<times> task) option \<times> lock_state" where
  "commit_claim c st =
     (case dget (claims st) c of
        None \<Rightarrow> (None, st)
      | Some (i, now) \<Rightarrow>
          (case dget (tasks (box st)) i of
             None \<Rightarrow> (None, st\<lparr>claims := dpop (claims st) c\<rparr>)
           | Some t \<Rightarrow>
               (Some (i, claim_row now t),
                st\<lparr>box := (box st)\<lparr>tasks := dset (tasks (box st)) i (claim_row now t)\<rparr>, claims := dpop (claims st) c\<rparr>)))"

fun touches :: "outbox_op \<Rightarrow> nat option" where
  "touches (Complete i) = Some i"
| "touches (Fail i _ _ _) = Some i"
| "touches (DeadLetter i _) = Some i"
| "touches (RetryDead i) = Some i"
| "touches (Touch i) = Some i"
| "touches _ = None"

definition other_step :: "nat \<Rightarrow> outbox_op \<Rightarrow> lock_state \<Rightarrow> lock_state" where
  "other_step now p st =
     (case p of
        Dequeue ty \<Rightarrow> st
      | ListTasks ty sid drain \<Rightarrow> st\<lparr>box := snd (pg_list_tasks_by_type (locked_rows st) ty sid drain (box st))\<rparr>
      | _ \<Rightarrow> if (case touches p of None \<Rightarrow> False | Some i \<Rightarrow> i \<in> locked_rows st) then st
             else st\<lparr>box := outbox_step now p (box st)\<rparr>)"

text \<open>A run, with the rows that were returned.\<close>

fun lock_run :: "lock_event list \<Rightarrow> lock_state \<Rightarrow> (nat \<times> task) list \<times> lock_state" where
  "lock_run [] st = ([], st)"
| "lock_run (BeginClaim c ty now # es) st = lock_run es (begin_claim c ty now st)"
| "lock_run (AbortClaim c # es) st = lock_run es (st\<lparr>claims := dpop (claims st) c\<rparr>)"
| "lock_run (Other now p # es) st = lock_run es (other_step now p st)"
| "lock_run (CommitClaim c # es) st =
     (case commit_claim c st of (r, st') \<Rightarrow> case lock_run es st' of (rs, st'') \<Rightarrow> (case_option rs (\<lambda>x. x # rs) r, st''))"

section \<open>Leases over overlapping claims\<close>

text \<open>No two connections hold the same row.\<close>

definition lock_ok :: "lock_state \<Rightarrow> bool" where
  "lock_ok st \<longleftrightarrow>
     outbox_ok (box st) \<and> dict_ok (claims st) \<and>
     (\<forall>c d i m n. dget (claims st) c = Some (i, m) \<and> dget (claims st) d = Some (i, n) \<longrightarrow> c = d)"

lemma lock_okD: "lock_ok st \<Longrightarrow> outbox_ok (box st)" "lock_ok st \<Longrightarrow> dict_ok (claims st)"
  by (simp_all add: lock_ok_def)

lemma lock_ok_unique: "lock_ok st \<Longrightarrow> dget (claims st) c = Some (i, m) \<Longrightarrow> dget (claims st) d = Some (i, n) \<Longrightarrow> c = d"
  unfolding lock_ok_def by blast

lemma locked_rows_iff: "dict_ok (claims st) \<Longrightarrow> i \<in> locked_rows st \<longleftrightarrow> (\<exists>c n. dget (claims st) c = Some (i, n))"
  by (force simp: locked_rows_def dvals_def dget_Some_iff)

lemma outbox_ok_claim_row:
  "outbox_ok ob \<Longrightarrow> dget (tasks ob) i = Some t \<Longrightarrow> outbox_ok (ob\<lparr>tasks := dset (tasks ob) i (claim_row now t)\<rparr>)"
  by (auto simp: outbox_ok_def claim_row_def dget_Some_key)

lemma outbox_ok_filter: "outbox_ok ob \<Longrightarrow> outbox_ok (ob\<lparr>tasks := filter (\<lambda>(i, _). P i) (tasks ob)\<rparr>)"
  by (auto simp: outbox_ok_def dget_filter_key dict_ok_def dkeys_def distinct_map_filter split: if_splits)

lemma pg_list_box:
  "\<exists>P. snd (pg_list_tasks_by_type locked ty sid drain ob) = ob\<lparr>tasks := filter (\<lambda>(i, _). P i) (tasks ob)\<rparr> \<and>
     (\<forall>i t. outbox_ok ob \<longrightarrow> dget (tasks ob) i = Some t \<longrightarrow> status t \<noteq> Pending \<longrightarrow> P i)"
proof -
  define rows where "rows = fst (pg_list_tasks_by_type locked ty sid drain ob)"
  define P where "P i \<longleftrightarrow> \<not> (drain \<and> rows \<noteq> []) \<or> i \<notin> set (map fst rows)" for i
  have "snd (pg_list_tasks_by_type locked ty sid drain ob) = ob\<lparr>tasks := filter (\<lambda>(i, _). P i) (tasks ob)\<rparr>"
    by (simp add: P_def rows_def pg_list_tasks_by_type_def Let_def)
  moreover have "P i" if "outbox_ok ob" "dget (tasks ob) i = Some t" "status t \<noteq> Pending" for i t
  proof -
    have "b = t" if "(i, b) \<in> set (tasks ob)" for b
      using that \<open>outbox_ok ob\<close> \<open>dget (tasks ob) i = Some t\<close> dget_Some_iff [of "tasks ob" i b] by (simp add: outbox_ok_def)
    then show ?thesis
      using \<open>status t \<noteq> Pending\<close> by (fastforce simp: P_def rows_def pg_list_tasks_by_type_def Let_def)
  qed
  ultimately show ?thesis
    by blast
qed

lemma other_step_cases:
  "other_step now p st = st \<or> other_step now p st = st\<lparr>box := outbox_step now p (box st)\<rparr> \<or>
   (\<exists>ty sid drain. other_step now p st = st\<lparr>box := snd (pg_list_tasks_by_type (locked_rows st) ty sid drain (box st))\<rparr>)"
  by (cases p) (auto simp: other_step_def)

lemma commit_claim_cases:
  "commit_claim c st = (None, st) \<or> commit_claim c st = (None, st\<lparr>claims := dpop (claims st) c\<rparr>) \<or>
   (\<exists>i now t. dget (claims st) c = Some (i, now) \<and> dget (tasks (box st)) i = Some t \<and>
      commit_claim c st = (Some (i, claim_row now t),
        st\<lparr>box := (box st)\<lparr>tasks := dset (tasks (box st)) i (claim_row now t)\<rparr>, claims := dpop (claims st) c\<rparr>))"
  by (auto simp: commit_claim_def split: option.splits)

lemma begin_claim_cases:
  assumes "outbox_ok (box st)"
  shows "begin_claim c ty now st = st \<or>
    (\<exists>i t. dget (tasks (box st)) i = Some t \<and> pg_claimable now t \<and> i \<notin> locked_rows st \<and> dget (claims st) c = None \<and>
       begin_claim c ty now st = st\<lparr>claims := dset (claims st) c (i, now)\<rparr>)"
proof (cases "pg_candidates (locked_rows st) ty now (box st)")
  case (Cons x xs)
  then have mem: "x \<in> set (pg_candidates (locked_rows st) ty now (box st))"
    by simp
  obtain i t where x: "x = (i, t)"
    by fastforce
  have "(i, t) \<in> set (tasks (box st))" "pg_claimable now t" "i \<notin> locked_rows st"
    using mem x by (auto simp: pg_candidates_def)
  moreover from this have "dget (tasks (box st)) i = Some t"
    using assms by (simp add: outbox_ok_def dget_Some_iff)
  ultimately show ?thesis
    using Cons x by (cases "dget (claims st) c") (auto simp: begin_claim_def dhas_def)
qed (simp add: begin_claim_def)

lemma lock_ok_pop: "lock_ok st \<Longrightarrow> lock_ok (st\<lparr>claims := dpop (claims st) c\<rparr>)"
  unfolding lock_ok_def by (auto split: if_splits)

lemma lock_ok_box: "lock_ok st \<Longrightarrow> outbox_ok ob \<Longrightarrow> lock_ok (st\<lparr>box := ob\<rparr>)"
  by (simp add: lock_ok_def)

lemma locked_rows_dset:
  assumes "dict_ok (claims st)" and "dget (claims st) c = None"
  shows "locked_rows (st\<lparr>claims := dset (claims st) c (j, n)\<rparr>) = insert j (locked_rows st)"
proof (rule set_eqI)
  fix i
  have "i \<in> locked_rows (st\<lparr>claims := dset (claims st) c (j, n)\<rparr>) \<longleftrightarrow>
      (\<exists>c' m. (if c' = c then Some (j, n) else dget (claims st) c') = Some (i, m))"
    using assms(1) by (subst locked_rows_iff) simp_all
  also have "\<dots> \<longleftrightarrow> i = j \<or> (\<exists>c' m. dget (claims st) c' = Some (i, m))"
    using assms(2) by (metis option.distinct(1) option.inject prod.inject)
  finally show "i \<in> locked_rows (st\<lparr>claims := dset (claims st) c (j, n)\<rparr>) \<longleftrightarrow> i \<in> insert j (locked_rows st)"
    using assms(1) by (simp add: locked_rows_iff)
qed

lemma locked_rows_dpop: "dict_ok (claims st) \<Longrightarrow> locked_rows (st\<lparr>claims := dpop (claims st) c\<rparr>) \<subseteq> locked_rows st"
  by (rule subsetI) (auto simp: locked_rows_iff split: if_splits)

lemma lock_ok_begin: "lock_ok st \<Longrightarrow> lock_ok (begin_claim c ty now st)"
proof -
  assume ok: "lock_ok st"
  then have "begin_claim c ty now st = st \<or>
    (\<exists>i. i \<notin> locked_rows st \<and> begin_claim c ty now st = st\<lparr>claims := dset (claims st) c (i, now)\<rparr>)"
    using begin_claim_cases [of st c ty now] unfolding lock_ok_def by blast
  moreover have "lock_ok (st\<lparr>claims := dset (claims st) c (i, now)\<rparr>)" if "i \<notin> locked_rows st" for i
    using ok that unfolding lock_ok_def by (auto simp: locked_rows_iff split: if_splits)
  ultimately show ?thesis
    using ok by auto
qed

lemma lock_ok_commit: "lock_ok st \<Longrightarrow> lock_ok (snd (commit_claim c st))"
proof -
  assume ok: "lock_ok st"
  have "lock_ok (st\<lparr>box := (box st)\<lparr>tasks := dset (tasks (box st)) i (claim_row now t)\<rparr>, claims := dpop (claims st) c\<rparr>)"
    if "dget (tasks (box st)) i = Some t" for i now t
    using lock_ok_box [OF lock_ok_pop [OF ok, of c] outbox_ok_claim_row [OF _ that]] ok by (simp add: lock_ok_def)
  then show ?thesis
    using commit_claim_cases [of c st] ok lock_ok_pop by force
qed

lemma lock_ok_other: "lock_ok st \<Longrightarrow> lock_ok (other_step now p st)"
proof -
  assume ok: "lock_ok st"
  then have "outbox_ok (snd (pg_list_tasks_by_type l ty sid drain (box st)))" for l ty sid drain
    using pg_list_box [of l ty sid drain "box st"] outbox_ok_filter by (metis lock_ok_def)
  then show ?thesis
    using other_step_cases [of now p st] ok lock_ok_box outbox_step_ok by (metis lock_ok_def)
qed

lemma lock_run_ok: "lock_ok st \<Longrightarrow> lock_ok (snd (lock_run es st))"
proof (induction es st rule: lock_run.induct)
  case (5 c es st)
  then show ?case
    using lock_ok_commit [OF 5(2), of c] by (cases "commit_claim c st") (simp add: case_prod_beta)
qed (simp_all add: lock_ok_begin lock_ok_pop lock_ok_other)

text \<open>What happens within the lease of a claim, short of giving the task up.\<close>

fun in_lease :: "nat \<Rightarrow> nat \<Rightarrow> lock_event \<Rightarrow> bool" where
  "in_lease i since (BeginClaim c ty now) = (now < since + 300)"
| "in_lease i since (Other now p) = (since \<le> now \<and> now < since + 300 \<and> \<not> releases i p)"
| "in_lease i since _ = True"

definition leased :: "nat \<Rightarrow> nat \<Rightarrow> lock_state \<Rightarrow> bool" where
  "leased i since st \<longleftrightarrow> lock_ok st \<and> held i since (box st) \<and> i \<notin> locked_rows st"

lemma leased_begin: "leased i since st \<Longrightarrow> now < since + 300 \<Longrightarrow> leased i since (begin_claim c ty now st)"
proof -
  assume l: "leased i since st" and now: "now < since + 300"
  consider "begin_claim c ty now st = st"
    | j t where "dget (tasks (box st)) j = Some t" "pg_claimable now t" "dget (claims st) c = None"
      "begin_claim c ty now st = st\<lparr>claims := dset (claims st) c (j, now)\<rparr>"
    using begin_claim_cases [of st c ty now] l by (auto simp: leased_def lock_ok_def)
  then show ?thesis
  proof cases
    case 2
    then have "j \<noteq> i"
      using l now by (auto simp: leased_def held_def pg_claimable_def)
    moreover have ok: "lock_ok (st\<lparr>claims := dset (claims st) c (j, now)\<rparr>)"
      using lock_ok_begin [of st c ty now] 2 l by (simp add: leased_def)
    ultimately show ?thesis
      using 2(3,4) l by (simp add: leased_def locked_rows_dset lock_okD)
  qed (use l in simp)
qed

lemma leased_pop: "leased i since st \<Longrightarrow> leased i since (st\<lparr>claims := dpop (claims st) c\<rparr>)"
  using lock_ok_pop [of st c] locked_rows_dpop [of st c] by (auto simp: leased_def lock_okD)

lemma leased_commit:
  assumes "leased i since st"
  shows "leased i since (snd (commit_claim c st)) \<and> (\<forall>t. fst (commit_claim c st) \<noteq> Some (i, t))"
proof -
  consider "commit_claim c st = (None, st)" | "commit_claim c st = (None, st\<lparr>claims := dpop (claims st) c\<rparr>)"
    | j now t where "dget (claims st) c = Some (j, now)" "dget (tasks (box st)) j = Some t"
      "commit_claim c st = (Some (j, claim_row now t),
        st\<lparr>box := (box st)\<lparr>tasks := dset (tasks (box st)) j (claim_row now t)\<rparr>, claims := dpop (claims st) c\<rparr>)"
    using commit_claim_cases [of c st] by blast
  then show ?thesis
  proof cases
    case 3
    then have ij: "j \<noteq> i"
      using assms by (auto simp: leased_def locked_rows_iff lock_okD)
    have "lock_ok (snd (commit_claim c st))"
      using lock_ok_commit assms by (simp add: leased_def)
    then show ?thesis
      using 3 ij leased_pop [OF assms, of c] by (simp add: leased_def held_def locked_rows_def)
  qed (use assms leased_pop in simp_all)
qed

lemma leased_other:
  assumes "leased i since st" and "since \<le> now" and "now < since + 300" and "\<not> releases i p"
  shows "leased i since (other_step now p st)"
proof -
  have ok: "lock_ok (other_step now p st)"
    using assms(1) lock_ok_other by (simp add: leased_def)
  have box: "outbox_ok (box st)" "held i since (box st)"
    using assms(1) by (simp_all add: leased_def lock_okD)
  have "held i since (snd (pg_list_tasks_by_type l ty sid drain (box st)))" for l ty sid drain
    using pg_list_box [of l ty sid drain "box st"] box by (auto simp: held_def dget_filter_key)
  then have "held i since (box (other_step now p st))"
    using other_step_cases [of now p st] held_step [OF box assms(2-4)] box(2) by auto
  moreover have "claims (other_step now p st) = claims st"
    using other_step_cases [of now p st] by auto
  ultimately show ?thesis
    using ok assms(1) by (simp add: leased_def locked_rows_def)
qed

lemma leased_run:
  "leased i since st \<Longrightarrow> list_all (in_lease i since) es \<Longrightarrow> i \<notin> fst ` set (fst (lock_run es st))"
proof (induction es st rule: lock_run.induct)
  case (5 c es st)
  obtain r st' where r: "commit_claim c st = (r, st')"
    by fastforce
  then have "leased i since st'" "\<forall>t. r \<noteq> Some (i, t)"
    using leased_commit [OF 5(2), of c] by simp_all
  moreover have "i \<notin> fst ` set (fst (lock_run es st'))"
    using 5(1) [OF r [symmetric]] 5(3) calculation(1) by simp
  ultimately show ?case
    using r by (cases r) (auto simp: case_prod_beta)
qed (simp_all add: leased_begin leased_pop leased_other)

section \<open>Properties\<close>

text \<open>C14: Claims that overlap are exclusive: whatever workers have begun and committed on however
  many connections, once a claim has returned a task, no other claim returns it while the lease
  runs and nobody gives the task up.\<close>

theorem overlapping_claims_exclusive:
  assumes "outbox_ok ob" and "commit_claim c (snd (lock_run es \<lparr>box = ob, claims = []\<rparr>)) = (Some (i, t), st)"
    and "claimed_at t = Some since" and "list_all (in_lease i since) es'"
  shows "i \<notin> fst ` set (fst (lock_run es' st))"
proof -
  let ?st = "snd (lock_run es \<lparr>box = ob, claims = []\<rparr>)"
  have ok: "lock_ok ?st"
    using assms(1) by (intro lock_run_ok) (simp add: lock_ok_def)
  obtain now u where u: "dget (claims ?st) c = Some (i, now)" "t = claim_row now u"
    "st = ?st\<lparr>box := (box ?st)\<lparr>tasks := dset (tasks (box ?st)) i (claim_row now u)\<rparr>, claims := dpop (claims ?st) c\<rparr>"
    using commit_claim_cases [of c ?st] assms(2) by auto
  have "lock_ok st"
    using lock_ok_commit [OF ok, of c] assms(2) by simp
  moreover have "held i since (box st)"
    using u assms(3) by (simp add: held_def claim_row_def)
  moreover have "i \<notin> locked_rows st"
    using lock_ok_unique [OF ok u(1)] lock_okD(2) [OF \<open>lock_ok st\<close>] u(3) by (auto simp: locked_rows_iff split: if_splits)
  ultimately show ?thesis
    using leased_run assms(4) by (simp add: leased_def)
qed

text \<open>Two workers that begin their claims before either commits get different tasks.\<close>

theorem overlapping_claims_exclusive_witness:
  "\<exists>t st. commit_claim 1 (snd (lock_run [BeginClaim 1 None 1000, BeginClaim 2 None 1000]
       \<lparr>box = pg_enqueue_task ''y'' ''s'' PNone 950 (pg_enqueue_task ''x'' ''s'' PNone 900 empty_outbox), claims = []\<rparr>)) =
       (Some (1, t), st) \<and> 1 \<notin> fst ` set (fst (lock_run [CommitClaim 2, BeginClaim 1 None 1200, CommitClaim 1] st))"
proof -
  let ?ob = "pg_enqueue_task ''y'' ''s'' PNone 950 (pg_enqueue_task ''x'' ''s'' PNone 900 empty_outbox)"
  have ok: "outbox_ok ?ob"
    using outbox_run_ok [OF outbox_ok_empty, of "[(900, Enqueue ''x'' ''s'' PNone), (950, Enqueue ''y'' ''s'' PNone)]"]
    by (simp add: pg_outbox_ops)
  obtain t st where c: "commit_claim 1 (snd (lock_run [BeginClaim 1 None 1000, BeginClaim 2 None 1000] \<lparr>box = ?ob, claims = []\<rparr>)) =
      (Some (1, t), st)" "claimed_at t = Some 1000"
    by (simp add: pg_enqueue_task_def empty_outbox_def dset_def begin_claim_def pg_candidates_def pg_claimable_def sql_stamp_def
        locked_rows_def dvals_def dhas_def commit_claim_def claim_row_def dict_simps)
  then show ?thesis
    using overlapping_claims_exclusive [OF ok c(1,2), of "[CommitClaim 2, BeginClaim 1 None 1200, CommitClaim 1]"] by auto
qed

end
