(* ===== verification/Postgres_Storage.thy ===== *)
theory Postgres_Storage
  imports Postgres_Schema Postgres_Outbox Graph_Registry Garbage_Collector
begin

text \<open>
  The PostgreSQL backend of the runtime (\<open>storage/postgres_storage.py\<close>).  The rows are those of
  the SQLite tables; what differs is the SQL around them: an upsert instead of a replacement when
  a session is archived, one join for all sessions, a vector column whose width the first
  embedding sets, imports that overwrite.  A method is one transaction, hence one function, but
  for the guarded save and the replica identity, whose statements interleave with those of other
  processes.  JSONB keeps the values of a dictionary, not the order of its keys, which is here the
  order of writing.
\<close>

section \<open>State\<close>

text \<open>A vector as pgvector stores it, with the number of its components.\<close>

record pg_vector =
  dimensions :: nat
  components :: string

record pg_db =
  schema :: catalog
  p_sessions :: "(string, session_row) dict"
  p_archive :: "(string, session_row \<times> time) dict"
  p_versions :: "(string, version_row) dict"
  p_log :: "log_row list"
  p_outbox :: outbox
  p_embeddings :: "(string \<times> string, pg_vector \<times> time) dict"
  vector_column :: "nat option"
  stored_dim :: "nat option"
  p_identity :: "string option"
  p_graphs :: registry
  p_liveness :: "(string, liveness_row) dict"
  p_sweepers :: "(string, bool) dict"

definition empty_pg :: "catalog \<Rightarrow> pg_db" where
  "empty_pg c =
     \<lparr>schema = c, p_sessions = [], p_archive = [], p_versions = [], p_log = [], p_outbox = empty_outbox, p_embeddings = [],
      vector_column = None, stored_dim = None, p_identity = None, p_graphs = [], p_liveness = [], p_sweepers = []\<rparr>"

section \<open>Sessions\<close>

text \<open>The statements of a guarded save, with the number of rows the update changed.\<close>

definition update_if_seen :: "cks_objects \<Rightarrow> session \<Rightarrow> string \<Rightarrow> time \<Rightarrow> pg_db \<Rightarrow> nat \<times> pg_db" where
  "update_if_seen cks s expected now db =
     (case dget (p_sessions db) (session_id s) of
        None \<Rightarrow> (0, db)
      | Some row \<Rightarrow>
          if latest_version_id row = Some expected
          then (1, db\<lparr>p_sessions := dset (p_sessions db) (session_id s) (session_row_of cks s now)\<rparr>)
          else (0, db))"

definition insert_session :: "cks_objects \<Rightarrow> session \<Rightarrow> time \<Rightarrow> (pg_db, unit) sx" where
  "insert_session cks s now db =
     (if dhas (p_sessions db) (session_id s) then (Inl UniqueViolation, db)
      else (Inr (), db\<lparr>p_sessions := p_sessions db @ [(session_id s, session_row_of cks s now)]\<rparr>))"

definition pg_save_session :: "cks_objects \<Rightarrow> session \<Rightarrow> string option \<Rightarrow> time \<Rightarrow> (pg_db, unit) sx" where
  "pg_save_session cks s expected_version_id now db =
     (case expected_version_id of
        None \<Rightarrow> (Inr (), db\<lparr>p_sessions := dset (p_sessions db) (session_id s) (session_row_of cks s now)\<rparr>)
      | Some expected \<Rightarrow>
          (case update_if_seen cks s expected now db of
             (n, db') \<Rightarrow>
               if n = 0
               then if dhas (p_sessions db') (session_id s) then (Inl ConcurrentModificationError, db)
                    else insert_session cks s now db'
               else (Inr (), db')))"

definition session_from_row :: "cks_objects \<Rightarrow> string \<Rightarrow> session_row \<Rightarrow> exn + session" where
  "session_from_row cks sid r =
     bind_err (parse_text cks (sr_structure r)) (\<lambda>ks.
     bind_err (make_session ks sid (sr_metadata r) (sr_snapshot_interval r) None None) (\<lambda>s.
     Inr (s\<lparr>closed := sr_closed r, parent_session_id := sr_parent_session_id r, parent_version_id := sr_parent_version_id r\<rparr>)))"

definition version_from_row :: "cks_objects \<Rightarrow> string \<times> version_row \<Rightarrow> exn + version" where
  "version_from_row cks kr =
     (case kr of (vid, r) \<Rightarrow>
       bind_err (case vr_structure r of
                   None \<Rightarrow> Inr None
                 | Some t \<Rightarrow> if t = [] then Inr None else bind_err (parse_text cks t) (\<lambda>ks. Inr (Some ks))) (\<lambda>ks.
       bind_err (case vr_patch r of
                   None \<Rightarrow> Inr None
                 | Some items \<Rightarrow> bind_err (deserialize_operators cks items) (\<lambda>ops. Inr (Some ops))) (\<lambda>ops.
       Inr \<lparr>v_session_id = vr_session_id r, v_transaction_id = vr_transaction_id r, v_structure = ks,
            v_metadata = vr_metadata r, version_id = vid, v_created_at = vr_created_at r,
            state_hash = vr_state_hash r, patch = ops\<rparr>)))"

definition versions_by_time :: "pg_db \<Rightarrow> string \<Rightarrow> (string \<times> version_row) list" where
  "versions_by_time db sid = filter (\<lambda>(_, r). vr_session_id r = sid) (sort_key (\<lambda>(_, r). vr_created_at r) (p_versions db))"

fun add_rows :: "cks_objects \<Rightarrow> (string \<times> version_row) list \<Rightarrow> session \<Rightarrow> exn + session" where
  "add_rows cks [] s = Inr s"
| "add_rows cks (r # rs) s = bind_err (version_from_row cks r) (\<lambda>v. add_rows cks rs (add_version v s))"

definition pg_load_session :: "cks_objects \<Rightarrow> string \<Rightarrow> pg_db \<Rightarrow> exn + session option" where
  "pg_load_session cks sid db =
     (case dget (p_sessions db) sid of
        None \<Rightarrow> Inr None
      | Some r \<Rightarrow>
          bind_err (session_from_row cks sid r) (\<lambda>s. bind_err (add_rows cks (versions_by_time db sid) s) (\<lambda>s. Inr (Some s))))"

definition pg_has_session :: "string \<Rightarrow> pg_db \<Rightarrow> bool" where
  "pg_has_session sid db = dhas (p_sessions db) sid"

text \<open>
  All sessions in one query: the left join, ordered by session and time (\<open>ORDER BY a, b\<close> is a
  sort by \<open>b\<close> and a stable sort by \<open>a\<close> after it; texts are ordered by code point), and the loop
  over its rows.
\<close>

definition joined ::
  "string \<Rightarrow> session_row \<Rightarrow> (string \<times> version_row) list \<Rightarrow> (string \<times> session_row \<times> (string \<times> version_row) option) list" where
  "joined sid r vs = (if vs = [] then [(sid, r, None)] else map (\<lambda>v. (sid, r, Some v)) vs)"

definition left_join :: "pg_db \<Rightarrow> (string \<times> session_row \<times> (string \<times> version_row) option) list" where
  "left_join db =
     concat (map (\<lambda>(sid, r). joined sid r (filter (\<lambda>(_, v). vr_session_id v = sid) (p_versions db))) (p_sessions db))"

definition joined_rows :: "pg_db \<Rightarrow> (string \<times> session_row \<times> (string \<times> version_row) option) list" where
  "joined_rows db =
     sort_key fst (sort_key (\<lambda>(_, _, v). case v of None \<Rightarrow> 0 | Some (_, r) \<Rightarrow> vr_created_at r) (left_join db))"

fun gather ::
  "cks_objects \<Rightarrow> (string \<times> session_row \<times> (string \<times> version_row) option) list \<Rightarrow> (string, session) dict
     \<Rightarrow> exn + (string, session) dict" where
  "gather cks [] found = Inr found"
| "gather cks ((sid, r, v) # rows) found =
     bind_err (case dget found sid of
                 None \<Rightarrow> bind_err (session_from_row cks sid r) (\<lambda>s. Inr (dset found sid s))
               | Some _ \<Rightarrow> Inr found) (\<lambda>found.
     bind_err (case v of
                 None \<Rightarrow> Inr found
               | Some vr \<Rightarrow>
                   bind_err (version_from_row cks vr) (\<lambda>v.
                     case dget found sid of None \<Rightarrow> Inl KeyError | Some s \<Rightarrow> Inr (dset found sid (add_version v s)))) (\<lambda>found.
     gather cks rows found))"

definition pg_list_sessions :: "cks_objects \<Rightarrow> pg_db \<Rightarrow> exn + session list" where
  "pg_list_sessions cks db = bind_err (gather cks (joined_rows db) []) (\<lambda>found. Inr (dvals found))"

definition pg_load_all :: "cks_objects \<Rightarrow> string list \<Rightarrow> pg_db \<Rightarrow> exn + session list" where
  "pg_load_all cks ids db =
     bind_err (map_err (\<lambda>sid. pg_load_session cks sid db) ids) (\<lambda>found. Inr (concat (map (case_option [] (\<lambda>s. [s])) found)))"

definition pg_list_sessions_modified_before :: "cks_objects \<Rightarrow> time \<Rightarrow> nat \<Rightarrow> pg_db \<Rightarrow> exn + session list" where
  "pg_list_sessions_modified_before cks cutoff limit db =
     pg_load_all cks (map fst (take limit (sort_key (\<lambda>(_, r). modified_at r)
       (filter (\<lambda>(_, r). modified_at r < cutoff) (p_sessions db))))) db"

definition pg_list_sessions_modified_since :: "cks_objects \<Rightarrow> time \<Rightarrow> nat \<Rightarrow> pg_db \<Rightarrow> exn + session list" where
  "pg_list_sessions_modified_since cks since limit db =
     pg_load_all cks (map fst (take limit (sort_key (\<lambda>(_, r). modified_at r)
       (filter (\<lambda>(_, r). since \<le> modified_at r) (p_sessions db))))) db"

text \<open>A row that is in the archive already keeps its contents, only its time is new.\<close>

definition pg_archive_session :: "string \<Rightarrow> time \<Rightarrow> (pg_db, unit) sx" where
  "pg_archive_session sid now db =
     (if \<not> has_table (schema db) ''archive_sessions'' then (Inl DatabaseError, db)
      else (Inr (),
        db\<lparr>p_archive := (case dget (p_sessions db) sid of
                            None \<Rightarrow> p_archive db
                          | Some r \<Rightarrow> dset (p_archive db) sid
                              (case dget (p_archive db) sid of None \<Rightarrow> (r, now) | Some (old, _) \<Rightarrow> (old, now))),
           p_embeddings := filter (\<lambda>((_, s), _). s \<noteq> sid) (p_embeddings db),
           p_sessions := dpop (p_sessions db) sid\<rparr>))"

section \<open>Versions\<close>

definition pg_version_row :: "cks_objects \<Rightarrow> version \<Rightarrow> exn + version_row" where
  "pg_version_row cks v =
     bind_err (case v_structure v of
                 Some ks \<Rightarrow> Inr (Some (serialize_structure cks ks), None)
               | None \<Rightarrow>
                   (case patch v of
                      None \<Rightarrow> Inr (None, None)
                    | Some ops \<Rightarrow> bind_err (serialize_operators ops) (\<lambda>items. Inr (None, Some items)))) (\<lambda>(ks, items).
     Inr \<lparr>vr_session_id = v_session_id v, vr_transaction_id = v_transaction_id v, vr_structure = ks,
          vr_metadata = v_metadata v, vr_created_at = v_created_at v, vr_state_hash = state_hash v,
          vr_patch = items\<rparr>)"

definition pg_save_version :: "cks_objects \<Rightarrow> version \<Rightarrow> (pg_db, unit) sx" where
  "pg_save_version cks v db =
     (case pg_version_row cks v of
        Inl e \<Rightarrow> (Inl e, db)
      | Inr row \<Rightarrow>
          if dhas (p_versions db) (version_id v) then (Inl UniqueViolation, db)
          else (Inr (), db\<lparr>p_versions := p_versions db @ [(version_id v, row)]\<rparr>))"

definition pg_load_version :: "cks_objects \<Rightarrow> string \<Rightarrow> pg_db \<Rightarrow> exn + version option" where
  "pg_load_version cks vid db =
     (case dget (p_versions db) vid of
        None \<Rightarrow> Inr None
      | Some r \<Rightarrow> bind_err (version_from_row cks (vid, r)) (\<lambda>v. Inr (Some v)))"

definition pg_has_version :: "string \<Rightarrow> pg_db \<Rightarrow> bool" where
  "pg_has_version vid db = dhas (p_versions db) vid"

definition pg_list_versions :: "cks_objects \<Rightarrow> pg_db \<Rightarrow> exn + version list" where
  "pg_list_versions cks db = map_err (version_from_row cks) (p_versions db)"

definition pg_clear :: "pg_db \<Rightarrow> pg_db" where
  "pg_clear db =
     db\<lparr>p_log := [], p_embeddings := [], p_outbox := (p_outbox db)\<lparr>tasks := []\<rparr>, p_versions := [], p_sessions := [],
        p_identity := None\<rparr>"

section \<open>Operation log\<close>

definition pg_record_operations :: "string \<Rightarrow> string \<Rightarrow> field_operation list \<Rightarrow> pg_db \<Rightarrow> pg_db" where
  "pg_record_operations sid vid operations db =
     (if operations = [] then db
      else db\<lparr>p_log := p_log db @ map (\<lambda>p.
                \<lparr>lr_session_id = sid, lr_version_id = vid, lr_object_id = fo_object_id p,
                 lr_op_type = fo_op_type p, lr_field_key = fo_field_key p,
                 lr_field_value = (if fo_op_type p = ''set_field'' then Some (fo_field_value p) else None)\<rparr>)
              operations\<rparr>)"

definition pg_list_operations :: "string \<Rightarrow> string option \<Rightarrow> string option \<Rightarrow> pg_db \<Rightarrow> field_operation list" where
  "pg_list_operations sid object_id vid db =
     map (\<lambda>r. \<lparr>fo_object_id = lr_object_id r, fo_op_type = lr_op_type r, fo_field_key = lr_field_key r,
               fo_field_value = opt_or (lr_field_value r) PNone, fo_version_id = Some (lr_version_id r)\<rparr>)
       (filter (\<lambda>r. lr_session_id r = sid \<and>
                    (case object_id of None \<Rightarrow> True | Some i \<Rightarrow> lr_object_id r = i) \<and>
                    (case vid of None \<Rightarrow> True | Some i \<Rightarrow> lr_version_id r = i)) (p_log db))"

section \<open>Graphs, agents and sweepers\<close>

definition pg_graph_row_to_dict :: "graph \<Rightarrow> graph" where
  "pg_graph_row_to_dict row =
     (let visibility = (if g_visibility row \<noteq> [] then g_visibility row
                        else if g_public row then ''public'' else ''private'')
      in row\<lparr>g_visibility := visibility,
             g_lifecycle_state := Some (str_or (g_lifecycle_state row) (if visibility = ''public'' then ''published'' else ''draft''))\<rparr>)"

definition pg_register_graph :: "string \<Rightarrow> registration \<Rightarrow> time \<Rightarrow> pg_db \<Rightarrow> pg_db" where
  "pg_register_graph name r now db =
     db\<lparr>p_graphs := dset (p_graphs db) name
       (case dget (p_graphs db) name of
          None \<Rightarrow> new_row r (r_source_graph_name r) (r_lifecycle_state r) now now
        | Some old \<Rightarrow>
            new_row r (coalesce (r_source_graph_name r) (g_source_graph_name old))
              (coalesce (r_lifecycle_state r) (g_lifecycle_state old)) (g_created_at old) now)\<rparr>"

definition pg_get_graph :: "string \<Rightarrow> pg_db \<Rightarrow> graph option" where
  "pg_get_graph name db = map_option pg_graph_row_to_dict (dget (p_graphs db) name)"

definition pg_unregister_graph :: "string \<Rightarrow> pg_db \<Rightarrow> bool \<times> pg_db" where
  "pg_unregister_graph name db = (dhas (p_graphs db) name, db\<lparr>p_graphs := dpop (p_graphs db) name\<rparr>)"

text \<open>\<open>LIKE\<close> of PostgreSQL: letters differ by case, and the backslash escapes.\<close>

definition pg_list_graphs :: "string option \<Rightarrow> bool \<Rightarrow> string option \<Rightarrow> pg_db \<Rightarrow> (string \<times> graph) list" where
  "pg_list_graphs tag public_only team db =
     map (\<lambda>(n, g). (n, pg_graph_row_to_dict g))
       (sort_key (\<lambda>(_, g). - int (g_updated_at g))
         (filter (\<lambda>(_, g).
            (case tag of
               None \<Rightarrow> True
             | Some t \<Rightarrow> sql_like id (Some (CHR 0x5C)) (''%'' @ t @ ''%'') (g_tags g)) \<and>
            (if public_only then g_visibility g = ''public''
             else case team of
                    None \<Rightarrow> True
                  | Some t \<Rightarrow> t = [] \<or> g_visibility g = ''public'' \<or>
                              g_visibility g = ''team'' \<and> g_team g = Some t)) (p_graphs db)))"

definition pg_upsert_agent_liveness :: "string \<Rightarrow> liveness_row \<Rightarrow> pg_db \<Rightarrow> pg_db" where
  "pg_upsert_agent_liveness instance_id r db =
     db\<lparr>p_liveness := dset (p_liveness db) instance_id
          (case dget (p_liveness db) instance_id of
             None \<Rightarrow> r\<lparr>desired_state := None\<rparr>
           | Some old \<Rightarrow> old\<lparr>last_heartbeat_at := last_heartbeat_at r, current_task_id := current_task_id r,
                              current_task_type := current_task_type r\<rparr>)\<rparr>"

text \<open>The cutoff is the time of the database less the age.\<close>

definition pg_prune_agent_liveness :: "nat \<Rightarrow> time \<Rightarrow> pg_db \<Rightarrow> nat \<times> pg_db" where
  "pg_prune_agent_liveness older_than_seconds now db =
     (length (filter (\<lambda>(_, r). last_heartbeat_at r + older_than_seconds < now) (p_liveness db)),
      db\<lparr>p_liveness := filter (\<lambda>(_, r). \<not> last_heartbeat_at r + older_than_seconds < now) (p_liveness db)\<rparr>)"

definition pg_list_agent_liveness :: "pg_db \<Rightarrow> (string \<times> liveness_row) list" where
  "pg_list_agent_liveness db = sort_key (\<lambda>(_, r). - int (started_at r)) (p_liveness db)"

definition pg_get_agent_liveness :: "string \<Rightarrow> pg_db \<Rightarrow> liveness_row option" where
  "pg_get_agent_liveness instance_id db = dget (p_liveness db) instance_id"

definition pg_request_agent_stop :: "string \<Rightarrow> pg_db \<Rightarrow> bool \<times> pg_db" where
  "pg_request_agent_stop instance_id db =
     (case dget (p_liveness db) instance_id of
        None \<Rightarrow> (False, db)
      | Some r \<Rightarrow> (True, db\<lparr>p_liveness := dset (p_liveness db) instance_id
                                 (r\<lparr>desired_state := Some ''stop_requested''\<rparr>)\<rparr>))"

definition pg_set_sweeper_desired_running :: "string \<Rightarrow> bool \<Rightarrow> pg_db \<Rightarrow> pg_db" where
  "pg_set_sweeper_desired_running agent_id desired db = db\<lparr>p_sweepers := dset (p_sweepers db) agent_id desired\<rparr>"

definition pg_get_sweeper_desired_running :: "string \<Rightarrow> pg_db \<Rightarrow> bool option" where
  "pg_get_sweeper_desired_running agent_id db = dget (p_sweepers db) agent_id"

section \<open>Replica identity\<close>

text \<open>
  The statements of \<open>get_or_create_replica_id\<close> of one process: look, insert a fresh candidate, and
  look again when another process was first (the insert waits for that process and then fails).
\<close>

datatype id_step = Looking | Inserting string | Again | Known string

definition id_next :: "string \<Rightarrow> id_step \<Rightarrow> string option \<Rightarrow> id_step \<times> string option" where
  "id_next candidate st row =
     (case st of
        Looking \<Rightarrow> (case row of Some r \<Rightarrow> (Known r, row) | None \<Rightarrow> (Inserting candidate, row))
      | Inserting c \<Rightarrow> (case row of Some _ \<Rightarrow> (Again, row) | None \<Rightarrow> (Known c, Some c))
      | Again \<Rightarrow> (case row of Some r \<Rightarrow> (Known r, row) | None \<Rightarrow> (Again, row))
      | Known r \<Rightarrow> (Known r, row))"

text \<open>Processes by number, each with its next statement; a schedule says whose turn it is.\<close>

fun id_run :: "(nat \<Rightarrow> string) \<Rightarrow> nat list \<Rightarrow> (nat \<Rightarrow> id_step) \<Rightarrow> string option \<Rightarrow> (nat \<Rightarrow> id_step) \<times> string option" where
  "id_run candidate [] st row = (st, row)"
| "id_run candidate (p # ps) st row =
     (case id_next (candidate p) (st p) row of (s, row') \<Rightarrow> id_run candidate ps (st(p := s)) row')"

definition pg_get_or_create_replica_id :: "string \<Rightarrow> pg_db \<Rightarrow> string \<times> pg_db" where
  "pg_get_or_create_replica_id candidate db =
     (case p_identity db of
        Some r \<Rightarrow> (r, db)
      | None \<Rightarrow> (candidate, db\<lparr>p_identity := Some candidate\<rparr>))"

section \<open>Embeddings\<close>

text \<open>
  A process keeps the width of the vectors in \<open>_embed_dim\<close>; \<open>pv\<close> reads the text form of a vector,
  and \<open>indexable\<close> says which widths pgvector accepts for a column with an HNSW index.
\<close>

record pgvector =
  vector_literal :: "string \<Rightarrow> string"
  indexable :: "nat \<Rightarrow> bool"
  cosine_distance :: "string \<Rightarrow> string \<Rightarrow> rat"

definition bytes_to_pg_vector :: "pgvector \<Rightarrow> string \<Rightarrow> exn + pg_vector" where
  "bytes_to_pg_vector pv embedding =
     (if length embedding mod 4 \<noteq> 0 then Inl OtherException
      else Inr \<lparr>dimensions = length embedding div 4, components = vector_literal pv embedding\<rparr>)"

definition load_embed_dim :: "pg_db \<Rightarrow> nat option" where
  "load_embed_dim db = stored_dim db"

text \<open>\<open>ADD COLUMN IF NOT EXISTS\<close>, the index and the row of the width, in one transaction: a column
  that exists keeps its width.\<close>

definition ensure_embedding_column :: "pgvector \<Rightarrow> nat \<Rightarrow> (nat option \<times> pg_db, unit) sx" where
  "ensure_embedding_column pv n st =
     (case st of (cached, db) \<Rightarrow>
       (case cached of
          Some m \<Rightarrow> (if n \<noteq> m then Inl ValueError else Inr (), st)
        | None \<Rightarrow>
            if \<not> indexable pv n then (Inl DatabaseError, st)
            else (Inr (), (Some n,
              db\<lparr>vector_column := coalesce (vector_column db) (Some n), stored_dim := coalesce (stored_dim db) (Some n)\<rparr>))))"

definition write_vector :: "string \<Rightarrow> string \<Rightarrow> pg_vector \<Rightarrow> time \<Rightarrow> (pg_db, unit) sx" where
  "write_vector object_id sid v now db =
     (if vector_column db \<noteq> Some (dimensions v) then (Inl DatabaseError, db)
      else (Inr (), db\<lparr>p_embeddings := dset (p_embeddings db) (object_id, sid) (v, now)\<rparr>))"

definition pg_save_object_embeddings ::
  "pgvector \<Rightarrow> string \<Rightarrow> string \<Rightarrow> string \<Rightarrow> time \<Rightarrow> (nat option \<times> pg_db, unit) sx" where
  "pg_save_object_embeddings pv object_id sid embedding now =
     bindM (ensure_embedding_column pv (length embedding div 4)) (\<lambda>_ (cached, db).
       case bytes_to_pg_vector pv embedding of
         Inl e \<Rightarrow> (Inl e, (cached, db))
       | Inr v \<Rightarrow> (case write_vector object_id sid v now db of (r, db') \<Rightarrow> (r, (cached, db'))))"

definition pg_delete_object_embeddings :: "string \<Rightarrow> string \<Rightarrow> pg_db \<Rightarrow> pg_db" where
  "pg_delete_object_embeddings object_id sid db = db\<lparr>p_embeddings := dpop (p_embeddings db) (object_id, sid)\<rparr>"

definition pg_search_embeddings ::
  "pgvector \<Rightarrow> string \<Rightarrow> string \<Rightarrow> nat \<Rightarrow> nat option \<times> pg_db \<Rightarrow> exn + (string \<times> rat) list" where
  "pg_search_embeddings pv query_embedding sid top_k st =
     (case st of (cached, db) \<Rightarrow>
       if cached = None then Inr []
       else bind_err (bytes_to_pg_vector pv query_embedding) (\<lambda>q.
         if vector_column db \<noteq> Some (dimensions q) then Inl DatabaseError
         else Inr (map (\<lambda>((oid, _), v, _). (oid, max 0 (1 - cosine_distance pv (components v) (components q))))
                (take top_k (sort_key (\<lambda>(_, v, _). cosine_distance pv (components v) (components q))
                  (filter (\<lambda>((_, s), _). s = sid) (p_embeddings db)))))))"

section \<open>Export and import\<close>

record pg_dump =
  pd_sessions :: "(string \<times> session_row) list"
  pd_versions :: "(string \<times> version_row) list"
  pd_graphs :: "(string \<times> graph) list"
  pd_embeddings :: "((string \<times> string) \<times> string \<times> time) list"
  pd_tasks :: "task list"

text \<open>
  The embedding column is read without a type adapter, so a vector arrives as its text, which
  \<open>b64encode\<close> refuses; while no embedding was ever saved there is no such column to select.
\<close>

definition pg_export_storage :: "pg_db \<Rightarrow> exn + pg_dump" where
  "pg_export_storage db =
     (if vector_column db = None then Inl DatabaseError
      else if p_embeddings db \<noteq> [] then Inl TypeError
      else Inr \<lparr>pd_sessions = p_sessions db, pd_versions = p_versions db,
                pd_graphs = map (\<lambda>(n, g). (n, pg_graph_row_to_dict g)) (p_graphs db), pd_embeddings = [],
                pd_tasks = map snd (filter (\<lambda>(_, t). status t = Pending) (tasks (p_outbox db)))\<rparr>)"

definition pg_import_graph :: "time \<Rightarrow> string \<times> graph \<Rightarrow> registry \<Rightarrow> registry" where
  "pg_import_graph now ng d =
     (case ng of (name, g) \<Rightarrow>
        let visibility = (if g_visibility g \<noteq> [] then g_visibility g else if g_public g then ''public'' else ''private'')
        in dset d name
             (g\<lparr>g_visibility := visibility,
                g_lifecycle_state := Some (str_or (g_lifecycle_state g) (if visibility = ''public'' then ''published'' else ''draft'')),
                g_created_at := (case dget d name of None \<Rightarrow> now | Some old \<Rightarrow> g_created_at old)\<rparr>))"

definition pg_import_task :: "time \<Rightarrow> task \<Rightarrow> outbox \<Rightarrow> outbox" where
  "pg_import_task now t ob =
     ob\<lparr>tasks := dset (tasks ob) (next_task_id ob)
          (t\<lparr>next_retry_at := sql_stamp now, last_error := None, claimed_at := None, t_created_at := now\<rparr>),
        next_task_id := next_task_id ob + 1\<rparr>"

definition clear_for_import :: "pg_db \<Rightarrow> pg_db" where
  "clear_for_import db =
     db\<lparr>p_outbox := (p_outbox db)\<lparr>tasks := []\<rparr>, p_embeddings := [], p_graphs := [], p_versions := [], p_sessions := []\<rparr>"

definition import_vector :: "pgvector \<Rightarrow> (string \<times> string) \<times> string \<times> time \<Rightarrow> (nat option \<times> pg_db, unit) sx" where
  "import_vector pv e =
     (case e of ((object_id, sid), embedding, updated) \<Rightarrow> pg_save_object_embeddings pv object_id sid embedding updated)"

fun import_vectors :: "pgvector \<Rightarrow> ((string \<times> string) \<times> string \<times> time) list \<Rightarrow> (nat option \<times> pg_db, unit) sx" where
  "import_vectors pv [] = retM ()"
| "import_vectors pv (e # es) = bindM (import_vector pv e) (\<lambda>_. import_vectors pv es)"

text \<open>
  The whole import is one transaction; what it changed is gone when it raises, but for a column
  that \<open>_ensure_embedding_column\<close> adds on a connection of its own.  In mode \<open>clear\<close> the
  transaction has locked the table of embeddings, and adding the column waits for the lock, and
  the import for the column: the call does not return (\<open>None\<close>).
\<close>

definition pg_import_storage ::
  "pgvector \<Rightarrow> pg_dump \<Rightarrow> bool \<Rightarrow> time \<Rightarrow> nat option \<times> pg_db \<Rightarrow> ((exn + unit) \<times> nat option \<times> pg_db) option" where
  "pg_import_storage pv dump mode_clear now st =
     (case st of (cached, db) \<Rightarrow>
       if mode_clear \<and> cached = None \<and> pd_embeddings dump \<noteq> [] then None
       else
         let cleared = (if mode_clear then clear_for_import db else db);
             db1 = cleared\<lparr>p_sessions := fold (\<lambda>(k, r) d. dset d k r) (pd_sessions dump) (p_sessions cleared),
                     p_versions := fold (\<lambda>(k, r) d. dset d k r) (pd_versions dump) (p_versions cleared),
                     p_graphs := fold (pg_import_graph now) (pd_graphs dump) (p_graphs cleared)\<rparr>
         in (case import_vectors pv (pd_embeddings dump) (cached, db1) of
               (Inl e, (cached', db2)) \<Rightarrow>
                 Some (Inl e, cached', db\<lparr>vector_column := vector_column db2, stored_dim := stored_dim db2\<rparr>)
             | (Inr _, (cached', db2)) \<Rightarrow>
                 Some (Inr (), cached', db2\<lparr>p_outbox := fold (pg_import_task now) (pd_tasks dump) (p_outbox db2)\<rparr>)))"

section \<open>Rewrite rules\<close>

lemma dget_snoc [simp]: "dget (d @ [(k, v)]) k' = (case dget d k' of None \<Rightarrow> if k' = k then Some v else None | Some w \<Rightarrow> Some w)"
  by (induction d) (auto simp: dget_def)

lemma session_row_of_simps [simp]: "latest_version_id (session_row_of cks s now) = latest_id s"
  by (simp add: session_row_of_def)

end
