(* ===== verification/Postgres_Races.thy ===== *)
theory Postgres_Races
  imports Postgres_Storage
begin

text \<open>
  Processes that share one PostgreSQL database: who gets which replica identity, whose guarded
  save wins when the statements of several saves interleave, and what a save reports whose
  answer is lost.
\<close>

section \<open>One replica identity\<close>

fun id_rank :: "id_step \<Rightarrow> nat" where
  "id_rank Looking = 3"
| "id_rank (Inserting c) = 2"
| "id_rank Again = 1"
| "id_rank (Known r) = 0"

definition id_ok :: "(nat \<Rightarrow> id_step) \<Rightarrow> string option \<Rightarrow> bool" where
  "id_ok st row \<longleftrightarrow> (\<forall>p. (case st p of Again \<Rightarrow> row \<noteq> None | Known r \<Rightarrow> row = Some r | _ \<Rightarrow> True))"

lemma id_next_ok:
  assumes "id_ok st row" and "id_next c (st p) row = (s, row')"
  shows "id_ok (st(p := s)) row' \<and> id_rank s \<le> id_rank (st p) - 1"
proof -
  have keep: "row \<noteq> None \<Longrightarrow> row' = row"
    using assms(2) by (auto simp: id_next_def split: id_step.splits option.splits)
  have new: "case s of Again \<Rightarrow> row' \<noteq> None | Known r \<Rightarrow> row' = Some r | _ \<Rightarrow> True"
    using assms unfolding id_ok_def by (auto simp: id_next_def split: id_step.splits option.splits)
  have "case st q of Again \<Rightarrow> row' \<noteq> None | Known r \<Rightarrow> row' = Some r | _ \<Rightarrow> True" for q
    using assms(1) keep unfolding id_ok_def by (auto split: id_step.splits dest: spec [of _ q])
  moreover have "id_rank (fst (id_next c (st p) row)) \<le> id_rank (st p) - 1"
    using spec [of _ p, OF assms(1) [unfolded id_ok_def]] by (cases "st p"; cases row) (simp_all add: id_next_def)
  ultimately show ?thesis
    using new assms(2) by (simp add: id_ok_def)
qed

lemma id_run_ok:
  "id_ok st row \<Longrightarrow> id_run candidate ps st row = (st', row') \<Longrightarrow>
   id_ok st' row' \<and> id_rank (st' p) \<le> id_rank (st p) - count_list ps p"
proof (induction ps arbitrary: st row)
  case (Cons q qs)
  obtain s row1 where n: "id_next (candidate q) (st q) row = (s, row1)"
    by fastforce
  then have ok: "id_ok (st(q := s)) row1" "id_rank s \<le> id_rank (st q) - 1"
    using id_next_ok Cons.prems(1) by blast+
  have "id_run candidate qs (st(q := s)) row1 = (st', row')"
    using Cons.prems(2) n by simp
  then have "id_ok st' row' \<and> id_rank (st' p) \<le> id_rank ((st(q := s)) p) - count_list qs p"
    by (rule Cons.IH [OF ok(1)])
  then show ?case
    using ok(2) by (auto simp: Suc_diff_Suc)
qed simp

section \<open>Guarded saves\<close>

definition pg_recorded :: "pg_db \<Rightarrow> string \<Rightarrow> string option option" where
  "pg_recorded db sid = map_option latest_version_id (dget (p_sessions db) sid)"

interpretation postgres_sessions: session_store "\<lambda>now s e. pg_save_session cks s e now" pg_recorded
proof (unfold_locales, goal_cases)
  case (1 st s e t)
  then show ?case
    by (auto simp: pg_save_session_def update_if_seen_def pg_recorded_def)
next
  case (2 st s l e t)
  then show ?case
    by (auto simp: pg_save_session_def update_if_seen_def pg_recorded_def dhas_def)
next
  case (3 s t st)
  then show ?case
    by (auto simp: pg_save_session_def pg_recorded_def)
qed

section \<open>Saves whose statements interleave\<close>

datatype save_step = Updating | Checking | Adding | Done "exn + unit"

definition save_next :: "cks_objects \<Rightarrow> session \<Rightarrow> string \<Rightarrow> time \<Rightarrow> save_step \<Rightarrow> pg_db \<Rightarrow> save_step \<times> pg_db" where
  "save_next cks s e now st db =
     (case st of
        Updating \<Rightarrow> (case update_if_seen cks s e now db of (n, db') \<Rightarrow> (if n = 0 then Checking else Done (Inr ()), db'))
      | Checking \<Rightarrow> (if dhas (p_sessions db) (session_id s) then Done (Inl ConcurrentModificationError) else Adding, db)
      | Adding \<Rightarrow> (case insert_session cks s now db of (r, db') \<Rightarrow> (Done r, db'))
      | Done r \<Rightarrow> (Done r, db))"

text \<open>Alone, the statements one after the other are the method.\<close>

lemma save_next_sequential:
  "pg_save_session cks s (Some e) now db =
     (case save_next cks s e now Updating db of
        (Done r, db') \<Rightarrow> (r, db')
      | (st, db') \<Rightarrow> (case save_next cks s e now st db' of
          (Done r, db'') \<Rightarrow> (r, db'')
        | (st', db'') \<Rightarrow> (case save_next cks s e now st' db'' of (Done r, db3) \<Rightarrow> (r, db3) | (_, db3) \<Rightarrow> (Inr (), db3))))"
  by (auto simp: pg_save_session_def save_next_def update_if_seen_def insert_session_def dhas_def split: option.splits)

text \<open>Writers by number; the result lists the saves in the order in which they took effect.\<close>

fun save_run ::
  "cks_objects \<Rightarrow> (nat \<Rightarrow> session \<times> string) \<Rightarrow> (nat \<times> time) list \<Rightarrow> (nat \<Rightarrow> save_step) \<Rightarrow> pg_db
     \<Rightarrow> (session \<times> string) list \<times> (nat \<Rightarrow> save_step) \<times> pg_db" where
  "save_run cks w [] st db = ([], st, db)"
| "save_run cks w ((p, now) # ps) st db =
     (case save_next cks (fst (w p)) (snd (w p)) now (st p) db of
        (s, db') \<Rightarrow>
          (case save_run cks w ps (st(p := s)) db' of
             (won, rest) \<Rightarrow> (if s = Done (Inr ()) \<and> st p \<noteq> s then w p # won else won, rest)))"

fun chain_from :: "string option option \<Rightarrow> (session \<times> string) list \<Rightarrow> bool" where
  "chain_from (Some l) won = chain l won"
| "chain_from None [] = True"
| "chain_from None ((s, e) # won) = chain (latest_id s) won"

lemma chain_from_Nil [simp]: "chain_from l []"
  by (cases l) simp_all

lemma save_next_cases:
  assumes "session_id s = sid" and "save_next cks s e now st db = (st', db')"
  shows "pg_recorded db' sid = pg_recorded db sid \<and> (st' = Done (Inr ()) \<longrightarrow> st = st') \<or>
    st' = Done (Inr ()) \<and> st \<noteq> st' \<and> pg_recorded db' sid = Some (latest_id s) \<and> pg_recorded db sid \<in> {None, Some (Some e)}"
  using assms
  by (cases st) (auto simp: save_next_def update_if_seen_def insert_session_def pg_recorded_def dhas_def
      split: option.splits if_splits)

section \<open>Properties\<close>

text \<open>C26: However the statements of any processes interleave, all that have had three turns know
  one and the same replica identity, the one that is stored.\<close>

theorem one_replica_id:
  assumes "id_run candidate ps (\<lambda>_. Looking) row = (st, row')" and "3 \<le> count_list ps p" and "3 \<le> count_list ps q"
  shows "\<exists>r. st p = Known r \<and> st q = Known r \<and> row' = Some r"
proof -
  have "id_ok (\<lambda>_. Looking) row"
    by (simp add: id_ok_def)
  then have run: "id_ok st row' \<and> id_rank (st x) \<le> 3 - count_list ps x" for x
    using id_run_ok [OF _ assms(1), of x] by simp
  have known: "\<exists>r. st x = Known r" if "3 \<le> count_list ps x" for x
    using run [of x] that by (cases "st x") auto
  obtain r r' where "st p = Known r" "st q = Known r'"
    using known assms(2,3) by blast
  moreover have "row' = Some r" if "st x = Known r" for x r
    using spec [of _ x, OF conjunct1 [OF run, unfolded id_ok_def]] that by simp
  ultimately show ?thesis
    by (metis option.inject)
qed

theorem one_replica_id_witness:
  "\<exists>r. fst (id_run (\<lambda>p. if p = 0 then ''a'' else ''b'') [0, 1, 0, 1, 1, 0] (\<lambda>_. Looking) None) 0 = Known r \<and>
     fst (id_run (\<lambda>p. if p = 0 then ''a'' else ''b'') [0, 1, 0, 1, 1, 0] (\<lambda>_. Looking) None) 1 = Known r"
proof -
  obtain st row where r: "id_run (\<lambda>p. if p = 0 then ''a'' else ''b'') [0, 1, 0, 1, 1, 0] (\<lambda>_. Looking) None = (st, row)"
    by fastforce
  show ?thesis
    using one_replica_id [OF r, of 0 1] unfolding r by auto
qed

text \<open>C13: Whatever the order in which the statements of guarded saves of a session run, the saves
  that take effect form a chain: each was made by a writer that had seen the one before it, and
  what is stored in the end is the last of them.\<close>

theorem interleaved_saves_chain:
  assumes "\<forall>p. session_id (fst (w p)) = sid" and "save_run cks w ps st db = (won, st', db')"
  shows "chain_from (pg_recorded db sid) won \<and>
    pg_recorded db' sid = (if won = [] then pg_recorded db sid else Some (latest_id (fst (last won))))"
  using assms(2)
proof (induction ps arbitrary: st db won)
  case (Cons q ps)
  obtain p now where q: "q = (p, now)"
    by fastforce
  obtain s e where w: "w p = (s, e)" "session_id s = sid"
    using assms(1) by (metis surj_pair fst_conv)
  obtain t db1 where n: "save_next cks s e now (st p) db = (t, db1)"
    by fastforce
  obtain won1 st1 db2 where r: "save_run cks w ps (st(p := t)) db1 = (won1, st1, db2)"
    by (metis surj_pair)
  have IH: "chain_from (pg_recorded db1 sid) won1 \<and>
      pg_recorded db' sid = (if won1 = [] then pg_recorded db1 sid else Some (latest_id (fst (last won1))))"
    using Cons r n w q by auto
  consider "pg_recorded db1 sid = pg_recorded db sid" "won = won1"
    | "pg_recorded db1 sid = Some (latest_id s)" "pg_recorded db sid = None \<or> pg_recorded db sid = Some (Some e)" "won = (s, e) # won1"
    using save_next_cases [OF w(2) n] Cons.prems q n w r by (auto split: if_splits)
  then show ?case
    using IH by cases auto
qed simp

definition first_pg :: pg_db where
  "first_pg = (empty_pg empty_catalog)\<lparr>p_sessions := [(''s'', session_row_of text_cks first_session 1)]\<rparr>"

theorem interleaved_saves_chain_witness:
  "\<exists>won st db. save_run text_cks (\<lambda>p. (committed (snapshot_at (if p = 0 then ''v1'' else ''v2'') 2 one_object) one_object [] first_session, ''v0''))
       [(0, 2), (1, 2), (1, 3)] (\<lambda>_. Updating) first_pg = (won, st, db) \<and>
     chain_from (Some (Some ''v0'')) won \<and> pg_recorded db ''s'' = Some (latest_id (fst (last won)))"
proof -
  let ?w = "\<lambda>p :: nat. (committed (snapshot_at (if p = 0 then ''v1'' else ''v2'') 2 one_object) one_object [] first_session, ''v0'')"
  obtain won st db where r: "save_run text_cks ?w [(0, 2), (1, 2), (1, 3)] (\<lambda>_. Updating) first_pg = (won, st, db)"
    by (metis surj_pair)
  have first: "pg_recorded first_pg ''s'' = Some (Some ''v0'')"
    by (simp add: first_pg_def pg_recorded_def dict_simps latest_id_def)
  have "won \<noteq> []"
    using r by (auto simp: save_next_def update_if_seen_def first_pg_def dict_simps latest_id_def split: prod.splits)
  then show ?thesis
    using interleaved_saves_chain [of ?w "''s''", OF _ r] r first by auto
qed

text \<open>A guarded save whose answer is lost is tried again and then finds its own version: it is
  stored, and reported as a lost race.\<close>

theorem lost_answer_conflict:
  assumes "pg_save_session cks s (Some e) now db = (Inr (), db')" and "latest_id s \<noteq> Some e"
  shows "pg_retry_on_transient [LostAfter] (pg_save_session cks s (Some e) now) db = (Inl ConcurrentModificationError, db')"
proof -
  have "pg_recorded db' (session_id s) = Some (latest_id s)"
    using assms(1) by (auto simp: pg_save_session_def update_if_seen_def insert_session_def pg_recorded_def dhas_def
        split: option.splits if_splits prod.splits)
  then have "pg_save_session cks s (Some e) now db' = (Inl ConcurrentModificationError, db')"
    using assms(2) by (rule postgres_sessions.save_unseen)
  then show ?thesis
    using assms(1) by (simp add: pg_retry_on_transient_def)
qed

theorem lost_answer_conflict_witness:
  "\<exists>db. pg_retry_on_transient [LostAfter]
       (pg_save_session text_cks (committed (snapshot_at ''v1'' 2 one_object) one_object [] first_session) (Some ''v0'') 2) first_pg =
       (Inl ConcurrentModificationError, db) \<and> pg_recorded db ''s'' = Some (Some ''v1'')"
proof -
  let ?s = "committed (snapshot_at ''v1'' 2 one_object) one_object [] first_session"
  obtain db where "pg_save_session text_cks ?s (Some ''v0'') 2 first_pg = (Inr (), db)" "pg_recorded db ''s'' = Some (Some ''v1'')"
    by (simp add: pg_save_session_def update_if_seen_def first_pg_def dict_simps latest_id_def pg_recorded_def)
  then show ?thesis
    using lost_answer_conflict [of text_cks ?s "''v0''" 2 first_pg db] by (auto simp: latest_id_def)
qed

end
