(* ===== verification/Postgres_Backend.thy ===== *)
theory Postgres_Backend
  imports Postgres_Storage "HOL-Library.Multiset"
begin

text \<open>
  What the PostgreSQL backend does, one call at a time: it is the storage SQLite is but for the
  time of a retry, its one join loads what the loads of the single sessions do, an import brings
  back what was exported; and its archive, which the schema script never creates.
\<close>

section \<open>The archive\<close>

definition pg_gc :: "cks_objects \<Rightarrow> pg_db gc_store" where
  "pg_gc cks = \<lparr>modified_before = pg_list_sessions_modified_before cks, gc_archive = (\<lambda>s. pg_archive_session (session_id s))\<rparr>"

lemma pg_archive_fails:
  "without_archive (schema db) \<Longrightarrow> pg_archive_session sid now db = (Inl DatabaseError, db)"
  by (simp add: pg_archive_session_def without_archive_def)

lemma pg_gc_loop: "without_archive (schema db) \<Longrightarrow> snd (gc_loop (pg_gc cks) now ss n db) = db"
  by (induction ss arbitrary: n) (simp_all add: retM_def pg_gc_def bindM_def pg_archive_fails)

lemma pg_gc_sweep: "without_archive (schema db) \<Longrightarrow> snd (gc_sweep (pg_gc cks) retention n now db) = db"
  by (simp add: gc_sweep_def pg_gc_loop split: sum.splits)

section \<open>Export and import\<close>

lemma fold_dset_new: "dict_ok (d @ e) \<Longrightarrow> fold (\<lambda>(k, r) d. dset d k r) e d = d @ e"
proof (induction e arbitrary: d)
  case (Cons x e)
  obtain k r where x: "x = (k, r)"
    by fastforce
  then have "dset d k r = d @ [(k, r)]"
    using Cons.prems by (intro dset_new) (auto simp: dict_ok_def dkeys_def)
  then show ?case
    using Cons x by simp
qed simp

definition as_imported :: "time \<Rightarrow> graph \<Rightarrow> graph" where
  "as_imported now g = (pg_graph_row_to_dict g)\<lparr>g_created_at := now\<rparr>"

lemma pg_import_graphs:
  assumes "dict_ok (d @ e)"
  shows "fold (pg_import_graph now) (map (\<lambda>(n, g). (n, pg_graph_row_to_dict g)) e) d = d @ map (\<lambda>(n, g). (n, as_imported now g)) e"
  using assms
proof (induction e arbitrary: d)
  case (Cons x e)
  obtain n g where x: "x = (n, g)"
    by fastforce
  have new: "n \<notin> set (dkeys d)"
    using Cons.prems x by (auto simp: dict_ok_def dkeys_def)
  have "pg_import_graph now (n, pg_graph_row_to_dict g) d = d @ [(n, as_imported now g)]"
    using new by (simp add: pg_import_graph_def pg_graph_row_to_dict_def as_imported_def Let_def dset_new str_or_def
        dget_None_iff [THEN iffD2] split: option.splits)
  moreover have "dict_ok ((d @ [(n, as_imported now g)]) @ e)"
    using Cons.prems x by (simp add: dict_ok_def dkeys_def)
  ultimately show ?case
    using Cons.IH [of "d @ [(n, as_imported now g)]"] x by simp
qed simp

definition pg_ok :: "pg_db \<Rightarrow> bool" where
  "pg_ok db \<longleftrightarrow> dict_ok (p_sessions db) \<and> dict_ok (p_versions db) \<and> dict_ok (p_graphs db) \<and>
     (\<forall>i \<in> set (dkeys (tasks (p_outbox db))). i < next_task_id (p_outbox db))"

text \<open>What of a task survives.\<close>

definition pg_task_key :: "task \<Rightarrow> string \<times> string \<times> pyval \<times> task_status \<times> nat" where
  "pg_task_key t = (task_type t, t_session_id t, task.payload t, status t, retry_count t)"

lemma pg_import_tasks:
  assumes "\<forall>i \<in> set (dkeys (tasks ob)). i < next_task_id ob"
  shows "map (pg_task_key \<circ> snd) (tasks (fold (pg_import_task now) ts ob)) =
     map (pg_task_key \<circ> snd) (tasks ob) @ map pg_task_key ts"
  using assms
proof (induction ts arbitrary: ob)
  case (Cons t ts)
  have new: "next_task_id ob \<notin> set (dkeys (tasks ob))"
    using Cons.prems by auto
  have "\<forall>i \<in> set (dkeys (tasks (pg_import_task now t ob))). i < next_task_id (pg_import_task now t ob)"
    using Cons.prems by (auto simp: pg_import_task_def less_SucI)
  from Cons.IH [OF this] show ?case
    using new by (simp add: pg_import_task_def dset_new pg_task_key_def)
qed simp

text \<open>An import in mode \<open>merge\<close> overwrites the sessions that are there.\<close>

lemma merge_overwrites:
  assumes "dict_ok (pd_sessions dump)" and "(sid, row) \<in> set (pd_sessions dump)" and "pd_embeddings dump = []"
  shows "\<exists>db'. pg_import_storage pv dump False now (cached, db) = Some (Inr (), cached, db') \<and> dget (p_sessions db') sid = Some row"
proof -
  have "dget (fold (\<lambda>(k, r) d. dset d k r) e d) sid = (case dget e sid of None \<Rightarrow> dget d sid | Some r \<Rightarrow> Some r)" if "dict_ok e" for e d :: "(string, session_row) dict"
    using that
  proof (induction e arbitrary: d)
    case (Cons x e)
    obtain k r where "x = (k, r)"
      by fastforce
    then show ?case
      using Cons by (auto simp: dict_ok_Cons dget_Cons split: option.splits)
  qed simp
  then show ?thesis
    using assms dget_Some_iff [OF assms(1), of sid row] by (simp add: pg_import_storage_def Let_def retM_def)
qed

text \<open>The vectors stored have the width of the column, and a process that first saves a vector of
  another width than the column has can save none.\<close>

definition widths_ok :: "pg_db \<Rightarrow> bool" where
  "widths_ok db \<longleftrightarrow> list_all (\<lambda>(_, v, _). vector_column db = Some (dimensions v)) (p_embeddings db)"

lemma save_embedding_widths:
  assumes "widths_ok db" and "pg_save_object_embeddings pv oid sid b now (cached, db) = (r, (cached', db'))"
  shows "widths_ok db' \<and> (vector_column db \<noteq> None \<longrightarrow> vector_column db' = vector_column db)"
proof -
  obtain r1 c1 db1 where e: "ensure_embedding_column pv (length b div 4) (cached, db) = (r1, (c1, db1))"
    by (metis surj_pair)
  have 1: "widths_ok db1" "vector_column db \<noteq> None \<longrightarrow> vector_column db1 = vector_column db"
    using e assms(1) by (auto simp: ensure_embedding_column_def widths_ok_def coalesce_def list_all_iff split: option.splits if_splits)
  have "widths_ok (db1\<lparr>p_embeddings := dset (p_embeddings db1) k (v, now)\<rparr>)" if "vector_column db1 = Some (dimensions v)" for k v
    using 1(1) that unfolding widths_ok_def by (simp add: list_all_dset)
  then show ?thesis
    using assms(2) e 1
    by (auto simp: pg_save_object_embeddings_def bindM_def write_vector_def split: sum.splits if_splits)
qed

lemma wrong_width_stuck:
  assumes "vector_column db = Some n" and "length b div 4 = m" and "m \<noteq> n" and "indexable pv m" and "length b mod 4 = 0"
    and "pg_save_object_embeddings pv oid sid b now (None, db) = (r, (cached, db'))"
  shows "r = Inl DatabaseError \<and> cached = Some m \<and>
    (\<forall>oid sid b now. fst (pg_save_object_embeddings pv oid sid b now (cached, db')) \<noteq> Inr ())"
proof -
  have r: "r = Inl DatabaseError" "cached = Some m" "vector_column db' = Some n"
    using assms by (auto simp: pg_save_object_embeddings_def bindM_def ensure_embedding_column_def write_vector_def
        bytes_to_pg_vector_def coalesce_def)
  have "fst (pg_save_object_embeddings pv oid sid b now (cached, db')) \<noteq> Inr ()" for oid sid b now
    using r assms(3) by (auto simp: pg_save_object_embeddings_def bindM_def ensure_embedding_column_def write_vector_def
        bytes_to_pg_vector_def)
  then show ?thesis
    using r by blast
qed

section \<open>One join for all sessions\<close>

lemma mset_groups:
  assumes "distinct ks"
  shows "mset (concat (map (\<lambda>k. filter (\<lambda>x. f x = k) xs) ks)) = mset (filter (\<lambda>x. f x \<in> set ks) xs)"
  using assms
proof (induction ks)
  case (Cons k ks)
  have "mset (filter (\<lambda>x. f x \<in> set (k # ks)) xs) = mset (filter (\<lambda>x. f x = k) xs) + mset (filter (\<lambda>x. f x \<in> set ks) xs)"
    using Cons.prems by (induction xs) auto
  then show ?case
    using Cons by simp
qed simp

lemma filter_groups:
  "distinct ks \<Longrightarrow> filter (\<lambda>x. f x = k) (concat (map (\<lambda>k. filter (\<lambda>x. f x = k) xs) ks)) =
     (if k \<in> set ks then filter (\<lambda>x. f x = k) xs else [])"
  by (induction ks) (auto simp: filter_empty_conv intro: filter_cong)

lemma sorted_groups:
  "sorted ks \<Longrightarrow> sorted (map f (concat (map (\<lambda>k. filter (\<lambda>x. f x = k) xs) ks)))"
proof (induction ks)
  case (Cons k ks)
  have "sorted (map f (filter (\<lambda>x. f x = k) xs))"
    by (rule sorted_map_same)
  then show ?case
    using Cons by (auto simp: sorted_append)
qed simp

lemma sort_key_groups:
  assumes "set ks = f ` set xs" and "sorted ks" and "distinct ks"
  shows "sort_key f xs = concat (map (\<lambda>k. filter (\<lambda>x. f x = k) xs) ks)"
proof (rule properties_for_sort_key)
  show "mset (concat (map (\<lambda>k. filter (\<lambda>x. f x = k) xs) ks)) = mset xs"
    using mset_groups [OF assms(3), of f xs] assms(1) by (simp add: filter_id_conv [THEN iffD2])
next
  fix k
  assume "k \<in> set (concat (map (\<lambda>k. filter (\<lambda>x. f x = k) xs) ks))"
  then have "f k \<in> set ks"
    by auto
  then show "filter (\<lambda>x. f k = f x) (concat (map (\<lambda>k. filter (\<lambda>x. f x = k) xs) ks)) = filter (\<lambda>x. f k = f x) xs"
    using filter_groups [OF assms(3), of f "f k" xs] by (simp only: eq_commute [of "f k"] if_True)
next
  show "sorted (map f (concat (map (\<lambda>k. filter (\<lambda>x. f x = k) xs) ks)))"
    using assms(2) by (rule sorted_groups)
qed

lemma insort_key_map: "insort_key f (g x) (map g xs) = map g (insort_key (\<lambda>x. f (g x)) x xs)"
  by (induction xs) auto

lemma sort_key_map: "sort_key f (map g xs) = map g (sort_key (f \<circ> g) xs)"
  by (induction xs) (simp_all add: insort_key_map comp_def)

text \<open>The rows of one session in the ordered join.\<close>

definition session_rows_of ::
  "pg_db \<Rightarrow> string \<Rightarrow> session_row \<Rightarrow> (string \<times> session_row \<times> (string \<times> version_row) option) list" where
  "session_rows_of db sid r = joined sid r (versions_by_time db sid)"

lemma filter_concat_key:
  assumes "dict_ok d" and "dget d k = Some v" and "\<And>k v. \<forall>x \<in> set (f (k, v)). fst x = k"
  shows "filter (\<lambda>x. fst x = k) (concat (map f d)) = f (k, v)"
  using assms(1,2)
proof (induction d)
  case (Cons a d)
  obtain k' v' where a: "a = (k', v')"
    by fastforce
  show ?case
  proof (cases "k' = k")
    case True
    have "filter (\<lambda>x. fst x = k) (concat (map f d)) = []"
      using Cons.prems(1) assms(3) a True by (fastforce simp: filter_empty_conv dict_ok_def dkeys_def)
    moreover have "filter (\<lambda>x. fst x = k) (f (k, v)) = f (k, v)"
      using assms(3) by (simp add: filter_id_conv)
    ultimately show ?thesis
      using Cons.prems(2) a True by (simp add: dget_Cons)
  next
    case False
    have "filter (\<lambda>x. fst x = k) (f a) = []"
      using assms(3) a False by (auto simp: filter_empty_conv)
    then show ?thesis
      using Cons a False by (simp add: dget_Cons dict_ok_Cons)
  qed
qed simp

lemma join_of_session:
  assumes "dict_ok (p_sessions db)" and "dget (p_sessions db) sid = Some r"
  shows "filter (\<lambda>x. fst x = sid) (sort_key (\<lambda>(_, _, v). case v of None \<Rightarrow> 0 | Some (_, r) \<Rightarrow> vr_created_at r) (left_join db)) =
    session_rows_of db sid r"
proof -
  let ?t = "\<lambda>(_ :: string, _ :: session_row, v). case v of None \<Rightarrow> 0 | Some (_ :: string, r) \<Rightarrow> vr_created_at r"
  let ?vs = "filter (\<lambda>(_, v). vr_session_id v = sid) (p_versions db)"
  have "filter (\<lambda>x. fst x = sid) (left_join db) = joined sid r ?vs"
    unfolding left_join_def
    by (subst filter_concat_key [OF assms]) (auto simp: joined_def)
  then have "filter (\<lambda>x. fst x = sid) (sort_key ?t (left_join db)) = sort_key ?t (joined sid r ?vs)"
    by (simp add: filter_sort)
  moreover have vs: "versions_by_time db sid = sort_key (\<lambda>(_, r). vr_created_at r) ?vs"
    by (simp add: versions_by_time_def filter_sort)
  moreover have "sort_key ?t (map (\<lambda>v. (sid, r, Some v)) ?vs) = map (\<lambda>v. (sid, r, Some v)) (versions_by_time db sid)"
  proof -
    have "(\<lambda>v. ?t (sid, r, Some v)) = (\<lambda>(_, r). vr_created_at r)"
      by auto
    then show ?thesis
      by (simp add: vs sort_key_map comp_def del: split_paired_All)
  qed
  moreover have "?vs = [] \<longleftrightarrow> versions_by_time db sid = []"
    unfolding vs by (metis set_empty set_sort)
  ultimately show ?thesis
    by (cases "?vs = []") (simp_all only: session_rows_of_def joined_def if_True if_False, simp)
qed

lemma left_join_keys: "set (map fst (left_join db)) = set (dkeys (p_sessions db))"
proof -
  have *: "fst ` set (joined k r vs) = {k}" for k r vs
    by (simp add: joined_def image_image image_constant_conv)
  show ?thesis
    by (simp add: left_join_def dkeys_def case_prod_beta image_UN * UNION_singleton_eq_range)
qed

lemma joined_groups:
  assumes "dict_ok (p_sessions db)"
  shows "joined_rows db =
    concat (map (\<lambda>sid. case dget (p_sessions db) sid of None \<Rightarrow> [] | Some r \<Rightarrow> session_rows_of db sid r)
      (sort (dkeys (p_sessions db))))"
proof -
  let ?rows = "sort_key (\<lambda>(_ :: string, _ :: session_row, v). case v of None \<Rightarrow> 0 | Some (_ :: string, r) \<Rightarrow> vr_created_at r) (left_join db)"
  have "joined_rows db = concat (map (\<lambda>k. filter (\<lambda>x. fst x = k) ?rows) (sort (dkeys (p_sessions db))))"
    unfolding joined_rows_def using assms left_join_keys [of db]
    by (intro sort_key_groups) (simp_all add: dict_ok_def)
  also have "\<dots> = concat (map (\<lambda>sid. case dget (p_sessions db) sid of None \<Rightarrow> [] | Some r \<Rightarrow> session_rows_of db sid r)
      (sort (dkeys (p_sessions db))))"
  proof (rule arg_cong [where f = concat], rule map_cong [OF refl])
    fix sid
    assume "sid \<in> set (sort (dkeys (p_sessions db)))"
    then obtain r where "dget (p_sessions db) sid = Some r"
      by (cases "dget (p_sessions db) sid") (simp_all add: dget_None_iff)
    then show "filter (\<lambda>x. fst x = sid) ?rows = (case dget (p_sessions db) sid of None \<Rightarrow> [] | Some r \<Rightarrow> session_rows_of db sid r)"
      using join_of_session [OF assms] by simp
  qed
  finally show ?thesis .
qed

lemma bind_err_assoc: "bind_err (bind_err m f) g = bind_err m (\<lambda>x. bind_err (f x) g)"
  by (simp add: bind_err_def split: sum.splits)

lemma gather_versions:
  "dget found sid = Some s \<Longrightarrow>
   gather cks (map (\<lambda>v. (sid, r, Some v)) vs @ rest) found =
     bind_err (add_rows cks vs s) (\<lambda>s'. gather cks rest (if vs = [] then found else dset found sid s'))"
proof (induction vs arbitrary: found s)
  case Nil
  then show ?case
    by (simp add: bind_err_def)
next
  case (Cons v vs)
  have twice: "dset (dset found sid a) sid b = dset found sid b" for a b
    by (induction found) (auto simp: dset_def)
  show ?case
    using Cons.prems Cons.IH [of "dset found sid (add_version _ s)"]
    by (auto simp: bind_err_def twice split: sum.splits)
qed

lemma dset_dset [simp]: "dset (dset d k a) k b = dset d k b"
  by (induction d) (auto simp: dset_def)

lemma gather_session:
  assumes "dget found sid = None"
  shows "gather cks (session_rows_of db sid r @ rest) found =
    bind_err (bind_err (session_from_row cks sid r) (add_rows cks (versions_by_time db sid))) (\<lambda>s. gather cks rest (found @ [(sid, s)]))"
proof -
  have new: "dset found sid s = found @ [(sid, s)]" for s
    using assms by (simp add: dset_new dget_None_iff)
  show ?thesis
  proof (cases "versions_by_time db sid")
    case Nil
    then show ?thesis
      using assms new by (simp add: session_rows_of_def joined_def bind_err_assoc bind_err_def split: sum.splits)
  next
    case (Cons v vs)
    have "gather cks (map (\<lambda>v. (sid, r, Some v)) (v # vs) @ rest) found =
        bind_err (session_from_row cks sid r) (\<lambda>s. gather cks (map (\<lambda>v. (sid, r, Some v)) (v # vs) @ rest) (dset found sid s))"
      using assms by (simp add: bind_err_assoc bind_err_def split: sum.splits)
    moreover have "gather cks (map (\<lambda>v. (sid, r, Some v)) (v # vs) @ rest) (dset found sid s) =
        bind_err (add_rows cks (v # vs) s) (\<lambda>s. gather cks rest (dset found sid s))" for s
      using gather_versions [of "dset found sid s" sid s cks r "v # vs" rest] by (simp del: list.map append.simps gather.simps add_rows.simps)
    ultimately show ?thesis
      by (simp add: session_rows_of_def joined_def Cons bind_err_assoc new del: gather.simps add_rows.simps list.map append.simps)
  qed
qed

lemma gather_sessions:
  assumes "distinct ids" and "\<forall>sid \<in> set ids. dget found sid = None \<and> dget (p_sessions db) sid \<noteq> None"
  shows "bind_err (gather cks (concat (map (\<lambda>sid. case dget (p_sessions db) sid of None \<Rightarrow> [] | Some r \<Rightarrow> session_rows_of db sid r) ids)) found)
      (\<lambda>found. Inr (dvals found)) =
    bind_err (pg_load_all cks ids db) (\<lambda>ss. Inr (dvals found @ ss))"
  using assms
proof (induction ids arbitrary: found)
  case Nil
  then show ?case
    by (simp add: pg_load_all_def bind_err_def)
next
  case (Cons sid ids)
  obtain r where r: "dget (p_sessions db) sid = Some r"
    using Cons.prems(2) by auto
  let ?load = "bind_err (session_from_row cks sid r) (add_rows cks (versions_by_time db sid))"
  have load: "pg_load_session cks sid db = bind_err ?load (\<lambda>s. Inr (Some s))"
    using r by (simp add: pg_load_session_def bind_err_assoc)
  have IH: "bind_err (gather cks (concat (map (\<lambda>sid. case dget (p_sessions db) sid of None \<Rightarrow> [] | Some r \<Rightarrow> session_rows_of db sid r) ids))
      (found @ [(sid, s)])) (\<lambda>found. Inr (dvals found)) = bind_err (pg_load_all cks ids db) (\<lambda>ss. Inr (dvals found @ s # ss))" for s
  proof -
    have "\<forall>x \<in> set ids. dget (found @ [(sid, s)]) x = None \<and> dget (p_sessions db) x \<noteq> None"
      using Cons.prems by auto
    then show ?thesis
      using Cons.IH [of "found @ [(sid, s)]"] Cons.prems(1) by (simp add: dvals_def)
  qed
  show ?case
  proof (cases ?load)
    case (Inl e)
    then show ?thesis
      using r load gather_session [of found sid] Cons.prems(2) by (simp add: pg_load_all_def bind_err_def)
  next
    case (Inr s)
    then have "pg_load_session cks sid db = Inr (Some s)"
      using load by (simp add: bind_err_def)
    then have "bind_err (pg_load_all cks (sid # ids) db) (\<lambda>ss. Inr (dvals found @ ss)) =
        bind_err (pg_load_all cks ids db) (\<lambda>ss. Inr (dvals found @ s # ss))"
      by (simp add: pg_load_all_def bind_err_def split: sum.splits)
    then show ?thesis
      using Inr r IH gather_session [of found sid] Cons.prems(2) by (simp add: bind_err_def)
  qed
qed

section \<open>The same storage as SQLite\<close>

text \<open>The tables as SQLite has them; vectors are compared elsewhere.\<close>

definition sqlite_view :: "pg_db \<Rightarrow> sqlite_db" where
  "sqlite_view db =
     \<lparr>session_rows = p_sessions db, archive_rows = p_archive db, version_rows = p_versions db, log_rows = p_log db,
      task_table = p_outbox db, embedding_rows = [], identity_row = p_identity db, liveness_rows = p_liveness db,
      sweeper_rows = p_sweepers db\<rparr>"

lemma sqlite_view_simps [simp]:
  "session_rows (sqlite_view db) = p_sessions db" "version_rows (sqlite_view db) = p_versions db"
  "log_rows (sqlite_view db) = p_log db" "task_table (sqlite_view db) = p_outbox db" "identity_row (sqlite_view db) = p_identity db"
  "liveness_rows (sqlite_view db) = p_liveness db" "sweeper_rows (sqlite_view db) = p_sweepers db"
  by (simp_all add: sqlite_view_def)

datatype storage_call =
    SaveSession session "string option"
  | SaveVersion version
  | RecordOperations string string "field_operation list"
  | ReplicaId string
  | Heartbeat string liveness_row
  | StopAgent string
  | SetSweeper string bool
  | TaskCall outbox_op

text \<open>A call is answered by whether it raised.\<close>

fun sqlite_call :: "cks_objects \<Rightarrow> time \<Rightarrow> storage_call \<Rightarrow> sqlite_db \<Rightarrow> bool \<times> sqlite_db" where
  "sqlite_call cks now (SaveSession s e) db = map_prod (\<lambda>r. r = Inr ()) id (save_session cks s e now db)"
| "sqlite_call cks now (SaveVersion v) db = map_prod (\<lambda>r. r = Inr ()) id (save_version cks v db)"
| "sqlite_call cks now (RecordOperations sid vid ps) db = (True, record_operations sid vid ps db)"
| "sqlite_call cks now (ReplicaId c) db = (True, snd (get_or_create_replica_id c db))"
| "sqlite_call cks now (Heartbeat i r) db = (True, upsert_agent_liveness i r db)"
| "sqlite_call cks now (StopAgent i) db = request_agent_stop i db"
| "sqlite_call cks now (SetSweeper i b) db = (True, set_sweeper_desired_running i b db)"
| "sqlite_call cks now (TaskCall p) db = (True, db\<lparr>task_table := outbox_step now p (task_table db)\<rparr>)"

fun pg_task_step :: "nat \<Rightarrow> outbox_op \<Rightarrow> outbox \<Rightarrow> outbox" where
  "pg_task_step now (Enqueue ty sid p) ob = pg_enqueue_task ty sid p now ob"
| "pg_task_step now (Dequeue ty) ob = snd (pg_dequeue_next_outbox_task ty now ob)"
| "pg_task_step now (Complete i) ob = pg_complete_outbox_task i ob"
| "pg_task_step now (Fail i n e st) ob = pg_fail_outbox_task i n e st ob"
| "pg_task_step now (DeadLetter i e) ob = pg_dead_letter_outbox_task i e ob"
| "pg_task_step now (RetryDead i) ob = snd (pg_retry_dead_letter_task i now ob)"
| "pg_task_step now (Touch i) ob = snd (pg_touch_outbox_task i now ob)"
| "pg_task_step now (ListTasks ty sid dr) ob = snd (pg_list_tasks_by_type {} ty sid dr ob)"

fun pg_call :: "cks_objects \<Rightarrow> time \<Rightarrow> storage_call \<Rightarrow> pg_db \<Rightarrow> bool \<times> pg_db" where
  "pg_call cks now (SaveSession s e) db = map_prod (\<lambda>r. r = Inr ()) id (pg_save_session cks s e now db)"
| "pg_call cks now (SaveVersion v) db = map_prod (\<lambda>r. r = Inr ()) id (pg_save_version cks v db)"
| "pg_call cks now (RecordOperations sid vid ps) db = (True, pg_record_operations sid vid ps db)"
| "pg_call cks now (ReplicaId c) db = (True, snd (pg_get_or_create_replica_id c db))"
| "pg_call cks now (Heartbeat i r) db = (True, pg_upsert_agent_liveness i r db)"
| "pg_call cks now (StopAgent i) db = pg_request_agent_stop i db"
| "pg_call cks now (SetSweeper i b) db = (True, pg_set_sweeper_desired_running i b db)"
| "pg_call cks now (TaskCall p) db = (True, db\<lparr>p_outbox := pg_task_step now p (p_outbox db)\<rparr>)"

fun sqlite_calls :: "cks_objects \<Rightarrow> (time \<times> storage_call) list \<Rightarrow> sqlite_db \<Rightarrow> bool list \<times> sqlite_db" where
  "sqlite_calls cks [] db = ([], db)"
| "sqlite_calls cks ((now, c) # cs) db =
     (case sqlite_call cks now c db of (r, db') \<Rightarrow> case sqlite_calls cks cs db' of (rs, db'') \<Rightarrow> (r # rs, db''))"

fun pg_calls :: "cks_objects \<Rightarrow> (time \<times> storage_call) list \<Rightarrow> pg_db \<Rightarrow> bool list \<times> pg_db" where
  "pg_calls cks [] db = ([], db)"
| "pg_calls cks ((now, c) # cs) db =
     (case pg_call cks now c db of (r, db') \<Rightarrow> case pg_calls cks cs db' of (rs, db'') \<Rightarrow> (r # rs, db''))"

text \<open>No retry is scheduled, as SQLite compares its time as text.\<close>

fun no_retry :: "storage_call \<Rightarrow> bool" where
  "no_retry (TaskCall (Fail _ _ _ st)) = plain_stamp st"
| "no_retry _ = True"

definition plain_tasks :: "outbox \<Rightarrow> bool" where
  "plain_tasks ob \<longleftrightarrow> list_all (\<lambda>(_, t). plain_stamp (next_retry_at t)) (tasks ob)"

lemma pg_save_session_view:
  "save_session cks s e now (sqlite_view db) = map_prod id sqlite_view (pg_save_session cks s e now db)"
proof (cases e)
  case None
  then show ?thesis
    by (simp add: save_session_def pg_save_session_def sqlite_view_def)
next
  case (Some x)
  show ?thesis
  proof (cases "dget (p_sessions db) (session_id s)")
    case None
    then have "session_id s \<notin> set (dkeys (p_sessions db))"
      by (simp add: dget_None_iff)
    then show ?thesis
      using None Some by (simp add: save_session_def pg_save_session_def update_if_seen_def insert_session_def dhas_def dset_new)
        (simp add: sqlite_view_def)
  next
    case (Some row)
    then show ?thesis
      using \<open>e = Some x\<close> by (simp add: save_session_def pg_save_session_def update_if_seen_def dhas_def)
        (simp add: sqlite_view_def)
  qed
qed

lemma pg_rows: "pg_version_row = version_row_of" "version_from_row = version_of_row"
  by (simp_all add: fun_eq_iff pg_version_row_def version_row_of_def version_from_row_def version_of_row_def)

lemma plain_dset: "plain_tasks ob \<Longrightarrow> plain_stamp (next_retry_at t) \<Longrightarrow> list_all (\<lambda>(_, t). plain_stamp (next_retry_at t)) (dset (tasks ob) i t)"
  by (simp add: plain_tasks_def list_all_dset)

lemma plain_lookup: "plain_tasks ob \<Longrightarrow> dget (tasks ob) i = Some t \<Longrightarrow> plain_stamp (next_retry_at t)"
  by (auto simp: plain_tasks_def list_all_iff dest: dget_SomeD)

lemma plain_now [simp]: "plain_stamp (sql_stamp now)"
  by (simp add: sql_stamp_def)

lemma plain_update: "plain_tasks ob \<Longrightarrow> (\<And>t. plain_stamp (next_retry_at t) \<Longrightarrow> plain_stamp (next_retry_at (f t))) \<Longrightarrow>
    plain_tasks (snd (update_task i c f ob))"
  using plain_lookup [of ob i] plain_dset [of ob]
  by (auto simp: update_task_def plain_tasks_def split: option.splits)

lemma outbox_step_plain:
  assumes "plain_tasks ob" and "no_retry (TaskCall p)"
  shows "plain_tasks (outbox_step now p ob) \<and> pg_task_step now p ob = outbox_step now p ob"
proof (cases p)
  case (Dequeue ty)
  have "plain_tasks (snd (dequeue_next_outbox_task ty now ob))"
  proof (cases "candidates ty now ob")
    case (Cons x xs)
    obtain i t where x: "x = (i, t)"
      by fastforce
    then have "(i, t) \<in> set (candidates ty now ob)"
      using Cons by simp
    then have "plain_stamp (next_retry_at t)"
      using assms(1) by (auto simp: candidates_def plain_tasks_def list_all_iff)
    then show ?thesis
      using Cons x assms(1) by (simp add: dequeue_next_outbox_task_def Let_def plain_tasks_def list_all_dset)
  qed (use assms in \<open>simp add: dequeue_next_outbox_task_def\<close>)
  then show ?thesis
    using Dequeue pg_dequeue_plain [of ob ty now] assms(1) by (simp add: plain_tasks_def)
next
  case (Complete i)
  then show ?thesis
    using assms(1) set_dpop_subset [of "tasks ob" i]
    by (auto simp: pg_outbox_ops complete_outbox_task_def plain_tasks_def list_all_iff)
next
  case (ListTasks ty sid dr)
  then show ?thesis
    using assms(1) by (auto simp: pg_list_unlocked plain_tasks_def list_all_iff list_tasks_table)
next
  case (Enqueue ty sid q)
  then show ?thesis
    using assms(1) by (simp add: pg_outbox_ops enqueue_task_def plain_tasks_def list_all_dset)
qed (use assms in \<open>auto simp: pg_outbox_ops fail_outbox_task_def dead_letter_outbox_task_def retry_dead_letter_task_def
      touch_outbox_task_def case_prod_unfold intro!: plain_update\<close>)

lemma pg_call_outbox: "p_outbox (snd (pg_call cks now c db)) = (case c of TaskCall p \<Rightarrow> pg_task_step now p (p_outbox db) | _ \<Rightarrow> p_outbox db)"
  by (cases c) (auto simp: pg_save_session_def update_if_seen_def insert_session_def pg_save_version_def pg_record_operations_def
      pg_get_or_create_replica_id_def pg_upsert_agent_liveness_def pg_request_agent_stop_def pg_set_sweeper_desired_running_def
      split: option.splits sum.splits)

lemma pg_call_view:
  assumes "plain_tasks (p_outbox db)" and "no_retry c"
  shows "sqlite_call cks now c (sqlite_view db) = map_prod id sqlite_view (pg_call cks now c db)"
proof (cases c)
  case (SaveSession s e)
  then show ?thesis
    by (simp add: pg_save_session_view map_prod_def case_prod_beta)
next
  case (SaveVersion v)
  then show ?thesis
    by (simp add: save_version_def pg_save_version_def pg_rows split: sum.splits) (simp add: sqlite_view_def)
next
  case (TaskCall p)
  then show ?thesis
    using outbox_step_plain [of "p_outbox db" p now] assms by (simp add: sqlite_view_def)
qed (auto simp: sqlite_view_def record_operations_def pg_record_operations_def get_or_create_replica_id_def
      pg_get_or_create_replica_id_def upsert_agent_liveness_def pg_upsert_agent_liveness_def request_agent_stop_def
      pg_request_agent_stop_def set_sweeper_desired_running_def pg_set_sweeper_desired_running_def split: option.splits)

lemma map_err_sorted:
  fixes f :: "'a \<Rightarrow> exn + version"
  assumes "\<And>x y. f x = Inr y \<Longrightarrow> v_created_at y = h x"
  shows "map_err f (sort_key h xs) = Inr zs \<longleftrightarrow> (\<exists>ys. map_err f xs = Inr ys \<and> zs = sort_key v_created_at ys)"
proof -
  define F :: "_ \<Rightarrow> version" where "F x = (case f x of Inr y \<Rightarrow> y | Inl _ \<Rightarrow> undefined\<lparr>v_created_at := h x\<rparr>)" for x
  have F: "map_err f xs = Inr ys \<longleftrightarrow> (\<forall>x \<in> set xs. \<exists>y. f x = Inr y) \<and> ys = map F xs" for xs ys
  proof (induction xs arbitrary: ys)
    case (Cons x xs)
    have "map_err f (x # xs) = Inr ys \<longleftrightarrow> (\<exists>y ys'. f x = Inr y \<and> map_err f xs = Inr ys' \<and> ys = y # ys')"
      by (auto split: sum.splits)
    then show ?case
      using Cons.IH by (auto simp: F_def)
  qed auto
  have "(\<lambda>x. v_created_at (F x)) = h"
    using assms by (auto simp: F_def fun_eq_iff split: sum.splits)
  then show ?thesis
    unfolding F by (auto simp: sort_key_map comp_def)
qed

lemma add_rows_map_err: "add_rows cks rs s = Inr s' \<longleftrightarrow> (\<exists>vs. map_err (version_from_row cks) rs = Inr vs \<and> s' = fold add_version vs s)"
  by (induction rs arbitrary: s) (auto simp: bind_err_def split: sum.splits)

lemma bind_err_Inr: "bind_err m f = Inr y \<longleftrightarrow> (\<exists>x. m = Inr x \<and> f x = Inr y)"
  by (simp add: bind_err_def split: sum.splits)

lemma pg_load_view: "pg_load_session cks sid db = Inr x \<longleftrightarrow> load_session cks sid (sqlite_view db) = Inr x"
proof (cases "dget (p_sessions db) sid")
  case (Some r)
  have created: "version_of_row cks y = Inr v \<Longrightarrow> v_created_at v = (case y of (_, r) \<Rightarrow> vr_created_at r)" for y v
    by (cases y) (auto simp: version_of_row_def bind_err_def split: sum.splits)
  have rows: "map_err (version_from_row cks) (versions_by_time db sid) = Inr vs \<longleftrightarrow>
      (\<exists>ys. map_err (version_of_row cks) (rows_of_session (sqlite_view db) sid) = Inr ys \<and> vs = sort_key v_created_at ys)" for vs
    using map_err_sorted [of "version_of_row cks" "\<lambda>(_, r). vr_created_at r" "rows_of_session (sqlite_view db) sid" vs] created
    by (simp add: pg_rows versions_by_time_def rows_of_session_def filter_sort)
  show ?thesis
    using Some add_rows_map_err [of cks "versions_by_time db sid"] rows
    by (auto simp: pg_load_session_def load_session_def session_from_row_def bind_err_Inr)
qed (simp add: pg_load_session_def load_session_def)

section \<open>Properties\<close>



text \<open>C25: The one query for all sessions gives what loading them one by one in the order of their
  ids gives, the first error included.\<close>

theorem join_equals_loads:
  assumes "dict_ok (p_sessions db)"
  shows "pg_list_sessions cks db = pg_load_all cks (sort (dkeys (p_sessions db))) db"
proof -
  have "bind_err (gather cks (joined_rows db) []) (\<lambda>found. Inr (dvals found)) =
      bind_err (pg_load_all cks (sort (dkeys (p_sessions db))) db) (\<lambda>ss. Inr (dvals ([] :: (string, session) dict) @ ss))"
    unfolding joined_groups [OF assms] by (rule gather_sessions) (use assms in \<open>auto simp: dict_ok_def dget_None_iff\<close>)
  then show ?thesis
    by (simp add: pg_list_sessions_def dvals_def bind_err_def split: sum.splits)
qed

definition two_sessions :: pg_db where
  "two_sessions = (empty_pg empty_catalog)\<lparr>
     p_sessions := [(''s2'', session_row_of text_cks first_session 1), (''s1'', session_row_of text_cks first_session 2)]\<rparr>"

theorem join_equals_loads_witness:
  "pg_list_sessions text_cks two_sessions = pg_load_all text_cks [''s1'', ''s2''] two_sessions"
proof -
  have "dict_ok (p_sessions two_sessions)"
    by (simp add: two_sessions_def dict_ok_def dkeys_def)
  then have "pg_list_sessions text_cks two_sessions = pg_load_all text_cks (sort (dkeys (p_sessions two_sessions))) two_sessions"
    by (rule join_equals_loads)
  moreover have "sort (dkeys (p_sessions two_sessions)) = [''s1'', ''s2'']"
    by (simp add: two_sessions_def dkeys_def less_eq_char_def less_char_def)
  ultimately show ?thesis
    by simp
qed


definition sample_pgvector :: pgvector where
  "sample_pgvector = \<lparr>vector_literal = (\<lambda>b. b), indexable = (\<lambda>n. 0 < n), cosine_distance = (\<lambda>_ _. 0)\<rparr>"


text \<open>C40: No session is ever archived: however often a database that has no archive table is
  opened, and whatever the collector is asked to do on it, it changes nothing.\<close>

theorem collector_evicts_nothing:
  assumes "without_archive c" and "schema db = opened n c"
  shows "gc_run (pg_gc cks) retention batch_size ts db = db"
proof -
  have "without_archive (schema db)"
    using archive_table_never_created [OF assms(1)] assms(2) by simp
  then show ?thesis
    unfolding gc_run_def by (induction ts) (simp_all add: pg_gc_sweep)
qed

theorem collector_evicts_nothing_witness:
  "gc_run (pg_gc text_cks) 10 100 [50, 60] (two_sessions\<lparr>schema := opened 2 empty_catalog\<rparr>) =
     two_sessions\<lparr>schema := opened 2 empty_catalog\<rparr>"
proof -
  have "without_archive empty_catalog"
    by (simp add: without_archive_def empty_catalog_def has_table_def dhas_def)
  then show ?thesis
    using collector_evicts_nothing [where c = empty_catalog and n = 2 and db = "two_sessions\<lparr>schema := opened 2 empty_catalog\<rparr>"] by simp
qed

end
