(* ===== verification/Sqlite_Schema.thy ===== *)
theory Sqlite_Schema
  imports Prelude
begin

text \<open>
  Opening a SQLite storage (\<open>storage/sqlite_storage.py\<close>): the tables, the columns added to older
  databases and the new primary key of the embeddings.  In Python's \<open>sqlite3\<close> a schema statement
  is committed at once, and a statement that writes rows opens a transaction first, which then
  lasts until the next commit; what is not committed is lost when the process ends.
\<close>

section \<open>Statements\<close>

text \<open>A table has columns, a primary key and rows; a column without a value reads as NULL.  An index
  is a name with its table.\<close>

record lite_table =
  lt_columns :: "string list"
  lt_key :: "string list"
  lt_rows :: "(string, pyval) dict list"

record lite_schema =
  lite_tables :: "(string, lite_table) dict"
  lite_indexes :: "(string, string) dict"

definition cell :: "(string, pyval) dict \<Rightarrow> string \<Rightarrow> pyval" where
  "cell row x = dget_or row x PNone"

text \<open>The default of an added column: none, a constant, an expression.\<close>

datatype filler = NullDefault | ConstDefault pyval | ExprDefault

datatype lite_stmt =
    Create_If_Not_Exists string "string list" "string list"
  | Create_New string "string list" "string list"
  | Index_If_Not_Exists string string "string list"
  | Add_Column string string filler
  | Update_Rows string "string list" "(string, pyval) dict \<Rightarrow> (string, pyval) dict"
  | Copy_Rows string string "string list" "(string, pyval) dict \<Rightarrow> (string, pyval) dict"
  | Rename_Table string string
  | Drop_Table string

text \<open>\<open>INSERT OR REPLACE\<close>: a row replaces the one with its key.\<close>

definition insert_or_replace :: "string list \<Rightarrow> (string, pyval) dict \<Rightarrow> (string, pyval) dict list \<Rightarrow> (string, pyval) dict list" where
  "insert_or_replace key row rows = filter (\<lambda>r. map (cell r) key \<noteq> map (cell row) key) rows @ [row]"

text \<open>
  A column whose default is an expression can only be added to an empty table.  In \<open>Copy_Rows\<close> the
  list names the columns that are read, none of which is to be NULL in the target.
\<close>

fun run_stmt :: "lite_stmt \<Rightarrow> lite_schema \<Rightarrow> exn + lite_schema" where
  "run_stmt (Create_If_Not_Exists t cols key) c =
     Inr (if dhas (lite_tables c) t then c
          else c\<lparr>lite_tables := dset (lite_tables c) t \<lparr>lt_columns = cols, lt_key = key, lt_rows = []\<rparr>\<rparr>)"
| "run_stmt (Create_New t cols key) c =
     (if dhas (lite_tables c) t then Inl DatabaseError
      else Inr (c\<lparr>lite_tables := dset (lite_tables c) t \<lparr>lt_columns = cols, lt_key = key, lt_rows = []\<rparr>\<rparr>))"
| "run_stmt (Index_If_Not_Exists i t cols) c =
     (case dget (lite_tables c) t of
        None \<Rightarrow> Inl DatabaseError
      | Some tb \<Rightarrow>
          if dhas (lite_indexes c) i then Inr c
          else if list_all (\<lambda>x. x \<in> set (lt_columns tb)) cols then Inr (c\<lparr>lite_indexes := dset (lite_indexes c) i t\<rparr>)
          else Inl DatabaseError)"
| "run_stmt (Add_Column t x d) c =
     (case dget (lite_tables c) t of
        None \<Rightarrow> Inl DatabaseError
      | Some tb \<Rightarrow>
          if x \<in> set (lt_columns tb) \<or> d = ExprDefault \<and> lt_rows tb \<noteq> [] then Inl DatabaseError
          else Inr (c\<lparr>lite_tables := dset (lite_tables c) t
                   (tb\<lparr>lt_columns := lt_columns tb @ [x],
                      lt_rows := map (\<lambda>r. dset r x (case d of ConstDefault v \<Rightarrow> v | _ \<Rightarrow> PNone)) (lt_rows tb)\<rparr>)\<rparr>))"
| "run_stmt (Update_Rows t cols f) c =
     (case dget (lite_tables c) t of
        None \<Rightarrow> Inl DatabaseError
      | Some tb \<Rightarrow>
          if list_all (\<lambda>x. x \<in> set (lt_columns tb)) cols
          then Inr (c\<lparr>lite_tables := dset (lite_tables c) t (tb\<lparr>lt_rows := map f (lt_rows tb)\<rparr>)\<rparr>)
          else Inl DatabaseError)"
| "run_stmt (Copy_Rows src dst filled f) c =
     (case (dget (lite_tables c) src, dget (lite_tables c) dst) of
        (Some old, Some new) \<Rightarrow>
          let rows = map f (lt_rows old)
          in if list_all (\<lambda>x. x \<in> set (lt_columns old)) filled \<and> list_all (\<lambda>r. list_all (\<lambda>x. cell r x \<noteq> PNone) filled) rows
             then Inr (c\<lparr>lite_tables := dset (lite_tables c) dst
                      (new\<lparr>lt_rows := fold (insert_or_replace (lt_key new)) rows (lt_rows new)\<rparr>)\<rparr>)
             else Inl DatabaseError
      | _ \<Rightarrow> Inl DatabaseError)"
| "run_stmt (Rename_Table t t') c =
     (case dget (lite_tables c) t of
        None \<Rightarrow> Inl DatabaseError
      | Some tb \<Rightarrow>
          if dhas (lite_tables c) t' then Inl DatabaseError
          else Inr (c\<lparr>lite_tables := dset (dpop (lite_tables c) t) t' tb,
                     lite_indexes := map (\<lambda>(i, u). (i, if u = t then t' else u)) (lite_indexes c)\<rparr>))"
| "run_stmt (Drop_Table t) c =
     (if dhas (lite_tables c) t
      then Inr (c\<lparr>lite_tables := dpop (lite_tables c) t, lite_indexes := filter (\<lambda>(_, u). u \<noteq> t) (lite_indexes c)\<rparr>)
      else Inl DatabaseError)"

section \<open>A connection\<close>

text \<open>\<open>crash_points\<close> are the contents of the file after each statement: what the next process finds
  when this one ends there.\<close>

record lite_conn =
  on_disk :: lite_schema
  in_work :: lite_schema
  in_transaction :: bool
  crash_points :: "lite_schema list"

definition connect_sqlite :: "lite_schema \<Rightarrow> lite_conn" where
  "connect_sqlite c = \<lparr>on_disk = c, in_work = c, in_transaction = False, crash_points = [c]\<rparr>"

fun writes_rows :: "lite_stmt \<Rightarrow> bool" where
  "writes_rows (Update_Rows _ _ _) = True"
| "writes_rows (Copy_Rows _ _ _ _) = True"
| "writes_rows _ = False"

definition execute_stmt :: "lite_stmt \<Rightarrow> (lite_conn, unit) sx" where
  "execute_stmt s k =
     (let open_tx = in_transaction k \<or> writes_rows s
      in case run_stmt s (in_work k) of
           Inl e \<Rightarrow> (Inl e, k\<lparr>in_transaction := open_tx\<rparr>)
         | Inr w \<Rightarrow>
             let disk = if open_tx then on_disk k else w
             in (Inr (), k\<lparr>on_disk := disk, in_work := w, in_transaction := open_tx, crash_points := crash_points k @ [disk]\<rparr>))"

definition commit_rows :: "(lite_conn, unit) sx" where
  "commit_rows =
     modM (\<lambda>k. k\<lparr>on_disk := in_work k, in_transaction := False, crash_points := crash_points k @ [in_work k]\<rparr>)"

definition table_info :: "string \<Rightarrow> (lite_conn, string list) sx" where
  "table_info t = getM (\<lambda>k. case dget (lite_tables (in_work k)) t of None \<Rightarrow> [] | Some tb \<Rightarrow> lt_columns tb)"

text \<open>A column that the columns read before lack.\<close>

definition add_missing :: "string \<Rightarrow> string list \<Rightarrow> string \<Rightarrow> filler \<Rightarrow> (lite_conn, unit) sx" where
  "add_missing t cols x d = (if x \<in> set cols then retM () else execute_stmt (Add_Column t x d))"

section \<open>The tables\<close>

definition lite_session_tables :: "(lite_conn, unit) sx" where
  "lite_session_tables =
     bindM (execute_stmt (Create_If_Not_Exists ''sessions''
       [''session_id'', ''data'', ''latest_version_id'', ''modified_at''] [''session_id''])) (\<lambda>_.
     bindM (table_info ''sessions'') (\<lambda>session_cols.
     bindM (add_missing ''sessions'' session_cols ''latest_version_id'' NullDefault) (\<lambda>_.
     bindM (add_missing ''sessions'' session_cols ''modified_at'' ExprDefault) (\<lambda>_.
     bindM (execute_stmt (Index_If_Not_Exists ''idx_sessions_modified_at'' ''sessions'' [''modified_at''])) (\<lambda>_.
     execute_stmt (Create_If_Not_Exists ''archive_sessions''
       [''session_id'', ''data'', ''latest_version_id'', ''modified_at'', ''archived_at''] [''session_id'']))))))"

definition lite_version_tables :: "(lite_conn, unit) sx" where
  "lite_version_tables =
     bindM (execute_stmt (Create_If_Not_Exists ''versions'' [''version_id'', ''session_id'', ''data''] [''version_id''])) (\<lambda>_.
     bindM (table_info ''versions'') (\<lambda>cols.
     add_missing ''versions'' cols ''session_id'' NullDefault))"

definition lite_task_tables :: "(lite_conn, unit) sx" where
  "lite_task_tables =
     bindM (execute_stmt (Create_If_Not_Exists ''cks_outbox_tasks''
       [''task_id'', ''task_type'', ''session_id'', ''payload'', ''status'', ''retry_count'', ''next_retry_at'',
        ''last_error'', ''claimed_at'', ''created_at''] [''task_id''])) (\<lambda>_.
     bindM (table_info ''cks_outbox_tasks'') (\<lambda>outbox_cols.
     bindM (add_missing ''cks_outbox_tasks'' outbox_cols ''claimed_at'' NullDefault) (\<lambda>_.
     execute_stmt (Index_If_Not_Exists ''idx_outbox_pending'' ''cks_outbox_tasks''
       [''status'', ''next_retry_at'', ''claimed_at'']))))"

text \<open>The embeddings; \<open>now\<close> is the text of the time.\<close>

definition EMBEDDING_COLUMNS :: "string list" where
  "EMBEDDING_COLUMNS = [''object_id'', ''session_id'', ''embedding'', ''updated_at'']"

definition copied_embedding :: "string \<Rightarrow> (string, pyval) dict \<Rightarrow> (string, pyval) dict" where
  "copied_embedding now r =
     [(''object_id'', cell r ''object_id''), (''session_id'', cell r ''session_id''), (''embedding'', cell r ''embedding''),
      (''updated_at'', if cell r ''updated_at'' = PNone then PStr now else cell r ''updated_at'')]"

definition migrate_embeddings_pk_if_needed :: "string \<Rightarrow> (lite_conn, unit) sx" where
  "migrate_embeddings_pk_if_needed now =
     bindM (getM (\<lambda>k. case dget (lite_tables (in_work k)) ''cks_object_embeddings'' of None \<Rightarrow> 0 | Some tb \<Rightarrow> length (lt_key tb)))
       (\<lambda>pk_col_count.
     if pk_col_count \<noteq> 1 then retM ()
     else
       bindM (execute_stmt (Rename_Table ''cks_object_embeddings'' ''cks_object_embeddings_old'')) (\<lambda>_.
       bindM (execute_stmt (Create_New ''cks_object_embeddings'' EMBEDDING_COLUMNS [''object_id'', ''session_id''])) (\<lambda>_.
       bindM (execute_stmt (Copy_Rows ''cks_object_embeddings_old'' ''cks_object_embeddings'' EMBEDDING_COLUMNS
         (copied_embedding now))) (\<lambda>_.
       bindM (execute_stmt (Drop_Table ''cks_object_embeddings_old'')) (\<lambda>_.
       commit_rows)))))"

definition lite_embedding_tables :: "string \<Rightarrow> (lite_conn, unit) sx" where
  "lite_embedding_tables now =
     bindM (execute_stmt (Create_If_Not_Exists ''cks_object_embeddings'' EMBEDDING_COLUMNS [''object_id'', ''session_id''])) (\<lambda>_.
     bindM (migrate_embeddings_pk_if_needed now) (\<lambda>_.
     execute_stmt (Index_If_Not_Exists ''idx_object_embeddings_session'' ''cks_object_embeddings'' [''session_id''])))"

definition lite_log_tables :: "(lite_conn, unit) sx" where
  "lite_log_tables =
     bindM (execute_stmt (Create_If_Not_Exists ''cks_operation_log''
       [''op_id'', ''session_id'', ''version_id'', ''object_id'', ''op_type'', ''field_key'', ''field_value'', ''created_at'']
       [''op_id''])) (\<lambda>_.
     bindM (execute_stmt (Index_If_Not_Exists ''idx_operation_log_object'' ''cks_operation_log'' [''session_id'', ''object_id'']))
       (\<lambda>_.
     execute_stmt (Create_If_Not_Exists ''cks_runtime_identity'' [''id'', ''replica_id''] [''id''])))"

text \<open>The registry; a graph that was public gets that visibility and is taken as published.\<close>

definition fill_visibility :: "(string, pyval) dict \<Rightarrow> (string, pyval) dict" where
  "fill_visibility r = (if cell r ''public'' = PInt 1 then dset r ''visibility'' (PStr ''public'') else r)"

definition fill_lifecycle :: "(string, pyval) dict \<Rightarrow> (string, pyval) dict" where
  "fill_lifecycle r =
     (if cell r ''lifecycle_state'' = PNone
      then dset r ''lifecycle_state''
        (PStr (if cell r ''visibility'' = PStr ''public'' then ''published'' else ''draft''))
      else r)"

definition lite_registry_tables :: "(lite_conn, unit) sx" where
  "lite_registry_tables =
     bindM (execute_stmt (Create_If_Not_Exists ''graph_registry''
       [''name'', ''session_id'', ''description'', ''tags'', ''created_at'', ''updated_at''] [''name''])) (\<lambda>_.
     bindM (table_info ''graph_registry'') (\<lambda>graph_cols.
     bindM (add_missing ''graph_registry'' graph_cols ''public'' (ConstDefault (PInt 0))) (\<lambda>_.
     bindM (add_missing ''graph_registry'' graph_cols ''source_graph_name'' NullDefault) (\<lambda>_.
     bindM (if ''visibility'' \<in> set graph_cols then retM ()
            else bindM (execute_stmt (Add_Column ''graph_registry'' ''visibility'' (ConstDefault (PStr ''private'')))) (\<lambda>_.
                 execute_stmt (Update_Rows ''graph_registry'' [''visibility'', ''public''] fill_visibility))) (\<lambda>_.
     bindM (add_missing ''graph_registry'' graph_cols ''team'' NullDefault) (\<lambda>_.
     if ''lifecycle_state'' \<in> set graph_cols then retM ()
     else bindM (execute_stmt (Add_Column ''graph_registry'' ''lifecycle_state'' NullDefault)) (\<lambda>_.
          execute_stmt (Update_Rows ''graph_registry'' [''lifecycle_state'', ''visibility''] fill_lifecycle))))))))"

definition lite_agent_tables :: "(lite_conn, unit) sx" where
  "lite_agent_tables =
     bindM (execute_stmt (Create_If_Not_Exists ''cks_agent_liveness''
       [''instance_id'', ''process_kind'', ''hostname'', ''pid'', ''liveness_interval_s'', ''started_at'',
        ''last_heartbeat_at'', ''current_task_id'', ''current_task_type''] [''instance_id''])) (\<lambda>_.
     bindM (execute_stmt (Index_If_Not_Exists ''idx_agent_liveness_kind'' ''cks_agent_liveness''
       [''process_kind'', ''last_heartbeat_at''])) (\<lambda>_.
     bindM (table_info ''cks_agent_liveness'') (\<lambda>liveness_cols.
     bindM (add_missing ''cks_agent_liveness'' liveness_cols ''desired_state'' NullDefault) (\<lambda>_.
     bindM (execute_stmt (Create_If_Not_Exists ''cks_sweeper_control'' [''agent_id'', ''desired_running'', ''updated_at'']
       [''agent_id''])) (\<lambda>_.
     commit_rows)))))"

definition sqlite_create_tables :: "string \<Rightarrow> (lite_conn, unit) sx" where
  "sqlite_create_tables now =
     bindM lite_session_tables (\<lambda>_.
     bindM lite_version_tables (\<lambda>_.
     bindM lite_task_tables (\<lambda>_.
     bindM (lite_embedding_tables now) (\<lambda>_.
     bindM lite_log_tables (\<lambda>_.
     bindM lite_registry_tables (\<lambda>_. lite_agent_tables))))))"

section \<open>What becomes of each table\<close>

definition initial_tables :: "(string, lite_table) dict" where
  "initial_tables =
     map (\<lambda>(t, cols, key). (t, \<lparr>lt_columns = cols, lt_key = key, lt_rows = []\<rparr>))
       [(''sessions'', [''session_id'', ''data'', ''latest_version_id'', ''modified_at''], [''session_id'']),
        (''archive_sessions'', [''session_id'', ''data'', ''latest_version_id'', ''modified_at'', ''archived_at''], [''session_id'']),
        (''versions'', [''version_id'', ''session_id'', ''data''], [''version_id'']),
        (''cks_outbox_tasks'',
         [''task_id'', ''task_type'', ''session_id'', ''payload'', ''status'', ''retry_count'', ''next_retry_at'',
          ''last_error'', ''claimed_at'', ''created_at''], [''task_id'']),
        (''cks_object_embeddings'', EMBEDDING_COLUMNS, [''object_id'', ''session_id'']),
        (''cks_operation_log'',
         [''op_id'', ''session_id'', ''version_id'', ''object_id'', ''op_type'', ''field_key'', ''field_value'', ''created_at''],
         [''op_id'']),
        (''cks_runtime_identity'', [''id'', ''replica_id''], [''id'']),
        (''graph_registry'', [''name'', ''session_id'', ''description'', ''tags'', ''created_at'', ''updated_at''], [''name'']),
        (''cks_agent_liveness'',
         [''instance_id'', ''process_kind'', ''hostname'', ''pid'', ''liveness_interval_s'', ''started_at'',
          ''last_heartbeat_at'', ''current_task_id'', ''current_task_type''], [''instance_id'']),
        (''cks_sweeper_control'', [''agent_id'', ''desired_running'', ''updated_at''], [''agent_id''])]"

definition with_column :: "string \<Rightarrow> pyval \<Rightarrow> lite_table \<Rightarrow> lite_table" where
  "with_column x v tb =
     (if x \<in> set (lt_columns tb) then tb
      else tb\<lparr>lt_columns := lt_columns tb @ [x], lt_rows := map (\<lambda>r. dset r x v) (lt_rows tb)\<rparr>)"

definition with_rows :: "string \<Rightarrow> ((string, pyval) dict \<Rightarrow> (string, pyval) dict) \<Rightarrow> lite_table \<Rightarrow> lite_table \<Rightarrow> lite_table" where
  "with_rows x f old tb = (if x \<in> set (lt_columns old) then tb else tb\<lparr>lt_rows := map f (lt_rows tb)\<rparr>)"

definition patched :: "string \<Rightarrow> string \<Rightarrow> lite_table \<Rightarrow> lite_table" where
  "patched now t tb =
     (if t = ''sessions'' then with_column ''modified_at'' PNone (with_column ''latest_version_id'' PNone tb)
      else if t = ''versions'' then with_column ''session_id'' PNone tb
      else if t = ''cks_outbox_tasks'' then with_column ''claimed_at'' PNone tb
      else if t = ''cks_object_embeddings'' then
        (if length (lt_key tb) \<noteq> 1 then tb
         else \<lparr>lt_columns = EMBEDDING_COLUMNS, lt_key = [''object_id'', ''session_id''],
               lt_rows = fold (insert_or_replace [''object_id'', ''session_id'']) (map (copied_embedding now) (lt_rows tb)) []\<rparr>)
      else if t = ''graph_registry'' then
        with_rows ''lifecycle_state'' fill_lifecycle tb (with_column ''lifecycle_state'' PNone (with_column ''team'' PNone
          (with_rows ''visibility'' fill_visibility tb (with_column ''visibility'' (PStr ''private'')
            (with_column ''source_graph_name'' PNone (with_column ''public'' (PInt 0) tb))))))
      else if t = ''cks_agent_liveness'' then with_column ''desired_state'' PNone tb
      else tb)"

text \<open>The table as it is, or as it is created.\<close>

definition current :: "(string \<Rightarrow> lite_table option) \<Rightarrow> string \<Rightarrow> lite_table" where
  "current T t = (case T t of None \<Rightarrow> the (dget initial_tables t) | Some tb \<Rightarrow> tb)"

definition has_cols :: "string list \<Rightarrow> lite_table \<Rightarrow> bool" where
  "has_cols cols tb \<longleftrightarrow> list_all (\<lambda>x. x \<in> set (lt_columns tb)) cols"

definition old_embeddings :: "lite_table \<Rightarrow> bool" where
  "old_embeddings tb \<longleftrightarrow> lt_key tb = [''object_id''] \<and> distinct (map (\<lambda>r. cell r ''object_id'') (lt_rows tb)) \<and>
     list_all (\<lambda>r. cell r ''object_id'' \<noteq> PNone \<and> cell r ''session_id'' \<noteq> PNone \<and> cell r ''embedding'' \<noteq> PNone) (lt_rows tb)"

text \<open>What an upgrade needs of a database that an older version of the program has left.\<close>

definition upgradable :: "lite_schema \<Rightarrow> bool" where
  "upgradable c \<longleftrightarrow>
     (let T = dget (lite_tables c) in
      (''modified_at'' \<in> set (lt_columns (current T ''sessions'')) \<or> lt_rows (current T ''sessions'') = []) \<and>
      has_cols [''status'', ''next_retry_at''] (current T ''cks_outbox_tasks'') \<and>
      has_cols EMBEDDING_COLUMNS (current T ''cks_object_embeddings'') \<and>
      (length (lt_key (current T ''cks_object_embeddings'')) = 1 \<longrightarrow>
         old_embeddings (current T ''cks_object_embeddings'') \<and> T ''cks_object_embeddings_old'' = None) \<and>
      has_cols [''session_id'', ''object_id''] (current T ''cks_operation_log'') \<and>
      has_cols [''process_kind'', ''last_heartbeat_at''] (current T ''cks_agent_liveness''))"

section \<open>Running the script\<close>

abbreviation tables_of :: "lite_conn \<Rightarrow> string \<Rightarrow> lite_table option" where
  "tables_of k \<equiv> dget (lite_tables (in_work k))"

definition runs :: "(lite_conn, unit) sx \<Rightarrow> lite_conn \<Rightarrow> (string \<Rightarrow> lite_table option) \<Rightarrow> bool" where
  "runs m k T \<longleftrightarrow> (\<exists>k'. m k = (Inr (), k') \<and> tables_of k' = T)"

lemma runs_bind: "runs m k T \<Longrightarrow> (\<And>k'. tables_of k' = T \<Longrightarrow> runs (f ()) k' T') \<Longrightarrow> runs (bindM m f) k T'"
  by (auto simp: runs_def bindM_def)

lemma runs_ret: "runs (retM ()) k (tables_of k)"
  by (simp add: runs_def retM_def)

lemma runs_commit: "runs commit_rows k (tables_of k)"
  by (simp add: runs_def commit_rows_def modM_def)

lemma runs_create:
  "runs (execute_stmt (Create_If_Not_Exists t cols key)) k
     ((tables_of k)(t \<mapsto> case tables_of k t of None \<Rightarrow> \<lparr>lt_columns = cols, lt_key = key, lt_rows = []\<rparr> | Some tb \<Rightarrow> tb))"
  by (cases "tables_of k t") (auto simp: runs_def execute_stmt_def Let_def dhas_def dget_dset_fun fun_upd_idem)

lemma runs_index:
  "tables_of k t = Some tb \<Longrightarrow> has_cols cols tb \<Longrightarrow> runs (execute_stmt (Index_If_Not_Exists i t cols)) k (tables_of k)"
  by (auto simp: runs_def execute_stmt_def Let_def has_cols_def)

lemma runs_info:
  "tables_of k t = Some tb \<Longrightarrow> runs (f (lt_columns tb)) k T \<Longrightarrow> runs (bindM (table_info t) f) k T"
  by (simp add: runs_def bindM_def table_info_def getM_def)

definition default_value :: "filler \<Rightarrow> pyval" where
  "default_value d = (case d of ConstDefault v \<Rightarrow> v | _ \<Rightarrow> PNone)"

lemma runs_add:
  "tables_of k t = Some tb \<Longrightarrow> x \<notin> set (lt_columns tb) \<Longrightarrow> (d = ExprDefault \<Longrightarrow> lt_rows tb = []) \<Longrightarrow>
   runs (execute_stmt (Add_Column t x d)) k ((tables_of k)(t \<mapsto> with_column x (default_value d) tb))"
  by (auto simp: runs_def execute_stmt_def Let_def with_column_def default_value_def dget_dset_fun)

lemma runs_missing:
  assumes "tables_of k t = Some tb" and "x \<in> set cols \<longleftrightarrow> x \<in> set (lt_columns tb)"
    and "d = ExprDefault \<Longrightarrow> x \<notin> set cols \<Longrightarrow> lt_rows tb = []"
  shows "runs (add_missing t cols x d) k ((tables_of k)(t \<mapsto> with_column x (default_value d) tb))"
proof (cases "x \<in> set cols")
  case True
  then show ?thesis
    using assms(1,2) runs_ret [of k] by (simp add: add_missing_def with_column_def fun_upd_idem)
next
  case False
  then show ?thesis
    using runs_add [OF assms(1)] assms(2,3) by (simp add: add_missing_def)
qed

lemma runs_update:
  "tables_of k t = Some tb \<Longrightarrow> has_cols cols tb \<Longrightarrow>
   runs (execute_stmt (Update_Rows t cols f)) k ((tables_of k)(t \<mapsto> tb\<lparr>lt_rows := map f (lt_rows tb)\<rparr>))"
  by (simp add: runs_def execute_stmt_def Let_def has_cols_def dget_dset_fun)

lemma with_column_fields:
  "set (lt_columns (with_column x v tb)) = insert x (set (lt_columns tb))" "lt_key (with_column x v tb) = lt_key tb"
  "lt_rows tb = [] \<Longrightarrow> lt_rows (with_column x v tb) = []"
  by (auto simp: with_column_def)

lemma runs_eq: "runs m k T \<Longrightarrow> T = T' \<Longrightarrow> runs m k T'"
  by simp

lemmas initial_table = initial_tables_def dget_Cons EMBEDDING_COLUMNS_def

lemma runs_create_current:
  "dget initial_tables t = Some \<lparr>lt_columns = cols, lt_key = key, lt_rows = []\<rparr> \<Longrightarrow>
   runs (execute_stmt (Create_If_Not_Exists t cols key)) k ((tables_of k)(t \<mapsto> current (tables_of k) t))"
  by (rule runs_eq, rule runs_create) (simp add: current_def split: option.splits)

lemmas bind_create = runs_bind [OF runs_create_current]
lemmas bind_index = runs_bind [OF runs_index]
lemmas bind_missing = runs_bind [OF runs_missing]
lemmas bind_add = runs_bind [OF runs_add]

lemma runs_session_tables:
  assumes "''modified_at'' \<in> set (lt_columns (current (tables_of k) ''sessions'')) \<or> lt_rows (current (tables_of k) ''sessions'') = []"
  shows "runs lite_session_tables k ((tables_of k)(''sessions'' \<mapsto> patched now ''sessions'' (current (tables_of k) ''sessions''),
    ''archive_sessions'' \<mapsto> patched now ''archive_sessions'' (current (tables_of k) ''archive_sessions'')))"
  using assms unfolding lite_session_tables_def
    by - (rule bind_create, simp add: initial_table, rule runs_info, simp,
        rule bind_missing, simp, simp, simp, rule bind_missing, simp, simp add: with_column_fields, simp add: with_column_fields,
        rule bind_index, simp, simp add: has_cols_def with_column_fields,
        rule runs_eq, rule runs_create_current, simp add: initial_table, simp add: patched_def default_value_def current_def)

lemma runs_version_tables:
  "runs lite_version_tables k ((tables_of k)(''versions'' \<mapsto> patched now ''versions'' (current (tables_of k) ''versions'')))"
  unfolding lite_version_tables_def
  by (rule bind_create, simp add: initial_table, rule runs_info, simp,
      rule runs_eq, rule runs_missing, simp, simp, simp, simp add: patched_def default_value_def)

lemma runs_task_tables:
  assumes "has_cols [''status'', ''next_retry_at''] (current (tables_of k) ''cks_outbox_tasks'')"
  shows "runs lite_task_tables k
    ((tables_of k)(''cks_outbox_tasks'' \<mapsto> patched now ''cks_outbox_tasks'' (current (tables_of k) ''cks_outbox_tasks'')))"
  using assms unfolding lite_task_tables_def
    by - (rule bind_create, simp add: initial_table, rule runs_info, simp, rule bind_missing, simp, simp, simp,
        rule runs_eq, rule runs_index, simp, simp add: has_cols_def with_column_fields, simp add: patched_def default_value_def)

lemma runs_log_tables:
  assumes "has_cols [''session_id'', ''object_id''] (current (tables_of k) ''cks_operation_log'')"
  shows "runs lite_log_tables k ((tables_of k)(''cks_operation_log'' \<mapsto> patched now ''cks_operation_log'' (current (tables_of k) ''cks_operation_log''),
    ''cks_runtime_identity'' \<mapsto> patched now ''cks_runtime_identity'' (current (tables_of k) ''cks_runtime_identity'')))"
  using assms unfolding lite_log_tables_def
    by - (rule bind_create, simp add: initial_table, rule bind_index, simp, simp add: has_cols_def,
        rule runs_eq, rule runs_create_current, simp add: initial_table, simp add: patched_def current_def)

lemma runs_agent_tables:
  assumes "has_cols [''process_kind'', ''last_heartbeat_at''] (current (tables_of k) ''cks_agent_liveness'')"
  shows "runs lite_agent_tables k ((tables_of k)(''cks_agent_liveness'' \<mapsto> patched now ''cks_agent_liveness'' (current (tables_of k) ''cks_agent_liveness''),
    ''cks_sweeper_control'' \<mapsto> patched now ''cks_sweeper_control'' (current (tables_of k) ''cks_sweeper_control'')))"
  using assms unfolding lite_agent_tables_def
    by - (rule bind_create, simp add: initial_table, rule bind_index, simp, simp add: has_cols_def,
        rule runs_info, simp, rule bind_missing, simp, simp, simp,
        rule bind_create, simp add: initial_table, rule runs_eq, rule runs_commit,
        simp add: patched_def default_value_def current_def)

lemma runs_registry_tables:
  "runs lite_registry_tables k
     ((tables_of k)(''graph_registry'' \<mapsto> patched now ''graph_registry'' (current (tables_of k) ''graph_registry'')))"
proof -
  let ?tb = "current (tables_of k) ''graph_registry''"
  have visibility: "runs (if ''visibility'' \<in> set (lt_columns ?tb) then retM ()
            else bindM (execute_stmt (Add_Column ''graph_registry'' ''visibility'' (ConstDefault (PStr ''private'')))) (\<lambda>_.
                 execute_stmt (Update_Rows ''graph_registry'' [''visibility'', ''public''] fill_visibility))) k'
      ((tables_of k')(''graph_registry'' \<mapsto> with_rows ''visibility'' fill_visibility ?tb (with_column ''visibility'' (PStr ''private'') tb)))"
    if "tables_of k' ''graph_registry'' = Some tb" "set (lt_columns tb) = set (lt_columns ?tb) \<union> {''public'', ''source_graph_name''}"
    for k' tb
  proof (cases "''visibility'' \<in> set (lt_columns ?tb)")
    case True
    then show ?thesis
      using that runs_ret [of k'] by (simp add: with_rows_def with_column_def fun_upd_idem)
  next
    case False
    then show ?thesis
      using that by - (simp, rule bind_add, simp, simp, simp, rule runs_eq, rule runs_update, simp,
          simp add: has_cols_def with_column_fields, simp add: with_rows_def default_value_def)
  qed
  have lifecycle: "runs (if ''lifecycle_state'' \<in> set (lt_columns ?tb) then retM ()
     else bindM (execute_stmt (Add_Column ''graph_registry'' ''lifecycle_state'' NullDefault)) (\<lambda>_.
          execute_stmt (Update_Rows ''graph_registry'' [''lifecycle_state'', ''visibility''] fill_lifecycle))) k'
      ((tables_of k')(''graph_registry'' \<mapsto> with_rows ''lifecycle_state'' fill_lifecycle ?tb (with_column ''lifecycle_state'' PNone tb)))"
    if "tables_of k' ''graph_registry'' = Some tb"
      "set (lt_columns tb) = set (lt_columns ?tb) \<union> {''public'', ''source_graph_name'', ''visibility'', ''team''}"
    for k' tb
  proof (cases "''lifecycle_state'' \<in> set (lt_columns ?tb)")
    case True
    then show ?thesis
      using that runs_ret [of k'] by (simp add: with_rows_def with_column_def fun_upd_idem)
  next
    case False
    then show ?thesis
      using that by - (simp, rule bind_add, simp, simp, simp, rule runs_eq, rule runs_update, simp,
          simp add: has_cols_def with_column_fields, simp add: with_rows_def default_value_def)
  qed
  have rows: "set (lt_columns (with_rows x f old tb)) = set (lt_columns tb)" for x f old tb
    by (simp add: with_rows_def)
  show ?thesis
    unfolding lite_registry_tables_def
    by (rule bind_create, simp add: initial_table, rule runs_info, simp, rule bind_missing, simp, simp, simp,
        rule bind_missing, simp, simp add: with_column_fields, simp,
        rule runs_bind, rule visibility, simp, force simp: with_column_fields,
        rule bind_missing, simp, simp add: rows with_column_fields, simp,
        rule runs_eq, rule lifecycle, simp, force simp: rows with_column_fields, simp add: patched_def default_value_def)
qed

lemma runs_rename:
  "tables_of k t = Some tb \<Longrightarrow> tables_of k t' = None \<Longrightarrow> runs (execute_stmt (Rename_Table t t')) k ((tables_of k)(t := None, t' \<mapsto> tb))"
  by (auto simp: runs_def execute_stmt_def Let_def dhas_def dget_dset_fun fun_eq_iff)

lemma runs_new:
  "tables_of k t = None \<Longrightarrow>
   runs (execute_stmt (Create_New t cols key)) k ((tables_of k)(t \<mapsto> \<lparr>lt_columns = cols, lt_key = key, lt_rows = []\<rparr>))"
  by (simp add: runs_def execute_stmt_def Let_def dhas_def dget_dset_fun)

lemma runs_copy:
  "tables_of k src = Some old \<Longrightarrow> tables_of k dst = Some new \<Longrightarrow> has_cols filled old \<Longrightarrow>
   list_all (\<lambda>r. list_all (\<lambda>x. cell (f r) x \<noteq> PNone) filled) (lt_rows old) \<Longrightarrow>
   runs (execute_stmt (Copy_Rows src dst filled f)) k
     ((tables_of k)(dst \<mapsto> new\<lparr>lt_rows := fold (insert_or_replace (lt_key new)) (map f (lt_rows old)) (lt_rows new)\<rparr>))"
  by (simp add: runs_def execute_stmt_def Let_def has_cols_def dget_dset_fun list_all_iff)

lemma runs_drop: "tables_of k t = Some tb \<Longrightarrow> runs (execute_stmt (Drop_Table t)) k ((tables_of k)(t := None))"
  by (auto simp: runs_def execute_stmt_def Let_def dhas_def fun_eq_iff)

lemma runs_embedding_tables:
  assumes "has_cols EMBEDDING_COLUMNS (current (tables_of k) ''cks_object_embeddings'')"
    and "length (lt_key (current (tables_of k) ''cks_object_embeddings'')) = 1 \<Longrightarrow>
      old_embeddings (current (tables_of k) ''cks_object_embeddings'') \<and> tables_of k ''cks_object_embeddings_old'' = None"
  shows "runs (lite_embedding_tables now) k ((tables_of k)(''cks_object_embeddings'' \<mapsto>
      patched now ''cks_object_embeddings'' (current (tables_of k) ''cks_object_embeddings'')))"
proof -
  let ?tb = "current (tables_of k) ''cks_object_embeddings''"
  have tb: "has_cols EMBEDDING_COLUMNS ?tb" "length (lt_key ?tb) = 1 \<Longrightarrow> old_embeddings ?tb"
    "length (lt_key ?tb) = 1 \<Longrightarrow> tables_of k ''cks_object_embeddings_old'' = None"
    using assms by simp_all
  have migrate: "runs (migrate_embeddings_pk_if_needed now) k'
      ((tables_of k')(''cks_object_embeddings'' \<mapsto> patched now ''cks_object_embeddings'' ?tb))"
    if k': "tables_of k' = (tables_of k)(''cks_object_embeddings'' \<mapsto> ?tb)" for k'
  proof (cases "length (lt_key ?tb) = 1")
    case False
    then show ?thesis
      using k' runs_ret [of k'] by (simp add: migrate_embeddings_pk_if_needed_def runs_def bindM_def getM_def patched_def)
  next
    case True
    have "list_all (\<lambda>r. list_all (\<lambda>x. cell (copied_embedding now r) x \<noteq> PNone) EMBEDDING_COLUMNS) (lt_rows ?tb)"
      using tb(2) [OF True]
      by (auto simp: old_embeddings_def list_all_iff copied_embedding_def cell_def EMBEDDING_COLUMNS_def dget_or_def dget_Cons)
    then have "runs (bindM (execute_stmt (Rename_Table ''cks_object_embeddings'' ''cks_object_embeddings_old'')) (\<lambda>_.
       bindM (execute_stmt (Create_New ''cks_object_embeddings'' EMBEDDING_COLUMNS [''object_id'', ''session_id''])) (\<lambda>_.
       bindM (execute_stmt (Copy_Rows ''cks_object_embeddings_old'' ''cks_object_embeddings'' EMBEDDING_COLUMNS
         (copied_embedding now))) (\<lambda>_.
       bindM (execute_stmt (Drop_Table ''cks_object_embeddings_old'')) (\<lambda>_. commit_rows))))) k'
      ((tables_of k')(''cks_object_embeddings'' \<mapsto> patched now ''cks_object_embeddings'' ?tb))"
      using k' tb True
      by - (rule runs_bind, rule runs_rename, simp, simp, rule runs_bind, rule runs_new, simp,
          rule runs_bind, rule runs_copy, simp, simp, simp, simp, rule runs_bind, rule runs_drop, simp,
          rule runs_eq, rule runs_commit, simp add: patched_def fun_upd_twist fun_upd_idem)
    then show ?thesis
      using True k' by (simp add: migrate_embeddings_pk_if_needed_def runs_def bindM_def getM_def)
  qed
  have "has_cols [''session_id''] (patched now ''cks_object_embeddings'' ?tb)"
    using tb(1) by (simp add: patched_def has_cols_def EMBEDDING_COLUMNS_def)
  then show ?thesis
    unfolding lite_embedding_tables_def
    by - (rule bind_create, simp add: initial_table, rule runs_bind, rule migrate, simp,
        rule runs_eq, rule runs_index, simp, simp, simp)
qed

text \<open>The whole script brings every table up to date and touches no other.\<close>

definition upgraded :: "string \<Rightarrow> (string \<Rightarrow> lite_table option) \<Rightarrow> string \<Rightarrow> lite_table option" where
  "upgraded now T t = (if dhas initial_tables t then Some (patched now t (current T t)) else T t)"

lemma current_other: "t' \<noteq> t \<Longrightarrow> current (T(t' \<mapsto> x)) t = current T t"
  by (simp add: current_def)

lemma runs_create_tables:
  assumes "upgradable (in_work k)"
  shows "runs (sqlite_create_tables now) k (upgraded now (tables_of k))"
  using assms unfolding sqlite_create_tables_def upgradable_def Let_def
  by - (rule runs_bind, rule runs_session_tables [where now = now], simp,
      rule runs_bind, rule runs_version_tables [where now = now],
      rule runs_bind, rule runs_task_tables [where now = now], simp add: current_other,
      rule runs_bind, rule runs_embedding_tables, simp add: current_other, simp add: current_other,
      rule runs_bind, rule runs_log_tables [where now = now], simp add: current_other,
      rule runs_bind, rule runs_registry_tables [where now = now],
      rule runs_eq, rule runs_agent_tables [where now = now], simp add: current_other,
      rule ext, simp add: upgraded_def current_other initial_tables_def dhas_def dget_Cons)

section \<open>The upgrade\<close>

lemma with_column_idem: "x \<in> set (lt_columns tb) \<Longrightarrow> with_column x v tb = tb"
  by (simp add: with_column_def)

lemma with_rows_columns [simp]: "lt_columns (with_rows x f old tb) = lt_columns tb" "lt_key (with_rows x f old tb) = lt_key tb"
  by (simp_all add: with_rows_def)

text \<open>The columns an upgrade adds.\<close>

definition added_columns :: "string \<Rightarrow> string list" where
  "added_columns t =
     (if t = ''sessions'' then [''latest_version_id'', ''modified_at'']
      else if t = ''versions'' then [''session_id'']
      else if t = ''cks_outbox_tasks'' then [''claimed_at'']
      else if t = ''graph_registry'' then [''public'', ''source_graph_name'', ''visibility'', ''team'', ''lifecycle_state'']
      else if t = ''cks_agent_liveness'' then [''desired_state'']
      else [])"

lemma patched_fields:
  "set (lt_columns (patched now t tb)) =
     (if t = ''cks_object_embeddings'' \<and> length (lt_key tb) = 1 then set EMBEDDING_COLUMNS
      else set (lt_columns tb) \<union> set (added_columns t))"
  "lt_key (patched now t tb) =
     (if t = ''cks_object_embeddings'' \<and> length (lt_key tb) = 1 then [''object_id'', ''session_id''] else lt_key tb)"
  by (auto simp: patched_def added_columns_def with_column_fields)

lemma patched_current:
  "set (added_columns t) \<subseteq> set (lt_columns tb) \<Longrightarrow> (t = ''cks_object_embeddings'' \<Longrightarrow> length (lt_key tb) \<noteq> 1) \<Longrightarrow>
   patched now t tb = tb"
  by (cases "t = ''cks_agent_liveness''") (simp_all add: patched_def added_columns_def with_column_idem with_rows_def split: if_splits)

lemma patched_twice: "patched now' t (patched now t tb) = patched now t tb"
  by (rule patched_current) (auto simp: patched_fields added_columns_def)

lemma upgraded_twice: "upgraded now' (upgraded now T) = upgraded now T"
  by (rule ext) (simp add: upgraded_def current_def [of "upgraded now T"] patched_twice)

lemma upgraded_current: "dhas initial_tables t \<Longrightarrow> current (upgraded now T) t = patched now t (current T t)"
  by (simp add: upgraded_def current_def [of "upgraded now T"])

lemma known_tables:
  "dhas initial_tables ''sessions''" "dhas initial_tables ''cks_outbox_tasks''" "dhas initial_tables ''cks_object_embeddings''"
  "dhas initial_tables ''cks_operation_log''" "dhas initial_tables ''cks_agent_liveness''" "dhas initial_tables ''graph_registry''"
  by (simp_all add: initial_tables_def dhas_def dget_Cons)

lemma upgraded_upgradable:
  assumes "upgradable c" and "dget (lite_tables c') = upgraded now (dget (lite_tables c))"
  shows "upgradable c'"
  using assms(1) unfolding upgradable_def Let_def assms(2)
  by (simp add: upgraded_current known_tables patched_fields added_columns_def has_cols_def EMBEDDING_COLUMNS_def list_all_iff
      upgraded_def [of _ _ "''cks_object_embeddings_old''"] dhas_def initial_tables_def dget_Cons split: if_splits)

text \<open>The old columns keep their values.\<close>

definition data_columns :: "string \<Rightarrow> lite_table \<Rightarrow> string list" where
  "data_columns t tb =
     (if t = ''cks_object_embeddings'' then [''object_id'', ''session_id'', ''embedding''] else lt_columns tb)"

definition same_cells :: "string list \<Rightarrow> (string, pyval) dict \<Rightarrow> (string, pyval) dict \<Rightarrow> bool" where
  "same_cells cols r r' \<longleftrightarrow> list_all (\<lambda>x. cell r' x = cell r x) cols"

lemma cell_dset [simp]: "cell (dset r x v) y = (if y = x then v else cell r y)"
  by (simp add: cell_def dget_or_def)

lemma same_refl: "list_all2 (same_cells cols) rows rows"
  by (simp add: list_all2_same same_cells_def list_all_iff)

lemma same_column:
  "list_all2 (same_cells cols) rows (lt_rows tb) \<Longrightarrow> x \<notin> set cols \<or> x \<in> set (lt_columns tb) \<Longrightarrow>
   list_all2 (same_cells cols) rows (lt_rows (with_column x v tb))"
  by (auto simp: with_column_def list_all2_map2 same_cells_def list_all_iff elim!: list_all2_mono)

lemma same_fill:
  "list_all2 (same_cells cols) rows (lt_rows tb) \<Longrightarrow>
   (x \<notin> set (lt_columns old) \<Longrightarrow> \<forall>r. \<forall>y \<in> set cols. cell (f r) y = cell r y) \<Longrightarrow>
   list_all2 (same_cells cols) rows (lt_rows (with_rows x f old tb))"
  by (auto simp: with_rows_def list_all2_map2 same_cells_def list_all_iff elim!: list_all2_mono)

lemma insert_all_new:
  "distinct (map (\<lambda>r. map (cell r) key) (rows @ new)) \<Longrightarrow> fold (insert_or_replace key) new rows = rows @ new"
proof (induction new arbitrary: rows)
  case (Cons r new)
  then have "map (cell r) key \<notin> (\<lambda>r. map (cell r) key) ` set rows"
    by simp
  then have "insert_or_replace key r rows = rows @ [r]"
    by (simp add: insert_or_replace_def filter_id_conv del: map_eq_conv) (metis image_eqI)
  then show ?case
    using Cons.IH [of "rows @ [r]"] Cons.prems by simp
qed simp

lemma copied_rows:
  assumes "old_embeddings tb"
  shows "fold (insert_or_replace [''object_id'', ''session_id'']) (map (copied_embedding now) (lt_rows tb)) [] =
    map (copied_embedding now) (lt_rows tb)"
proof -
  let ?rows = "map (\<lambda>r. map (cell r) [''object_id'', ''session_id'']) (map (copied_embedding now) (lt_rows tb))"
  have "map (\<lambda>r. cell r ''object_id'') (lt_rows tb) = map hd ?rows"
    by (simp add: copied_embedding_def cell_def dget_or_def dget_Cons)
  then have "distinct (map hd ?rows)"
    using assms unfolding old_embeddings_def by metis
  then have "distinct ?rows"
    by (rule distinct_map [THEN iffD1, THEN conjunct1])
  then show ?thesis
    by (subst insert_all_new) simp_all
qed

lemma patched_rows:
  assumes "t = ''cks_object_embeddings'' \<Longrightarrow> length (lt_key tb) = 1 \<Longrightarrow> old_embeddings tb"
  shows "list_all2 (same_cells (data_columns t tb)) (lt_rows tb) (lt_rows (patched now t tb))"
proof -
  consider "t = ''cks_object_embeddings''" | "t = ''graph_registry''" | "t \<notin> {''cks_object_embeddings'', ''graph_registry''}"
    by blast
  then show ?thesis
  proof cases
    case 1
    then show ?thesis
      using assms copied_rows [of tb now]
      by (auto simp: patched_def data_columns_def same_refl list_all2_map2 same_cells_def copied_embedding_def cell_def
          dget_or_def dget_Cons list_all2_same)
  next
    case 2
    have fills: "\<forall>r. \<forall>y \<in> set (lt_columns tb). cell (fill_lifecycle r) y = cell r y" if "''lifecycle_state'' \<notin> set (lt_columns tb)"
      using that by (auto simp: fill_lifecycle_def)
    have fillv: "\<forall>r. \<forall>y \<in> set (lt_columns tb). cell (fill_visibility r) y = cell r y" if "''visibility'' \<notin> set (lt_columns tb)"
      using that by (auto simp: fill_visibility_def)
    show ?thesis
      using 2 fills fillv by (simp add: patched_def data_columns_def with_column_fields same_fill same_column same_refl)
  next
    case 3
    then show ?thesis
      by (simp add: patched_def data_columns_def with_column_fields same_column same_refl)
  qed
qed

lemma patched_visibility:
  assumes "''visibility'' \<notin> set (lt_columns tb)" and "''public'' \<in> set (lt_columns tb)"
  shows "list_all2 (\<lambda>r r'. cell r' ''visibility'' = PStr (if cell r ''public'' = PInt 1 then ''public'' else ''private''))
    (lt_rows tb) (lt_rows (patched now ''graph_registry'' tb))"
proof -
  have later: "list_all2 P rows (lt_rows (with_rows ''lifecycle_state'' fill_lifecycle old tb'))"
    if "list_all2 P rows (lt_rows tb')" "\<And>r s. P r s \<Longrightarrow> P r (fill_lifecycle s)" for P rows old tb'
    using that by (auto simp: with_rows_def list_all2_map2 elim!: list_all2_mono)
  have column: "list_all2 P rows (lt_rows (with_column x v tb'))"
    if "list_all2 P rows (lt_rows tb')" "\<And>r s. P r s \<Longrightarrow> P r (dset s x v)" for P rows x v tb'
    using that by (auto simp: with_column_def list_all2_map2 elim!: list_all2_mono)
  let ?tb = "with_column ''source_graph_name'' PNone (with_column ''public'' (PInt 0) tb)"
  have "list_all2 (same_cells (lt_columns tb)) (lt_rows tb) (lt_rows ?tb)"
    by (simp add: same_column same_refl with_column_fields)
  then have "list_all2 (\<lambda>r s. cell s ''public'' = cell r ''public'') (lt_rows tb) (lt_rows ?tb)"
    using assms(2) by (auto simp: same_cells_def list_all_iff elim!: list_all2_mono)
  moreover have "''visibility'' \<notin> set (lt_columns ?tb)"
    using assms(1) by (simp add: with_column_fields)
  then have "lt_rows (with_rows ''visibility'' fill_visibility tb (with_column ''visibility'' (PStr ''private'') ?tb)) =
      map (\<lambda>s. fill_visibility (dset s ''visibility'' (PStr ''private''))) (lt_rows ?tb)"
    using assms(1) by (simp add: with_rows_def with_column_def [of "''visibility''"])
  ultimately have "list_all2 (\<lambda>r s. cell s ''visibility'' = PStr (if cell r ''public'' = PInt 1 then ''public'' else ''private''))
      (lt_rows tb) (lt_rows (with_rows ''visibility'' fill_visibility tb (with_column ''visibility'' (PStr ''private'') ?tb)))"
    by (auto simp: list_all2_map2 fill_visibility_def elim!: list_all2_mono)
  then show ?thesis
    unfolding patched_def by (auto intro!: later column simp: fill_lifecycle_def)
qed

section \<open>Commits and crashes\<close>

definition tidy :: "lite_conn \<Rightarrow> bool" where
  "tidy k \<longleftrightarrow> \<not> in_transaction k \<and> on_disk k = in_work k"

definition ends_tidy :: "(lite_conn, unit) sx \<Rightarrow> bool" where
  "ends_tidy m \<longleftrightarrow> (\<forall>k k'. m k = (Inr (), k') \<longrightarrow> tidy k')"

definition keeps_tidy :: "(lite_conn, 'a) sx \<Rightarrow> bool" where
  "keeps_tidy m \<longleftrightarrow> (\<forall>k. tidy k \<longrightarrow> tidy (snd (m k)))"

definition keeps_points :: "(lite_conn, 'a) sx \<Rightarrow> bool" where
  "keeps_points m \<longleftrightarrow> (\<forall>k. set (crash_points k) \<subseteq> set (crash_points (snd (m k))))"

lemma ends_tidy_commit: "ends_tidy commit_rows"
  by (simp add: ends_tidy_def commit_rows_def modM_def tidy_def)

lemma ends_tidy_bind: "(\<And>x. ends_tidy (f x)) \<Longrightarrow> ends_tidy (bindM m f)"
  by (auto simp: ends_tidy_def bindM_def split: prod.splits sum.splits)

lemma create_tables_tidy: "ends_tidy (sqlite_create_tables now)"
  unfolding sqlite_create_tables_def lite_agent_tables_def by (intro ends_tidy_bind ends_tidy_commit)

lemma keeps_points_bind: "keeps_points m \<Longrightarrow> (\<And>x. keeps_points (f x)) \<Longrightarrow> keeps_points (bindM m f)"
  by (fastforce simp: keeps_points_def bindM_def split: prod.splits sum.splits)

lemma keeps_points_basic [simp]:
  "keeps_points (execute_stmt s)" "keeps_points commit_rows" "keeps_points (retM y)" "keeps_points (table_info t)"
  "keeps_points (add_missing t cols x d)" "keeps_points (getM g)"
  by (auto simp: keeps_points_def execute_stmt_def Let_def commit_rows_def modM_def retM_def table_info_def getM_def
      add_missing_def split: sum.splits)

lemma keeps_tidy_bind: "keeps_tidy m \<Longrightarrow> (\<And>x. keeps_tidy (f x)) \<Longrightarrow> keeps_tidy (bindM m f)"
  by (fastforce simp: keeps_tidy_def bindM_def split: prod.splits sum.splits)

lemma keeps_tidy_basic [simp]:
  "\<not> writes_rows s \<Longrightarrow> keeps_tidy (execute_stmt s)" "keeps_tidy (retM y)" "keeps_tidy (table_info t)"
  "keeps_tidy (add_missing t cols x d)" "keeps_tidy (getM g)"
  by (auto simp: keeps_tidy_def execute_stmt_def Let_def retM_def table_info_def getM_def add_missing_def tidy_def
      split: sum.splits)

lemma tidy_schema_parts:
  "keeps_tidy lite_session_tables" "keeps_tidy lite_version_tables" "keeps_tidy lite_task_tables" "keeps_tidy lite_log_tables"
  unfolding lite_session_tables_def lite_version_tables_def lite_task_tables_def lite_log_tables_def
  by (intro keeps_tidy_bind; simp)+

lemma tidy_embedding_tables: "tidy k \<Longrightarrow> lite_embedding_tables now k = (Inr (), k') \<Longrightarrow> tidy k'"
proof -
  assume k: "tidy k" and run: "lite_embedding_tables now k = (Inr (), k')"
  have index: "keeps_tidy (execute_stmt (Index_If_Not_Exists i t cols))" for i t cols
    by simp
  have migrate: "tidy k2" if "migrate_embeddings_pk_if_needed now k1 = (Inr (), k2)" "tidy k1" for k1 k2
  proof (cases "(case tables_of k1 ''cks_object_embeddings'' of None \<Rightarrow> 0 | Some tb \<Rightarrow> length (lt_key tb)) = 1")
    case True
    have "ends_tidy (bindM (execute_stmt (Rename_Table ''cks_object_embeddings'' ''cks_object_embeddings_old'')) (\<lambda>_.
       bindM (execute_stmt (Create_New ''cks_object_embeddings'' EMBEDDING_COLUMNS [''object_id'', ''session_id''])) (\<lambda>_.
       bindM (execute_stmt (Copy_Rows ''cks_object_embeddings_old'' ''cks_object_embeddings'' EMBEDDING_COLUMNS
         (copied_embedding now))) (\<lambda>_.
       bindM (execute_stmt (Drop_Table ''cks_object_embeddings_old'')) (\<lambda>_. commit_rows)))))"
      by (intro ends_tidy_bind ends_tidy_commit)
    then show ?thesis
      using that True by (simp add: migrate_embeddings_pk_if_needed_def bindM_Inr getM_def ends_tidy_def)
  next
    case False
    then show ?thesis
      using that by (simp add: migrate_embeddings_pk_if_needed_def bindM_Inr getM_def retM_def)
  qed
  obtain k1 where k1: "execute_stmt (Create_If_Not_Exists ''cks_object_embeddings'' EMBEDDING_COLUMNS [''object_id'', ''session_id'']) k = (Inr (), k1)"
    using runs_create unfolding runs_def by blast
  have "tidy k1"
    using keeps_tidy_basic(1) [of "Create_If_Not_Exists ''cks_object_embeddings'' EMBEDDING_COLUMNS [''object_id'', ''session_id'']"] k k1
    unfolding keeps_tidy_def by force
  then show "tidy k'"
    using run k1 migrate index unfolding lite_embedding_tables_def keeps_tidy_def
    by (auto simp: bindM_def split: prod.splits sum.splits) (metis snd_conv)
qed

lemma with_rows_idem: "x \<in> set (lt_columns old) \<Longrightarrow> with_rows x f old tb = tb"
  by (simp add: with_rows_def)

lemma before_registry:
  assumes "upgradable c"
  shows "\<exists>k. tidy k \<and>
    sqlite_create_tables now (connect_sqlite c) = bindM lite_registry_tables (\<lambda>_. lite_agent_tables) k \<and>
    tables_of k = (\<lambda>t. if t \<in> {''graph_registry'', ''cks_agent_liveness'', ''cks_sweeper_control''} then dget (lite_tables c) t
                       else upgraded now (dget (lite_tables c)) t)"
proof -
  let ?T = "dget (lite_tables c)"
  have start: "tidy (connect_sqlite c)" "tables_of (connect_sqlite c) = ?T"
    by (simp_all add: tidy_def connect_sqlite_def)
  obtain k1 where k1: "lite_session_tables (connect_sqlite c) = (Inr (), k1)"
      "tables_of k1 = ?T(''sessions'' \<mapsto> patched now ''sessions'' (current ?T ''sessions''),
         ''archive_sessions'' \<mapsto> patched now ''archive_sessions'' (current ?T ''archive_sessions''))"
    using runs_session_tables [of "connect_sqlite c" now] assms unfolding runs_def start(2) by (auto simp: upgradable_def Let_def)
  obtain k2 where k2: "lite_version_tables k1 = (Inr (), k2)"
      "tables_of k2 = (tables_of k1)(''versions'' \<mapsto> patched now ''versions'' (current ?T ''versions''))"
    using runs_version_tables [of k1 now] unfolding runs_def by (auto simp: k1(2) current_other)
  obtain k3 where k3: "lite_task_tables k2 = (Inr (), k3)"
      "tables_of k3 = (tables_of k2)(''cks_outbox_tasks'' \<mapsto> patched now ''cks_outbox_tasks'' (current ?T ''cks_outbox_tasks''))"
    using runs_task_tables [of k2 now] assms unfolding runs_def by (auto simp: k1(2) k2(2) current_other upgradable_def Let_def)
  obtain k4 where k4: "lite_embedding_tables now k3 = (Inr (), k4)"
      "tables_of k4 = (tables_of k3)(''cks_object_embeddings'' \<mapsto> patched now ''cks_object_embeddings'' (current ?T ''cks_object_embeddings''))"
    using runs_embedding_tables [of k3 now] assms unfolding runs_def
    by (auto simp: k1(2) k2(2) k3(2) current_other upgradable_def Let_def)
  obtain k5 where k5: "lite_log_tables k4 = (Inr (), k5)"
      "tables_of k5 = (tables_of k4)(''cks_operation_log'' \<mapsto> patched now ''cks_operation_log'' (current ?T ''cks_operation_log''),
         ''cks_runtime_identity'' \<mapsto> patched now ''cks_runtime_identity'' (current ?T ''cks_runtime_identity''))"
    using runs_log_tables [of k4 now] assms unfolding runs_def
    by (auto simp: k1(2) k2(2) k3(2) k4(2) current_other upgradable_def Let_def)
  have step: "tidy k'" if "keeps_tidy m" "m k = (Inr (), k')" "tidy k" for m :: "(lite_conn, unit) sx" and k k'
    using that unfolding keeps_tidy_def by (metis snd_conv)
  have "tidy k3"
    using step [OF tidy_schema_parts(1) k1(1)] step [OF tidy_schema_parts(2) k2(1)] step [OF tidy_schema_parts(3) k3(1)] start(1)
    by blast
  then have "tidy k5"
    using tidy_embedding_tables [OF _ k4(1)] step [OF tidy_schema_parts(4) k5(1)] by blast
  moreover have "sqlite_create_tables now (connect_sqlite c) = bindM lite_registry_tables (\<lambda>_. lite_agent_tables) k5"
    unfolding sqlite_create_tables_def by (simp add: bindM_Inr k1(1) k2(1) k3(1) k4(1) k5(1))
  moreover have "tables_of k5 = (\<lambda>t. if t \<in> {''graph_registry'', ''cks_agent_liveness'', ''cks_sweeper_control''} then ?T t
                       else upgraded now ?T t)"
    by (rule ext) (simp add: k1(2) k2(2) k3(2) k4(2) k5(2) upgraded_def initial_tables_def dhas_def dget_Cons)
  ultimately show ?thesis
    by blast
qed

lemma registry_crash_point:
  assumes "tidy k" and tb: "tables_of k ''graph_registry'' = Some tb"
    and cols: "''public'' \<in> set (lt_columns tb)" "''visibility'' \<notin> set (lt_columns tb)"
  shows "\<exists>d \<in> set (crash_points (snd (bindM lite_registry_tables (\<lambda>_. lite_agent_tables) k))).
    dget (lite_tables d) = (tables_of k)(''graph_registry'' \<mapsto>
      with_column ''visibility'' (PStr ''private'') (with_column ''source_graph_name'' PNone tb))"
proof -
  let ?create = "Create_If_Not_Exists ''graph_registry''
     [''name'', ''session_id'', ''description'', ''tags'', ''created_at'', ''updated_at''] [''name'']"
  let ?tb1 = "with_column ''source_graph_name'' PNone tb"
  obtain k1 where k1: "execute_stmt ?create k = (Inr (), k1)" "tables_of k1 = tables_of k"
    using runs_create [of "''graph_registry''" _ _ k] unfolding runs_def by (fastforce simp: tb fun_upd_idem)
  obtain k2 where k2: "add_missing ''graph_registry'' (lt_columns tb) ''source_graph_name'' NullDefault k1 = (Inr (), k2)"
      "tables_of k2 = (tables_of k)(''graph_registry'' \<mapsto> ?tb1)"
    using runs_missing [of k1 "''graph_registry''" tb "''source_graph_name''" "lt_columns tb" NullDefault] tb
    unfolding runs_def by (auto simp: k1(2) default_value_def)
  let ?add = "Add_Column ''graph_registry'' ''visibility'' (ConstDefault (PStr ''private''))"
  obtain k3 where k3: "execute_stmt ?add k2 = (Inr (), k3)"
      "tables_of k3 = (tables_of k)(''graph_registry'' \<mapsto> with_column ''visibility'' (PStr ''private'') ?tb1)"
    using runs_add [of k2 "''graph_registry''" ?tb1 "''visibility''" "ConstDefault (PStr ''private'')"] cols(2)
    unfolding runs_def by (auto simp: k2(2) with_column_fields default_value_def)
  have "tidy k2"
    using keeps_tidy_basic(1) [of ?create] keeps_tidy_basic(4) [of "''graph_registry''" "lt_columns tb" "''source_graph_name''" NullDefault]
      assms(1) k1(1) k2(1) unfolding keeps_tidy_def by (metis snd_conv writes_rows.simps(3))
  then have point: "in_work k3 \<in> set (crash_points k3)"
    using k3(1) by (auto simp: execute_stmt_def Let_def tidy_def split: sum.splits)
  have public: "add_missing ''graph_registry'' (lt_columns tb) ''public'' (ConstDefault (PInt 0)) k1 = (Inr (), k1)"
    using cols(1) by (simp add: add_missing_def retM_def)
  let ?rest = "bindM (execute_stmt (Update_Rows ''graph_registry'' [''visibility'', ''public''] fill_visibility)) (\<lambda>_.
     bindM (add_missing ''graph_registry'' (lt_columns tb) ''team'' NullDefault) (\<lambda>_.
     bindM (if ''lifecycle_state'' \<in> set (lt_columns tb) then retM ()
     else bindM (execute_stmt (Add_Column ''graph_registry'' ''lifecycle_state'' NullDefault)) (\<lambda>_.
          execute_stmt (Update_Rows ''graph_registry'' [''lifecycle_state'', ''visibility''] fill_lifecycle))) (\<lambda>_.
     lite_agent_tables)))"
  have assoc: "bindM (bindM m f) g = bindM m (\<lambda>x. bindM (f x) g)"
    for m :: "(lite_conn, 'a) sx" and f :: "'a \<Rightarrow> (lite_conn, 'b) sx" and g :: "'b \<Rightarrow> (lite_conn, 'c) sx"
    by (rule ext) (auto simp: bindM_def split: sum.splits prod.splits)
  obtain rest where rest: "rest = ?rest"
    by blast
  have run: "bindM lite_registry_tables (\<lambda>_. lite_agent_tables) k = rest k3"
    unfolding rest using cols(2) tb unfolding lite_registry_tables_def
    by (simp add: assoc bindM_Inr k1(1) k2(1) k3(1) public table_info_def getM_def k1(2))
  have "keeps_points rest"
    unfolding rest lite_agent_tables_def by (intro keeps_points_bind; simp add: keeps_points_bind)
  then have "in_work k3 \<in> set (crash_points (snd (rest k3)))"
    using point unfolding keeps_points_def by blast
  then show ?thesis
    unfolding run using k3(2) by blast
qed

text \<open>A sessions table with rows and without their times: the time of the creation is no constant, so the
  column cannot be added, and the storage does not open.\<close>

lemma old_sessions_not_opened:
  assumes "dget (lite_tables c) ''sessions'' = Some tb" and "''modified_at'' \<notin> set (lt_columns tb)" and "lt_rows tb \<noteq> []"
  shows "fst (sqlite_create_tables now (connect_sqlite c)) = Inl DatabaseError"
proof -
  let ?k = "connect_sqlite c"
  let ?create = "Create_If_Not_Exists ''sessions'' [''session_id'', ''data'', ''latest_version_id'', ''modified_at''] [''session_id'']"
  let ?tb = "with_column ''latest_version_id'' PNone tb"
  have start: "tables_of ?k ''sessions'' = Some tb"
    using assms(1) by (simp add: connect_sqlite_def)
  obtain k1 where k1: "execute_stmt ?create ?k = (Inr (), k1)" "tables_of k1 = tables_of ?k"
    using runs_create [of "''sessions''" _ _ ?k] unfolding runs_def by (fastforce simp: start fun_upd_idem)
  obtain k2 where k2: "add_missing ''sessions'' (lt_columns tb) ''latest_version_id'' NullDefault k1 = (Inr (), k2)"
      "tables_of k2 ''sessions'' = Some ?tb"
    using runs_missing [of k1 "''sessions''" tb "''latest_version_id''" "lt_columns tb" NullDefault] start
    unfolding runs_def by (auto simp: k1(2) default_value_def)
  have "lt_rows ?tb \<noteq> []"
    using assms(3) by (simp add: with_column_def)
  then have "fst (add_missing ''sessions'' (lt_columns tb) ''modified_at'' ExprDefault k2) = Inl DatabaseError"
    using assms(2) k2(2) by (simp add: add_missing_def execute_stmt_def Let_def)
  then show ?thesis
    using k2(1) start
    by (auto simp: sqlite_create_tables_def lite_session_tables_def bindM_def k1 table_info_def getM_def split: prod.splits)
qed

text \<open>A database of an early version: no version ids of sessions, embeddings by object only, two graphs
  of which one is public.\<close>

definition early_schema :: lite_schema where
  "early_schema =
     \<lparr>lite_tables =
        [(''sessions'', \<lparr>lt_columns = [''session_id'', ''data'', ''modified_at''], lt_key = [''session_id''],
            lt_rows = [[(''session_id'', PStr ''s''), (''data'', PStr ''{}''), (''modified_at'', PStr ''t'')]]\<rparr>),
         (''cks_object_embeddings'', \<lparr>lt_columns = EMBEDDING_COLUMNS, lt_key = [''object_id''],
            lt_rows = [[(''object_id'', PStr ''o''), (''session_id'', PStr ''s''), (''embedding'', PStr ''e'')]]\<rparr>),
         (''graph_registry'',
            \<lparr>lt_columns = [''name'', ''session_id'', ''description'', ''tags'', ''created_at'', ''updated_at'', ''public''],
             lt_key = [''name''],
             lt_rows = [[(''name'', PStr ''g''), (''session_id'', PStr ''s''), (''public'', PInt 1)],
                        [(''name'', PStr ''h''), (''session_id'', PStr ''s''), (''public'', PInt 0)]]\<rparr>)],
      lite_indexes = []\<rparr>"

lemma early_upgradable: "upgradable early_schema"
  by (simp add: upgradable_def Let_def early_schema_def current_def initial_table has_cols_def old_embeddings_def cell_def dget_or_def)

lemma early_graphs:
  "dget (lite_tables early_schema) ''graph_registry'' = Some
     \<lparr>lt_columns = [''name'', ''session_id'', ''description'', ''tags'', ''created_at'', ''updated_at'', ''public''],
      lt_key = [''name''],
      lt_rows = [[(''name'', PStr ''g''), (''session_id'', PStr ''s''), (''public'', PInt 1)],
                 [(''name'', PStr ''h''), (''session_id'', PStr ''s''), (''public'', PInt 0)]]\<rparr>"
  by (simp add: early_schema_def dget_Cons)

section \<open>Properties\<close>



text \<open>C34: An upgrade that is interrupted is not taken up again: when the process ends after the column
  \<open>visibility\<close> is added, every later start finds the column, skips the statement that fills it
  from \<open>public\<close>, and takes every graph as a private draft.\<close>

theorem interrupted_upgrade_hides_graphs:
  assumes "upgradable c" and "dget (lite_tables c) ''graph_registry'' = Some tb" and "''public'' \<in> set (lt_columns tb)"
    and "''visibility'' \<notin> set (lt_columns tb)" and "''lifecycle_state'' \<notin> set (lt_columns tb)"
  shows "\<exists>d \<in> set (crash_points (snd (sqlite_create_tables now (connect_sqlite c)))).
    \<exists>k tb'. sqlite_create_tables now' (connect_sqlite d) = (Inr (), k) \<and>
      dget (lite_tables (on_disk k)) ''graph_registry'' = Some tb' \<and>
      list_all2 (same_cells (lt_columns tb)) (lt_rows tb) (lt_rows tb') \<and>
      list_all (\<lambda>r. cell r ''visibility'' = PStr ''private'' \<and> cell r ''lifecycle_state'' = PStr ''draft'') (lt_rows tb')"
proof -
  let ?T = "dget (lite_tables c)" and ?tb = "with_column ''visibility'' (PStr ''private'') (with_column ''source_graph_name'' PNone tb)"
  obtain k where k: "tidy k" "sqlite_create_tables now (connect_sqlite c) = bindM lite_registry_tables (\<lambda>_. lite_agent_tables) k"
      "tables_of k = (\<lambda>t. if t \<in> {''graph_registry'', ''cks_agent_liveness'', ''cks_sweeper_control''} then ?T t else upgraded now ?T t)"
    using before_registry [OF assms(1)] by blast
  obtain d where d: "d \<in> set (crash_points (snd (sqlite_create_tables now (connect_sqlite c))))"
      "dget (lite_tables d) = (tables_of k)(''graph_registry'' \<mapsto> ?tb)"
    using registry_crash_point [OF k(1) _ assms(3,4)] assms(2) k(2,3) by auto
  have current: "current (dget (lite_tables d)) t =
      (if t \<in> {''cks_agent_liveness'', ''cks_sweeper_control''} then current ?T t else patched now t (current ?T t))"
    if "dhas initial_tables t" "t \<noteq> ''graph_registry''" for t
    using that unfolding d(2) k(3) by (simp add: current_def upgraded_def)
  have "dget (lite_tables d) ''cks_object_embeddings_old'' = ?T ''cks_object_embeddings_old''"
    unfolding d(2) k(3) by (simp add: upgraded_def dhas_def initial_tables_def dget_Cons)
  then have "upgradable d"
    using assms(1) unfolding upgradable_def Let_def
    by (simp add: current known_tables patched_fields added_columns_def has_cols_def EMBEDDING_COLUMNS_def list_all_iff)
  then obtain k' where k': "sqlite_create_tables now' (connect_sqlite d) = (Inr (), k')"
      "tables_of k' = upgraded now' (dget (lite_tables d))"
    using runs_create_tables [of "connect_sqlite d" now'] by (auto simp: runs_def connect_sqlite_def)
  then have disk: "on_disk k' = in_work k'"
    using create_tables_tidy by (auto simp: ends_tidy_def tidy_def)
  let ?tb' = "patched now' ''graph_registry'' ?tb"
  have final: "dget (lite_tables (on_disk k')) ''graph_registry'' = Some ?tb'"
    unfolding disk k'(2) by (simp add: upgraded_def known_tables current_def d(2))
  have "list_all2 (same_cells (lt_columns tb)) (lt_rows tb) (lt_rows ?tb)"
    by (simp add: same_column same_refl with_column_fields)
  moreover have "list_all2 (same_cells (lt_columns ?tb)) (lt_rows ?tb) (lt_rows ?tb')"
    using patched_rows [of "''graph_registry''" ?tb now'] by (simp add: data_columns_def)
  ultimately have same: "list_all2 (same_cells (lt_columns tb)) (lt_rows tb) (lt_rows ?tb')"
    by (rule list_all2_trans [rotated]) (auto simp: same_cells_def list_all_iff with_column_fields)
  have still: "list_all (\<lambda>r. cell r ''visibility'' = PStr ''private'') (lt_rows ?tb)"
    using assms(4) by (simp add: with_column_def [of "''visibility''"] with_column_fields list_all_iff)
  have "?tb' = with_rows ''lifecycle_state'' fill_lifecycle ?tb (with_column ''lifecycle_state'' PNone (with_column ''team'' PNone ?tb))"
    using assms(3) by (simp add: patched_def with_rows_idem with_column_idem with_column_fields)
  moreover have "''lifecycle_state'' \<notin> set (lt_columns ?tb)"
    using assms(5) by (simp add: with_column_fields)
  ultimately have "lt_rows ?tb' = map (\<lambda>r. fill_lifecycle (dset r ''lifecycle_state'' PNone)) (lt_rows (with_column ''team'' PNone ?tb))"
    by (simp add: with_rows_def with_column_def [of "''lifecycle_state''"] with_column_fields)
  moreover have "list_all (\<lambda>r. cell r ''visibility'' = PStr ''private'') (lt_rows (with_column ''team'' PNone ?tb))"
    using still by (simp add: with_column_def [of "''team''"] list_all_iff)
  ultimately have "list_all (\<lambda>r. cell r ''visibility'' = PStr ''private'' \<and> cell r ''lifecycle_state'' = PStr ''draft'') (lt_rows ?tb')"
    by (simp add: list_all_iff fill_lifecycle_def)
  then show ?thesis
    using d(1) k'(1) final same by blast
qed

theorem interrupted_upgrade_hides_graphs_witness:
  "\<exists>d k tb' r1 r2. d \<in> set (crash_points (snd (sqlite_create_tables ''n'' (connect_sqlite early_schema)))) \<and>
     sqlite_create_tables ''m'' (connect_sqlite d) = (Inr (), k) \<and>
     dget (lite_tables (on_disk k)) ''graph_registry'' = Some tb' \<and> lt_rows tb' = [r1, r2] \<and>
     cell r1 ''name'' = PStr ''g'' \<and> cell r1 ''public'' = PInt 1 \<and> cell r1 ''visibility'' = PStr ''private''"
proof -
  obtain d k tb' where d: "d \<in> set (crash_points (snd (sqlite_create_tables ''n'' (connect_sqlite early_schema))))"
      "sqlite_create_tables ''m'' (connect_sqlite d) = (Inr (), k)" "dget (lite_tables (on_disk k)) ''graph_registry'' = Some tb'"
    and rows: "list_all2 (same_cells [''name'', ''session_id'', ''description'', ''tags'', ''created_at'', ''updated_at'', ''public''])
        [[(''name'', PStr ''g''), (''session_id'', PStr ''s''), (''public'', PInt 1)],
         [(''name'', PStr ''h''), (''session_id'', PStr ''s''), (''public'', PInt 0)]] (lt_rows tb')"
      "list_all (\<lambda>r. cell r ''visibility'' = PStr ''private'' \<and> cell r ''lifecycle_state'' = PStr ''draft'') (lt_rows tb')"
    using interrupted_upgrade_hides_graphs [OF early_upgradable early_graphs, of "''n''" "''m''"] by auto
  obtain r1 r2 where "lt_rows tb' = [r1, r2]"
    using rows(1) by (auto simp: list_all2_Cons1)
  then show ?thesis
    using d rows by (auto simp: same_cells_def cell_def [of "[_, _, _]"] dget_or_def dget_Cons)
qed

end
