(* ===== verification/Storage_Interface.thy ===== *)
theory Storage_Interface
  imports Memory_Storage Postgres_Races Garbage_Collector Graph_Registry
begin

text \<open>
  The storage interface of the runtime as a record of its operations: the defaults of
  \<open>RuntimeStorage\<close> (\<open>storage/storage.py\<close>) and of \<open>AsyncRuntimeStorage\<close>
  (\<open>storage/async_storage.py\<close>), the adapter that makes a synchronous storage an asynchronous one
  (\<open>storage/adapter.py\<close>), and the three backends as values of the record.  An operation that reads
  the clock takes the time first.
\<close>

section \<open>The operations\<close>

text \<open>The abstract methods: every backend has them.\<close>

record 'st session_part =
  op_save_session :: "time \<Rightarrow> session \<Rightarrow> string option \<Rightarrow> ('st, unit) sx"
  op_load_session :: "string \<Rightarrow> ('st, session option) sx"
  op_has_session :: "string \<Rightarrow> ('st, bool) sx"
  op_list_sessions :: "('st, session list) sx"
  op_save_version :: "version \<Rightarrow> ('st, unit) sx"
  op_load_version :: "string \<Rightarrow> ('st, version option) sx"
  op_has_version :: "string \<Rightarrow> ('st, bool) sx"
  op_list_versions :: "('st, version list) sx"
  op_clear :: "('st, unit) sx"

text \<open>The optional subsystems: tasks, agents, embeddings, the operation log, maintenance and backup.\<close>

record 'st task_part =
  op_enqueue_outbox_task :: "time \<Rightarrow> string \<Rightarrow> string option \<Rightarrow> string \<Rightarrow> ('st, unit) sx"
  op_enqueue_task :: "time \<Rightarrow> string \<Rightarrow> string \<Rightarrow> pyval \<Rightarrow> ('st, unit) sx"
  op_dequeue_next_outbox_task :: "time \<Rightarrow> string option \<Rightarrow> ('st, (nat \<times> task) option) sx"
  op_complete_outbox_task :: "nat \<Rightarrow> ('st, unit) sx"
  op_fail_outbox_task :: "nat \<Rightarrow> nat \<Rightarrow> exn \<Rightarrow> stamp \<Rightarrow> ('st, unit) sx"
  op_dead_letter_outbox_task :: "nat \<Rightarrow> exn \<Rightarrow> ('st, unit) sx"
  op_touch_outbox_task :: "time \<Rightarrow> nat \<Rightarrow> ('st, bool) sx"
  op_list_tasks_by_type :: "string \<Rightarrow> string option \<Rightarrow> bool \<Rightarrow> ('st, (nat \<times> task) list) sx"
  op_list_dead_letter_tasks :: "string option \<Rightarrow> string option \<Rightarrow> ('st, (nat \<times> task) list) sx"
  op_retry_dead_letter_task :: "time \<Rightarrow> nat \<Rightarrow> ('st, bool) sx"
  op_supports_outbox :: bool

record 'st agent_part =
  op_prune_agent_liveness :: "time \<Rightarrow> nat \<Rightarrow> ('st, nat) sx"
  op_upsert_agent_liveness :: "string \<Rightarrow> liveness_row \<Rightarrow> ('st, unit) sx"
  op_list_agent_liveness :: "('st, (string \<times> liveness_row) list) sx"
  op_get_agent_liveness :: "string \<Rightarrow> ('st, liveness_row option) sx"
  op_request_agent_stop :: "string \<Rightarrow> ('st, bool) sx"
  op_supports_agent_liveness :: bool
  op_set_sweeper_desired_running :: "string \<Rightarrow> bool \<Rightarrow> ('st, unit) sx"
  op_get_sweeper_desired_running :: "string \<Rightarrow> ('st, bool option) sx"

text \<open>\<open>search_embeddings\<close> is no method of the synchronous interface, so a storage may lack it.\<close>

record 'st embedding_part =
  op_save_object_embeddings :: "time \<Rightarrow> string \<Rightarrow> string \<Rightarrow> string \<Rightarrow> ('st, unit) sx"
  op_delete_object_embeddings :: "string \<Rightarrow> string \<Rightarrow> ('st, unit) sx"
  op_search_embeddings :: "(string \<Rightarrow> string \<Rightarrow> nat \<Rightarrow> ('st, (string \<times> rat) list) sx) option"
  op_supports_embedding_search :: bool

record 'st log_part =
  op_record_operations :: "string \<Rightarrow> string \<Rightarrow> field_operation list \<Rightarrow> ('st, unit) sx"
  op_supports_operation_log :: bool
  op_list_operations :: "string \<Rightarrow> string option \<Rightarrow> string option \<Rightarrow> ('st, field_operation list) sx"
  op_get_or_create_replica_id :: "string \<Rightarrow> ('st, string option) sx"
  op_fetch_operations_since :: "version_vector \<Rightarrow> ('st, field_operation list) sx"

record 'st eviction_part =
  op_list_sessions_modified_before :: "time \<Rightarrow> nat \<Rightarrow> ('st, session list) sx"
  op_list_sessions_modified_since :: "time \<Rightarrow> nat \<Rightarrow> ('st, session list) sx"
  op_archive_session :: "time \<Rightarrow> session \<Rightarrow> ('st, unit) sx"

record 'st graph_part =
  op_register_graph :: "time \<Rightarrow> string \<Rightarrow> registration \<Rightarrow> ('st, unit) sx"
  op_get_graph :: "string \<Rightarrow> ('st, graph option) sx"
  op_unregister_graph :: "string \<Rightarrow> ('st, bool) sx"
  op_list_graphs :: "string option \<Rightarrow> bool \<Rightarrow> string option \<Rightarrow> ('st, (string \<times> graph) list) sx"

text \<open>An import may not return.\<close>

record ('st, 'd) backup_part =
  op_export_storage :: "('st, 'd) sx"
  op_import_storage :: "time \<Rightarrow> 'd \<Rightarrow> bool \<Rightarrow> 'st \<Rightarrow> ((exn + unit) \<times> 'st) option"

record ('st, 'd) storage =
  st_sessions :: "'st session_part"
  st_tasks :: "'st task_part"
  st_agents :: "'st agent_part"
  st_embeddings :: "'st embedding_part"
  st_log :: "'st log_part"
  st_eviction :: "'st eviction_part"
  st_graphs :: "'st graph_part"
  st_backup :: "('st, 'd) backup_part"
  st_close :: "('st, unit) sx option"

section \<open>The defaults of the synchronous interface\<close>

definition default_tasks :: "'st task_part" where
  "default_tasks =
     \<lparr>op_enqueue_outbox_task = (\<lambda>now sid prev new. retM ()),
      op_enqueue_task = (\<lambda>now ty sid p. retM ()),
      op_dequeue_next_outbox_task = (\<lambda>now ty. retM None),
      op_complete_outbox_task = (\<lambda>i. retM ()),
      op_fail_outbox_task = (\<lambda>i n e t. retM ()),
      op_dead_letter_outbox_task = (\<lambda>i e. retM ()),
      op_touch_outbox_task = (\<lambda>now i. retM False),
      op_list_tasks_by_type = (\<lambda>ty sid d. retM []),
      op_list_dead_letter_tasks = (\<lambda>ty sid. retM []),
      op_retry_dead_letter_task = (\<lambda>now i. retM False),
      op_supports_outbox = False\<rparr>"

definition default_agents :: "'st agent_part" where
  "default_agents =
     \<lparr>op_prune_agent_liveness = (\<lambda>now age. retM 0),
      op_upsert_agent_liveness = (\<lambda>i r. retM ()),
      op_list_agent_liveness = retM [],
      op_get_agent_liveness = (\<lambda>i. retM None),
      op_request_agent_stop = (\<lambda>i. retM False),
      op_supports_agent_liveness = False,
      op_set_sweeper_desired_running = (\<lambda>a b. retM ()),
      op_get_sweeper_desired_running = (\<lambda>a. retM None)\<rparr>"

definition default_embeddings :: "'st embedding_part" where
  "default_embeddings =
     \<lparr>op_save_object_embeddings = (\<lambda>now oid sid emb. retM ()),
      op_delete_object_embeddings = (\<lambda>oid sid. retM ()),
      op_search_embeddings = None, op_supports_embedding_search = False\<rparr>"

text \<open>The log entries of every version that the vector does not dominate, one query per version.\<close>

fun operations_of_versions ::
  "(string \<Rightarrow> string option \<Rightarrow> string option \<Rightarrow> ('st, field_operation list) sx) \<Rightarrow> version_vector \<Rightarrow> version list
     \<Rightarrow> field_operation list \<Rightarrow> ('st, field_operation list) sx" where
  "operations_of_versions list_ops vector [] operations = retM operations"
| "operations_of_versions list_ops vector (v # vs) operations =
     (if dominates vector (vv_from_metadata (v_metadata v)) then operations_of_versions list_ops vector vs operations
      else bindM (list_ops (v_session_id v) None (Some (version_id v)))
             (\<lambda>found. operations_of_versions list_ops vector vs (operations @ found)))"

definition default_fetch_operations_since ::
  "bool \<Rightarrow> ('st, version list) sx \<Rightarrow> (string \<Rightarrow> string option \<Rightarrow> string option \<Rightarrow> ('st, field_operation list) sx)
     \<Rightarrow> version_vector \<Rightarrow> ('st, field_operation list) sx" where
  "default_fetch_operations_since supported list_vs list_ops vector =
     (if \<not> supported then retM []
      else bindM list_vs (\<lambda>vs. operations_of_versions list_ops vector vs []))"

definition default_log :: "('st, version list) sx \<Rightarrow> 'st log_part" where
  "default_log list_vs =
     \<lparr>op_record_operations = (\<lambda>sid vid ops. retM ()),
      op_supports_operation_log = False,
      op_list_operations = (\<lambda>sid oid vid. retM []),
      op_get_or_create_replica_id = (\<lambda>candidate. retM None),
      op_fetch_operations_since = default_fetch_operations_since False list_vs (\<lambda>sid oid vid. retM [])\<rparr>"

definition default_eviction :: "'st eviction_part" where
  "default_eviction =
     \<lparr>op_list_sessions_modified_before = (\<lambda>cutoff limit. retM []),
      op_list_sessions_modified_since = (\<lambda>wm limit. retM []),
      op_archive_session = (\<lambda>now s. retM ())\<rparr>"

definition default_graphs :: "'st graph_part" where
  "default_graphs =
     \<lparr>op_register_graph = (\<lambda>now name r. retM ()),
      op_get_graph = (\<lambda>name. retM None),
      op_unregister_graph = (\<lambda>name. retM False),
      op_list_graphs = (\<lambda>tag public_only team. retM [])\<rparr>"

definition default_backup :: "('st, 'd) backup_part" where
  "default_backup =
     \<lparr>op_export_storage = raiseM NotImplementedError,
      op_import_storage = (\<lambda>now dump mode_clear st. Some (Inl NotImplementedError, st))\<rparr>"

section \<open>The defaults of the asynchronous interface\<close>

text \<open>The same, except that \<open>search_embeddings\<close> has a default as well.\<close>

definition async_default_tasks :: "'st task_part" where
  "async_default_tasks = default_tasks"

definition async_default_agents :: "'st agent_part" where
  "async_default_agents = default_agents"

definition async_default_embeddings :: "'st embedding_part" where
  "async_default_embeddings =
     default_embeddings\<lparr>op_search_embeddings := Some (\<lambda>query sid top_k. retM []), op_supports_embedding_search := False\<rparr>"

definition async_fetch_operations_since ::
  "bool \<Rightarrow> ('st, version list) sx \<Rightarrow> (string \<Rightarrow> string option \<Rightarrow> string option \<Rightarrow> ('st, field_operation list) sx)
     \<Rightarrow> version_vector \<Rightarrow> ('st, field_operation list) sx" where
  "async_fetch_operations_since supported list_vs list_ops vector =
     (if \<not> supported then retM []
      else bindM list_vs (\<lambda>vs. operations_of_versions list_ops vector vs []))"

definition async_default_eviction :: "'st eviction_part" where
  "async_default_eviction =
     \<lparr>op_list_sessions_modified_before = (\<lambda>cutoff limit. getM (\<lambda>st. [])),
      op_list_sessions_modified_since = (\<lambda>wm limit. getM (\<lambda>st. [])),
      op_archive_session = (\<lambda>now s. retM ())\<rparr>"

definition async_default_backup :: "('st, 'd) backup_part" where
  "async_default_backup = default_backup"

section \<open>The adapter\<close>

text \<open>
  \<open>SyncStorageAdapter\<close> runs each method of the wrapped storage in a thread and awaits it.  It
  overrides all methods but the three of the eviction, and has no \<open>close\<close>.
\<close>

definition adapter_sessions :: "'st session_part \<Rightarrow> 'st session_part" where
  "adapter_sessions s =
     \<lparr>op_save_session = op_save_session s, op_load_session = op_load_session s, op_has_session = op_has_session s,
      op_list_sessions = op_list_sessions s, op_save_version = op_save_version s, op_load_version = op_load_version s,
      op_has_version = op_has_version s, op_list_versions = op_list_versions s, op_clear = op_clear s\<rparr>"

definition adapter_tasks :: "'st task_part \<Rightarrow> 'st task_part" where
  "adapter_tasks s =
     \<lparr>op_enqueue_outbox_task = op_enqueue_outbox_task s, op_enqueue_task = op_enqueue_task s,
      op_dequeue_next_outbox_task = op_dequeue_next_outbox_task s, op_complete_outbox_task = op_complete_outbox_task s,
      op_fail_outbox_task = op_fail_outbox_task s, op_dead_letter_outbox_task = op_dead_letter_outbox_task s,
      op_touch_outbox_task = op_touch_outbox_task s, op_list_tasks_by_type = op_list_tasks_by_type s,
      op_list_dead_letter_tasks = op_list_dead_letter_tasks s, op_retry_dead_letter_task = op_retry_dead_letter_task s,
      op_supports_outbox = op_supports_outbox s\<rparr>"

definition adapter_agents :: "'st agent_part \<Rightarrow> 'st agent_part" where
  "adapter_agents s =
     \<lparr>op_prune_agent_liveness = op_prune_agent_liveness s, op_upsert_agent_liveness = op_upsert_agent_liveness s,
      op_list_agent_liveness = op_list_agent_liveness s, op_get_agent_liveness = op_get_agent_liveness s,
      op_request_agent_stop = op_request_agent_stop s, op_supports_agent_liveness = op_supports_agent_liveness s,
      op_set_sweeper_desired_running = op_set_sweeper_desired_running s,
      op_get_sweeper_desired_running = op_get_sweeper_desired_running s\<rparr>"

definition adapter_search_embeddings ::
  "'st embedding_part \<Rightarrow> string \<Rightarrow> string \<Rightarrow> nat \<Rightarrow> ('st, (string \<times> rat) list) sx" where
  "adapter_search_embeddings s query sid top_k =
     (case op_search_embeddings s of None \<Rightarrow> retM [] | Some search \<Rightarrow> search query sid top_k)"

definition adapter_embeddings :: "'st embedding_part \<Rightarrow> 'st embedding_part" where
  "adapter_embeddings s =
     \<lparr>op_save_object_embeddings = op_save_object_embeddings s,
      op_delete_object_embeddings = op_delete_object_embeddings s,
      op_search_embeddings = Some (adapter_search_embeddings s),
      op_supports_embedding_search = (op_search_embeddings s \<noteq> None)\<rparr>"

definition adapter_log :: "'st log_part \<Rightarrow> 'st log_part" where
  "adapter_log s =
     \<lparr>op_record_operations = op_record_operations s, op_supports_operation_log = op_supports_operation_log s,
      op_list_operations = op_list_operations s, op_get_or_create_replica_id = op_get_or_create_replica_id s,
      op_fetch_operations_since = op_fetch_operations_since s\<rparr>"

definition adapter_graphs :: "'st graph_part \<Rightarrow> 'st graph_part" where
  "adapter_graphs s =
     \<lparr>op_register_graph = op_register_graph s, op_get_graph = op_get_graph s,
      op_unregister_graph = op_unregister_graph s, op_list_graphs = op_list_graphs s\<rparr>"

definition adapter_backup :: "('st, 'd) backup_part \<Rightarrow> ('st, 'd) backup_part" where
  "adapter_backup s = \<lparr>op_export_storage = op_export_storage s, op_import_storage = op_import_storage s\<rparr>"

definition adapter :: "('st, 'd) storage \<Rightarrow> ('st, 'd) storage" where
  "adapter s =
     \<lparr>st_sessions = adapter_sessions (st_sessions s), st_tasks = adapter_tasks (st_tasks s),
      st_agents = adapter_agents (st_agents s), st_embeddings = adapter_embeddings (st_embeddings s),
      st_log = adapter_log (st_log s), st_eviction = async_default_eviction, st_graphs = adapter_graphs (st_graphs s),
      st_backup = adapter_backup (st_backup s), st_close = None\<rparr>"

lemma adapter_parts [simp]:
  "adapter_sessions s = s" "adapter_tasks k = k" "adapter_agents g = g" "adapter_log l = l" "adapter_graphs r = r"
  "adapter_backup b = b"
  by (simp_all add: adapter_sessions_def adapter_tasks_def adapter_agents_def adapter_log_def adapter_graphs_def
      adapter_backup_def)

lemma adapter_fields [simp]:
  "st_sessions (adapter s) = st_sessions s" "st_tasks (adapter s) = st_tasks s" "st_agents (adapter s) = st_agents s"
  "st_log (adapter s) = st_log s" "st_graphs (adapter s) = st_graphs s" "st_backup (adapter s) = st_backup s"
  "st_eviction (adapter s) = async_default_eviction" "st_close (adapter s) = None"
  by (simp_all add: adapter_def)

section \<open>The backends\<close>

text \<open>A read, an update with a result, and the operations of a part of the state.\<close>

definition readM :: "('st \<Rightarrow> exn + 'a) \<Rightarrow> ('st, 'a) sx" where
  "readM f st = (f st, st)"

definition updateM :: "('st \<Rightarrow> 'a \<times> 'st) \<Rightarrow> ('st, 'a) sx" where
  "updateM f st = (case f st of (x, st') \<Rightarrow> (Inr x, st'))"

definition on_first :: "('a, 'r) sx \<Rightarrow> ('a \<times> 'b, 'r) sx" where
  "on_first m st = (case m (fst st) of (r, a) \<Rightarrow> (r, a, snd st))"

definition on_second :: "('b, 'r) sx \<Rightarrow> ('a \<times> 'b, 'r) sx" where
  "on_second m st = (case m (snd st) of (r, b) \<Rightarrow> (r, fst st, b))"

definition on_task_table :: "(outbox, 'r) sx \<Rightarrow> (sqlite_db \<times> 'b, 'r) sx" where
  "on_task_table m st =
     (case m (task_table (fst st)) of (r, ob) \<Rightarrow> (r, (fst st)\<lparr>task_table := ob\<rparr>, snd st))"

text \<open>An import into the tables of a backend and then into its registry of graphs.\<close>

definition with_graphs :: "('a, unit) sx \<Rightarrow> (registry \<Rightarrow> registry) \<Rightarrow> ('a \<times> registry, unit) sx" where
  "with_graphs m put = bindM (on_first m) (\<lambda>_. on_second (modM put))"

text \<open>The in-memory backend next to its registry of graphs; its outbox, agents and log are the
  defaults.\<close>

definition memory_storage :: "cks_objects \<Rightarrow> (memory_db \<times> registry, storage_dump \<times> (string \<times> graph) list) storage" where
  "memory_storage cks =
     \<lparr>st_sessions =
        \<lparr>op_save_session = (\<lambda>now s e. on_first (mem_save_session s e)),
         op_load_session = (\<lambda>sid. on_first (getM (mem_load_session sid))),
         op_has_session = (\<lambda>sid. on_first (getM (mem_has_session sid))),
         op_list_sessions = on_first (getM mem_list_sessions),
         op_save_version = (\<lambda>v. on_first (mem_save_version v)),
         op_load_version = (\<lambda>vid. on_first (getM (mem_load_version vid))),
         op_has_version = (\<lambda>vid. on_first (getM (mem_has_version vid))),
         op_list_versions = on_first (getM mem_list_versions),
         op_clear = modM (\<lambda>(db, reg). (mem_clear db, []))\<rparr>,
      st_tasks = default_tasks, st_agents = default_agents, st_embeddings = default_embeddings,
      st_log = (default_log (on_first (getM mem_list_versions)))
        \<lparr>op_get_or_create_replica_id :=
           (\<lambda>candidate. on_first (updateM (\<lambda>db. case mem_get_or_create_replica_id candidate db of (r, db') \<Rightarrow> (Some r, db'))))\<rparr>,
      st_eviction = default_eviction,
      st_graphs =
        \<lparr>op_register_graph = (\<lambda>now name r. on_second (modM (mem_register_graph name r now))),
         op_get_graph = (\<lambda>name. on_second (getM (mem_get_graph name))),
         op_unregister_graph = (\<lambda>name. on_second (updateM (mem_unregister_graph name))),
         op_list_graphs = (\<lambda>tag public_only team. on_second (getM (mem_list_graphs tag public_only team)))\<rparr>,
      st_backup =
        \<lparr>op_export_storage = bindM (on_first (readM (mem_export_storage cks)))
           (\<lambda>dump. getM (\<lambda>(db, reg). (dump, mem_export_graphs reg))),
         op_import_storage = (\<lambda>now (dump, graphs) mode_clear st.
           Some (with_graphs (mem_import_storage cks dump mode_clear) (mem_import_graphs graphs mode_clear) st))\<rparr>,
      st_close = None\<rparr>"

definition sqlite_sessions_part :: "cks_objects \<Rightarrow> (sqlite_db \<times> registry) session_part" where
  "sqlite_sessions_part cks =
     \<lparr>op_save_session = (\<lambda>now s e. on_first (save_session cks s e now)),
      op_load_session = (\<lambda>sid. on_first (readM (load_session cks sid))),
      op_has_session = (\<lambda>sid. on_first (getM (has_session sid))),
      op_list_sessions = on_first (readM (list_sessions cks)),
      op_save_version = (\<lambda>v. on_first (save_version cks v)),
      op_load_version = (\<lambda>vid. on_first (readM (load_version cks vid))),
      op_has_version = (\<lambda>vid. on_first (getM (has_version vid))),
      op_list_versions = on_first (readM (list_versions cks)),
      op_clear = on_first (modM clear_storage)\<rparr>"

definition sqlite_tasks_part :: "(sqlite_db \<times> registry) task_part" where
  "sqlite_tasks_part =
     \<lparr>op_enqueue_outbox_task = (\<lambda>now sid prev new. on_task_table (modM (enqueue_outbox_task sid prev new now))),
      op_enqueue_task = (\<lambda>now ty sid p. on_task_table (modM (enqueue_task ty sid p now))),
      op_dequeue_next_outbox_task = (\<lambda>now ty. on_task_table (updateM (dequeue_next_outbox_task ty now))),
      op_complete_outbox_task = (\<lambda>i. on_task_table (modM (complete_outbox_task i))),
      op_fail_outbox_task = (\<lambda>i n e t. on_task_table (modM (fail_outbox_task i n e t))),
      op_dead_letter_outbox_task = (\<lambda>i e. on_task_table (modM (dead_letter_outbox_task i e))),
      op_touch_outbox_task = (\<lambda>now i. on_task_table (updateM (touch_outbox_task i now))),
      op_list_tasks_by_type = (\<lambda>ty sid d. on_task_table (updateM (list_tasks_by_type ty sid d))),
      op_list_dead_letter_tasks = (\<lambda>ty sid. on_task_table (getM (list_dead_letter_tasks ty sid))),
      op_retry_dead_letter_task = (\<lambda>now i. on_task_table (updateM (retry_dead_letter_task i now))),
      op_supports_outbox = True\<rparr>"

definition sqlite_agents_part :: "(sqlite_db \<times> registry) agent_part" where
  "sqlite_agents_part =
     \<lparr>op_prune_agent_liveness = (\<lambda>now age. on_first (updateM (prune_agent_liveness (now - age)))),
      op_upsert_agent_liveness = (\<lambda>i r. on_first (modM (upsert_agent_liveness i r))),
      op_list_agent_liveness = on_first (getM list_agent_liveness),
      op_get_agent_liveness = (\<lambda>i. on_first (getM (get_agent_liveness i))),
      op_request_agent_stop = (\<lambda>i. on_first (updateM (request_agent_stop i))),
      op_supports_agent_liveness = True,
      op_set_sweeper_desired_running = (\<lambda>a b. on_first (modM (set_sweeper_desired_running a b))),
      op_get_sweeper_desired_running = (\<lambda>a. on_first (getM (get_sweeper_desired_running a)))\<rparr>"

text \<open>\<open>similarity\<close> is numpy's product of two vectors of bytes.\<close>

definition sqlite_storage ::
  "cks_objects \<Rightarrow> (string \<Rightarrow> string \<Rightarrow> rat) \<Rightarrow> (sqlite_db \<times> registry, storage_dump \<times> (string \<times> graph) list) storage" where
  "sqlite_storage cks similarity =
     \<lparr>st_sessions = sqlite_sessions_part cks, st_tasks = sqlite_tasks_part, st_agents = sqlite_agents_part,
      st_embeddings =
        \<lparr>op_save_object_embeddings = (\<lambda>now oid sid emb. on_first (modM (save_object_embeddings oid sid emb now))),
         op_delete_object_embeddings = (\<lambda>oid sid. on_first (modM (delete_object_embeddings oid sid))),
         op_search_embeddings = Some (\<lambda>query sid top_k. on_first (readM (search_embeddings similarity query sid top_k))),
         op_supports_embedding_search = False\<rparr>,
      st_log =
        \<lparr>op_record_operations = (\<lambda>sid vid ops. on_first (modM (record_operations sid vid ops))),
         op_supports_operation_log = True,
         op_list_operations = (\<lambda>sid oid vid. on_first (getM (list_operations sid oid vid))),
         op_get_or_create_replica_id =
           (\<lambda>candidate. on_first (updateM (\<lambda>db. case get_or_create_replica_id candidate db of (r, db') \<Rightarrow> (Some r, db')))),
         op_fetch_operations_since = default_fetch_operations_since True (on_first (readM (list_versions cks)))
           (\<lambda>sid oid vid. on_first (getM (list_operations sid oid vid)))\<rparr>,
      st_eviction =
        \<lparr>op_list_sessions_modified_before = (\<lambda>cutoff limit. on_first (readM (list_sessions_modified_before cks cutoff limit))),
         op_list_sessions_modified_since = (\<lambda>wm limit. on_first (readM (list_sessions_modified_since cks wm limit))),
         op_archive_session = (\<lambda>now s. on_first (modM (archive_session (session_id s) now)))\<rparr>,
      st_graphs =
        \<lparr>op_register_graph = (\<lambda>now name r. on_second (modM (register_graph name r now))),
         op_get_graph = (\<lambda>name. on_second (getM (get_graph name))),
         op_unregister_graph = (\<lambda>name. on_second (updateM (unregister_graph name))),
         op_list_graphs = (\<lambda>tag public_only team. on_second (getM (list_graphs tag public_only team)))\<rparr>,
      st_backup =
        \<lparr>op_export_storage = getM (\<lambda>(db, reg). (export_storage db, export_graphs reg)),
         op_import_storage = (\<lambda>now (dump, graphs) mode_clear st.
           Some (with_graphs (modM (import_storage dump mode_clear now)) (import_graphs graphs mode_clear) st))\<rparr>,
      st_close = None\<rparr>"

text \<open>PostgreSQL; a process keeps the width of its vectors next to the database.\<close>

definition on_pg_outbox :: "(outbox, 'r) sx \<Rightarrow> (nat option \<times> pg_db, 'r) sx" where
  "on_pg_outbox m = on_second (\<lambda>db. case m (p_outbox db) of (r, ob) \<Rightarrow> (r, db\<lparr>p_outbox := ob\<rparr>))"

definition pg_sessions_part :: "cks_objects \<Rightarrow> (nat option \<times> pg_db) session_part" where
  "pg_sessions_part cks =
     \<lparr>op_save_session = (\<lambda>now s e. on_second (pg_save_session cks s e now)),
      op_load_session = (\<lambda>sid. on_second (readM (pg_load_session cks sid))),
      op_has_session = (\<lambda>sid. on_second (getM (pg_has_session sid))),
      op_list_sessions = on_second (readM (pg_list_sessions cks)),
      op_save_version = (\<lambda>v. on_second (pg_save_version cks v)),
      op_load_version = (\<lambda>vid. on_second (readM (pg_load_version cks vid))),
      op_has_version = (\<lambda>vid. on_second (getM (pg_has_version vid))),
      op_list_versions = on_second (readM (pg_list_versions cks)),
      op_clear = on_second (modM pg_clear)\<rparr>"

definition pg_tasks_part :: "(nat option \<times> pg_db) task_part" where
  "pg_tasks_part =
     \<lparr>op_enqueue_outbox_task = (\<lambda>now sid prev new. on_pg_outbox (modM (pg_enqueue_outbox_task sid prev new now))),
      op_enqueue_task = (\<lambda>now ty sid p. on_pg_outbox (modM (pg_enqueue_task ty sid p now))),
      op_dequeue_next_outbox_task = (\<lambda>now ty. on_pg_outbox (updateM (pg_dequeue_next_outbox_task ty now))),
      op_complete_outbox_task = (\<lambda>i. on_pg_outbox (modM (pg_complete_outbox_task i))),
      op_fail_outbox_task = (\<lambda>i n e t. on_pg_outbox (modM (pg_fail_outbox_task i n e t))),
      op_dead_letter_outbox_task = (\<lambda>i e. on_pg_outbox (modM (pg_dead_letter_outbox_task i e))),
      op_touch_outbox_task = (\<lambda>now i. on_pg_outbox (updateM (pg_touch_outbox_task i now))),
      op_list_tasks_by_type = (\<lambda>ty sid d. on_pg_outbox (updateM (pg_list_tasks_by_type {} ty sid d))),
      op_list_dead_letter_tasks = (\<lambda>ty sid. on_pg_outbox (getM (pg_list_dead_letter_tasks ty sid))),
      op_retry_dead_letter_task = (\<lambda>now i. on_pg_outbox (updateM (pg_retry_dead_letter_task i now))),
      op_supports_outbox = True\<rparr>"

definition pg_agents_part :: "(nat option \<times> pg_db) agent_part" where
  "pg_agents_part =
     \<lparr>op_prune_agent_liveness = (\<lambda>now age. on_second (updateM (pg_prune_agent_liveness age now))),
      op_upsert_agent_liveness = (\<lambda>i r. on_second (modM (pg_upsert_agent_liveness i r))),
      op_list_agent_liveness = on_second (getM pg_list_agent_liveness),
      op_get_agent_liveness = (\<lambda>i. on_second (getM (pg_get_agent_liveness i))),
      op_request_agent_stop = (\<lambda>i. on_second (updateM (pg_request_agent_stop i))),
      op_supports_agent_liveness = True,
      op_set_sweeper_desired_running = (\<lambda>a b. on_second (modM (pg_set_sweeper_desired_running a b))),
      op_get_sweeper_desired_running = (\<lambda>a. on_second (getM (pg_get_sweeper_desired_running a)))\<rparr>"

definition postgres_storage :: "cks_objects \<Rightarrow> pgvector \<Rightarrow> (nat option \<times> pg_db, pg_dump) storage" where
  "postgres_storage cks pv =
     \<lparr>st_sessions = pg_sessions_part cks, st_tasks = pg_tasks_part, st_agents = pg_agents_part,
      st_embeddings =
        \<lparr>op_save_object_embeddings = (\<lambda>now oid sid emb. pg_save_object_embeddings pv oid sid emb now),
         op_delete_object_embeddings = (\<lambda>oid sid. on_second (modM (pg_delete_object_embeddings oid sid))),
         op_search_embeddings = Some (\<lambda>query sid top_k. readM (pg_search_embeddings pv query sid top_k)),
         op_supports_embedding_search = True\<rparr>,
      st_log =
        \<lparr>op_record_operations = (\<lambda>sid vid ops. on_second (modM (pg_record_operations sid vid ops))),
         op_supports_operation_log = True,
         op_list_operations = (\<lambda>sid oid vid. on_second (getM (pg_list_operations sid oid vid))),
         op_get_or_create_replica_id =
           (\<lambda>candidate. on_second (updateM (\<lambda>db. case pg_get_or_create_replica_id candidate db of (r, db') \<Rightarrow> (Some r, db')))),
         op_fetch_operations_since = async_fetch_operations_since True (on_second (readM (pg_list_versions cks)))
           (\<lambda>sid oid vid. on_second (getM (pg_list_operations sid oid vid)))\<rparr>,
      st_eviction =
        \<lparr>op_list_sessions_modified_before = (\<lambda>cutoff limit. on_second (readM (pg_list_sessions_modified_before cks cutoff limit))),
         op_list_sessions_modified_since = (\<lambda>wm limit. on_second (readM (pg_list_sessions_modified_since cks wm limit))),
         op_archive_session = (\<lambda>now s. on_second (pg_archive_session (session_id s) now))\<rparr>,
      st_graphs =
        \<lparr>op_register_graph = (\<lambda>now name r. on_second (modM (pg_register_graph name r now))),
         op_get_graph = (\<lambda>name. on_second (getM (pg_get_graph name))),
         op_unregister_graph = (\<lambda>name. on_second (updateM (pg_unregister_graph name))),
         op_list_graphs = (\<lambda>tag public_only team. on_second (getM (pg_list_graphs tag public_only team)))\<rparr>,
      st_backup =
        \<lparr>op_export_storage = on_second (readM pg_export_storage),
         op_import_storage = (\<lambda>now dump mode_clear st. pg_import_storage pv dump mode_clear now st)\<rparr>,
      st_close = Some (retM ())\<rparr>"

section \<open>The contract\<close>

text \<open>What other parts of the program do to a storage while a runtime is up or down.\<close>

datatype store_call = SaveCall time session "string option" | OverrideCall string bool | IdentityCall string

fun call_store ::
  "(time \<Rightarrow> session \<Rightarrow> string option \<Rightarrow> ('st, unit) sx) \<Rightarrow> (string \<Rightarrow> bool \<Rightarrow> ('st, unit) sx)
     \<Rightarrow> (string \<Rightarrow> ('st, string option) sx) \<Rightarrow> store_call \<Rightarrow> 'st \<Rightarrow> 'st" where
  "call_store save set_desired get_replica (SaveCall now s e) st = snd (save now s e st)"
| "call_store save set_desired get_replica (OverrideCall a b) st = snd (set_desired a b st)"
| "call_store save set_desired get_replica (IdentityCall c) st = snd (get_replica c st)"

fun overridden :: "store_call list \<Rightarrow> string \<Rightarrow> bool option \<Rightarrow> bool option" where
  "overridden [] a d = d"
| "overridden (OverrideCall a' b # cs) a d = overridden cs a (if a' = a then Some b else d)"
| "overridden (_ # cs) a d = overridden cs a d"

text \<open>
  What a runtime relies on beyond the guarded save: asking for the switch of a sweeper answers and
  changes nothing; and a storage that keeps the switches gives back what was last set.  The
  defaults of the interface satisfy the first part only.
\<close>

locale sweeper_switch =
  fixes get_desired :: "string \<Rightarrow> ('st, bool option) sx"
    and desired :: "'st \<Rightarrow> string \<Rightarrow> bool option"
  assumes get_answers: "get_desired a st = (Inr (desired st a), st)"

locale sweeper_control = sweeper_switch get_desired desired
  for get_desired :: "string \<Rightarrow> ('st, bool option) sx" and desired +
  fixes set_desired :: "string \<Rightarrow> bool \<Rightarrow> ('st, unit) sx"
  assumes set_answers: "fst (set_desired a b st) = Inr ()"
    and set_records: "desired (snd (set_desired a b st)) = (desired st)(a \<mapsto> b)"

text \<open>And an identity that is drawn once.\<close>

locale runtime_store = session_store save recorded + sweeper_control get_desired desired set_desired
  for save :: "time \<Rightarrow> session \<Rightarrow> string option \<Rightarrow> ('st, unit) sx" and recorded
    and get_desired desired and set_desired :: "string \<Rightarrow> bool \<Rightarrow> ('st, unit) sx" +
  fixes get_replica :: "string \<Rightarrow> ('st, string option) sx"
    and identity :: "'st \<Rightarrow> string option"
  assumes replica_answers: "fst (get_replica c st) = Inr (identity (snd (get_replica c st)))"
    and replica_records: "identity (snd (get_replica c st)) = Some (case identity st of None \<Rightarrow> c | Some r \<Rightarrow> r)"
    and replica_frame: "desired (snd (get_replica c st)) = desired st" "recorded (snd (get_replica c st)) = recorded st"
    and save_frame: "identity (snd (save now s e st)) = identity st" "desired (snd (save now s e st)) = desired st"
    and set_frame: "identity (snd (set_desired a b st)) = identity st" "recorded (snd (set_desired a b st)) = recorded st"
begin

lemma identity_stays:
  "identity st = Some r \<Longrightarrow> identity (fold (call_store save set_desired get_replica) cs st) = Some r"
proof (induction cs arbitrary: st)
  case (Cons c cs)
  then show ?case
    by (cases c) (simp_all add: replica_records save_frame set_frame)
qed simp

lemma desired_last:
  "desired (fold (call_store save set_desired get_replica) cs st) a = overridden cs a (desired st a)"
proof (induction cs arbitrary: st)
  case (Cons c cs)
  then show ?case
    by (cases c) (simp_all add: set_records replica_frame save_frame)
qed simp

lemma replica_again:
  assumes "get_replica c st = (Inr r, st')"
  shows "fst (get_replica c' (fold (call_store save set_desired get_replica) cs st')) = Inr r"
  using assms replica_answers [of c st] replica_records [of c st] identity_stays [of st' _ cs] replica_answers replica_records
  by auto

end

interpretation memory_switch: sweeper_switch
  "op_get_sweeper_desired_running (st_agents (memory_storage cks))" "\<lambda>st a. None"
  by unfold_locales (simp add: memory_storage_def default_agents_def retM_def)

interpretation sqlite_runtime_store: runtime_store
  "op_save_session (st_sessions (sqlite_storage cks similarity))" "\<lambda>st. recorded_latest (fst st)"
  "op_get_sweeper_desired_running (st_agents (sqlite_storage cks similarity))"
  "\<lambda>st a. get_sweeper_desired_running a (fst st)"
  "op_set_sweeper_desired_running (st_agents (sqlite_storage cks similarity))"
  "op_get_or_create_replica_id (st_log (sqlite_storage cks similarity))" "\<lambda>st. identity_row (fst st)"
proof unfold_locales
  fix st :: "sqlite_db \<times> registry" and now s e
  show "identity_row (fst (snd (op_save_session (st_sessions (sqlite_storage cks similarity)) now s e st))) = identity_row (fst st)"
    by (auto simp: sqlite_storage_def sqlite_sessions_part_def on_first_def save_session_def Let_def split: option.splits prod.splits)
qed (auto simp: sqlite_storage_def sqlite_sessions_part_def sqlite_agents_part_def on_first_def getM_def modM_def updateM_def
      save_session_def recorded_latest_def session_row_of_def get_or_create_replica_id_def set_sweeper_desired_running_def
      get_sweeper_desired_running_def Let_def fun_eq_iff split: option.splits prod.splits)

lemma pg_save_frame:
  "pg_save_session cks s e now db = (r, db') \<Longrightarrow> p_identity db' = p_identity db"
  "pg_save_session cks s e now db = (r, db') \<Longrightarrow> p_sweepers db' = p_sweepers db"
  by (auto simp: pg_save_session_def update_if_seen_def insert_session_def split: option.splits if_splits)

interpretation postgres_runtime_store: runtime_store
  "op_save_session (st_sessions (postgres_storage cks pv))" "\<lambda>st. pg_recorded (snd st)"
  "op_get_sweeper_desired_running (st_agents (postgres_storage cks pv))"
  "\<lambda>st a. pg_get_sweeper_desired_running a (snd st)"
  "op_set_sweeper_desired_running (st_agents (postgres_storage cks pv))"
  "op_get_or_create_replica_id (st_log (postgres_storage cks pv))" "\<lambda>st. p_identity (snd st)"
proof (unfold_locales, goal_cases)
  case (1 st s e t)
  then show ?case
    using postgres_sessions.save_seen [of "snd st" s e cks t]
    by (auto simp: postgres_storage_def pg_sessions_part_def on_second_def split: prod.splits)
next
  case (2 st s l e t)
  then show ?case
    using postgres_sessions.save_unseen [of "snd st" s l e cks t]
    by (auto simp: postgres_storage_def pg_sessions_part_def on_second_def split: prod.splits)
next
  case (3 s t st)
  then show ?case
    using postgres_sessions.save_unguarded [of cks t s "snd st"]
    by (auto simp: postgres_storage_def pg_sessions_part_def on_second_def split: prod.splits)
qed (auto simp: postgres_storage_def pg_sessions_part_def pg_agents_part_def on_second_def getM_def modM_def updateM_def
      pg_recorded_def pg_get_or_create_replica_id_def pg_set_sweeper_desired_running_def
      pg_get_sweeper_desired_running_def Let_def fun_eq_iff pg_save_frame(2) dest: pg_save_frame(1)
      split: option.splits prod.splits)

section \<open>A session that is gone\<close>

text \<open>
  The interface says that a guarded save is refused unless the stored latest version is the one
  given.  Of a session without a row (because it was archived) the in-memory backend refuses the
  save, and the others write the row again.
\<close>

lemma guarded_save_without_row:
  "dget (mem_sessions mem) (session_id s) = None \<Longrightarrow>
   fst (mem_save_session s (Some e) mem) = Inl ConcurrentModificationError"
  "dget (session_rows db) (session_id s) = None \<Longrightarrow>
   fst (save_session cks s (Some e) now db) = Inr () \<and>
   has_session (session_id s) (snd (save_session cks s (Some e) now db))"
  "dget (p_sessions pg) (session_id s) = None \<Longrightarrow>
   fst (pg_save_session cks s (Some e) now pg) = Inr () \<and>
   pg_has_session (session_id s) (snd (pg_save_session cks s (Some e) now pg))"
  by (simp_all add: mem_save_session_def save_session_def Let_def has_session_def dhas_def pg_save_session_def
      update_if_seen_def insert_session_def pg_has_session_def)

text \<open>So a process that still has a session brings it back after the collector has archived it.\<close>

lemma archived_session_returns:
  "\<not> has_session (session_id s) (archive_session (session_id s) t db)"
  "has_session (session_id s) (snd (save_session cks s (Some e) now (archive_session (session_id s) t db)))"
  using guarded_save_without_row(2) [of "archive_session (session_id s) t db" s]
  by (simp_all add: archive_session_def has_session_def dhas_def)

end
