(* ===== verification/Agents.thy ===== *)
theory Agents
  imports Storage_Interface Graph_Sweepers
begin

text \<open>
  The seven sweepers as a runtime runs them, over any storage of the interface: start, stop, one
  turn of the loop, a sweep on request and the status of each
  (\<open>reasoning/inference_staleness_sweeper.py\<close>, \<open>provenance_staleness_sweeper.py\<close>,
  \<open>temporal_staleness_sweeper.py\<close>, \<open>graph_freshness_sweeper.py\<close>, \<open>graph_auto_update_sweeper.py\<close>,
  \<open>graph_health_sweeper.py\<close>, \<open>contradiction_sweeper.py\<close>); and that each of these loops is, as
  far as the runtime controls it, the machine of \<open>Background\<close>.
\<close>

section \<open>The storage a sweeper sees\<close>

text \<open>\<open>async\<close> says whether the methods are coroutine functions.\<close>

definition sweep_store_of :: "bool \<Rightarrow> ('st, 'd) storage \<Rightarrow> 'st sweep_store" where
  "sweep_store_of async S =
     \<lparr>modified_since = (\<lambda>wm limit st. fst (op_list_sessions_modified_since (st_eviction S) wm limit st)),
      put_task = (\<lambda>ty sid p now. op_enqueue_task (st_tasks S) now ty sid p),
      has_outbox = op_supports_outbox (st_tasks S), coroutines = async\<rparr>"

definition switch :: "('st, 'd) storage \<Rightarrow> string \<Rightarrow> 'st \<Rightarrow> exn + bool option" where
  "switch S agent_id st = fst (op_get_sweeper_desired_running (st_agents S) agent_id st)"

text \<open>Every storage of the interface has \<open>list_sessions_modified_since\<close>, so the test for the method
  always succeeds; what is left of the condition of a start is the outbox.\<close>

section \<open>Stale inferences\<close>

definition inference_start :: "('st, 'd) storage \<Rightarrow> 'a loop_state_scheme \<Rightarrow> 'a loop_state_scheme" where
  "inference_start S = start_loop True"

definition inference_stop :: "('a loop_state_scheme, unit) sx" where
  "inference_stop = stop_loop"

definition inference_run ::
  "bool \<Rightarrow> ('st, 'd) storage \<Rightarrow> (string \<Rightarrow> string \<Rightarrow> pyval list \<Rightarrow> ('st, unit) sx) \<Rightarrow> sweep_env \<Rightarrow> nat \<Rightarrow> time
     \<Rightarrow> (string \<times> string option, 'st) sweeping \<Rightarrow> (string \<times> string option, 'st) sweeping option" where
  "inference_run async S announce se batch_size =
     run_turn (inference_sweep (sweep_store_of async S) announce se batch_size)
       (\<lambda>w. switch S ''inference_staleness'' (sw_store w))"

definition inference_run_once ::
  "bool \<Rightarrow> ('st, 'd) storage \<Rightarrow> (string \<Rightarrow> string \<Rightarrow> pyval list \<Rightarrow> ('st, unit) sx) \<Rightarrow> sweep_env \<Rightarrow> nat \<Rightarrow> time
     \<Rightarrow> (string \<times> string option, 'st) sweeping \<Rightarrow> ((exn + pyval list) \<times> (string \<times> string option, 'st) sweeping) option" where
  "inference_run_once async S announce se batch_size = run_once (inference_sweep (sweep_store_of async S) announce se batch_size)"

definition inference_status ::
  "rat \<Rightarrow> (time \<Rightarrow> string) \<Rightarrow> (exn \<Rightarrow> string) \<Rightarrow> 'a run_status_scheme \<Rightarrow> (string, pyval) dict" where
  "inference_status interval = sweeper_status ''inference_staleness'' (PFloat interval)"

section \<open>Old verifications\<close>

definition provenance_start :: "('st, 'd) storage \<Rightarrow> 'a loop_state_scheme \<Rightarrow> 'a loop_state_scheme" where
  "provenance_start S = start_loop (op_supports_outbox (st_tasks S))"

definition provenance_stop :: "('a loop_state_scheme, unit) sx" where
  "provenance_stop = stop_loop"

definition provenance_run ::
  "bool \<Rightarrow> ('st, 'd) storage \<Rightarrow> sweep_env \<Rightarrow> nat \<Rightarrow> time \<Rightarrow> (string, 'st) sweeping \<Rightarrow> (string, 'st) sweeping option" where
  "provenance_run async S se batch_size =
     run_turn (provenance_sweep_once (sweep_store_of async S) se batch_size)
       (\<lambda>w. switch S ''provenance_staleness'' (sw_store w))"

definition provenance_status ::
  "int \<Rightarrow> (time \<Rightarrow> string) \<Rightarrow> (exn \<Rightarrow> string) \<Rightarrow> 'a run_status_scheme \<Rightarrow> (string, pyval) dict" where
  "provenance_status interval = sweeper_status ''provenance_staleness'' (PInt interval)"

section \<open>Expired facts\<close>

definition temporal_start :: "('st, 'd) storage \<Rightarrow> 'a loop_state_scheme \<Rightarrow> 'a loop_state_scheme" where
  "temporal_start S = start_loop (op_supports_outbox (st_tasks S))"

definition temporal_stop :: "('a loop_state_scheme, unit) sx" where
  "temporal_stop = stop_loop"

definition temporal_run ::
  "bool \<Rightarrow> ('st, 'd) storage \<Rightarrow> sweep_env \<Rightarrow> nat \<Rightarrow> time \<Rightarrow> (string, 'st) sweeping \<Rightarrow> (string, 'st) sweeping option" where
  "temporal_run async S se batch_size =
     run_turn (temporal_sweep_once (sweep_store_of async S) se batch_size)
       (\<lambda>w. switch S ''temporal_staleness'' (sw_store w))"

definition temporal_run_once ::
  "bool \<Rightarrow> ('st, 'd) storage \<Rightarrow> sweep_env \<Rightarrow> nat \<Rightarrow> time \<Rightarrow> (string, 'st) sweeping
     \<Rightarrow> ((exn + pyval list) \<times> (string, 'st) sweeping) option" where
  "temporal_run_once async S se batch_size = run_once (temporal_sweep_once (sweep_store_of async S) se batch_size)"

definition temporal_status ::
  "int \<Rightarrow> (time \<Rightarrow> string) \<Rightarrow> (exn \<Rightarrow> string) \<Rightarrow> 'a run_status_scheme \<Rightarrow> (string, pyval) dict" where
  "temporal_status interval = sweeper_status ''temporal_staleness'' (PInt interval)"

section \<open>Contradictions\<close>

definition contradiction_start :: "('st, 'd) storage \<Rightarrow> 'a loop_state_scheme \<Rightarrow> 'a loop_state_scheme" where
  "contradiction_start S = start_loop (op_supports_outbox (st_tasks S))"

definition contradiction_stop :: "('a loop_state_scheme, unit) sx" where
  "contradiction_stop = stop_loop"

definition contradiction_run ::
  "bool \<Rightarrow> ('st, 'd) storage \<Rightarrow> sweep_env \<Rightarrow> nat \<Rightarrow> time \<Rightarrow> (string \<times> string option, 'st) sweeping
     \<Rightarrow> (string \<times> string option, 'st) sweeping option" where
  "contradiction_run async S se batch_size =
     run_turn (contradiction_sweep_once (sweep_store_of async S) se batch_size)
       (\<lambda>w. switch S ''contradiction'' (sw_store w))"

definition contradiction_run_once ::
  "bool \<Rightarrow> ('st, 'd) storage \<Rightarrow> sweep_env \<Rightarrow> nat \<Rightarrow> time \<Rightarrow> (string \<times> string option, 'st) sweeping
     \<Rightarrow> ((exn + pyval list) \<times> (string \<times> string option, 'st) sweeping) option" where
  "contradiction_run_once async S se batch_size = run_once (contradiction_sweep_once (sweep_store_of async S) se batch_size)"

definition contradiction_status ::
  "int \<Rightarrow> (time \<Rightarrow> string) \<Rightarrow> (exn \<Rightarrow> string) \<Rightarrow> 'a run_status_scheme \<Rightarrow> (string, pyval) dict" where
  "contradiction_status interval = sweeper_status ''contradiction'' (PInt interval)"

section \<open>Graphs\<close>

text \<open>\<open>view\<close> is what the storage answers to the reads of the sweep.\<close>

definition freshness_start :: "('st, 'd) storage \<Rightarrow> 'a loop_state_scheme \<Rightarrow> 'a loop_state_scheme" where
  "freshness_start S = start_loop (op_supports_outbox (st_tasks S))"

definition freshness_stop :: "('a loop_state_scheme, unit) sx" where
  "freshness_stop = stop_loop"

definition freshness_run ::
  "bool \<Rightarrow> ('st, 'd) storage \<Rightarrow> graph_env \<Rightarrow> graph_view \<Rightarrow> time \<Rightarrow> 'st graph_sweeping \<Rightarrow> 'st graph_sweeping option" where
  "freshness_run async S ge view =
     run_turn (\<lambda>now w. Some (freshness_sweep (sweep_store_of async S) ge view now w))
       (\<lambda>w. switch S ''graph_freshness'' (gs_store w))"

definition freshness_run_once ::
  "bool \<Rightarrow> ('st, 'd) storage \<Rightarrow> graph_env \<Rightarrow> graph_view \<Rightarrow> time \<Rightarrow> 'st graph_sweeping
     \<Rightarrow> ((exn + pyval list) \<times> 'st graph_sweeping) option" where
  "freshness_run_once async S ge view = run_once (\<lambda>now w. Some (freshness_sweep (sweep_store_of async S) ge view now w))"

definition freshness_status ::
  "int \<Rightarrow> (time \<Rightarrow> string) \<Rightarrow> (exn \<Rightarrow> string) \<Rightarrow> 'a run_status_scheme \<Rightarrow> (string, pyval) dict" where
  "freshness_status interval = sweeper_status ''graph_freshness'' (PInt interval)"

definition auto_update_start :: "('st, 'd) storage \<Rightarrow> 'a loop_state_scheme \<Rightarrow> 'a loop_state_scheme" where
  "auto_update_start S = start_loop (op_supports_outbox (st_tasks S))"

definition auto_update_stop :: "('a loop_state_scheme, unit) sx" where
  "auto_update_stop = stop_loop"

definition auto_update_run ::
  "bool \<Rightarrow> ('st, 'd) storage \<Rightarrow> graph_env \<Rightarrow> graph_view \<Rightarrow> time \<Rightarrow> 'st graph_sweeping \<Rightarrow> 'st graph_sweeping option" where
  "auto_update_run async S ge view =
     run_turn (\<lambda>now w. Some (auto_update_sweep (sweep_store_of async S) ge view now w))
       (\<lambda>w. switch S ''graph_auto_update'' (gs_store w))"

definition auto_update_run_once ::
  "bool \<Rightarrow> ('st, 'd) storage \<Rightarrow> graph_env \<Rightarrow> graph_view \<Rightarrow> time \<Rightarrow> 'st graph_sweeping
     \<Rightarrow> ((exn + pyval list) \<times> 'st graph_sweeping) option" where
  "auto_update_run_once async S ge view = run_once (\<lambda>now w. Some (auto_update_sweep (sweep_store_of async S) ge view now w))"

definition auto_update_status ::
  "int \<Rightarrow> (time \<Rightarrow> string) \<Rightarrow> (exn \<Rightarrow> string) \<Rightarrow> 'a run_status_scheme \<Rightarrow> (string, pyval) dict" where
  "auto_update_status interval = sweeper_status ''graph_auto_update'' (PInt interval)"

definition health_start :: "('st, 'd) storage \<Rightarrow> 'a loop_state_scheme \<Rightarrow> 'a loop_state_scheme" where
  "health_start S = start_loop (op_supports_outbox (st_tasks S))"

definition health_stop :: "('a loop_state_scheme, unit) sx" where
  "health_stop = stop_loop"

definition health_run ::
  "bool \<Rightarrow> ('st, 'd) storage \<Rightarrow> graph_env \<Rightarrow> graph_view \<Rightarrow> time \<Rightarrow> 'st graph_sweeping \<Rightarrow> 'st graph_sweeping option" where
  "health_run async S ge view =
     run_turn (\<lambda>now w. Some (health_sweep (sweep_store_of async S) ge view now w))
       (\<lambda>w. switch S ''graph_health'' (gs_store w))"

definition health_run_once ::
  "bool \<Rightarrow> ('st, 'd) storage \<Rightarrow> graph_env \<Rightarrow> graph_view \<Rightarrow> time \<Rightarrow> 'st graph_sweeping
     \<Rightarrow> ((exn + pyval list) \<times> 'st graph_sweeping) option" where
  "health_run_once async S ge view = run_once (\<lambda>now w. Some (health_sweep (sweep_store_of async S) ge view now w))"

definition health_status ::
  "int \<Rightarrow> (time \<Rightarrow> string) \<Rightarrow> (exn \<Rightarrow> string) \<Rightarrow> 'a run_status_scheme \<Rightarrow> (string, pyval) dict" where
  "health_status interval = sweeper_status ''graph_health'' (PInt interval)"

section \<open>The loops as one machine\<close>

text \<open>What a sweep leaves alone: the flag, the task and the record of the last run.\<close>

definition keeps_status :: "(time \<Rightarrow> 'a run_status_scheme \<Rightarrow> ((exn + pyval list) \<times> 'a run_status_scheme) option) \<Rightarrow> bool" where
  "keeps_status sweep \<longleftrightarrow>
     (\<forall>now w r w'. sweep now w = Some (r, w') \<longrightarrow> run_status.truncate w' = run_status.truncate w)"

lemma truncate_simps [simp]:
  "sw_running (run_status.truncate w) = sw_running w" "sw_task (run_status.truncate w) = sw_task w"
  "run_status.truncate (w\<lparr>sw_task := t\<rparr>) = (run_status.truncate w)\<lparr>sw_task := t\<rparr>"
  "run_status.truncate (w\<lparr>sw_running := b\<rparr>) = (run_status.truncate w)\<lparr>sw_running := b\<rparr>"
  "run_status.truncate (record_sweep_error now e w) = record_sweep_error now e (run_status.truncate w)"
  "run_status.truncate (record_sweep_success now n w) = record_sweep_success now n (run_status.truncate w)"
  by (simp_all add: run_status.defs record_sweep_error_def record_sweep_success_def)

text \<open>A turn of a loop is a turn of the machine with the outcome of the sweep and the answer of the
  storage.\<close>

lemma run_turn_control:
  assumes "keeps_status sweep" and "run_turn sweep desired now w = Some w'"
  shows "\<exists>r u. run_status.truncate w' = control_step (Turn now r (desired u)) (run_status.truncate w)"
proof (cases "sw_task w = Looping \<and> sw_running w")
  case False
  then have "run_status.truncate w' = control_step (Turn now (Inr []) (desired w)) (run_status.truncate w)"
    using assms(2) by (auto simp: run_turn_def split: if_splits)
  then show ?thesis
    by blast
next
  case True
  then obtain r w1 where 1: "sweep now w = Some (r, w1)"
    using assms(2) by (cases "sweep now w") (auto simp: run_turn_def run_once_def)
  define w2 where "w2 = (case r of Inl e \<Rightarrow> record_sweep_error now e w1 | Inr ps \<Rightarrow> record_sweep_success now (length ps) w1)"
  have w': "w' = (case desired w2 of Inl e \<Rightarrow> w2\<lparr>sw_task := Crashed e\<rparr>
      | Inr d \<Rightarrow> if d = Some False then w2\<lparr>sw_running := False, sw_task := Ended\<rparr> else w2)"
    using True 1 assms(2) unfolding w2_def by (cases r) (auto simp: run_turn_def run_once_def split: sum.splits)
  have t: "run_status.truncate w1 = run_status.truncate w"
    using assms(1) 1 unfolding keeps_status_def by blast
  then have "run_status.truncate w' = control_step (Turn now r (desired w2)) (run_status.truncate w)"
    using True w' by (cases r; cases "desired w2") (simp_all add: w2_def run_turn_def run_once_def)
  then show ?thesis
    by blast
qed

named_theorems status_kept "sweeps that leave the status alone"

lemma sweep_all_status:
  assumes "\<And>s w r w'. visit s w = (r, w') \<Longrightarrow> run_status.truncate w' = run_status.truncate w"
  shows "sweep_all visit ss ps w = (r, w') \<Longrightarrow> run_status.truncate w' = run_status.truncate w"
proof (induction ss arbitrary: ps w)
  case (Cons s ss)
  then show ?case
    using assms by (cases "visit s w") (auto simp: bindM_def split: sum.splits)
qed (simp add: retM_def)

lemma sweep_once_status:
  assumes "\<And>now s w r w'. visit now s w = (r, w') \<Longrightarrow> run_status.truncate w' = run_status.truncate w"
  shows "keeps_status (sweep_once ss n visit)"
proof -
  have "run_status.truncate w' = run_status.truncate w" if run: "sweep_once ss n visit now w = Some (r, w')" for now w r w'
  proof -
    obtain d where d: "drain (\<lambda>limit. modified_since ss (watermark w) limit (sw_store w)) n = Some d"
      using run by (auto simp: sweep_once_def)
    show ?thesis
    proof (cases d)
      case (Inl e)
      then show ?thesis
        using run d by (simp add: sweep_once_def)
    next
      case (Inr fd)
      obtain found drained where fd: "fd = (found, drained)"
        by (cases fd)
      define w1 where "w1 = (if drained then w\<lparr>watermark := now\<rparr> else w)"
      have "sweep_all (visit now) found [] w1 = (r, w')"
        using run d Inr fd by (simp add: sweep_once_def w1_def)
      then have "run_status.truncate w' = run_status.truncate w1"
        using sweep_all_status [of "visit now"] assms by blast
      then show ?thesis
        by (simp add: w1_def run_status.defs)
    qed
  qed
  then show ?thesis
    by (simp add: keeps_status_def)
qed

lemma on_store_status: "on_store m w = (r, w') \<Longrightarrow> run_status.truncate w' = run_status.truncate w"
  by (auto simp: on_store_def run_status.defs split: prod.splits)

lemma escalate_status: "escalate put sid key entry xs w = (r, w') \<Longrightarrow> run_status.truncate w' = run_status.truncate w"
  using on_store_status
  by (fastforce simp: escalate_def Let_def bindM_def remember_def run_status.defs split: prod.splits sum.splits)

lemma inference_visit_status: "inference_visit announce se now s w = (r, w') \<Longrightarrow> run_status.truncate w' = run_status.truncate w"
  by (auto simp: inference_visit_def Let_def bindM_def retM_def on_store_def run_status.defs split: sum.splits prod.splits if_splits)

lemma sweeps_keep_status [status_kept]:
  "keeps_status (inference_sweep ss announce se n)" "keeps_status (provenance_sweep_once ss se n)"
  "keeps_status (temporal_sweep_once ss se n)" "keeps_status (contradiction_sweep_once ss se n)"
  unfolding inference_sweep_def provenance_sweep_once_def temporal_sweep_once_def contradiction_sweep_once_def
  by (intro sweep_once_status;
      auto simp: provenance_visit_def temporal_visit_def contradiction_visit_def inference_visit_status escalate_status
        split: sum.splits)+

lemma graph_sweep_status: "graph_sweep ss ty check entry view now w = (r, w') \<Longrightarrow> run_status.truncate w' = run_status.truncate w"
  by (auto simp: graph_sweep_def run_status.defs split: sum.splits prod.splits)

lemma graph_sweeps_keep_status [status_kept]:
  "keeps_status (\<lambda>now w. Some (freshness_sweep ss ge view now w))" "keeps_status (\<lambda>now w. Some (auto_update_sweep ss ge view now w))"
  "keeps_status (\<lambda>now w. Some (health_sweep ss ge view now w))"
  unfolding keeps_status_def freshness_sweep_def auto_update_sweep_def health_sweep_def
  by (auto dest: graph_sweep_status)

end
