(* ===== verification/Runtime_Lifecycle.thy ===== *)
theory Runtime_Lifecycle
  imports Agents Runtime Outbox_Worker
begin

text \<open>
  The life of a \<open>Runtime\<close> (\<open>runtime.py\<close>): its configuration (\<open>config.py\<close>), the choice of the storage,
  the constructor, \<open>create\<close>, the statuses of its sweepers, and \<open>aclose\<close>.  The sessions and
  transactions of a runtime are the record \<open>rt\<close> of \<open>Runtime_State\<close>; around it are the loops that
  \<open>create\<close> starts and \<open>aclose\<close> stops.
\<close>

section \<open>Configuration\<close>

text \<open>The settings that \<open>Runtime\<close> reads; intervals are in seconds, an interval of \<open>None\<close> switches the
  sweeper off.\<close>

record runtime_config =
  storage_path :: string
  gc_retention :: "time option"
  gc_sweep_interval :: rat
  gc_batch_size :: nat
  inference_sweep_interval :: "rat option"
  inference_sweep_batch_size :: nat
  provenance_sweep_interval :: "rat option"
  provenance_ttl_seconds :: nat
  temporal_sweep_interval :: "rat option"
  temporal_sweep_batch_size :: nat
  graph_freshness_interval :: "rat option"
  graph_freshness_ttl_seconds :: nat
  graph_auto_update_interval :: "rat option"
  graph_auto_update_apply :: bool
  contradiction_sweep_interval :: "rat option"
  contradiction_sweep_batch_size :: nat
  graph_health_interval :: "rat option"
  graph_health_min_score :: rat

text \<open>The defaults; times count microseconds.\<close>

definition default_config :: runtime_config where
  "default_config =
     \<lparr>storage_path = '':memory:'', gc_retention = Some (24 * 3600 * 1000000), gc_sweep_interval = 600, gc_batch_size = 100,
      inference_sweep_interval = Some 300, inference_sweep_batch_size = 100,
      provenance_sweep_interval = Some 3600, provenance_ttl_seconds = 30 * 24 * 3600,
      temporal_sweep_interval = Some 3600, temporal_sweep_batch_size = 100,
      graph_freshness_interval = Some 3600, graph_freshness_ttl_seconds = 7 * 24 * 3600,
      graph_auto_update_interval = Some 3600, graph_auto_update_apply = False,
      contradiction_sweep_interval = Some 3600, contradiction_sweep_batch_size = 100,
      graph_health_interval = Some 3600, graph_health_min_score = 7 / 10\<rparr>"

section \<open>The storage\<close>

text \<open>The argument \<open>storage\<close>, and what becomes of it and of the path.\<close>

datatype 'a given = NotGiven | GivenSync 'a | GivenAsync 'a

datatype 'a storage_choice = AsGiven 'a | Adapted 'a | AdaptedMemory | AdaptedSqlite string | Connected string

definition is_dsn :: "string \<Rightarrow> bool" where
  "is_dsn path \<longleftrightarrow> is_prefix ''postgres://'' path \<or> is_prefix ''postgresql://'' path"

definition resolve_storage :: "'a given \<Rightarrow> string \<Rightarrow> exn + 'a storage_choice" where
  "resolve_storage storage path =
     (case storage of
        GivenAsync s \<Rightarrow> Inr (AsGiven s)
      | GivenSync s \<Rightarrow> Inr (Adapted s)
      | NotGiven \<Rightarrow>
          if path = '':memory:'' then Inr AdaptedMemory
          else if is_dsn path then Inl ValueError
          else Inr (AdaptedSqlite path))"

text \<open>\<open>create\<close> connects to PostgreSQL first.\<close>

definition create_storage :: "'a given \<Rightarrow> string \<Rightarrow> exn + 'a storage_choice" where
  "create_storage storage path =
     (case storage of
        NotGiven \<Rightarrow> if is_dsn path then Inr (Connected path) else resolve_storage storage path
      | _ \<Rightarrow> resolve_storage storage path)"

section \<open>The loops of a runtime\<close>

text \<open>The collector needs methods every storage of the interface has; the worker needs the outbox.\<close>

definition gc_start :: "'a loop_state_scheme \<Rightarrow> 'a loop_state_scheme" where
  "gc_start = start_loop True"

definition gc_stop :: "('a loop_state_scheme, unit) sx" where
  "gc_stop = stop_loop"

definition worker_start :: "('st, 'd) storage \<Rightarrow> 'a loop_state_scheme \<Rightarrow> 'a loop_state_scheme" where
  "worker_start S = start_loop (op_supports_outbox (st_tasks S))"

definition worker_stop :: "('a loop_state_scheme, unit) sx" where
  "worker_stop = stop_loop"

text \<open>\<open>int\<close> of a float drops the fraction.\<close>

definition py_int :: "rat \<Rightarrow> int" where
  "py_int x = (if 0 \<le> x then \<lfloor>x\<rfloor> else \<lceil>x\<rceil>)"

text \<open>The sweepers in the order of the constructor, with the interval each is given.\<close>

definition sweeper_intervals :: "runtime_config \<Rightarrow> (string \<times> pyval option) list" where
  "sweeper_intervals cfg =
     [(''inference_staleness'', map_option PFloat (inference_sweep_interval cfg)),
      (''provenance_staleness'', map_option (\<lambda>x. PInt (py_int x)) (provenance_sweep_interval cfg)),
      (''temporal_staleness'', map_option (\<lambda>x. PInt (py_int x)) (temporal_sweep_interval cfg)),
      (''graph_freshness'', map_option (\<lambda>x. PInt (py_int x)) (graph_freshness_interval cfg)),
      (''graph_auto_update'', map_option (\<lambda>x. PInt (py_int x)) (graph_auto_update_interval cfg)),
      (''graph_health'', map_option (\<lambda>x. PInt (py_int x)) (graph_health_interval cfg)),
      (''contradiction'', map_option (\<lambda>x. PInt (py_int x)) (contradiction_sweep_interval cfg))]"

definition configured :: "runtime_config \<Rightarrow> string \<Rightarrow> bool" where
  "configured cfg a \<longleftrightarrow> (case map_of (sweeper_intervals cfg) a of Some (Some _) \<Rightarrow> True | _ \<Rightarrow> False)"

text \<open>A runtime: its sessions and transactions, its identity, the worker, the collector, and the
  dictionary of its sweepers by agent id.\<close>

record 'st facade =
  fc_rt :: "'st rt"
  fc_replica_id :: "string option"
  fc_worker :: loop_state
  fc_gc :: "loop_state option"
  fc_sweepers :: "(string, run_status) dict"
  fc_storage_closed :: bool

abbreviation fc_storage :: "'st facade \<Rightarrow> 'st" where
  "fc_storage f \<equiv> rt_storage (fc_rt f)"

definition on_fc_storage :: "('st, 'a) sx \<Rightarrow> ('st facade, 'a) sx" where
  "on_fc_storage m f = (case m (fc_storage f) of (x, st) \<Rightarrow> (x, f\<lparr>fc_rt := (fc_rt f)\<lparr>rt_storage := st\<rparr>\<rparr>))"

text \<open>The managers start empty and the projection is subscribed.  \<open>n\<close> counts the identifiers drawn
  before; the cells of the heaps are not in use yet.\<close>

definition empty_rt :: "'st \<Rightarrow> time \<Rightarrow> nat \<Rightarrow> 'st rt" where
  "empty_rt st now n =
     \<lparr>rt_storage = st, session_heap = (\<lambda>_. new_session \<lparr>ks_objects = []\<rparr> [] [] None None),
      tx_heap = (\<lambda>_. \<lparr>tx_session = 0, transaction_id = [], operations = [], requests = [], results = [],
                      tx_diagnostics = [], tx_status = COMMITTED, initial_state = \<lparr>ks_objects = []\<rparr>\<rparr>),
      next_ref = 0, next_uuid = n, session_table = [], tx_table = [], registry = [], rt_diagnostics = [],
      rt_bus = subscribe VersionCreatedClass PROJECTION empty_bus, rt_time = now\<rparr>"

definition runtime_init :: "runtime_config \<Rightarrow> 'st \<Rightarrow> time \<Rightarrow> nat \<Rightarrow> 'st facade" where
  "runtime_init cfg st now n =
     \<lparr>fc_rt = empty_rt st now n, fc_replica_id = None, fc_worker = idle_loop,
      fc_gc = map_option (\<lambda>_. idle_loop) (gc_retention cfg),
      fc_sweepers = concat (map (\<lambda>(a, i). case i of None \<Rightarrow> [] | Some _ \<Rightarrow> [(a, new_status)]) (sweeper_intervals cfg)),
      fc_storage_closed = False\<rparr>"

text \<open>What the pipeline and the managers of a runtime use of its storage.\<close>

definition projection_handler :: "('st, 'd) storage \<Rightarrow> time \<Rightarrow> event \<Rightarrow> ('st, unit) sx" where
  "projection_handler S now ev =
     (case ev of
        VersionCreated vid sid tid \<Rightarrow> catchM (op_enqueue_outbox_task (st_tasks S) now sid None vid) (\<lambda>e. retM ())
      | _ \<Rightarrow> retM ())"

definition runtime_env ::
  "('st, 'd) storage \<Rightarrow> cks_objects \<Rightarrow> bridge \<Rightarrow> (nat \<Rightarrow> string) \<Rightarrow> (string \<Rightarrow> (string, pyval) dict \<Rightarrow> exn + operation)
     \<Rightarrow> string option \<Rightarrow> 'st env" where
  "runtime_env S cks b ids create replica =
     \<lparr>core_bridge = b, env_cks = cks, replica_id = replica, uuid = ids,
      st_save_session = op_save_session (st_sessions S), st_save_version = op_save_version (st_sessions S),
      st_record_operations = op_record_operations (st_log S),
      st_list_operations = (\<lambda>sid oid st. fst (op_list_operations (st_log S) sid (Some oid) None st)),
      st_list_sessions = (\<lambda>st. fst (op_list_sessions (st_sessions S) st)),
      supports_operation_log = op_supports_operation_log (st_log S), create_operation = create,
      run_handler = (\<lambda>now h ev. if h = PROJECTION then projection_handler S now ev else retM ())\<rparr>"

section \<open>Creating a runtime\<close>

definition agent_start :: "('st, 'd) storage \<Rightarrow> string \<Rightarrow> run_status \<Rightarrow> run_status" where
  "agent_start S a =
     (if a = ''inference_staleness'' then inference_start S
      else if a = ''provenance_staleness'' then provenance_start S
      else if a = ''temporal_staleness'' then temporal_start S
      else if a = ''graph_freshness'' then freshness_start S
      else if a = ''graph_auto_update'' then auto_update_start S
      else if a = ''graph_health'' then health_start S
      else if a = ''contradiction'' then contradiction_start S
      else id)"

text \<open>A sweeper that is configured is started unless the storage says that it is not to run.\<close>

definition start_agent :: "('st, 'd) storage \<Rightarrow> string \<Rightarrow> ('st facade, unit) sx" where
  "start_agent S a f =
     (case dget (fc_sweepers f) a of
        None \<Rightarrow> (Inr (), f)
      | Some w \<Rightarrow>
          bindM (on_fc_storage (op_get_sweeper_desired_running (st_agents S) a)) (\<lambda>override.
            modM (\<lambda>f. if override \<noteq> Some False then f\<lparr>fc_sweepers := dset (fc_sweepers f) a (agent_start S a w)\<rparr> else f)) f)"

fun start_agents :: "('st, 'd) storage \<Rightarrow> string list \<Rightarrow> ('st facade, unit) sx" where
  "start_agents S [] = retM ()"
| "start_agents S (a # as) = bindM (start_agent S a) (\<lambda>_. start_agents S as)"

definition SWEEPERS :: "string list" where
  "SWEEPERS =
     [''inference_staleness'', ''provenance_staleness'', ''temporal_staleness'', ''graph_freshness'',
      ''graph_auto_update'', ''graph_health'', ''contradiction'']"

text \<open>\<open>mk\<close> gives what the managers use, once the identity is known; \<open>candidate\<close> is a fresh identity.\<close>

definition runtime_create ::
  "('st, 'd) storage \<Rightarrow> (string option \<Rightarrow> 'st env) \<Rightarrow> string \<Rightarrow> ('st facade, unit) sx" where
  "runtime_create S mk candidate =
     bindM (on_fc_storage (op_get_or_create_replica_id (st_log S) candidate)) (\<lambda>replica.
     bindM (modM (\<lambda>f. f\<lparr>fc_replica_id := replica\<rparr>)) (\<lambda>_.
     bindM (\<lambda>f. case restore_from_storage (mk replica) (fc_rt f) of (r, rt) \<Rightarrow> (r, f\<lparr>fc_rt := rt\<rparr>)) (\<lambda>_.
     bindM (modM (\<lambda>f. f\<lparr>fc_worker := worker_start S (fc_worker f)\<rparr>)) (\<lambda>_.
     bindM (modM (\<lambda>f. f\<lparr>fc_gc := map_option gc_start (fc_gc f)\<rparr>)) (\<lambda>_.
     start_agents S SWEEPERS)))))"

section \<open>Statuses\<close>

text \<open>The intervals are attributes of the sweepers; a sweeper keeps the one it was made with.\<close>

definition agent_status ::
  "(time \<Rightarrow> string) \<Rightarrow> (exn \<Rightarrow> string) \<Rightarrow> runtime_config \<Rightarrow> string \<Rightarrow> run_status \<Rightarrow> (string, pyval) dict" where
  "agent_status iso_text error_text cfg a w =
     sweeper_status a (case map_of (sweeper_intervals cfg) a of Some (Some i) \<Rightarrow> i | _ \<Rightarrow> PNone) iso_text error_text w"

definition list_agent_statuses ::
  "(time \<Rightarrow> string) \<Rightarrow> (exn \<Rightarrow> string) \<Rightarrow> runtime_config \<Rightarrow> 'st facade \<Rightarrow> (string, pyval) dict list" where
  "list_agent_statuses iso_text error_text cfg f =
     map (\<lambda>(a, w). agent_status iso_text error_text cfg a w) (fc_sweepers f)"

definition get_agent_status ::
  "(time \<Rightarrow> string) \<Rightarrow> (exn \<Rightarrow> string) \<Rightarrow> runtime_config \<Rightarrow> string \<Rightarrow> 'st facade \<Rightarrow> (string, pyval) dict option" where
  "get_agent_status iso_text error_text cfg a f =
     map_option (agent_status iso_text error_text cfg a) (dget (fc_sweepers f) a)"

section \<open>Closing a runtime\<close>

definition agent_stop :: "string \<Rightarrow> ('st facade, unit) sx" where
  "agent_stop a f =
     (case dget (fc_sweepers f) a of
        None \<Rightarrow> (Inr (), f)
      | Some w \<Rightarrow> (case stop_loop w of (r, w') \<Rightarrow> (r, f\<lparr>fc_sweepers := dset (fc_sweepers f) a w'\<rparr>)))"

fun stop_agents :: "string list \<Rightarrow> ('st facade, unit) sx" where
  "stop_agents [] = retM ()"
| "stop_agents (a # as) = bindM (agent_stop a) (\<lambda>_. stop_agents as)"

definition stop_worker :: "('st facade, unit) sx" where
  "stop_worker f = (case worker_stop (fc_worker f) of (r, w) \<Rightarrow> (r, f\<lparr>fc_worker := w\<rparr>))"

definition stop_gc :: "('st facade, unit) sx" where
  "stop_gc f =
     (case fc_gc f of
        None \<Rightarrow> (Inr (), f)
      | Some w \<Rightarrow> (case gc_stop w of (r, w') \<Rightarrow> (r, f\<lparr>fc_gc := Some w'\<rparr>)))"

text \<open>The storage is closed when it has a \<open>close\<close>.\<close>

definition aclose :: "('st, 'd) storage \<Rightarrow> ('st facade, unit) sx" where
  "aclose S =
     bindM stop_worker (\<lambda>_.
     bindM stop_gc (\<lambda>_.
     bindM (stop_agents SWEEPERS) (\<lambda>_.
     case st_close S of
       None \<Rightarrow> retM ()
     | Some close \<Rightarrow> bindM (on_fc_storage close) (\<lambda>_. modM (\<lambda>f. f\<lparr>fc_storage_closed := True\<rparr>)))))"

section \<open>What a start does\<close>

definition agent_supported :: "('st, 'd) storage \<Rightarrow> string \<Rightarrow> bool" where
  "agent_supported S a \<longleftrightarrow> a = ''inference_staleness'' \<or> op_supports_outbox (st_tasks S)"

lemma agent_start_loop: "a \<in> set SWEEPERS \<Longrightarrow> agent_start S a w = start_loop (agent_supported S a) w"
  by (auto simp: SWEEPERS_def agent_start_def agent_supported_def inference_start_def provenance_start_def
      temporal_start_def freshness_start_def auto_update_start_def health_start_def contradiction_start_def)

lemma SWEEPERS_distinct: "distinct SWEEPERS"
  by (simp add: SWEEPERS_def)

lemma sweeper_keys: "map fst (sweeper_intervals cfg) = SWEEPERS"
  by (simp add: sweeper_intervals_def SWEEPERS_def)

definition start_one :: "('st, 'd) storage \<Rightarrow> ('st \<Rightarrow> string \<Rightarrow> bool option) \<Rightarrow> string \<Rightarrow> 'st facade \<Rightarrow> 'st facade" where
  "start_one S desired a f =
     (case dget (fc_sweepers f) a of
        None \<Rightarrow> f
      | Some w \<Rightarrow>
          if desired (fc_storage f) a \<noteq> Some False then f\<lparr>fc_sweepers := dset (fc_sweepers f) a (agent_start S a w)\<rparr> else f)"

lemma start_one_frame [simp]:
  "fc_rt (start_one S desired a f) = fc_rt f" "fc_replica_id (start_one S desired a f) = fc_replica_id f"
  "fc_worker (start_one S desired a f) = fc_worker f" "fc_gc (start_one S desired a f) = fc_gc f"
  "fc_storage_closed (start_one S desired a f) = fc_storage_closed f"
  by (simp_all add: start_one_def split: option.splits)

lemma start_one_get:
  "dget (fc_sweepers (start_one S desired a f)) a' =
     (if a' = a \<and> desired (fc_storage f) a \<noteq> Some False then map_option (agent_start S a) (dget (fc_sweepers f) a)
      else dget (fc_sweepers f) a')"
  by (auto simp: start_one_def split: option.splits)

lemma start_all_frame [simp]:
  "fc_rt (fold (start_one S desired) as f) = fc_rt f" "fc_replica_id (fold (start_one S desired) as f) = fc_replica_id f"
  "fc_worker (fold (start_one S desired) as f) = fc_worker f" "fc_gc (fold (start_one S desired) as f) = fc_gc f"
  "fc_storage_closed (fold (start_one S desired) as f) = fc_storage_closed f"
  by (induction as arbitrary: f) simp_all

lemma start_all_get:
  "distinct as \<Longrightarrow>
   dget (fc_sweepers (fold (start_one S desired) as f)) a =
     (if a \<in> set as \<and> desired (fc_storage f) a \<noteq> Some False then map_option (agent_start S a) (dget (fc_sweepers f) a)
      else dget (fc_sweepers f) a)"
  by (induction as arbitrary: f) (auto simp: start_one_get)

text \<open>The start of a new runtime, all but the sweepers.\<close>

lemma restore_frame:
  "restore_from_storage env rt = (r, rt') \<Longrightarrow> rt_storage rt' = rt_storage rt \<and> rt_bus rt' = rt_bus rt"
proof -
  have fold: "rt_storage (fold restore_session ss rt) = rt_storage rt \<and> rt_bus (fold restore_session ss rt) = rt_bus rt" for ss
    by (induction ss arbitrary: rt) (simp_all add: restore_session_def register_session_def)
  show "restore_from_storage env rt = (r, rt') \<Longrightarrow> ?thesis"
    by (auto simp: restore_from_storage_def fold split: sum.splits)
qed

definition started_with :: "('st, 'd) storage \<Rightarrow> 'st facade \<Rightarrow> string option \<Rightarrow> 'st rt \<Rightarrow> 'st facade" where
  "started_with S f replica rt =
     f\<lparr>fc_rt := rt, fc_replica_id := replica, fc_worker := worker_start S (fc_worker f), fc_gc := map_option gc_start (fc_gc f)\<rparr>"

context sweeper_switch
begin

lemma start_agents_run:
  assumes "op_get_sweeper_desired_running (st_agents S) = get_desired"
  shows "start_agents S as f = (Inr (), fold (start_one S desired) as f)"
proof (induction as arbitrary: f)
  case (Cons a as)
  have "start_agent S a f = (Inr (), start_one S desired a f)"
    by (cases f; cases "fc_rt f") (simp add: start_agent_def start_one_def assms on_fc_storage_def get_answers bindM_def modM_def
        split: option.splits)
  then show ?case
    using Cons by (simp add: bindM_def)
qed (simp add: retM_def)

lemma create_parts:
  assumes "runtime_create S mk candidate f = (Inr (), f')"
    and desired: "op_get_sweeper_desired_running (st_agents S) = get_desired"
  obtains replica st rt where "op_get_or_create_replica_id (st_log S) candidate (fc_storage f) = (Inr replica, st)"
    and "restore_from_storage (mk replica) ((fc_rt f)\<lparr>rt_storage := st\<rparr>) = (Inr (), rt)"
    and "f' = fold (start_one S desired) SWEEPERS (started_with S f replica rt)"
proof -
  obtain replica st where 1: "op_get_or_create_replica_id (st_log S) candidate (fc_storage f) = (Inr replica, st)"
    using assms(1)
    by (cases "op_get_or_create_replica_id (st_log S) candidate (fc_storage f)")
      (auto simp: runtime_create_def on_fc_storage_def bindM_def split: sum.splits)
  obtain rt where 2: "restore_from_storage (mk replica) ((fc_rt f)\<lparr>rt_storage := st\<rparr>) = (Inr (), rt)"
    using assms(1) 1
    by (cases "restore_from_storage (mk replica) ((fc_rt f)\<lparr>rt_storage := st\<rparr>)")
      (auto simp: runtime_create_def on_fc_storage_def bindM_def modM_def split: sum.splits)
  have "f' = fold (start_one S desired) SWEEPERS (started_with S f replica rt)"
    using assms(1) 1 2
    by (cases f) (simp add: runtime_create_def on_fc_storage_def bindM_def modM_def start_agents_run [OF desired] started_with_def)
  then show ?thesis
    using that 1 2 by blast
qed

end

section \<open>A runtime as it is created\<close>

text \<open>A sweeper whose loop goes round.\<close>

definition loops :: "'st facade \<Rightarrow> string \<Rightarrow> bool" where
  "loops f a \<longleftrightarrow> (case dget (fc_sweepers f) a of None \<Rightarrow> False | Some w \<Rightarrow> sw_running w \<and> sw_task w = Looping)"

lemma dget_given:
  "distinct (map fst xs) \<Longrightarrow>
   dget (concat (map (\<lambda>(a, i). case i of None \<Rightarrow> [] | Some _ \<Rightarrow> [(a, v)]) xs)) a =
     (case map_of xs a of Some (Some _) \<Rightarrow> Some v | _ \<Rightarrow> None)"
proof (induction xs)
  case (Cons x xs)
  obtain b i where x: "x = (b, i)"
    by fastforce
  have "map_of xs b = None"
    using Cons.prems x by (simp add: map_of_eq_None_iff)
  then show ?case
    using Cons x by (auto simp: dict_simps split: option.splits)
qed simp

lemma init_sweepers: "dget (fc_sweepers (runtime_init cfg st now n)) a = (if configured cfg a then Some new_status else None)"
  by (auto simp: runtime_init_def dget_given sweeper_keys SWEEPERS_distinct configured_def split: option.splits)

lemma configured_known: "configured cfg a \<Longrightarrow> a \<in> set SWEEPERS"
proof -
  assume "configured cfg a"
  then obtain i where "map_of (sweeper_intervals cfg) a = Some i"
    by (auto simp: configured_def split: option.splits)
  then have "a \<in> fst ` set (sweeper_intervals cfg)"
    by (force dest: map_of_SomeD)
  then show ?thesis
    using sweeper_keys [of cfg] by (metis set_map)
qed

lemma new_status_loop [simp]: "sw_running new_status = False" "sw_task new_status = No_Task"
  by (simp_all add: new_status_def)

context sweeper_switch
begin

lemma created_agents:
  assumes "runtime_create S mk candidate (runtime_init cfg st now n) = (Inr (), f)"
    and "op_get_sweeper_desired_running (st_agents S) = get_desired"
  shows "dget (fc_sweepers f) a =
      (if configured cfg a
       then Some (if desired (fc_storage f) a \<noteq> Some False then start_loop (agent_supported S a) new_status else new_status)
       else None)"
    and "fc_worker f = start_loop (op_supports_outbox (st_tasks S)) idle_loop"
    and "fc_gc f = map_option (\<lambda>_. start_loop True idle_loop) (gc_retention cfg)"
    and "\<not> fc_storage_closed f"
proof -
  obtain replica st' rt where 1: "op_get_or_create_replica_id (st_log S) candidate st = (Inr replica, st')"
      "restore_from_storage (mk replica) ((empty_rt st now n)\<lparr>rt_storage := st'\<rparr>) = (Inr (), rt)"
      "f = fold (start_one S desired) SWEEPERS (started_with S (runtime_init cfg st now n) replica rt)"
    using create_parts [OF assms] by (auto simp: runtime_init_def empty_rt_def)
  have rt: "fc_rt f = rt"
    using 1(3) by (simp add: started_with_def)
  show "dget (fc_sweepers f) a =
      (if configured cfg a
       then Some (if desired (fc_storage f) a \<noteq> Some False then start_loop (agent_supported S a) new_status else new_status)
       else None)"
    unfolding rt unfolding 1(3) start_all_get [OF SWEEPERS_distinct]
    using configured_known [of cfg a] by (simp add: started_with_def init_sweepers agent_start_loop)
  show "fc_worker f = start_loop (op_supports_outbox (st_tasks S)) idle_loop"
    "fc_gc f = map_option (\<lambda>_. start_loop True idle_loop) (gc_retention cfg)" "\<not> fc_storage_closed f"
    unfolding 1(3) by (simp_all add: started_with_def runtime_init_def worker_start_def gc_start_def option.map_comp comp_def)
qed

lemma created_loops:
  assumes "runtime_create S mk candidate (runtime_init cfg st now n) = (Inr (), f)"
    and "op_get_sweeper_desired_running (st_agents S) = get_desired"
  shows "loops f a \<longleftrightarrow> configured cfg a \<and> agent_supported S a \<and> desired (fc_storage f) a \<noteq> Some False"
  using created_agents(1) [OF assms, of a] by (simp add: loops_def start_loop_def)

end

text \<open>The sessions: every stored session that is not closed is registered, and nothing else.\<close>

definition refs_ok :: "'st rt \<Rightarrow> bool" where
  "refs_ok rt \<longleftrightarrow> (\<forall>sid r. get_session sid rt = Some r \<longrightarrow> r < next_ref rt)"

lemma restored_sessions:
  assumes "distinct (map session_id ss)" and "refs_ok rt"
  shows "refs_ok (fold restore_session ss rt)" (is ?A)
    and "\<forall>r < next_ref rt. session_heap (fold restore_session ss rt) r = session_heap rt r" (is ?B)
    and "next_ref rt \<le> next_ref (fold restore_session ss rt)" (is ?C)
    and "s \<in> set ss \<Longrightarrow> \<not> closed s \<Longrightarrow>
      \<exists>r. get_session (session_id s) (fold restore_session ss rt) = Some r \<and> session_heap (fold restore_session ss rt) r = s"
    and "\<forall>s \<in> set ss. session_id s = sid \<longrightarrow> closed s \<Longrightarrow> get_session sid (fold restore_session ss rt) = get_session sid rt"
proof -
  have step: "refs_ok (restore_session s rt)" "\<forall>r < next_ref rt. session_heap (restore_session s rt) r = session_heap rt r"
      "next_ref rt \<le> next_ref (restore_session s rt)"
      "\<not> closed s \<Longrightarrow> get_session (session_id s) (restore_session s rt) = Some (next_ref rt) \<and>
        session_heap (restore_session s rt) (next_ref rt) = s \<and> next_ref (restore_session s rt) = next_ref rt + 1"
      "session_id s \<noteq> sid \<or> closed s \<Longrightarrow> get_session sid (restore_session s rt) = get_session sid rt"
    if "refs_ok rt" for s :: session and rt :: "'a rt" and sid
    using that by (auto simp: restore_session_def register_session_def get_session_def refs_ok_def less_Suc_eq)
  have all: "refs_ok (fold restore_session ss rt) \<and>
      (\<forall>r < next_ref rt. session_heap (fold restore_session ss rt) r = session_heap rt r) \<and>
      next_ref rt \<le> next_ref (fold restore_session ss rt) \<and>
      (\<forall>s \<in> set ss. \<not> closed s \<longrightarrow> (\<exists>r. get_session (session_id s) (fold restore_session ss rt) = Some r \<and>
        session_heap (fold restore_session ss rt) r = s)) \<and>
      (\<forall>sid. (\<forall>s \<in> set ss. session_id s = sid \<longrightarrow> closed s) \<longrightarrow>
        get_session sid (fold restore_session ss rt) = get_session sid rt)"
    using assms
  proof (induction ss arbitrary: rt)
    case (Cons s ss)
    let ?rt1 = "restore_session s rt" and ?rt' = "fold restore_session ss (restore_session s rt)"
    note s = step [OF Cons.prems(2), of s]
    have ih: "refs_ok ?rt'" "\<forall>r < next_ref ?rt1. session_heap ?rt' r = session_heap ?rt1 r" "next_ref ?rt1 \<le> next_ref ?rt'"
      "\<forall>s \<in> set ss. \<not> closed s \<longrightarrow> (\<exists>r. get_session (session_id s) ?rt' = Some r \<and> session_heap ?rt' r = s)"
      "\<forall>sid. (\<forall>s \<in> set ss. session_id s = sid \<longrightarrow> closed s) \<longrightarrow> get_session sid ?rt' = get_session sid ?rt1"
      using Cons.IH [of ?rt1] Cons.prems(1) s(1) by simp_all
    have "\<exists>r. get_session (session_id s) ?rt' = Some r \<and> session_heap ?rt' r = s" if "\<not> closed s"
    proof -
      have "get_session (session_id s) ?rt' = get_session (session_id s) ?rt1"
        using ih(5) Cons.prems(1) by (metis distinct.simps(2) image_eqI list.simps(9) set_map)
      then show ?thesis
        using s(4) [OF that] ih(2) by simp
    qed
    moreover have "\<forall>r < next_ref rt. session_heap ?rt' r = session_heap rt r"
      using ih(2) s(2,3) by simp
    moreover have "get_session sid ?rt' = get_session sid rt" if "\<forall>t \<in> set (s # ss). session_id t = sid \<longrightarrow> closed t" for sid
      using ih(5) s(5) [of sid] that by auto
    ultimately show ?case
      using ih s(3) by simp
  qed simp
  then show ?A ?B ?C
    by blast+
  show "s \<in> set ss \<Longrightarrow> \<not> closed s \<Longrightarrow>
      \<exists>r. get_session (session_id s) (fold restore_session ss rt) = Some r \<and> session_heap (fold restore_session ss rt) r = s"
    "\<forall>s \<in> set ss. session_id s = sid \<longrightarrow> closed s \<Longrightarrow> get_session sid (fold restore_session ss rt) = get_session sid rt"
    using all by blast+
qed

lemma map_err_Inr: "map_err f xs = Inr ys \<Longrightarrow> list_all2 (\<lambda>x y. f x = Inr y) xs ys"
  by (induction xs arbitrary: ys) (auto split: sum.splits)

lemma loaded_all:
  assumes "load_all cks ids db = Inr ss" and "distinct ids"
  shows "distinct (map session_id ss)" and "s \<in> set ss \<longleftrightarrow> (\<exists>k \<in> set ids. load_session cks k db = Inr (Some s))"
proof -
  obtain found where "map_err (\<lambda>sid. load_session cks sid db) ids = Inr found" "ss = concat (map (case_option [] (\<lambda>s. [s])) found)"
    using assms(1) by (auto simp: load_all_def bind_err_def split: sum.splits)
  then have all: "list_all2 (\<lambda>x y. load_session cks x db = Inr y) ids found" and ss: "ss = concat (map (case_option [] (\<lambda>s. [s])) found)"
    by (simp_all add: map_err_Inr)
  from all have "session_id ` set (concat (map (case_option [] (\<lambda>s. [s])) found)) \<subseteq> set ids \<and>
      (distinct ids \<longrightarrow> distinct (map session_id (concat (map (case_option [] (\<lambda>s. [s])) found)))) \<and>
      (s \<in> set (concat (map (case_option [] (\<lambda>s. [s])) found)) \<longleftrightarrow> (\<exists>k \<in> set ids. load_session cks k db = Inr (Some s)))"
  proof (induction rule: list_all2_induct)
    case (Cons k ids y found)
    then show ?case
      using load_session_row [of cks k db] by (cases y) auto
  qed simp
  then show "distinct (map session_id ss)" "s \<in> set ss \<longleftrightarrow> (\<exists>k \<in> set ids. load_session cks k db = Inr (Some s))"
    using ss assms(2) by blast+
qed

lemma load_needs_row: "load_session cks sid db = Inr (Some s) \<Longrightarrow> sid \<in> set (dkeys (session_rows db)) \<and> session_id s = sid"
  using load_session_row [of cks sid db s] dget_Some_key [of "session_rows db" sid] by auto

lemma listed_sqlite:
  assumes "list_sessions cks db = Inr ss" and "dict_ok (session_rows db)"
  shows "distinct (map session_id ss)" and "s \<in> set ss \<longleftrightarrow> load_session cks (session_id s) db = Inr (Some s)"
proof -
  have "distinct (dkeys (session_rows db))" "load_all cks (dkeys (session_rows db)) db = Inr ss"
    using assms by (simp_all add: dict_ok_def list_sessions_def)
  note all = loaded_all [OF this(2,1)]
  show "distinct (map session_id ss)"
    by (rule all)
  show "s \<in> set ss \<longleftrightarrow> load_session cks (session_id s) db = Inr (Some s)"
    unfolding all(2) using load_needs_row [of cks _ db s] by metis
qed

lemma loaded_idle: "load_session cks sid db = Inr (Some s) \<Longrightarrow> active_transaction s = None"
  by (auto simp: load_session_def bind_err_def make_session_def fold_add_version split: option.splits sum.splits if_splits)

section \<open>On SQLite\<close>

text \<open>The storage a runtime has when it is given a path, or a \<open>SQLiteStorage\<close>.\<close>

abbreviation sqlite_runtime_storage ::
  "cks_objects \<Rightarrow> (string \<Rightarrow> string \<Rightarrow> rat) \<Rightarrow> (sqlite_db \<times> registry, storage_dump \<times> (string \<times> graph) list) storage" where
  "sqlite_runtime_storage cks similarity \<equiv> adapter (sqlite_storage cks similarity)"

lemma sqlite_outbox [simp]: "op_supports_outbox (st_tasks (sqlite_storage cks similarity))"
  by (simp add: sqlite_storage_def sqlite_tasks_part_def)

lemma sqlite_runtime_fields:
  "op_supports_outbox (st_tasks (sqlite_runtime_storage cks similarity))"
  "op_get_sweeper_desired_running (st_agents (sqlite_runtime_storage cks similarity)) =
     op_get_sweeper_desired_running (st_agents (sqlite_storage cks similarity))"
  "op_get_or_create_replica_id (st_log (sqlite_runtime_storage cks similarity)) c st =
     (case get_or_create_replica_id c (fst st) of (r, db) \<Rightarrow> (Inr (Some r), (db, snd st)))"
  "st_list_sessions (runtime_env (sqlite_runtime_storage cks similarity) cks' b ids create replica) st = list_sessions cks (fst st)"
  by (simp_all add: sqlite_storage_def sqlite_tasks_part_def on_first_def updateM_def runtime_env_def sqlite_sessions_part_def
      readM_def split: prod.splits)

text \<open>The session manager holds what is stored and open, and no runtime has more or less.\<close>

definition mirrors :: "cks_objects \<Rightarrow> sqlite_db \<Rightarrow> 'st rt \<Rightarrow> bool" where
  "mirrors cks db rt \<longleftrightarrow>
     (\<forall>sid. case load_session cks sid db of
        Inl e \<Rightarrow> False
      | Inr None \<Rightarrow> get_session sid rt = None
      | Inr (Some s) \<Rightarrow>
          if closed s then get_session sid rt = None
          else map_option (the_session rt) (get_session sid rt) = Some s)"

lemma get_session_init [simp]: "get_session sid (empty_rt st now n) = None"
  by (simp add: get_session_def empty_rt_def)

lemma restore_mirrors:
  assumes "restore_from_storage env rt = (Inr (), rt')" and "st_list_sessions env (rt_storage rt) = list_sessions cks db"
    and "dict_ok (session_rows db)" and "session_table rt = []"
  shows "mirrors cks db rt'"
proof -
  obtain ss where ss: "list_sessions cks db = Inr ss" "rt' = fold restore_session ss rt"
    using assms(1,2) by (auto simp: restore_from_storage_def split: sum.splits)
  have none: "get_session sid rt = None" for sid
    using assms(4) by (simp add: get_session_def)
  then have ok: "refs_ok rt"
    by (simp add: refs_ok_def)
  note rs = restored_sessions [OF listed_sqlite(1) [OF ss(1) assms(3)] ok, folded ss(2)]
  note in_ss = listed_sqlite(2) [OF ss(1) assms(3)]
  show ?thesis
    unfolding mirrors_def
  proof
    fix sid
    show "case load_session cks sid db of
        Inl e \<Rightarrow> False
      | Inr None \<Rightarrow> get_session sid rt' = None
      | Inr (Some s) \<Rightarrow>
          if closed s then get_session sid rt' = None
          else map_option (the_session rt') (get_session sid rt') = Some s"
    proof (cases "load_session cks sid db")
      case (Inl e)
      then have "dget (session_rows db) sid \<noteq> None"
        by (auto simp: load_session_def split: option.splits)
      then have "sid \<in> set (dkeys (session_rows db))"
        by (simp add: dget_None_iff)
      moreover have "load_all cks (dkeys (session_rows db)) db = Inr ss"
        using ss(1) by (simp add: list_sessions_def)
      then obtain found where "map_err (\<lambda>sid. load_session cks sid db) (dkeys (session_rows db)) = Inr found"
        by (auto simp: load_all_def bind_err_def split: sum.splits)
      ultimately show ?thesis
        using map_err_Inr [of "\<lambda>sid. load_session cks sid db"] Inl by (fastforce simp: list_all2_conv_all_nth in_set_conv_nth)
    next
      case (Inr x)
      have no: "get_session sid rt' = None" if "\<forall>s \<in> set ss. session_id s = sid \<longrightarrow> closed s"
        using rs(5) [OF that] none by simp
      show ?thesis
      proof (cases x)
        case None
        then show ?thesis
          using no in_ss Inr by fastforce
      next
        case (Some s)
        then have id: "session_id s = sid" "s \<in> set ss"
          using load_needs_row [of cks sid db s] Inr in_ss by auto
        show ?thesis
        proof (cases "closed s")
          case True
          have "\<forall>t \<in> set ss. session_id t = sid \<longrightarrow> closed t"
            using in_ss Inr Some True by force
          then show ?thesis
            using no True Inr Some by simp
        next
          case False
          then show ?thesis
            using rs(4) [OF id(2) False] id(1) Inr Some by auto
        qed
      qed
    qed
  qed
qed

text \<open>A created runtime starts without a transaction, so every invariant of its steps holds of it.\<close>

lemma restored_idle:
  "\<forall>s \<in> set ss. active_transaction s = None \<Longrightarrow> \<forall>r. active_transaction (the_session rt r) = None \<Longrightarrow>
   (\<forall>r. active_transaction (the_session (fold restore_session ss rt) r) = None) \<and>
   tx_heap (fold restore_session ss rt) = tx_heap rt \<and> tx_table (fold restore_session ss rt) = tx_table rt"
proof (induction ss arbitrary: rt)
  case (Cons s ss)
  then show ?case
    using Cons.IH [of "restore_session s rt"] by (auto simp: restore_session_def register_session_def)
qed simp

lemma sqlite_created_fresh:
  assumes "restore_from_storage env ((empty_rt st now n)\<lparr>rt_storage := st'\<rparr>) = (Inr (), rt)"
    and "st_list_sessions env st' = list_sessions cks db" and "dict_ok (session_rows db)" and "\<forall>n. uuid env n \<noteq> []"
  shows "fresh_runtime env rt"
proof -
  obtain ss where ss: "list_sessions cks db = Inr ss" "rt = fold restore_session ss ((empty_rt st now n)\<lparr>rt_storage := st'\<rparr>)"
    using assms(1,2) by (auto simp: restore_from_storage_def empty_rt_def split: sum.splits)
  have "\<forall>s \<in> set ss. active_transaction s = None"
    using listed_sqlite(2) [OF ss(1) assms(3)] loaded_idle by blast
  then have "(\<forall>r. active_transaction (the_session rt r) = None) \<and> tx_heap rt = tx_heap (empty_rt st now n) \<and> tx_table rt = []"
    using restored_idle [of ss "(empty_rt st now n)\<lparr>rt_storage := st'\<rparr>"] ss(2) by (simp add: empty_rt_def new_session_def)
  moreover have "\<forall>n. [] \<noteq> uuid env n"
    using assms(4) by metis
  ultimately show ?thesis
    by (simp add: fresh_runtime_def empty_rt_def tx_completed_def)
qed

lemma init_fields: "fc_rt (runtime_init cfg st now n) = empty_rt st now n" "rt_storage (empty_rt st now n) = st"
  by (simp_all add: runtime_init_def empty_rt_def)

lemma sqlite_created:
  assumes "runtime_create (sqlite_runtime_storage cks similarity)
      (runtime_env (sqlite_runtime_storage cks similarity) cks b ids create) candidate (runtime_init cfg st now n) = (Inr (), f)"
    and "dict_ok (session_rows (fst st))"
  shows "fc_replica_id f = Some (case identity_row (fst st) of None \<Rightarrow> candidate | Some r \<Rightarrow> r)"
    and "fc_storage f = (snd (get_or_create_replica_id candidate (fst st)), snd st)"
    and "loops f a \<longleftrightarrow> configured cfg a \<and> get_sweeper_desired_running a (fst st) \<noteq> Some False"
    and "mirrors cks (fst st) (fc_rt f)"
    and "\<forall>n. ids n \<noteq> [] \<Longrightarrow>
      reachable (runtime_env (sqlite_runtime_storage cks similarity) cks b ids create (fc_replica_id f)) (fc_rt f)"
proof -
  let ?S = "sqlite_runtime_storage cks similarity" and ?mk = "runtime_env (sqlite_runtime_storage cks similarity) cks b ids create"
  note desired = sqlite_runtime_fields(2)
  obtain replica st' rt where 1: "op_get_or_create_replica_id (st_log ?S) candidate st = (Inr replica, st')"
      "restore_from_storage (?mk replica) ((empty_rt st now n)\<lparr>rt_storage := st'\<rparr>) = (Inr (), rt)"
      "f = fold (start_one ?S (\<lambda>st a. get_sweeper_desired_running a (fst st))) SWEEPERS (started_with ?S (runtime_init cfg st now n) replica rt)"
    by (rule sqlite_runtime_store.create_parts [OF assms(1) desired]) (rule that, simp_all only: init_fields)
  have f: "fc_replica_id f = replica" "fc_rt f = rt"
    using 1(3) by (simp_all add: started_with_def)
  have st': "replica = Some (fst (get_or_create_replica_id candidate (fst st)))"
      "st' = (snd (get_or_create_replica_id candidate (fst st)), snd st)"
    using 1(1) unfolding sqlite_runtime_fields by (auto split: prod.splits)
  then show "fc_replica_id f = Some (case identity_row (fst st) of None \<Rightarrow> candidate | Some r \<Rightarrow> r)"
    using f by (simp add: get_or_create_replica_id_def split: option.splits)
  have storage: "fc_storage f = st'"
    using restore_frame [OF 1(2)] f(2) by simp
  then show "fc_storage f = (snd (get_or_create_replica_id candidate (fst st)), snd st)"
    using st'(2) by simp
  have rows: "session_rows (fst st') = session_rows (fst st)" "version_rows (fst st') = version_rows (fst st)"
      "sweeper_rows (fst st') = sweeper_rows (fst st)"
    using st'(2) by (simp_all add: get_or_create_replica_id_def split: option.splits)
  show "loops f a \<longleftrightarrow> configured cfg a \<and> get_sweeper_desired_running a (fst st) \<noteq> Some False"
    using sqlite_runtime_store.created_loops [OF assms(1) desired, of a] storage rows(3)
    by (simp add: agent_supported_def sqlite_runtime_fields(1) get_sweeper_desired_running_def)
  have ok: "dict_ok (session_rows (fst st'))"
    using rows assms(2) by simp
  have listed: "st_list_sessions (?mk replica) st' = list_sessions cks (fst st')"
    by (rule sqlite_runtime_fields)
  have "mirrors cks (fst st') rt"
    using restore_mirrors [OF 1(2) _ ok] listed by (simp add: empty_rt_def)
  moreover have "load_session cks sid (fst st') = load_session cks sid (fst st)" for sid
    unfolding load_session_def rows_of_session_def rows ..
  ultimately show "mirrors cks (fst st) (fc_rt f)"
    unfolding mirrors_def f by simp
  show "reachable (?mk (fc_replica_id f)) (fc_rt f)" if "\<forall>n. ids n \<noteq> []"
    unfolding f using sqlite_created_fresh [OF 1(2) listed ok] that by (intro reachable_start) (simp add: runtime_env_def)
qed

abbreviation sqlite_calls ::
  "cks_objects \<Rightarrow> (string \<Rightarrow> string \<Rightarrow> rat) \<Rightarrow> store_call list \<Rightarrow> sqlite_db \<times> registry \<Rightarrow> sqlite_db \<times> registry" where
  "sqlite_calls cks similarity \<equiv>
     fold (call_store (op_save_session (st_sessions (sqlite_storage cks similarity)))
       (op_set_sweeper_desired_running (st_agents (sqlite_storage cks similarity)))
       (op_get_or_create_replica_id (st_log (sqlite_storage cks similarity))))"

lemma sqlite_calls_ok: "dict_ok (session_rows (fst st)) \<Longrightarrow> dict_ok (session_rows (fst (sqlite_calls cks similarity cs st)))"
proof (induction cs arbitrary: st)
  case (Cons c cs)
  have "dict_ok (session_rows (fst (call_store (op_save_session (st_sessions (sqlite_storage cks similarity)))
       (op_set_sweeper_desired_running (st_agents (sqlite_storage cks similarity)))
       (op_get_or_create_replica_id (st_log (sqlite_storage cks similarity))) c st)))"
    using Cons.prems
    by (cases c) (auto simp: sqlite_storage_def sqlite_sessions_part_def sqlite_agents_part_def on_first_def modM_def updateM_def
        save_session_def Let_def set_sweeper_desired_running_def get_or_create_replica_id_def split: option.splits prod.splits)
  then show ?case
    using Cons.IH by simp
qed simp

text \<open>C5: A runtime on SQLite that is created again, after whatever saves, overrides and other starts
  on its database, has the identity it had, runs exactly the sweepers that are configured and
  whose last override does not forbid it, and its session manager holds exactly the stored
  sessions that are not closed, as they are stored.\<close>

theorem restart_resumes:
  assumes ok: "dict_ok (session_rows (fst st))"
    and first: "runtime_create (sqlite_runtime_storage cks similarity)
        (runtime_env (sqlite_runtime_storage cks similarity) cks b ids create) candidate (runtime_init cfg st now n) = (Inr (), f)"
    and second: "runtime_create (sqlite_runtime_storage cks similarity)
        (runtime_env (sqlite_runtime_storage cks similarity) cks b' ids' create') candidate'
      (runtime_init cfg' (sqlite_calls cks similarity cs (fc_storage f)) now' n') = (Inr (), f')"
  shows "fc_replica_id f' = fc_replica_id f \<and>
    (\<forall>a. loops f' a \<longleftrightarrow> configured cfg' a \<and> overridden cs a (get_sweeper_desired_running a (fst st)) \<noteq> Some False) \<and>
    mirrors cks (fst (sqlite_calls cks similarity cs (fc_storage f))) (fc_rt f')"
proof -
  let ?st = "sqlite_calls cks similarity cs (fc_storage f)"
  note f = sqlite_created [OF first ok]
  have rows: "session_rows (fst (fc_storage f)) = session_rows (fst st)"
      "\<And>a. get_sweeper_desired_running a (fst (fc_storage f)) = get_sweeper_desired_running a (fst st)"
      "identity_row (fst (fc_storage f)) = fc_replica_id f"
    using f(1,2) by (simp_all add: get_or_create_replica_id_def get_sweeper_desired_running_def split: option.splits)
  have ok': "dict_ok (session_rows (fst ?st))"
    using rows(1) ok by (intro sqlite_calls_ok) simp
  note f' = sqlite_created [OF second ok']
  obtain r where r: "fc_replica_id f = Some r"
    using f(1) by blast
  have "identity_row (fst ?st) = Some r"
    using sqlite_runtime_store.identity_stays [of "fc_storage f" r] rows(3) r by simp
  then have "fc_replica_id f' = fc_replica_id f"
    using f'(1) r by simp
  moreover have "get_sweeper_desired_running a (fst ?st) = overridden cs a (get_sweeper_desired_running a (fst st))" for a
    using sqlite_runtime_store.desired_last [where st = "fc_storage f" and a = a] rows(2) by simp
  ultimately show ?thesis
    using f'(3,4) by simp
qed

lemma sqlite_create_returns:
  assumes "list_sessions cks (fst st) = Inr ss"
  shows "\<exists>f. runtime_create (sqlite_runtime_storage cks similarity)
    (runtime_env (sqlite_runtime_storage cks similarity) cks b ids create) candidate (runtime_init cfg st now n) = (Inr (), f)"
proof -
  let ?S = "sqlite_runtime_storage cks similarity"
  obtain r db where r: "get_or_create_replica_id candidate (fst st) = (r, db)"
    by fastforce
  then have rows: "session_rows db = session_rows (fst st)" "version_rows db = version_rows (fst st)"
    by (auto simp: get_or_create_replica_id_def split: option.splits)
  have "load_session cks sid db = load_session cks sid (fst st)" for sid
    unfolding load_session_def rows_of_session_def rows ..
  then have "list_sessions cks db = Inr ss"
    using assms rows by (simp add: list_sessions_def load_all_def)
  then have restore: "\<exists>rt'. restore_from_storage (runtime_env ?S cks b ids create (Some r)) ((empty_rt st now n)\<lparr>rt_storage := (db, snd st)\<rparr>) = (Inr (), rt')"
    using sqlite_runtime_fields(4) [of cks similarity cks b ids create "Some r" "(db, snd st)"]
    by (simp add: restore_from_storage_def)
  have replica: "op_get_or_create_replica_id (st_log ?S) candidate st = (Inr (Some r), (db, snd st))"
    unfolding sqlite_runtime_fields r by simp
  show ?thesis
    using restore
    by (auto simp: runtime_create_def on_fc_storage_def init_fields replica [simplified] bindM_def modM_def
        sqlite_runtime_store.start_agents_run [OF sqlite_runtime_fields(2)])
qed

section \<open>Running and closing\<close>

text \<open>What happens to the sweepers of a runtime between its creation and its end.\<close>

definition agent_event :: "('st, 'd) storage \<Rightarrow> string \<times> control \<Rightarrow> 'st facade \<Rightarrow> 'st facade" where
  "agent_event S e f =
     (case e of (a, c) \<Rightarrow>
       (case dget (fc_sweepers f) a of
          None \<Rightarrow> f
        | Some w \<Rightarrow>
            f\<lparr>fc_sweepers := dset (fc_sweepers f) a (case c of Start _ \<Rightarrow> agent_start S a w | _ \<Rightarrow> control_step c w)\<rparr>))"

definition alive_agent :: "run_status option \<Rightarrow> bool" where
  "alive_agent x \<longleftrightarrow> (case x of None \<Rightarrow> True | Some w \<Rightarrow> loop_ok w \<and> (\<forall>e. sw_task w \<noteq> Crashed e))"

definition alive :: "'st facade \<Rightarrow> bool" where
  "alive f \<longleftrightarrow> loop_ok (fc_worker f) \<and> (\<forall>e. sw_task (fc_worker f) \<noteq> Crashed e) \<and>
     (\<forall>w. fc_gc f = Some w \<longrightarrow> loop_ok w \<and> (\<forall>e. sw_task w \<noteq> Crashed e)) \<and>
     (\<forall>a. alive_agent (dget (fc_sweepers f) a) \<and> (dget (fc_sweepers f) a \<noteq> None \<longrightarrow> a \<in> set SWEEPERS))"

lemma agent_event_frame [simp]:
  "fc_worker (agent_event S e f) = fc_worker f" "fc_gc (agent_event S e f) = fc_gc f" "fc_rt (agent_event S e f) = fc_rt f"
  "fc_storage_closed (agent_event S e f) = fc_storage_closed f"
  by (cases e; simp add: agent_event_def split: option.splits)+

lemma agent_event_get:
  assumes "a \<in> set SWEEPERS"
  shows "dget (fc_sweepers (agent_event S (a, c) f)) a' =
    (if a' = a then map_option (control_step (case c of Start _ \<Rightarrow> Start (agent_supported S a) | _ \<Rightarrow> c)) (dget (fc_sweepers f) a)
     else dget (fc_sweepers f) a')"
  using assms by (cases c) (auto simp: agent_event_def agent_start_loop split: option.splits)

lemma alive_event:
  assumes "alive f" and "answered c"
  shows "alive (agent_event S (a, c) f)"
proof (cases "dget (fc_sweepers f) a")
  case None
  then show ?thesis
    using assms(1) by (simp add: agent_event_def)
next
  case (Some w)
  then have a: "a \<in> set SWEEPERS" "loop_ok w" "\<forall>e. sw_task w \<noteq> Crashed e"
    using assms(1) unfolding alive_def alive_agent_def by (force split: option.splits)+
  let ?c = "case c of Start _ \<Rightarrow> Start (agent_supported S a) | _ \<Rightarrow> c"
  have "answered ?c"
    using assms(2) by (cases c) auto
  then have "alive_agent (Some (control_step ?c w))"
    using control_step_ok [OF a(2)] answered_alive [OF a(2) _ a(3)] by (simp add: alive_agent_def)
  then show ?thesis
    using assms(1) Some unfolding alive_def agent_event_frame agent_event_get [OF a(1)] by auto
qed

lemma alive_events: "alive f \<Longrightarrow> list_all (\<lambda>(a, c). answered c) es \<Longrightarrow> alive (fold (agent_event S) es f)"
  by (induction es arbitrary: f) (auto simp: alive_event)

definition stopped_agent :: "string list \<Rightarrow> 'st facade \<Rightarrow> 'st facade" where
  "stopped_agent as f = fold (\<lambda>a f. snd (agent_stop a f)) as f"

lemma agent_stop_frame:
  "fc_worker (snd (agent_stop a f)) = fc_worker f" "fc_gc (snd (agent_stop a f)) = fc_gc f"
  "fc_rt (snd (agent_stop a f)) = fc_rt f" "fc_storage_closed (snd (agent_stop a f)) = fc_storage_closed f"
  "dget (fc_sweepers (snd (agent_stop a f))) a' =
     (if a' = a then map_option (\<lambda>w. snd (stop_loop w)) (dget (fc_sweepers f) a) else dget (fc_sweepers f) a')"
  by (auto simp: agent_stop_def split: option.splits prod.splits)

text \<open>The stops go through the sweepers up to the first whose loop has crashed.\<close>

lemma stop_agents_all:
  assumes "\<forall>a \<in> set as. alive_agent (dget (fc_sweepers f) a)" and "distinct as"
  shows "\<exists>f'. stop_agents as f = (Inr (), f') \<and> fc_worker f' = fc_worker f \<and> fc_gc f' = fc_gc f \<and> fc_rt f' = fc_rt f \<and>
    fc_storage_closed f' = fc_storage_closed f \<and>
    (\<forall>a. dget (fc_sweepers f') a =
       (if a \<in> set as then map_option (\<lambda>w. snd (stop_loop w)) (dget (fc_sweepers f) a) else dget (fc_sweepers f) a))"
  using assms
proof (induction as arbitrary: f)
  case (Cons a as)
  obtain f1 where stop: "agent_stop a f = (Inr (), f1)"
    using Cons.prems(1) stop_loop_Inr by (force simp: agent_stop_def alive_agent_def split: option.splits prod.splits)
  then have frame: "fc_worker f1 = fc_worker f" "fc_gc f1 = fc_gc f" "fc_rt f1 = fc_rt f" "fc_storage_closed f1 = fc_storage_closed f"
      "\<And>b. dget (fc_sweepers f1) b =
         (if b = a then map_option (\<lambda>w. snd (stop_loop w)) (dget (fc_sweepers f) a) else dget (fc_sweepers f) b)"
    using agent_stop_frame [of a f] by simp_all
  have "\<forall>b \<in> set as. alive_agent (dget (fc_sweepers f1) b)"
    using Cons.prems by (auto simp: frame)
  then obtain f' where "stop_agents as f1 = (Inr (), f')" "fc_worker f' = fc_worker f" "fc_gc f' = fc_gc f" "fc_rt f' = fc_rt f"
      "fc_storage_closed f' = fc_storage_closed f"
      "\<forall>b. dget (fc_sweepers f') b =
       (if b \<in> set as then map_option (\<lambda>w. snd (stop_loop w)) (dget (fc_sweepers f1) b) else dget (fc_sweepers f1) b)"
    using Cons.IH [of f1] Cons.prems(2) by (auto simp: frame(1-4))
  then show ?case
    using stop Cons.prems(2) by (intro exI [of _ f']) (simp add: bindM_def frame(5))
qed (simp add: retM_def)

lemma stop_agents_crashed:
  assumes "\<forall>b \<in> set xs. alive_agent (dget (fc_sweepers f) b)" and "distinct (xs @ a # ys)"
    and "dget (fc_sweepers f) a = Some w" and "sw_task w = Crashed e"
  shows "\<exists>f'. stop_agents (xs @ a # ys) f = (Inl e, f') \<and> fc_worker f' = fc_worker f \<and> fc_gc f' = fc_gc f \<and>
    fc_storage_closed f' = fc_storage_closed f \<and>
    (\<forall>b. dget (fc_sweepers f') b =
       (if b \<in> set xs then map_option (\<lambda>w. snd (stop_loop w)) (dget (fc_sweepers f) b)
        else if b = a then Some (w\<lparr>sw_running := False\<rparr>) else dget (fc_sweepers f) b))"
proof -
  have append: "stop_agents (us @ vs) = bindM (stop_agents us) (\<lambda>_. stop_agents vs)" for us vs :: "string list"
    by (induction us) (auto simp: bindM_def retM_def fun_eq_iff split: sum.splits prod.splits)
  obtain f1 where f1: "stop_agents xs f = (Inr (), f1)" "fc_worker f1 = fc_worker f" "fc_gc f1 = fc_gc f"
      "fc_storage_closed f1 = fc_storage_closed f"
      "\<forall>b. dget (fc_sweepers f1) b =
       (if b \<in> set xs then map_option (\<lambda>w. snd (stop_loop w)) (dget (fc_sweepers f) b) else dget (fc_sweepers f) b)"
    using stop_agents_all [OF assms(1)] assms(2) by auto
  have "dget (fc_sweepers f1) a = Some w"
    using f1(5) assms(2,3) by simp
  then have "agent_stop a f1 = (Inl e, f1\<lparr>fc_sweepers := dset (fc_sweepers f1) a (w\<lparr>sw_running := False\<rparr>)\<rparr>)"
    using assms(4) by (simp add: agent_stop_def stop_loop_def)
  then show ?thesis
    using f1 assms(2) by (auto simp: append bindM_def)
qed

lemma stop_worker_gc:
  assumes "alive f"
  shows "stop_worker f = (Inr (), f\<lparr>fc_worker := snd (stop_loop (fc_worker f))\<rparr>)"
    and "stop_gc f = (Inr (), f\<lparr>fc_gc := map_option (\<lambda>w. snd (stop_loop w)) (fc_gc f)\<rparr>)"
proof -
  have worker: "fst (stop_loop (fc_worker f)) = Inr ()" and gc: "\<And>w. fc_gc f = Some w \<Longrightarrow> fst (stop_loop w) = Inr ()"
    using assms by (simp_all add: alive_def stop_loop_Inr)
  show "stop_worker f = (Inr (), f\<lparr>fc_worker := snd (stop_loop (fc_worker f))\<rparr>)"
    using worker by (cases "stop_loop (fc_worker f)") (simp add: stop_worker_def worker_stop_def)
  show "stop_gc f = (Inr (), f\<lparr>fc_gc := map_option (\<lambda>w. snd (stop_loop w)) (fc_gc f)\<rparr>)"
    using gc by (cases f) (auto simp: stop_gc_def gc_stop_def split: option.splits prod.splits)
qed

lemma stop_loop_alive: "\<forall>e. sw_task w \<noteq> Crashed e \<Longrightarrow> \<forall>e. sw_task (snd (stop_loop w)) \<noteq> Crashed e"
  by (simp add: stop_loop_def Let_def split: loop_task.splits)

lemma created_alive:
  assumes law: "\<forall>a st. op_get_sweeper_desired_running (st_agents S) a st = (Inr (desired st a), st)"
    and create: "runtime_create S mk candidate (runtime_init cfg st now n) = (Inr (), f)"
  shows "alive f" and "\<not> fc_storage_closed f"
proof -
  have switch: "sweeper_switch (op_get_sweeper_desired_running (st_agents S)) desired"
    using law by (simp add: sweeper_switch_def)
  note agents = sweeper_switch.created_agents [OF switch create refl]
  have ok: "loop_ok (start_loop b w) \<and> (\<forall>e. sw_task (start_loop b w) \<noteq> Crashed e)"
    if "\<not> sw_running w" "sw_task w = No_Task" for b :: bool and w :: "'c loop_state_scheme"
    using that by (simp add: loop_ok_def start_loop_def)
  have "alive_agent (dget (fc_sweepers f) a)" for a
    using agents(1) [of a] ok [of new_status] by (auto simp: alive_agent_def loop_ok_def)
  moreover have "dget (fc_sweepers f) a \<noteq> None \<Longrightarrow> a \<in> set SWEEPERS" for a
    using agents(1) [of a] configured_known [of cfg a] by (auto split: if_splits)
  ultimately show "alive f"
    using agents(2,3) ok [of idle_loop] by (auto simp: alive_def idle_loop_def)
  show "\<not> fc_storage_closed f"
    by (rule agents(4))
qed


text \<open>With the loop of sweeper \<open>a\<close> crashed, \<open>aclose\<close> raises its error each time.\<close>

definition blocked :: "string list \<Rightarrow> string \<Rightarrow> exn \<Rightarrow> 'st facade \<Rightarrow> bool" where
  "blocked xs a e g \<longleftrightarrow> (\<forall>e. sw_task (fc_worker g) \<noteq> Crashed e) \<and>
     (\<forall>w. fc_gc g = Some w \<longrightarrow> (\<forall>e. sw_task w \<noteq> Crashed e)) \<and> (\<forall>c \<in> set xs. alive_agent (dget (fc_sweepers g) c)) \<and>
     (\<exists>v. dget (fc_sweepers g) a = Some v \<and> sw_task v = Crashed e)"

lemma alive_agent_stop: "alive_agent x \<Longrightarrow> alive_agent (map_option (\<lambda>w. snd (stop_loop w)) x)"
  by (cases x) (simp_all add: alive_agent_def stop_loop_alive)

lemma blocked_close:
  assumes "blocked xs a e g" and order: "SWEEPERS = xs @ a # ys" and "b \<in> set ys"
  shows "\<exists>g'. aclose S g = (Inl e, g') \<and> blocked xs a e g' \<and> (loops g b \<longrightarrow> loops g' b) \<and>
    fc_storage_closed g' = fc_storage_closed g"
proof -
  have dist: "distinct (xs @ a # ys)"
    using SWEEPERS_distinct order by simp
  obtain v where g: "\<forall>e. sw_task (fc_worker g) \<noteq> Crashed e" "\<forall>w. fc_gc g = Some w \<longrightarrow> (\<forall>e. sw_task w \<noteq> Crashed e)"
      "\<forall>c \<in> set xs. alive_agent (dget (fc_sweepers g) c)" and v: "dget (fc_sweepers g) a = Some v" "sw_task v = Crashed e"
    using assms(1) by (auto simp: blocked_def)
  let ?g1 = "g\<lparr>fc_worker := snd (stop_loop (fc_worker g))\<rparr>"
  let ?g2 = "?g1\<lparr>fc_gc := map_option (\<lambda>w. snd (stop_loop w)) (fc_gc ?g1)\<rparr>"
  have worker: "stop_worker g = (Inr (), ?g1)"
    using g(1) by (cases "stop_loop (fc_worker g)") (simp add: stop_worker_def worker_stop_def stop_loop_Inr [symmetric])
  have gc: "stop_gc ?g1 = (Inr (), ?g2)"
    using g(2) stop_loop_Inr by (cases g) (force simp: stop_gc_def gc_stop_def split: option.splits prod.splits)
  obtain g' where g': "stop_agents SWEEPERS ?g2 = (Inl e, g')" "fc_worker g' = fc_worker ?g2" "fc_gc g' = fc_gc ?g2"
      "fc_storage_closed g' = fc_storage_closed ?g2"
      "\<forall>c. dget (fc_sweepers g') c =
         (if c \<in> set xs then map_option (\<lambda>w. snd (stop_loop w)) (dget (fc_sweepers ?g2) c)
          else if c = a then Some (v\<lparr>sw_running := False\<rparr>) else dget (fc_sweepers ?g2) c)"
    unfolding order using stop_agents_crashed [where f = ?g2, OF _ dist] g(3) v by (simp del: ex_simps) blast
  have "aclose S g = (Inl e, g')"
    using worker gc g'(1) by (simp add: aclose_def bindM_def)
  moreover have "loops g b \<longrightarrow> loops g' b"
    using g'(5) dist assms(3) by (auto simp: loops_def)
  moreover have "blocked xs a e g'"
    unfolding blocked_def g'(2,3) using g'(5) dist v(2) g by (auto simp: alive_agent_stop stop_loop_alive)
  ultimately show ?thesis
    using g'(4) by auto
qed

text \<open>C33: A storage error at the wrong moment makes a runtime impossible to close: when the question
  for the switch of a sweeper raises, its loop is gone while its status still says that it runs;
  \<open>aclose\<close> then raises that old error each time, leaves the sweepers after it running and does
  not close the storage.\<close>

theorem failed_check_blocks_close:
  assumes law: "\<forall>a st. op_get_sweeper_desired_running (st_agents S) a st = (Inr (desired st a), st)"
    and create: "runtime_create S mk candidate (runtime_init cfg st now n) = (Inr (), f)"
    and answers: "list_all (\<lambda>(a, c). answered c) es"
    and order: "SWEEPERS = xs @ a # ys" and "b \<in> set ys"
    and looping: "loops (fold (agent_event S) es f) a" "loops (fold (agent_event S) es f) b"
    and f1: "f1 = agent_event S (a, Turn t r (Inl e)) (fold (agent_event S) es f)"
  shows "\<not> loops f1 a \<and>
    map_option (\<lambda>d. dget d ''running'') (get_agent_status iso_text error_text cfg a f1) = Some (Some (PBool True)) \<and>
    fst (aclose S f1) = Inl e \<and> fst (aclose S (snd (aclose S f1))) = Inl e \<and>
    loops (snd (aclose S f1)) b \<and> \<not> fc_storage_closed (snd (aclose S f1))"
proof -
  let ?f = "fold (agent_event S) es f"
  have alive: "alive ?f"
    using created_alive [OF law create] answers by (intro alive_events)
  have open_storage: "\<not> fc_storage_closed ?f"
    using created_alive(2) [OF law create] by (induction es arbitrary: f) simp_all
  have dist: "distinct (xs @ a # ys)"
    using SWEEPERS_distinct order by simp
  have a: "a \<in> set SWEEPERS"
    unfolding order by simp
  obtain w where w: "dget (fc_sweepers ?f) a = Some w" "sw_running w" "sw_task w = Looping"
    using looping(1) by (auto simp: loops_def split: option.splits)
  obtain w1 where w1: "dget (fc_sweepers f1) a = Some w1" "sw_running w1" "sw_task w1 = Crashed e"
      and others: "\<And>c. c \<noteq> a \<Longrightarrow> dget (fc_sweepers f1) c = dget (fc_sweepers ?f) c"
    unfolding f1 agent_event_get [OF a] using w by (cases r) (simp_all add: run_turn_def run_once_def)
  have same: "fc_worker f1 = fc_worker ?f" "fc_gc f1 = fc_gc ?f" "fc_storage_closed f1 = fc_storage_closed ?f"
    by (simp_all add: f1)
  have over: "\<not> loops f1 a"
    using w1 by (simp add: loops_def)
  have claims: "map_option (\<lambda>d. dget d ''running'') (get_agent_status iso_text error_text cfg a f1) = Some (Some (PBool True))"
    using w1 by (simp add: get_agent_status_def agent_status_def sweeper_status_def dict_simps)
  have "b \<noteq> a"
    using dist assms(5) by auto
  then have first: "loops f1 b"
    using looping(2) by (simp add: others loops_def)
  have before: "alive_agent (dget (fc_sweepers f1) c)" if "c \<in> set xs" for c
  proof -
    have "c \<noteq> a"
      using that dist by auto
    then show ?thesis
      using alive by (simp add: others alive_def)
  qed
  have "blocked xs a e f1"
    unfolding blocked_def same using alive w1 before by (simp add: alive_def)
  then obtain g where g: "aclose S f1 = (Inl e, g)" "blocked xs a e g" "loops g b" "fc_storage_closed g = fc_storage_closed f1"
    using blocked_close [OF _ order assms(5)] first by blast
  then have "fst (aclose S f1) = Inl e" "loops (snd (aclose S f1)) b" "\<not> fc_storage_closed (snd (aclose S f1))"
    using same(3) open_storage by simp_all
  moreover have "fst (aclose S (snd (aclose S f1))) = Inl e"
    using blocked_close [OF g(2) order assms(5), where S = S] unfolding g(1) snd_conv by auto
  ultimately show ?thesis
    using over claims by blast
qed

section \<open>Concrete runtimes\<close>

abbreviation no_similarity :: "string \<Rightarrow> string \<Rightarrow> rat" where
  "no_similarity \<equiv> (\<lambda>_ _. 0)"

abbreviation sample_env :: "string option \<Rightarrow> (sqlite_db \<times> registry) env" where
  "sample_env \<equiv> runtime_env (sqlite_runtime_storage text_cks no_similarity) text_cks None (\<lambda>n. replicate (n + 1) (CHR ''u''))
     (\<lambda>i ps. Inl TypeError)"

lemma first_loaded: "load_session text_cks ''s'' first_db = Inr (Some (persistent first_session))"
  using load_held [of text_cks first_db first_session 1] first_durable(1) first_db_simps(1)
  by (simp add: durable_def dict_simps)

lemma first_open: "\<not> closed (persistent first_session)"
  by (simp add: persistent_def first_session_def sample_session_def)

lemma first_listed: "list_sessions text_cks first_db = Inr [persistent first_session]" "dict_ok (session_rows first_db)"
proof -
  show "list_sessions text_cks first_db = Inr [persistent first_session]"
    using first_loaded first_db_simps(1) by (simp add: list_sessions_def load_all_def dkeys_def bind_err_def)
  show "dict_ok (session_rows first_db)"
    using first_db_simps(1) by (simp add: dict_ok_def dkeys_def)
qed

lemma first_created:
  "\<exists>f. runtime_create (sqlite_runtime_storage text_cks no_similarity) sample_env ''r1'' (runtime_init default_config (first_db, []) 5 0) =
     (Inr (), f)"
  by (rule sqlite_create_returns) (use first_listed in simp)

lemma all_configured: "a \<in> set SWEEPERS \<Longrightarrow> configured default_config a"
  by (auto simp: SWEEPERS_def configured_def default_config_def sweeper_intervals_def dict_simps)

theorem restart_resumes_witness:
  "\<exists>f f'. runtime_create (sqlite_runtime_storage text_cks no_similarity) sample_env ''r1''
       (runtime_init default_config (first_db, []) 5 0) = (Inr (), f) \<and>
     runtime_create (sqlite_runtime_storage text_cks no_similarity) sample_env ''r2''
       (runtime_init default_config (sqlite_calls text_cks no_similarity [OverrideCall ''contradiction'' False] (fc_storage f)) 9 0) =
       (Inr (), f') \<and>
     fc_replica_id f' = Some ''r1'' \<and> loops f ''contradiction'' \<and> \<not> loops f' ''contradiction'' \<and> loops f' ''graph_health'' \<and>
     (\<exists>r. get_session ''s'' (fc_rt f') = Some r \<and> the_session (fc_rt f') r = persistent first_session)"
proof -
  obtain f where f: "runtime_create (sqlite_runtime_storage text_cks no_similarity) sample_env ''r1''
      (runtime_init default_config (first_db, []) 5 0) = (Inr (), f)"
    using first_created by blast
  let ?st = "sqlite_calls text_cks no_similarity [OverrideCall ''contradiction'' False] (fc_storage f)"
  note c = sqlite_created [OF f, unfolded fst_conv, OF first_listed(2)]
  have rows: "session_rows (fst ?st) = session_rows first_db" "version_rows (fst ?st) = version_rows first_db"
    using c(2) by (auto simp: get_or_create_replica_id_def sqlite_storage_def sqlite_agents_part_def on_first_def modM_def
      set_sweeper_desired_running_def split: option.splits)
  have same: "load_session text_cks sid (fst ?st) = load_session text_cks sid first_db" for sid
    unfolding load_session_def rows_of_session_def rows ..
  then have "list_sessions text_cks (fst ?st) = Inr [persistent first_session]"
    using first_listed(1) rows by (simp add: list_sessions_def load_all_def)
  then obtain f' where f': "runtime_create (sqlite_runtime_storage text_cks no_similarity) sample_env ''r2''
      (runtime_init default_config ?st 9 0) = (Inr (), f')"
    using sqlite_create_returns by blast
  note r = restart_resumes [OF _ f f', unfolded fst_conv, OF first_listed(2)]
  note r = r [THEN conjunct1] r [THEN conjunct2, THEN conjunct1] r [THEN conjunct2, THEN conjunct2]
  have first: "identity_row first_db = None" "get_sweeper_desired_running a first_db = None" for a
    by (simp_all add: first_db_def get_sweeper_desired_running_def persist_def bindM_def save_version_def save_session_def
        empty_db_def split: sum.splits)
  have replica: "fc_replica_id f' = Some ''r1''"
    using r(1) c(1) first(1) by simp
  have conf: "configured default_config ''contradiction''" "configured default_config ''graph_health''"
    by (simp_all add: all_configured SWEEPERS_def)
  have loops: "loops f ''contradiction''" "\<not> loops f' ''contradiction''" "loops f' ''graph_health''"
    using c(3) r(2) first(2) conf by simp_all
  have "load_session text_cks ''s'' (fst ?st) = Inr (Some (persistent first_session))"
    using first_loaded same by simp
  then have "\<exists>r. get_session ''s'' (fc_rt f') = Some r \<and> the_session (fc_rt f') r = persistent first_session"
    using spec [OF r(3) [unfolded mirrors_def], of "''s''"] by (simp add: first_open)
  then show ?thesis
    using f f' replica loops by blast
qed

text \<open>The properties of closing, on a runtime whose second sweeper has been stopped by hand, and on one
  whose first sweeper has met an error.\<close>

lemma sample_answers:
  "\<forall>a st. op_get_sweeper_desired_running (st_agents (sqlite_runtime_storage text_cks no_similarity)) a st =
     (Inr (get_sweeper_desired_running a (fst st)), st)"
  unfolding sqlite_runtime_fields(2) by (simp add: sqlite_storage_def sqlite_agents_part_def on_first_def getM_def)

lemma first_loops:
  assumes "runtime_create (sqlite_runtime_storage text_cks no_similarity) sample_env ''r1''
    (runtime_init default_config (first_db, []) 5 0) = (Inr (), f)" and "a \<in> set SWEEPERS"
  shows "loops f a"
proof -
  have "get_sweeper_desired_running a first_db = None"
    by (simp add: first_db_def get_sweeper_desired_running_def persist_def bindM_def save_version_def save_session_def
        empty_db_def split: sum.splits)
  then show ?thesis
    using sqlite_created(3) [OF assms(1)] first_listed(2) all_configured [OF assms(2)] by simp
qed


theorem failed_check_blocks_close_witness:
  "\<exists>f. runtime_create (sqlite_runtime_storage text_cks no_similarity) sample_env ''r1''
       (runtime_init default_config (first_db, []) 5 0) = (Inr (), f) \<and>
     fst (aclose (sqlite_runtime_storage text_cks no_similarity)
       (agent_event (sqlite_runtime_storage text_cks no_similarity) (''inference_staleness'', Turn 7 (Inr []) (Inl DatabaseError)) f)) =
       Inl DatabaseError \<and>
     loops (snd (aclose (sqlite_runtime_storage text_cks no_similarity)
       (agent_event (sqlite_runtime_storage text_cks no_similarity) (''inference_staleness'', Turn 7 (Inr []) (Inl DatabaseError)) f)))
       ''contradiction''"
proof -
  obtain f where f: "runtime_create (sqlite_runtime_storage text_cks no_similarity) sample_env ''r1''
      (runtime_init default_config (first_db, []) 5 0) = (Inr (), f)"
    using first_created by blast
  note b = failed_check_blocks_close [OF sample_answers f, where es = "[]" and a = "''inference_staleness''" and b = "''contradiction''"
      and xs = "[]" and ys = "tl SWEEPERS" and e = DatabaseError and t = 7 and r = "Inr []"]
  show ?thesis
    using f b first_loops [OF f] by (intro exI [of _ f]) (simp add: SWEEPERS_def)
qed

end
