(* ===== verification/Result_Types.thy ===== *)
theory Result_Types
  imports Pipeline
begin

text \<open>
  The type of the result an operation gives: a payload of Python's type \<open>Any\<close> has one shape for
  each class of operation (\<open>operations/operation_types.py\<close>), and the executor
  (\<open>execution/operation_executor.py\<close>) and the pipeline rely on it.
\<close>

fun payload_type :: "operation \<Rightarrow> result_payload \<Rightarrow> bool" where
  "payload_type (ValidateOperation _ _ _) (ValidationPayload r) = valid r"
| "payload_type (EvolveOperation _ _ _) (StructurePayload _) = True"
| "payload_type (SerializeOperation _ _) (TextPayload _) = True"
| "payload_type (ExplainOperation _ _) (ValuePayload _) = True"
| "payload_type (ExplainInferenceOperation _ _ _) (ValuePayload _) = True"
| "payload_type (QuerySubgraphOperation _ _ _) (StructurePayload _) = True"
| "payload_type (ListVersionsOperation _) (VersionsPayload _) = True"
| "payload_type (RevertVersionOperation _ _) (StructurePayload _) = True"
| "payload_type (DiffOperation _ _ _) (PatchPayload _) = True"
| "payload_type (MergeOperation _ _ _ _ _) (StructurePayload _) = True"
| "payload_type (ReplaceStateOperation _ _) (StructurePayload _) = True"
| "payload_type _ _ = False"

text \<open>A failed operation has an error and no payload, but for a validation, which gives its report.\<close>

fun failure_type :: "operation \<Rightarrow> result_payload \<Rightarrow> bool" where
  "failure_type (ValidateOperation _ _ _) (ValidationPayload r) = (\<not> valid r)"
| "failure_type _ NoPayload = True"
| "failure_type _ _ = False"

definition well_typed :: "operation \<Rightarrow> exec_result \<Rightarrow> bool" where
  "well_typed p res \<longleftrightarrow> res_operation_id res = operation_id p \<and>
     (case res_status res of
        COMPLETED \<Rightarrow> payload_type p (res_payload res) \<and> res_error res = None
      | FAILED \<Rightarrow> failure_type p (res_payload res) \<and> res_error res \<noteq> None)"

lemma completed_typed [simp]: "well_typed p (completed_with i x) \<longleftrightarrow> i = operation_id p \<and> payload_type p x"
  by (simp add: well_typed_def completed_with_def)

lemma no_payload_failure [simp]: "failure_type p NoPayload"
  by (cases p) simp_all

lemma failed_typed [simp]: "well_typed p (failed_with i e) \<longleftrightarrow> i = operation_id p"
  by (simp add: well_typed_def failed_with_def)

lemma captured_typed: "\<forall>x. payload_type p (f x) \<Longrightarrow> well_typed p (captured (operation_id p) f m)"
  by (simp add: captured_def split: sum.splits)

lemma three_way_typed:
  "three_way env st i s src base rs = Inr res \<Longrightarrow> well_typed (MergeOperation i x bv bs rs') res"
  by (auto simp: three_way_def Let_def split: sum.splits exn.splits if_splits)

lemma execute_merge_typed:
  "fst (execute_merge env st i src bv bs rs s) = Inr res \<Longrightarrow> well_typed (MergeOperation i x bv' bs' rs') res"
  by (auto simp: execute_merge_def Let_def three_way_typed split: option.splits sum.splits if_splits)

lemma run_operation_typed: "fst (run_operation env p r rt) = Inr res \<Longrightarrow> well_typed p res"
proof (cases p)
  case (ValidateOperation i ks extra)
  then show "fst (run_operation env p r rt) = Inr res \<Longrightarrow> ?thesis"
    by (auto simp: execute_validate_def well_typed_def split: sum.splits)
next
  case (MergeOperation i src bv bs rs)
  then show "fst (run_operation env p r rt) = Inr res \<Longrightarrow> ?thesis"
    by (auto intro: execute_merge_typed simp: case_prod_unfold)
qed (auto simp: uncaptured_def captured_def execute_explain_inference_def execute_query_subgraph_def execute_list_versions_def
    execute_revert_def execute_diff_def execute_replace_state_def version_state_or_failed_def Let_def
    split: sum.splits option.splits if_splits)


end
