(* ===== verification/Seq_Lock.thy ===== *)
theory Seq_Lock
  imports Seq_No
begin

text \<open>
  The call \<open>next\<close> of the persisted counter statement by statement (\<open>gossip/seq_no.py\<close>): it takes the
  lock of the file, reads, empties and writes the state file, and gives the lock back.  Processes
  interleave between the statements, counters are constructed without the lock, and a process can
  end at any time, which gives its lock back.
\<close>

section \<open>Statements of a call\<close>

text \<open>Where a counter is: outside of a call, with the lock, with what it has read, after \<open>write_text\<close>
  has opened the file and before it has written, after the write, and after the end of its process.\<close>

datatype call_phase =
    Outside
  | Entered
  | Loaded "(string, int) dict"
  | Emptied "(string, int) dict" int
  | Stored int
  | Gone

record lock_world =
  lw_file :: seq_file
  lw_counters :: "seq_counter list"
  lw_phase :: "nat \<Rightarrow> call_phase"
  lw_holder :: "nat option"
  lw_issued :: "(string \<times> int) list"

datatype lock_event = Construct string int | Enter nat | Load nat | Empty nat | Store nat | Leave nat | Kill nat

definition next_value :: "seq_counter \<Rightarrow> (string, int) dict \<Rightarrow> int" where
  "next_value c all_values = max (sc_value c) (dget_or all_values (sc_replica c) 0) + 1"

text \<open>
  \<open>flock\<close> says whether the platform has the lock, \<open>torn\<close> whether a process can end between the
  opening of the state file and its write.
\<close>

fun lock_step :: "bool \<Rightarrow> bool \<Rightarrow> lock_event \<Rightarrow> lock_world \<Rightarrow> lock_world" where
  "lock_step flock torn (Construct r start) w =
     (case new_counter r True start (lw_file w) of
        Inl _ \<Rightarrow> w
      | Inr c \<Rightarrow> w\<lparr>lw_counters := lw_counters w @ [c]\<rparr>)"
| "lock_step flock torn (Enter i) w =
     (if i < length (lw_counters w) \<and> lw_phase w i = Outside \<and> (flock \<longrightarrow> lw_holder w = None)
      then w\<lparr>lw_phase := (lw_phase w)(i := Entered), lw_holder := (if flock then Some i else lw_holder w)\<rparr>
      else w)"
| "lock_step flock torn (Load i) w =
     (if lw_phase w i = Entered then w\<lparr>lw_phase := (lw_phase w)(i := Loaded (read_all (lw_file w)))\<rparr> else w)"
| "lock_step flock torn (Empty i) w =
     (case lw_phase w i of
        Loaded d \<Rightarrow>
          let c = lw_counters w ! i; v = next_value c d
          in w\<lparr>lw_counters := (lw_counters w)[i := c\<lparr>sc_value := v\<rparr>],
               lw_phase := (lw_phase w)(i := Emptied (dset d (sc_replica c) v) v),
               lw_file := (if sf_writable (lw_file w) then (lw_file w)\<lparr>sf_data := None\<rparr> else lw_file w)\<rparr>
      | _ \<Rightarrow> w)"
| "lock_step flock torn (Store i) w =
     (case lw_phase w i of
        Emptied d v \<Rightarrow> w\<lparr>lw_file := write_all d (lw_file w), lw_phase := (lw_phase w)(i := Stored v)\<rparr>
      | _ \<Rightarrow> w)"
| "lock_step flock torn (Leave i) w =
     (case lw_phase w i of
        Stored v \<Rightarrow>
          w\<lparr>lw_phase := (lw_phase w)(i := Outside), lw_holder := (if lw_holder w = Some i then None else lw_holder w),
            lw_issued := lw_issued w @ [(sc_replica (lw_counters w ! i), v)]\<rparr>
      | _ \<Rightarrow> w)"
| "lock_step flock torn (Kill i) w =
     (if i < length (lw_counters w) \<and> (torn \<or> (\<forall>d v. lw_phase w i \<noteq> Emptied d v))
      then w\<lparr>lw_phase := (lw_phase w)(i := Gone), lw_holder := (if lw_holder w = Some i then None else lw_holder w)\<rparr>
      else w)"

definition lock_start :: "pyval option \<Rightarrow> lock_world" where
  "lock_start data =
     \<lparr>lw_file = \<lparr>sf_data = data, sf_writable = True\<rparr>, lw_counters = [], lw_phase = (\<lambda>_. Outside), lw_holder = None, lw_issued = []\<rparr>"

definition given_to :: "string \<Rightarrow> lock_world \<Rightarrow> int list" where
  "given_to r w = map snd (filter (\<lambda>(r', _). r' = r) (lw_issued w))"

section \<open>The invariant\<close>

text \<open>What the file says, or will say once the holder of the lock has written.\<close>

definition ledger :: "lock_world \<Rightarrow> string \<Rightarrow> int" where
  "ledger w r =
     (case lw_holder w of
        None \<Rightarrow> read_one (lw_file w) r
      | Some i \<Rightarrow> (case lw_phase w i of Emptied d v \<Rightarrow> dget_or d r 0 | _ \<Rightarrow> read_one (lw_file w) r))"

definition about_to_give :: "lock_world \<Rightarrow> nat \<Rightarrow> int \<Rightarrow> bool" where
  "about_to_give w i v \<longleftrightarrow>
     (let r = sc_replica (lw_counters w ! i) in v = ledger w r \<and> 0 < v \<and> (\<forall>n \<in> set (given_to r w). n < v))"

definition phase_ok :: "seq_file \<Rightarrow> lock_world \<Rightarrow> nat \<Rightarrow> bool" where
  "phase_ok f0 w i \<longleftrightarrow>
     (case lw_phase w i of
        Outside \<Rightarrow> lw_holder w \<noteq> Some i
      | Gone \<Rightarrow> lw_holder w \<noteq> Some i
      | Entered \<Rightarrow> lw_holder w = Some i
      | Loaded d \<Rightarrow> lw_holder w = Some i \<and> d = read_all (lw_file w)
      | Emptied d v \<Rightarrow> lw_holder w = Some i \<and> about_to_give w i v \<and> read_one f0 (sc_replica (lw_counters w ! i)) < v
      | Stored v \<Rightarrow> lw_holder w = Some i \<and> about_to_give w i v \<and> read_one f0 (sc_replica (lw_counters w ! i)) < v)"

definition lock_inv :: "seq_file \<Rightarrow> lock_world \<Rightarrow> bool" where
  "lock_inv f0 w \<longleftrightarrow> sf_writable (lw_file w) \<and> (\<forall>i. phase_ok f0 w i) \<and>
     (\<forall>i. lw_phase w i \<noteq> Outside \<longrightarrow> i < length (lw_counters w)) \<and>
     (\<forall>c \<in> set (lw_counters w). 0 \<le> sc_value c) \<and>
     (\<forall>r. sorted_wrt (<) (given_to r w) \<and> read_one f0 r \<le> ledger w r \<and>
        (\<forall>n \<in> set (given_to r w). 0 < n \<and> read_one f0 r < n \<and> n \<le> ledger w r))"

lemma lock_inv_start: "lock_inv (lw_file (lock_start data)) (lock_start data)"
  by (simp add: lock_inv_def lock_start_def phase_ok_def ledger_def given_to_def)

lemma alone:
  assumes "lock_inv f0 w" and "lw_holder w = Some i" and "j \<noteq> i"
  shows "lw_phase w j \<in> {Outside, Gone}"
proof -
  have "phase_ok f0 w j"
    using assms(1) by (simp add: lock_inv_def)
  then show ?thesis
    using assms(2,3) by (cases "lw_phase w j") (simp_all add: phase_ok_def)
qed

lemma idle_ok: "lw_phase w j \<in> {Outside, Gone} \<Longrightarrow> phase_ok f0 w j \<longleftrightarrow> lw_holder w \<noteq> Some j"
  by (auto simp: phase_ok_def)

text \<open>A step of the holder \<open>i\<close>: what has to be shown of it.\<close>

lemma holder_step:
  assumes inv: "lock_inv f0 w" and "lw_holder w = Some i" and "i < length (lw_counters w)"
    and "\<forall>j. j \<noteq> i \<longrightarrow> lw_phase w' j = lw_phase w j" and "lw_holder w' \<in> {None, Some i}"
    and "sf_writable (lw_file w')" and "length (lw_counters w') = length (lw_counters w)"
    and "\<forall>c \<in> set (lw_counters w'). 0 \<le> sc_value c" and "phase_ok f0 w' i"
    and "\<forall>r. sorted_wrt (<) (given_to r w') \<and> ledger w r \<le> ledger w' r \<and>
        (\<forall>n \<in> set (given_to r w'). 0 < n \<and> read_one f0 r < n \<and> n \<le> ledger w' r)"
  shows "lock_inv f0 w'"
  unfolding lock_inv_def
proof (intro conjI allI)
  show "phase_ok f0 w' j" for j
    using alone [OF inv assms(2), of j] assms(4,5,9) by (cases "j = i") (auto simp: idle_ok)
  show "read_one f0 r \<le> ledger w' r" for r
  proof -
    have "read_one f0 r \<le> ledger w r"
      using inv by (simp add: lock_inv_def)
    also have "ledger w r \<le> ledger w' r"
      using assms(10) by blast
    finally show ?thesis .
  qed
  show "lw_phase w' j \<noteq> Outside \<longrightarrow> j < length (lw_counters w')" for j
    using inv assms(3,4,7) by (cases "j = i") (auto simp: lock_inv_def)
qed (use assms in blast)+

lemma lock_inv_parts:
  assumes "lock_inv f0 w"
  shows "sf_writable (lw_file w)" and "phase_ok f0 w i" and "lw_phase w i \<noteq> Outside \<Longrightarrow> i < length (lw_counters w)"
    and "\<forall>c \<in> set (lw_counters w). 0 \<le> sc_value c"
    and "sorted_wrt (<) (given_to r w)" and "read_one f0 r \<le> ledger w r"
    and "n \<in> set (given_to r w) \<Longrightarrow> 0 < n \<and> read_one f0 r < n \<and> n \<le> ledger w r"
  using assms unfolding lock_inv_def by blast+

lemma construct_inv: "lock_inv f0 w \<Longrightarrow> lock_inv f0 (lock_step flock torn (Construct r start) w)"
proof (cases "new_counter r True start (lw_file w)")
  case (Inr c)
  assume inv: "lock_inv f0 w"
  let ?w = "w\<lparr>lw_counters := lw_counters w @ [c]\<rparr>"
  have same: "ledger ?w = ledger w" "given_to r ?w = given_to r w" for r
    by (simp_all add: ledger_def given_to_def fun_eq_iff split: option.splits call_phase.splits)
  have "phase_ok f0 ?w i" for i
    using lock_inv_parts(2,3) [OF inv, of i]
    by (cases "lw_phase w i") (auto simp: phase_ok_def about_to_give_def same nth_append Let_def)
  then show ?thesis
    using inv new_counter_value [OF Inr] unfolding lock_inv_def by (auto simp: Inr same less_SucI)
qed simp

lemma enter_inv:
  assumes "lock_inv f0 w"
  shows "lock_inv f0 (lock_step True torn (Enter i) w)"
proof (cases "i < length (lw_counters w) \<and> lw_phase w i = Outside \<and> lw_holder w = None")
  case True
  let ?w = "w\<lparr>lw_phase := (lw_phase w)(i := Entered), lw_holder := Some i\<rparr>"
  have "lw_phase w j \<in> {Outside, Gone}" for j
    using lock_inv_parts(2) [OF assms, of j] True by (cases "lw_phase w j") (simp_all add: phase_ok_def)
  then have "phase_ok f0 ?w j" for j
    using idle_ok [of ?w j f0] by (cases "j = i") (simp_all add: phase_ok_def)
  then have "All (phase_ok f0 ?w)"
    by blast
  moreover have "ledger ?w = ledger w" "given_to r ?w = given_to r w" for r
    using True by (simp_all add: ledger_def given_to_def fun_eq_iff)
  ultimately show ?thesis
    using assms True unfolding lock_inv_def by simp
qed (use assms in auto)

lemma load_inv:
  assumes "lock_inv f0 w"
  shows "lock_inv f0 (lock_step flock torn (Load i) w)"
proof (cases "lw_phase w i = Entered")
  case True
  let ?w = "w\<lparr>lw_phase := (lw_phase w)(i := Loaded (read_all (lw_file w)))\<rparr>"
  have holder: "lw_holder w = Some i" "i < length (lw_counters w)"
    using lock_inv_parts(2,3) [OF assms, of i] True by (simp_all add: phase_ok_def)
  have "ledger w = ledger ?w" "given_to r ?w = given_to r w" for r
    using True holder by (simp_all add: ledger_def given_to_def fun_eq_iff)
  then have "lock_inv f0 ?w"
    using lock_inv_parts [OF assms] holder by (intro holder_step [OF assms holder]) (simp_all add: phase_ok_def)
  then show ?thesis
    using True by simp
qed (use assms in simp)

lemma empty_inv:
  assumes "lock_inv f0 w"
  shows "lock_inv f0 (lock_step flock torn (Empty i) w)"
proof (cases "lw_phase w i")
  case (Loaded d)
  obtain w' where w'_def: "lock_step flock torn (Empty i) w = w'"
    by blast
  let ?c = "lw_counters w ! i"
  let ?v = "next_value ?c d"
  have holder: "lw_holder w = Some i" "i < length (lw_counters w)" and d: "d = read_all (lw_file w)"
    using lock_inv_parts(2,3) [OF assms, of i] Loaded by (simp_all add: phase_ok_def)
  note parts = lock_inv_parts [OF assms]
  have before: "ledger w = (\<lambda>r. dget_or d r 0)"
    using Loaded holder by (simp add: ledger_def read_one_def fun_eq_iff d)
  have w: "lw_holder w' = Some i" "lw_phase w' = (lw_phase w)(i := Emptied (dset d (sc_replica ?c) ?v) ?v)"
      "lw_counters w' = (lw_counters w)[i := ?c\<lparr>sc_value := ?v\<rparr>]" "lw_issued w' = lw_issued w" "sf_writable (lw_file w')"
    using Loaded holder parts(1) unfolding w'_def [symmetric] by (simp_all add: Let_def)
  have "0 \<le> sc_value ?c"
    using parts(4) holder(2) by simp
  then have above: "0 < ?v" "ledger w (sc_replica ?c) < ?v"
    by (auto simp: next_value_def before)
  have after: "ledger w' = (ledger w)(sc_replica ?c := ?v)"
    by (rule ext) (simp add: ledger_def [of w'] w(1,2) before dget_or_def)
  have given: "given_to r w' = given_to r w" for r
    by (simp add: given_to_def w(4))
  have below: "n < ?v" if "n \<in> set (given_to (sc_replica ?c) w)" for n
    using parts(7) [OF that] above(2) by simp
  have base: "read_one f0 (sc_replica ?c) < ?v"
    using parts(6) [of "sc_replica ?c"] above(2) by simp
  show ?thesis
    unfolding w'_def
  proof (rule holder_step [OF assms holder])
    show "\<forall>c \<in> set (lw_counters w'). 0 \<le> sc_value c"
      using parts(4) above(1) unfolding w(3) by (auto dest!: in_set_update)
    show "phase_ok f0 w' i"
      using holder(2) above below base by (simp add: phase_ok_def w about_to_give_def after given Let_def)
    show "\<forall>r. sorted_wrt (<) (given_to r w') \<and> ledger w r \<le> ledger w' r \<and>
        (\<forall>n \<in> set (given_to r w'). 0 < n \<and> read_one f0 r < n \<and> n \<le> ledger w' r)"
      using parts(5,7) above(2) below by (auto simp: given after less_imp_le)
  qed (use w in simp_all)
qed (use assms in simp_all)

lemma store_inv:
  assumes "lock_inv f0 w"
  shows "lock_inv f0 (lock_step flock torn (Store i) w)"
proof (cases "lw_phase w i")
  case (Emptied d v)
  obtain w' where w'_def: "lock_step flock torn (Store i) w = w'"
    by blast
  have holder: "lw_holder w = Some i" "i < length (lw_counters w)" and v: "about_to_give w i v"
      "read_one f0 (sc_replica (lw_counters w ! i)) < v"
    using lock_inv_parts(2,3) [OF assms, of i] Emptied by (simp_all add: phase_ok_def)
  note parts = lock_inv_parts [OF assms]
  have w: "lw_phase w' = (lw_phase w)(i := Stored v)" "lw_holder w' = Some i" "lw_counters w' = lw_counters w"
      "lw_issued w' = lw_issued w" "read_all (lw_file w') = d" "sf_writable (lw_file w')"
    using Emptied holder read_write [OF parts(1)] unfolding w'_def [symmetric] by simp_all
  have same: "ledger w' = ledger w"
    using Emptied holder by (simp add: ledger_def fun_eq_iff w read_one_def)
  have given: "given_to r w' = given_to r w" for r
    by (simp add: given_to_def w)
  have "about_to_give w' i v"
    using v(1) by (simp add: about_to_give_def same given w)
  then show ?thesis
    unfolding w'_def using parts(4,5,7) v(2)
    by (intro holder_step [OF assms holder]) (simp_all add: phase_ok_def w same given)
qed (use assms in simp_all)

lemma leave_inv:
  assumes "lock_inv f0 w"
  shows "lock_inv f0 (lock_step flock torn (Leave i) w)"
proof (cases "lw_phase w i")
  case (Stored v)
  let ?c = "lw_counters w ! i"
  obtain w' where w'_def: "lock_step flock torn (Leave i) w = w'"
    by blast
  have holder: "lw_holder w = Some i" "i < length (lw_counters w)" and v: "about_to_give w i v"
      "read_one f0 (sc_replica ?c) < v"
    using lock_inv_parts(2,3) [OF assms, of i] Stored by (simp_all add: phase_ok_def)
  note parts = lock_inv_parts [OF assms]
  have w: "lw_phase w' = (lw_phase w)(i := Outside)" "lw_holder w' = None" "lw_file w' = lw_file w"
      "lw_counters w' = lw_counters w" "lw_issued w' = lw_issued w @ [(sc_replica ?c, v)]"
    using Stored holder unfolding w'_def [symmetric] by simp_all
  have same: "ledger w' = ledger w"
    using Stored holder by (simp add: ledger_def fun_eq_iff w)
  have given: "given_to r w' = given_to r w @ (if r = sc_replica ?c then [v] else [])" for r
    by (simp add: given_to_def w)
  have below: "v = ledger w (sc_replica ?c)" "0 < v" "n \<in> set (given_to (sc_replica ?c) w) \<Longrightarrow> n < v" for n
    using v(1) by (auto simp: about_to_give_def Let_def)
  have "sorted_wrt (<) (given_to r w')" "\<forall>n \<in> set (given_to r w'). 0 < n \<and> read_one f0 r < n \<and> n \<le> ledger w' r" for r
    using parts(5) [of r] parts(7) [of _ r] below v(2) by (auto simp: given same sorted_wrt_append)
  then show ?thesis
    unfolding w'_def using parts
    by (intro holder_step [OF assms holder]) (simp_all add: phase_ok_def w same)
qed (use assms in simp_all)

lemma kill_inv:
  assumes "lock_inv f0 w"
  shows "lock_inv f0 (lock_step flock False (Kill i) w)"
proof (cases "i < length (lw_counters w) \<and> (\<forall>d v. lw_phase w i \<noteq> Emptied d v)")
  case True
  let ?w = "w\<lparr>lw_phase := (lw_phase w)(i := Gone), lw_holder := (if lw_holder w = Some i then None else lw_holder w)\<rparr>"
  note parts = lock_inv_parts [OF assms]
  have given: "given_to r (w\<lparr>lw_phase := p, lw_holder := h\<rparr>) = given_to r w" for r p h
    by (simp add: given_to_def)
  have "lock_inv f0 ?w"
  proof (cases "lw_holder w = Some i")
    case holder: True
    have "ledger ?w = ledger w"
      using True holder by (auto simp: ledger_def fun_eq_iff split: call_phase.splits)
    then show ?thesis
      using parts True holder by (intro holder_step [OF assms holder]) (simp_all add: given phase_ok_def)
  next
    case False
    have "ledger ?w = ledger w"
      using False by (auto simp: ledger_def fun_eq_iff split: option.splits call_phase.splits)
    moreover have "phase_ok f0 ?w j" for j
      using parts(2) [of j] False calculation
      by (cases "j = i"; cases "lw_phase w j") (simp_all add: phase_ok_def about_to_give_def given)
    ultimately show ?thesis
      using assms True False unfolding lock_inv_def given by auto
  qed
  then show ?thesis
    using True by simp
qed (use assms in auto)

lemma lock_step_inv: "lock_inv f0 w \<Longrightarrow> lock_inv f0 (lock_step True False e w)"
  by (cases e) (simp_all only: construct_inv enter_inv load_inv empty_inv store_inv leave_inv kill_inv)

lemma lock_run_inv: "lock_inv f0 w \<Longrightarrow> lock_inv f0 (fold (lock_step True False) es w)"
  by (induction es arbitrary: w) (simp_all add: lock_step_inv del: lock_step.simps)

section \<open>Properties\<close>

text \<open>C17: No two envelopes of a replica carry the same number, statement by statement: however the
  statements of the calls of any counters on one state file interleave, and wherever processes
  end outside of the write, the numbers handed out for a replica id strictly increase in the
  order they are handed out, are positive, and exceed the number the file held at the start.\<close>

theorem locked_numbers_increase:
  "sorted_wrt (<) (given_to r (fold (lock_step True False) es (lock_start data))) \<and>
   (\<forall>n \<in> set (given_to r (fold (lock_step True False) es (lock_start data))).
      0 < n \<and> read_one \<lparr>sf_data = data, sf_writable = True\<rparr> r < n)"
  using lock_run_inv [OF lock_inv_start, of data es] by (auto simp: lock_inv_def lock_start_def)

lemmas lock_simps = lock_start_def given_to_def new_counter_def next_value_def read_one_def read_all_def write_all_def
  Let_def dset_def dget_or_def dget_def strip_r

theorem locked_numbers_increase_witness:
  "given_to ''r'' (fold (lock_step True False)
     [Construct ''r'' 0, Construct ''r'' 0, Enter 0, Load 0, Enter 1, Load 1, Empty 0, Construct ''r'' 0, Store 0, Leave 0,
      Enter 2, Enter 1, Load 2, Load 1, Empty 2, Store 2, Kill 2, Enter 1, Load 1, Empty 1, Store 1, Leave 1]
     (lock_start (Some (PDict [(''r'', PInt 3)])))) = [4, 6] \<and> sorted_wrt (<) [4, 6 :: int]"
proof -
  let ?es = "[Construct ''r'' 0, Construct ''r'' 0, Enter 0, Load 0, Enter 1, Load 1, Empty 0, Construct ''r'' 0, Store 0, Leave 0,
      Enter 2, Enter 1, Load 2, Load 1, Empty 2, Store 2, Kill 2, Enter 1, Load 1, Empty 1, Store 1, Leave 1]"
  have run: "given_to ''r'' (fold (lock_step True False) ?es (lock_start (Some (PDict [(''r'', PInt 3)])))) = [4, 6]"
    by (simp add: lock_simps)
  then show ?thesis
    using locked_numbers_increase [of "''r''" ?es "Some (PDict [(''r'', PInt 3)])"] unfolding run by blast
qed

text \<open>Without the lock two processes hand out the same number; and a process that ends after it has
  opened the state file leaves it empty, so that the next one starts again at 1.\<close>

lemma unlocked_repeats:
  "given_to ''r'' (fold (lock_step False False)
     [Construct ''r'' 0, Construct ''r'' 0, Enter 0, Enter 1, Load 0, Load 1, Empty 0, Store 0, Leave 0, Empty 1, Store 1, Leave 1]
     (lock_start None)) = [1, 1]"
  by (simp add: lock_simps)

lemma torn_write_repeats:
  "given_to ''r'' (fold (lock_step True True)
     [Construct ''r'' 0, Enter 0, Load 0, Empty 0, Store 0, Leave 0, Enter 0, Load 0, Empty 0, Kill 0,
      Construct ''r'' 0, Enter 1, Load 1, Empty 1, Store 1, Leave 1]
     (lock_start None)) = [1, 1]"
  by (simp add: lock_simps)

end
