(* ===== verification/Gossip_Life.thy ===== *)
theory Gossip_Life
  imports Gossip_Node
begin

text \<open>
  The life of a gossip service and of its server (\<open>gossip/service.py\<close>, \<open>gossip/http_transport.py\<close>)
  when their coroutines interleave: \<open>start\<close> of the service waits for the answers of the known
  peers after it has set its flag, so a \<open>stop\<close> and another \<open>start\<close> can come in between.
\<close>

section \<open>The loop of the service\<close>

text \<open>
  The flag, the task the service knows, the tasks whose coroutine still runs, the calls of \<open>start\<close>
  that wait for \<open>discover_peers\<close>, and a supply of names of tasks.
\<close>

record gossip_service =
  gs_running :: bool
  gs_task :: "nat option"
  gs_alive :: "nat list"
  gs_starting :: nat
  gs_next :: nat

definition new_service :: "rat \<Rightarrow> exn + gossip_service" where
  "new_service interval_s =
     (if interval_s \<le> 0 then Inl ValueError
      else Inr \<lparr>gs_running = False, gs_task = None, gs_alive = [], gs_starting = 0, gs_next = 0\<rparr>)"

definition launch_loop :: "gossip_service \<Rightarrow> gossip_service" where
  "launch_loop s = s\<lparr>gs_task := Some (gs_next s), gs_alive := gs_alive s @ [gs_next s], gs_next := gs_next s + 1\<rparr>"

definition start_service :: "bool \<Rightarrow> gossip_service \<Rightarrow> gossip_service" where
  "start_service discovery s =
     (if gs_running s then s
      else let s = s\<lparr>gs_running := True\<rparr>
           in if discovery then s\<lparr>gs_starting := gs_starting s + 1\<rparr> else launch_loop s)"

text \<open>The rest of a \<open>start\<close>: the discovery has ended, or an exception has left it.\<close>

definition finish_start :: "bool \<Rightarrow> gossip_service \<Rightarrow> gossip_service" where
  "finish_start raised s =
     (if gs_starting s = 0 then s
      else let s = s\<lparr>gs_starting := gs_starting s - 1\<rparr> in if raised then s else launch_loop s)"

definition stop_service :: "gossip_service \<Rightarrow> gossip_service" where
  "stop_service s =
     (let s = s\<lparr>gs_running := False\<rparr>
      in case gs_task s of
           None \<Rightarrow> s
         | Some t \<Rightarrow> s\<lparr>gs_alive := removeAll t (gs_alive s), gs_task := None\<rparr>)"

text \<open>A loop reads the flag; the round it makes then lets no exception out.\<close>

definition run_forever_turn :: "nat \<Rightarrow> gossip_service \<Rightarrow> gossip_service" where
  "run_forever_turn t s = (if gs_running s then s else s\<lparr>gs_alive := removeAll t (gs_alive s)\<rparr>)"

datatype service_event = StartService | FinishStart bool | StopService | LoopTurn nat

fun service_step :: "bool \<Rightarrow> service_event \<Rightarrow> gossip_service \<Rightarrow> gossip_service" where
  "service_step discovery StartService s = start_service discovery s"
| "service_step discovery (FinishStart raised) s = finish_start raised s"
| "service_step discovery StopService s = stop_service s"
| "service_step discovery (LoopTurn t) s = run_forever_turn t s"

definition service_run :: "bool \<Rightarrow> rat \<Rightarrow> service_event list \<Rightarrow> exn + gossip_service" where
  "service_run discovery interval_s es = map_sum id (fold (service_step discovery) es) (new_service interval_s)"

text \<open>Without discovery a service has one loop while it runs and none after \<open>stop\<close>.\<close>

definition one_loop :: "gossip_service \<Rightarrow> bool" where
  "one_loop s \<longleftrightarrow> gs_starting s = 0 \<and> gs_alive s = (case gs_task s of None \<Rightarrow> [] | Some t \<Rightarrow> [t]) \<and>
     (gs_running s \<longleftrightarrow> gs_task s \<noteq> None)"

lemma one_loop_step: "one_loop s \<Longrightarrow> one_loop (service_step False e s)"
  by (cases e) (auto simp: one_loop_def start_service_def launch_loop_def finish_start_def stop_service_def run_forever_turn_def
      Let_def split: option.splits)

lemma one_loop_run: "one_loop s \<Longrightarrow> one_loop (fold (service_step False) es s)"
  by (induction es arbitrary: s) (simp_all add: one_loop_step)

lemma service_has_one_loop: "service_run False interval_s es = Inr s \<Longrightarrow> one_loop s"
  using one_loop_run [of "\<lparr>gs_running = False, gs_task = None, gs_alive = [], gs_starting = 0, gs_next = 0\<rparr>" es]
  by (auto simp: service_run_def new_service_def one_loop_def split: if_splits)

text \<open>
  With discovery every loop that the service has lost still reads the flag, so once it is stopped
  and no start is under way, one turn of each ends them all.
\<close>

lemma stopped_turns_end:
  "\<not> gs_running s \<Longrightarrow> set (gs_alive s) \<subseteq> set ts \<Longrightarrow> gs_alive (fold run_forever_turn ts s) = []"
proof (induction ts arbitrary: s)
  case (Cons t ts)
  then have "\<not> gs_running (run_forever_turn t s)" "set (gs_alive (run_forever_turn t s)) \<subseteq> set ts"
    by (auto simp: run_forever_turn_def)
  then show ?case
    using Cons.IH by simp
qed simp

text \<open>A \<open>stop\<close> and a \<open>start\<close> while the first \<open>start\<close> waits leave two loops for good, and \<open>stop\<close> cancels
  only the one the service knows.\<close>

lemma two_loops:
  "\<exists>s. service_run True 5 [StartService, StopService, StartService, FinishStart False, FinishStart False, LoopTurn 0, LoopTurn 1] = Inr s \<and>
     gs_alive s = [0, 1] \<and> gs_alive (stop_service s) = [0]"
  by (simp add: service_run_def new_service_def start_service_def stop_service_def finish_start_def launch_loop_def
      run_forever_turn_def Let_def)

text \<open>An exception that is no \<open>PeerDiscoveryError\<close> leaves the first \<open>start\<close>; the flag stays set, and
  further starts do nothing.\<close>

lemma raised_start_never_loops:
  "\<exists>s. service_run True 5 ([StartService, FinishStart True] @ replicate n StartService) = Inr s \<and> gs_alive s = [] \<and> gs_running s"
proof -
  have "fold (service_step True) (replicate n StartService) s = s" if "gs_running s" for s
    using that by (induction n) (simp_all add: start_service_def)
  then show ?thesis
    by (simp add: service_run_def new_service_def start_service_def finish_start_def Let_def)
qed

text \<open>One such exception: a known peer that answers with a text that is not JSON.\<close>

lemma start_raised_by_reply: "http_fetch_peers to_str (Replied 200 NotJson) = Inl ValueError"
  by (simp add: http_fetch_peers_def)

section \<open>The server\<close>

text \<open>
  The runner and the site the server knows, and the runners that are set up and not cleaned up.
  What the calls of \<open>aiohttp\<close> raise is an argument.
\<close>

record gossip_server =
  sv_running :: bool
  sv_runner :: "nat option"
  sv_site :: "nat option"
  sv_open :: "nat list"
  sv_next :: nat

definition new_server :: gossip_server where
  "new_server = \<lparr>sv_running = False, sv_runner = None, sv_site = None, sv_open = [], sv_next = 0\<rparr>"

definition start_server :: "exn option \<Rightarrow> exn option \<Rightarrow> (gossip_server, unit) sx" where
  "start_server prepared bound s =
     (if sv_running s then (Inr (), s)
      else
        let n = sv_next s;
            s = s\<lparr>sv_runner := Some n, sv_next := n + 1\<rparr>
        in case prepared of
             Some e \<Rightarrow> (Inl e, s)
           | None \<Rightarrow>
               let s = s\<lparr>sv_open := sv_open s @ [n], sv_site := Some n\<rparr>
               in case bound of Some e \<Rightarrow> (Inl e, s) | None \<Rightarrow> (Inr (), s\<lparr>sv_running := True\<rparr>))"

definition stop_server :: "exn option \<Rightarrow> exn option \<Rightarrow> (gossip_server, unit) sx" where
  "stop_server site_stop cleanup s =
     (if \<not> sv_running s \<and> sv_runner s = None then (Inr (), s)
      else
        bindM (modM (\<lambda>s. s\<lparr>sv_running := False\<rparr>)) (\<lambda>_.
        bindM (\<lambda>s. case sv_site s of
                    None \<Rightarrow> (Inr (), s)
                  | Some _ \<Rightarrow> (case site_stop of Some e \<Rightarrow> (Inl e, s) | None \<Rightarrow> (Inr (), s\<lparr>sv_site := None\<rparr>))) (\<lambda>_.
        \<lambda>s. case sv_runner s of
                None \<Rightarrow> (Inr (), s)
              | Some n \<Rightarrow>
                  (case cleanup of
                     Some e \<Rightarrow> (Inl e, s)
                   | None \<Rightarrow> (Inr (), s\<lparr>sv_runner := None, sv_open := removeAll n (sv_open s)\<rparr>)))) s)"

definition handle_health :: "string \<Rightarrow> gossip_server \<Rightarrow> (string, pyval) dict" where
  "handle_health rid s =
     [(''status'', PStr (if sv_running s then ''ok'' else ''stopped'')), (''replica_id'', PStr rid)]"

text \<open>Whatever a start comes to, a \<open>stop\<close> whose calls do not raise releases what it has set up.\<close>

definition server_ok :: "gossip_server \<Rightarrow> bool" where
  "server_ok s \<longleftrightarrow> set (sv_open s) \<subseteq> (case sv_runner s of None \<Rightarrow> {} | Some n \<Rightarrow> {n}) \<and> (sv_running s \<longrightarrow> sv_runner s \<noteq> None)"

lemma server_start_ok: "server_ok s \<Longrightarrow> sv_runner s = None \<or> sv_running s \<Longrightarrow> server_ok (snd (start_server prepared bound s))"
  by (cases prepared; cases bound) (auto simp: start_server_def server_ok_def Let_def)

lemma server_stop_releases:
  "server_ok s \<Longrightarrow> fst (stop_server None None s) = Inr () \<and> sv_open (snd (stop_server None None s)) = [] \<and>
   \<not> sv_running (snd (stop_server None None s))"
  by (cases "sv_site s"; cases "sv_runner s"; cases "sv_open s")
    (auto simp: stop_server_def server_ok_def bindM_def modM_def removeAll_filter_not_eq filter_empty_conv)

text \<open>A start that fails to listen and is tried again forgets the runner it had set up.\<close>

lemma retried_start_leaks:
  "sv_open (snd (stop_server None None (snd (start_server None None (snd (start_server None (Some OtherException) new_server)))))) = [0]"
  by (simp add: start_server_def stop_server_def new_server_def bindM_def modM_def Let_def)

end
