(* ===== verification/Facilities.thy ===== *)
theory Facilities
  imports Runtime Gossip_Adapter
begin

text \<open>
  Small parts beside the runtime: the rest of the operation registry
  (\<open>operations/operation_registry.py\<close>) and of the session manager (\<open>session/session_manager.py\<close>), the
  metrics (\<open>metrics/collector.py\<close>), the retries of an embedding client (\<open>embedding/client.py\<close>), and
  the locks of the gossip adapter (\<open>gossip/adapter.py\<close>).
\<close>

section \<open>Registry and session manager\<close>

text \<open>\<open>register_many\<close> stops at the first class that is refused; those before it stay.\<close>

fun register_many :: "string list \<Rightarrow> ('st rt, unit) sx" where
  "register_many [] = retM ()"
| "register_many (i # is) = bindM (register_operation i) (\<lambda>_. register_many is)"

definition registry_clear :: "'st rt \<Rightarrow> 'st rt" where
  "registry_clear rt = rt\<lparr>registry := []\<rparr>"

definition registry_has :: "string \<Rightarrow> 'st rt \<Rightarrow> bool" where
  "registry_has i rt \<longleftrightarrow> i \<in> set (registry rt)"

definition registry_ids :: "'st rt \<Rightarrow> string list" where
  "registry_ids rt = registry rt"

lemma register_many_all:
  "distinct (registry rt @ is) \<Longrightarrow> [] \<notin> set is \<Longrightarrow> register_many is rt = (Inr (), rt\<lparr>registry := registry rt @ is\<rparr>)"
  by (induction "is" arbitrary: rt) (auto simp: retM_def bindM_def register_operation_def)

lemma register_many_prefix:
  "register_many is rt = (r, rt') \<Longrightarrow> \<exists>js. registry_ids rt' = registry_ids rt @ js \<and> (r = Inr () \<longrightarrow> js = is)"
proof (induction "is" arbitrary: rt)
  case (Cons i "is")
  then show ?case
    by (cases "i = [] \<or> i \<in> set (registry rt)")
      (auto simp: bindM_def register_operation_def registry_ids_def dest!: Cons.IH)
qed (simp add: retM_def registry_ids_def)

definition manager_has_session :: "string \<Rightarrow> 'st rt \<Rightarrow> bool" where
  "manager_has_session sid rt \<longleftrightarrow> dhas (session_table rt) sid"

definition session_count :: "'st rt \<Rightarrow> nat" where
  "session_count rt = length (session_table rt)"

lemma register_counts:
  "session_count (snd (register_session s rt)) =
     (if manager_has_session (session_id s) rt then session_count rt else session_count rt + 1)"
proof -
  have "length (dset d k v) = (if dhas d k then length d else length d + 1)" for d :: "(string, nat) dict" and k v
    by (induction d) (auto simp: dset_def dhas_def dget_def)
  then show ?thesis
    by (simp add: register_session_def session_count_def manager_has_session_def)
qed

section \<open>Metrics\<close>

record metric_store =
  m_counts :: "(string, nat) dict"
  m_total_time_ms :: "(string, rat) dict"

definition no_metrics :: metric_store where
  "no_metrics = \<lparr>m_counts = [], m_total_time_ms = []\<rparr>"

definition record_metric :: "string \<Rightarrow> rat \<Rightarrow> metric_store \<Rightarrow> metric_store" where
  "record_metric i duration_ms m =
     m\<lparr>m_counts := dset (m_counts m) i (dget_or (m_counts m) i 0 + 1),
       m_total_time_ms := dset (m_total_time_ms m) i (dget_or (m_total_time_ms m) i 0 + duration_ms)\<rparr>"

text \<open>\<open>round(x, 2)\<close>: the nearest, and the even one of two.\<close>

definition py_round2 :: "rat \<Rightarrow> rat" where
  "py_round2 x =
     (let y = x * 100; n = \<lfloor>y\<rfloor>; d = y - of_int n
      in of_int (if d < 1 / 2 then n else if 1 / 2 < d then n + 1 else if even n then n else n + 1) / 100)"

definition metrics_snapshot :: "metric_store \<Rightarrow> (string, nat \<times> rat \<times> rat) dict" where
  "metrics_snapshot m =
     map (\<lambda>(i, n). (i, n, py_round2 (dget_or (m_total_time_ms m) i 0),
       py_round2 (dget_or (m_total_time_ms m) i 0 / of_nat (dget_or (m_counts m) i 1)))) (m_counts m)"

definition recorded_metrics :: "(string \<times> rat) list \<Rightarrow> metric_store" where
  "recorded_metrics xs = fold (\<lambda>(i, t). record_metric i t) xs no_metrics"

lemma recorded_snoc: "recorded_metrics (xs @ [(i, t)]) = record_metric i t (recorded_metrics xs)"
  by (simp add: recorded_metrics_def)

lemma metrics_count:
  "dget (m_counts (recorded_metrics xs)) i =
     (case filter (\<lambda>(j, _). j = i) xs of [] \<Rightarrow> None | ys \<Rightarrow> Some (length ys))"
proof (induction xs rule: rev_induct)
  case (snoc x xs)
  then show ?case
    by (cases x) (auto simp: recorded_snoc record_metric_def dget_or_def split: list.splits)
qed (simp add: recorded_metrics_def no_metrics_def)

lemma metrics_total:
  "dget_or (m_total_time_ms (recorded_metrics xs)) i 0 = sum_list (map snd (filter (\<lambda>(j, _). j = i) xs))"
proof (induction xs rule: rev_induct)
  case (snoc x xs)
  then show ?case
    by (cases x) (auto simp: recorded_snoc record_metric_def dget_or_def)
qed (simp add: recorded_metrics_def no_metrics_def dget_or_def)

section \<open>Retries of an embedding client\<close>

text \<open>What a request raises: a timeout, a failed connection, an HTTP error with the status when there
  is a response, or anything else.\<close>

datatype hf_error = HfTimeout | HfConnection | HfStatus "nat option" | HfOther

definition is_retryable_hf_error :: "hf_error \<Rightarrow> bool" where
  "is_retryable_hf_error e =
     (case e of
        HfTimeout \<Rightarrow> True
      | HfConnection \<Rightarrow> True
      | HfStatus (Some n) \<Rightarrow> n = 429 \<or> 500 \<le> n \<and> n < 600
      | _ \<Rightarrow> False)"

definition HF_MAX_RETRIES :: nat where
  "HF_MAX_RETRIES = 3"

text \<open>The attempts from \<open>attempt\<close> on, with the pauses in seconds; \<open>left\<close> of them are left.  The last
  attempt returns or raises, so the first equation is not reached.\<close>

fun hf_attempts :: "('s \<Rightarrow> (hf_error + 'a) \<times> 's) \<Rightarrow> nat \<Rightarrow> nat \<Rightarrow> 's \<Rightarrow> (hf_error + 'a) \<times> 's \<times> nat list" where
  "hf_attempts fn attempt 0 s = (Inl HfOther, s, [])"
| "hf_attempts fn attempt (Suc left) s =
     (case fn s of
        (Inr x, s') \<Rightarrow> (Inr x, s', [])
      | (Inl e, s') \<Rightarrow>
          if \<not> is_retryable_hf_error e \<or> HF_MAX_RETRIES - 1 \<le> attempt then (Inl e, s', [])
          else case hf_attempts fn (attempt + 1) left s' of (r, s'', ps) \<Rightarrow> (r, s'', 2 ^ attempt # ps))"

definition retry_on_transient_hf_error :: "('s \<Rightarrow> (hf_error + 'a) \<times> 's) \<Rightarrow> 's \<Rightarrow> (hf_error + 'a) \<times> 's \<times> nat list" where
  "retry_on_transient_hf_error fn = hf_attempts fn 0 HF_MAX_RETRIES"

text \<open>A client of given answers: the first answer that is no transient failure is the result, and after
  the third answer whatever it is.\<close>

fun answer_next :: "(hf_error + 'a) list \<Rightarrow> (hf_error + 'a) \<times> (hf_error + 'a) list" where
  "answer_next [] = (Inl HfOther, [])"
| "answer_next (a # as) = (a, as)"

lemma retry_outcome:
  "fst (retry_on_transient_hf_error answer_next [a, b, c]) =
     (if (\<exists>e. a = Inl e \<and> is_retryable_hf_error e)
      then (if (\<exists>e. b = Inl e \<and> is_retryable_hf_error e) then c else b)
      else a)"
  by (auto simp: retry_on_transient_hf_error_def HF_MAX_RETRIES_def numeral_3_eq_3 split: sum.splits prod.splits)

lemma retry_pauses:
  "is_retryable_hf_error e \<Longrightarrow> is_retryable_hf_error e' \<Longrightarrow>
   retry_on_transient_hf_error answer_next [Inl e, Inl e', c] = (c, [], [1, 2])"
  by (cases c) (simp_all add: retry_on_transient_hf_error_def HF_MAX_RETRIES_def numeral_3_eq_3)

section \<open>The locks of the gossip adapter\<close>

text \<open>One lock for each session, made when it is first asked for; locks are numbered.\<close>

record adapter_locks =
  session_locks :: "(string, nat) dict"
  next_lock :: nat

definition lock_for :: "string \<Rightarrow> adapter_locks \<Rightarrow> nat \<times> adapter_locks" where
  "lock_for sid ls =
     (case dget (session_locks ls) sid of
        Some l \<Rightarrow> (l, ls)
      | None \<Rightarrow> (next_lock ls, ls\<lparr>session_locks := dset (session_locks ls) sid (next_lock ls), next_lock := next_lock ls + 1\<rparr>))"

fun locks_for :: "string list \<Rightarrow> adapter_locks \<Rightarrow> nat list" where
  "locks_for [] ls = []"
| "locks_for (sid # sids) ls = (case lock_for sid ls of (l, ls') \<Rightarrow> l # locks_for sids ls')"

definition locks_ok :: "adapter_locks \<Rightarrow> bool" where
  "locks_ok ls \<longleftrightarrow> (\<forall>sid l. dget (session_locks ls) sid = Some l \<longrightarrow> l < next_lock ls) \<and>
     (\<forall>sid sid' l. dget (session_locks ls) sid = Some l \<longrightarrow> dget (session_locks ls) sid' = Some l \<longrightarrow> sid = sid')"

lemma lock_for_ok:
  assumes "locks_ok ls" and "lock_for sid ls = (l, ls')"
  shows "locks_ok ls' \<and> dget (session_locks ls') sid = Some l \<and>
    (\<forall>sid' l'. dget (session_locks ls) sid' = Some l' \<longrightarrow> dget (session_locks ls') sid' = Some l')"
  using assms by (auto simp: lock_for_def locks_ok_def less_Suc_eq split: option.splits if_splits) fastforce+

text \<open>Calls for one session get one lock, and calls for different sessions different ones.\<close>

lemma locks_for_table:
  "locks_ok ls \<Longrightarrow> \<exists>f. inj_on f (set sids \<union> set (dkeys (session_locks ls))) \<and> locks_for sids ls = map f sids \<and>
     (\<forall>sid l. dget (session_locks ls) sid = Some l \<longrightarrow> f sid = l)"
proof (induction sids arbitrary: ls)
  case Nil
  have "inj_on (\<lambda>sid. the (dget (session_locks ls) sid)) (set (dkeys (session_locks ls)))"
    using Nil unfolding locks_ok_def by (intro inj_onI) (metis dget_None_iff option.collapse)
  then show ?case
    by (intro exI [of _ "\<lambda>sid. the (dget (session_locks ls) sid)"]) simp
next
  case (Cons sid sids)
  obtain l ls' where l: "lock_for sid ls = (l, ls')"
    by fastforce
  note ok = lock_for_ok [OF Cons.prems l]
  obtain f where f: "inj_on f (set sids \<union> set (dkeys (session_locks ls')))" "locks_for sids ls' = map f sids"
      "\<forall>sid l. dget (session_locks ls') sid = Some l \<longrightarrow> f sid = l"
    using Cons.IH [of ls'] ok by blast
  have "set (dkeys (session_locks ls')) = insert sid (set (dkeys (session_locks ls)))"
    using l by (auto simp: lock_for_def dest: dget_Some_key split: option.splits)
  then have "set (sid # sids) \<union> set (dkeys (session_locks ls)) = set sids \<union> set (dkeys (session_locks ls'))"
    by auto
  then show ?case
    using f ok l by (intro exI [of _ f]) auto
qed

end
