(* ===== verification/Spec2Isabelle.thy ===== *)
theory Spec2Isabelle
  imports Gossip_Node Outbox_Worker Memory_Storage Graph_Registry Garbage_Collector Graph_Sweepers Core_Adapter
    Postgres_Races Postgres_Backend Sqlite_Schema Runtime_Lifecycle
    Result_Types Seq_Lock Gossip_Life Facilities
begin

text \<open>
  A development beside the CKS runtime (\<open>src/cks_runtime\<close>): a Python service that keeps
  knowledge structures in versioned sessions, runs operations on them in transactions, stores
  them, and reconciles them with the replicas of other processes by gossip.

  \<^bold>\<open>The program and its parts.\<close>
  A \<open>Runtime\<close> (\<open>runtime.py\<close>) holds sessions (\<open>session/\<close>), each with a knowledge structure and a
  history of versions (\<open>versioning/\<close>) that are snapshots or patches.  A transaction
  (\<open>transaction/\<close>) collects operations (\<open>operations/\<close>); committing it
  (\<open>pipeline/execution_pipeline.py\<close>) executes them (\<open>execution/\<close>, \<open>dispatcher/\<close>) against the
  semantic core, a plug-in behind \<open>core_api/\<close>, records a version, saves it to a storage
  (\<open>storage/\<close>) and publishes events (\<open>events/\<close>).  A projection turns events into tasks of the
  storage's outbox, and a worker (\<open>projection/\<close>) keeps an embedding index.  Next to the sessions
  stands a CRDT object store (\<open>crdt/\<close>): a grow-only set with a Merkle tree, a multi-value
  pointer register and a fork log, behind a quarantine.  Gossip (\<open>gossip/\<close>) sends signed
  snapshots of sessions, filters replays, and applies what arrives to store and sessions.

  \<^bold>\<open>Theories.\<close>
    \<^item> \<open>Prelude\<close>: dictionaries as insertion-ordered association lists, JSON-like values,
      exceptions, state-and-exception functions; \<open>Knowledge\<close>: objects, structures and what is
      used of the package \<open>cks\<close>; \<open>Json_Text\<close>: \<open>json.dumps\<close> and \<open>int\<close> of the standard library;
      \<open>Sha256\<close>: SHA-256 and HMAC on 32-bit words, checked on published test vectors.
    \<^item> \<open>Version_Vector\<close>, \<open>Causality\<close>: both vector classes and the causal comparison.
    \<^item> \<open>Core_Bridge\<close>: the plug-in boundary, diagnostics; \<open>Session\<close>: versions, sessions,
      reconstruction (\<open>get_version_state\<close>), creation (\<open>VersionManager.create\<close>); \<open>Patch_Codec\<close>:
      the JSON of patches.
    \<^item> \<open>Session_Store\<close>: the contract of a guarded save; \<open>Sqlite_Storage\<close>, \<open>Memory_Storage\<close>: the
      backends; \<open>Outbox\<close>: the task table; \<open>Graph_Registry\<close>: named graphs on both backends.
    \<^item> \<open>Postgres_Schema\<close>: the schema script and what it leaves; \<open>Postgres_Outbox\<close>: the task
      table with row locks, retries; \<open>Postgres_Storage\<close>: the operations of the PostgreSQL backend;
      \<open>Postgres_Races\<close>: interleaved statements of several processes; \<open>Postgres_Backend\<close>: what the
      backend has in common with SQLite, its join, export and archive.
    \<^item> \<open>Events\<close>: the bus; \<open>Runtime_State\<close>: the state of a runtime, with sessions and
      transactions behind references because they are shared and mutated; \<open>Operations\<close>: every
      \<open>execute\<close>, the executor, the registry and the dispatcher; \<open>Pipeline\<close>: the transaction
      manager, commit, rollback, abort; \<open>Result_Types\<close>: the payload of each class of
      operation; \<open>Commit\<close>: what they guarantee; \<open>Runtime\<close>: the calls of
      the facade as one step function.
    \<^item> \<open>Sqlite_Schema\<close>: the tables of SQLite, the upgrade of older databases, statement by
      statement with what each commits; \<open>Storage_Interface\<close>: the interfaces of \<open>storage.py\<close> and
      \<open>async_storage.py\<close> as a record of operations, their defaults, the adapter, and the three
      backends as instances.
    \<^item> \<open>Outbox_Worker\<close>: the embedding worker on the SQLite backend.
    \<^item> \<open>Background\<close>: the start, stop and turn of a background loop; \<open>Agents\<close>: the seven
      sweepers as a runtime runs them over any storage; \<open>Runtime_Lifecycle\<close>: configuration, choice
      of the storage, construction, \<open>create\<close>, statuses and \<open>aclose\<close>.
    \<^item> \<open>Sweep\<close>: the watermark, the growing query and the record of a run that the sweepers of
      \<open>reasoning/\<close> share; \<open>Session_Sweepers\<close>: the four sweepers over recently modified
      sessions; \<open>Garbage_Collector\<close>: the eviction of old closed sessions (\<open>gc/\<close>);
      \<open>Graph_Sweepers\<close>: the three sweepers over registered graphs.
    \<^item> \<open>Ip_Address\<close>, \<open>Url\<close>, \<open>Safe_Fetch\<close>: the fetch that refuses private addresses (\<open>net/\<close>), with
      what it uses of \<open>ipaddress\<close> and \<open>urllib.parse\<close>; \<open>Py_Text\<close>: methods of \<open>str\<close>.
    \<^item> \<open>Core_Adapter\<close>: the plug-in over the package \<open>cks\<close> (\<open>adapters/cks_core.py\<close>).
    \<^item> \<open>Merkle_Tree\<close>, \<open>Crdt_Store\<close>, \<open>Quarantine\<close>: the CRDT layer on its three backends.
    \<^item> \<open>Gossip_Filter\<close>, \<open>Seq_No\<close>, \<open>Peer_Scheduler\<close>: replay checks, persisted counters, choice
      of peers; \<open>Seq_Lock\<close>: the counters of several processes, statement by statement under
      the file lock; \<open>Envelope\<close>: signed snapshots; \<open>Gossip_Adapter\<close>: \<open>apply_remote_session\<close>,
      \<open>Gossip_Outcomes\<close>: what it can do to a session; \<open>Gossip_Node\<close>: exchanges, the handlers of
      the HTTP server and the rounds of the service; \<open>Gossip_Life\<close>: start and stop of service and server
      where they interleave.
    \<^item> \<open>Facilities\<close>: metrics, the retries of the embedding client, the locks of the gossip
      adapter, the rest of the registries.

  \<^bold>\<open>Correspondence.\<close>
  Definitions carry the names of the functions they translate.  An \<open>async\<close> method is one
  transition unless a property is about its interleaving, in which case the transitions are
  the statements between which other calls can run (the guarded save, the outbox claim and the
  replica identity on PostgreSQL, the counter over its file).  A method that raises returns \<open>Inl\<close> of the exception together with
  the state it leaves behind; its type is \<open>sx\<close>.  Times, random identifiers, peers' answers and
  the third-party package are arguments.  Integers of Python are \<open>int\<close> or \<open>nat\<close>; the words of
  SHA-256 are \<open>32 word\<close>.  Finite keys of a database table are kept in insertion order, which is
  the row order the queries return.

  \<^bold>\<open>Interfaces.\<close>
  \<open>session_store\<close> (guarded saves: no lost update), interpreted on SQLite, PostgreSQL and in
  memory; \<open>sweeper_switch\<close>, \<open>sweeper_control\<close> and \<open>runtime_store\<close> (what a runtime relies on:
  switches that answer, switches that are kept, a replica identity that stays), interpreted on
  the backends as instances of the storage interface;
  \<open>gset_store\<close>, \<open>mv_store\<close> and \<open>fork_log\<close> (object set, pointer register, fork log),
  interpreted on the stores; \<open>id_digest\<close> (Merkle digest of a set of ids), on both trees;
  \<open>vector_join\<close> (a join of clocks), on both vector classes; \<open>edge_triggered\<close> (a visit reports
  what is found and not remembered), on the visits of the sweepers.

  \<^bold>\<open>What the properties show.\<close>
  History: every recorded state is reconstructed, patches are read back as written, commits
  reload from SQLite, an export restores.  Transactions: a completed commit did what its
  operations say, a failed one undid it, a result has the type of its operation, and the tables of
  the manager and the sessions agree in every reachable state.  Stores: guarded saves lose no
  update, backends agree, replicas converge, equal roots mean equal sets.  Gossip: numbers
  increase over processes and restarts and are accepted once, an envelope's signature covers its content, a
  remote snapshot changes a session only by a justified path, a server applies what is signed
  and new.  Outbox: one holder per task, oldest first, embeddings follow versions.  Background:
  a finding is escalated once, the collector evicts old closed sessions only,
  a fetch connects to public addresses only.  Life of a runtime: a database of an older version
  is upgraded without loss, a restart resumes identity, sessions and switches, and closing ends
  every loop.  Several
  properties state how the code departs from what its comments promise; they are the
  \<open>findings\<close> of the manifest.

  \<^bold>\<open>Bounds.\<close>
  Recursion is structural or has a proved measure (the descent of the Merkle tree is bounded
  by the length of an id, the retry loop by its five attempts), so no fuel is used.  The
  growing query of a sweep may run forever and is a partial function with values in \<open>option\<close>;
  \<open>sweep_returns\<close> says when it returns.

  \<^bold>\<open>Not modelled, and why.\<close>
  Connection handling, sockets and log lines are input and output; of the scheduling of
  background tasks there is the order of the turns, not their timing.  The requests of
  the embedding client and its floating-point vectors belong to external packages, and the
  gossip secret is read from the environment or a file.
\<close>

end
